(* ===== verification/Prelude.thy ===== *)
theory Prelude
  imports Complex_Main "HOL-Library.AList" "HOL-Library.Product_Lexorder" "HOL-Library.Multiset"
    "HOL-Library.Sublist"
begin

text \<open>
  Shared vocabulary of the development.

  The validator is a Python program.  This theory fixes how its run-time notions appear in the
  model: exceptions (a sum whose left injection is the exception), methods that mutate an object
  and may raise half way (the state-and-exception functions \<open>('s, 'e, 'a) meth\<close>), floats (finite
  ones as reals, the three non-finite ones as constructors), dictionaries (association lists in
  insertion order) and slices.  The rules at the end are used by the component proofs.
\<close>

section \<open>Exceptions and methods\<close>

text \<open>The exceptions the modelled code raises; the payload is the message where one is fixed.\<close>

datatype py_error =
    ValueError string
  | TypeError string
  | RuntimeError string
  | IndexError

type_synonym 'a result = "py_error + 'a"

text \<open>A method call: it leaves the object in some state whether it returns or raises.\<close>

type_synonym ('s, 'e, 'a) meth = "'s \<Rightarrow> ('e + 'a) \<times> 's"

definition return :: "'a \<Rightarrow> ('s, 'e, 'a) meth" where
  "return a = (\<lambda>s. (Inr a, s))"

definition raise :: "'e \<Rightarrow> ('s, 'e, 'a) meth" where
  "raise e = (\<lambda>s. (Inl e, s))"

definition andthen :: "('s, 'e, 'a) meth \<Rightarrow> ('a \<Rightarrow> ('s, 'e, 'b) meth) \<Rightarrow> ('s, 'e, 'b) meth" where
  "andthen m k = (\<lambda>s. case m s of (Inl e, s') \<Rightarrow> (Inl e, s') | (Inr a, s') \<Rightarrow> k a s')"

definition modify :: "('s \<Rightarrow> 's) \<Rightarrow> ('s, 'e, unit) meth" where
  "modify f = (\<lambda>s. (Inr (), f s))"

text \<open>A \<open>for\<close> loop over a method body: the first exception ends it.\<close>

fun foreach :: "('a \<Rightarrow> ('s, 'e, unit) meth) \<Rightarrow> 'a list \<Rightarrow> ('s, 'e, unit) meth" where
  "foreach body [] = return ()"
| "foreach body (x # xs) = andthen (body x) (\<lambda>_. foreach body xs)"

text \<open>Sequencing of plain results (validation code that builds a value or raises).\<close>

fun rbind :: "'e + 'a \<Rightarrow> ('a \<Rightarrow> 'e + 'b) \<Rightarrow> 'e + 'b" where
  "rbind (Inl e) k = Inl e"
| "rbind (Inr a) k = k a"

fun rmap :: "('a \<Rightarrow> 'e + 'b) \<Rightarrow> 'a list \<Rightarrow> 'e + 'b list" where
  "rmap f [] = Inr []"
| "rmap f (x # xs) = rbind (f x) (\<lambda>y. rbind (rmap f xs) (\<lambda>ys. Inr (y # ys)))"

definition keeps :: "('s \<Rightarrow> bool) \<Rightarrow> ('s, 'e, 'a) meth \<Rightarrow> bool" where
  "keeps I m \<longleftrightarrow> (\<forall>s. I s \<longrightarrow> I (snd (m s)))"

section \<open>Numbers\<close>

text \<open>
  A float is a finite number or one of the three non-finite values.  Finite floats are modelled
  by the real number they denote and finite arithmetic is exact: rounding is not modelled.
\<close>

datatype pyfloat = Fin real | PInf | NInf | NaN

fun is_finite :: "pyfloat \<Rightarrow> bool" where
  "is_finite (Fin _) = True"
| "is_finite _ = False"

fun fin_val :: "pyfloat \<Rightarrow> real" where
  "fin_val (Fin x) = x"
| "fin_val _ = 0"

section \<open>Lists, slices and dictionaries\<close>

text \<open>\<open>xs[-n:]\<close> for positive \<open>n\<close>.\<close>

definition last_n :: "nat \<Rightarrow> 'a list \<Rightarrow> 'a list" where
  "last_n n xs = drop (length xs - n) xs"

type_synonym ('k, 'v) dict = "('k \<times> 'v) list"

abbreviation keys :: "('k, 'v) dict \<Rightarrow> 'k list" where
  "keys d \<equiv> map fst d"

text \<open>\<open>d.get(k, default)\<close>\<close>

definition dict_get :: "('k, 'v) dict \<Rightarrow> 'k \<Rightarrow> 'v \<Rightarrow> 'v" where
  "dict_get d k dflt = (case map_of d k of None \<Rightarrow> dflt | Some v \<Rightarrow> v)"

text \<open>Facts that drive the component proofs.\<close>

named_theorems method_simps "unfolding of the method combinators"
named_theorems keeps_intro "rules that a method keeps an invariant"

lemma return_apply [method_simps]: "return a s = (Inr a, s)"
  by (simp add: return_def)

lemma raise_apply [method_simps]: "raise e s = (Inl e, s)"
  by (simp add: raise_def)

lemma modify_apply [method_simps]: "modify f s = (Inr (), f s)"
  by (simp add: modify_def)

lemma andthen_apply [method_simps]:
  "andthen m k s = (case m s of (Inl e, s') \<Rightarrow> (Inl e, s') | (Inr a, s') \<Rightarrow> k a s')"
  by (simp add: andthen_def)

lemma keeps_return [keeps_intro]: "keeps I (return a)"
  by (simp add: keeps_def method_simps)

lemma keeps_raise [keeps_intro]: "keeps I (raise e)"
  by (simp add: keeps_def method_simps)

lemma keeps_andthen [keeps_intro]:
  assumes "keeps I m" and "\<And>a. keeps I (k a)"
  shows "keeps I (andthen m k)"
  using assms by (auto simp: keeps_def method_simps split: prod.splits sum.splits)

lemma keeps_foreach [keeps_intro]:
  assumes "\<And>x. x \<in> set xs \<Longrightarrow> keeps I (body x)"
  shows "keeps I (foreach body xs)"
  using assms by (induction xs) (auto intro: keeps_intro)

lemma keepsD: "keeps I m \<Longrightarrow> I s \<Longrightarrow> I (snd (m s))"
  by (simp add: keeps_def)

lemma rbind_Inr: "rbind r k = Inr b \<longleftrightarrow> (\<exists>a. r = Inr a \<and> k a = Inr b)"
  by (cases r) auto

lemma rmap_Inr_length: "rmap f xs = Inr ys \<Longrightarrow> length ys = length xs"
  by (induction xs arbitrary: ys) (auto simp: rbind_Inr)

lemma rmap_Inr_nth: "rmap f xs = Inr ys \<Longrightarrow> i < length xs \<Longrightarrow> f (xs ! i) = Inr (ys ! i)"
  by (induction xs arbitrary: ys i) (auto simp: rbind_Inr nth_Cons split: nat.split)

lemma length_last_n [simp]: "length (last_n n xs) = min n (length xs)"
  by (simp add: last_n_def)

lemma set_last_n: "set (last_n n xs) \<subseteq> set xs"
  by (simp add: last_n_def set_drop_subset)

lemma last_n_all [simp]: "length xs \<le> n \<Longrightarrow> last_n n xs = xs"
  by (simp add: last_n_def)

lemma last_n_last_n [simp]: "last_n n (last_n n xs) = last_n n xs"
  by (simp add: last_n_def)

lemma map_of_filter_key:
  "map_of (filter (\<lambda>(k, _). P k) d) k = (if P k then map_of d k else None)"
  by (induction d) auto

section \<open>Ranks in sorted lists\<close>

lemma sorted_key_less_iff:
  assumes "sorted (map f xs)" "distinct (map f xs)" "i < length xs" "j < length xs"
  shows "f (xs ! i) < f (xs ! j) \<longleftrightarrow> i < j"
proof -
  have "sorted_wrt (<) (map f xs)" using assms(1,2) by (simp add: strict_sorted_iff)
  then have "i' < j' \<Longrightarrow> j' < length xs \<Longrightarrow> f (xs ! i') < f (xs ! j')" for i' j'
    using sorted_wrt_nth_less [of "(<)" "map f xs" i' j'] by simp
  then show ?thesis using assms(3,4) by (metis less_asym linorder_neqE_nat order_less_irrefl)
qed

lemma sorted_key_rank:
  assumes "sorted (map f xs)" "distinct (map f xs)" "r < length xs"
  shows "card {x \<in> set xs. f x < f (xs ! r)} = r"
proof -
  have "x \<in> set (take r xs) \<longleftrightarrow> x \<in> set xs \<and> f x < f (xs ! r)" for x
  proof
    assume "x \<in> set (take r xs)"
    then obtain i where "i < r" "x = xs ! i" by (auto simp: in_set_conv_nth)
    then show "x \<in> set xs \<and> f x < f (xs ! r)"
      using assms sorted_key_less_iff [OF assms(1,2), of i r] by simp
  next
    assume "x \<in> set xs \<and> f x < f (xs ! r)"
    then obtain i where i: "i < length xs" "x = xs ! i" "f (xs ! i) < f (xs ! r)"
      by (auto simp: in_set_conv_nth)
    then have "i < r" using sorted_key_less_iff [OF assms(1,2) i(1) assms(3)] by simp
    then show "x \<in> set (take r xs)" using i assms(3) by (auto simp: in_set_conv_nth)
  qed
  then have "{x \<in> set xs. f x < f (xs ! r)} = set (take r xs)" by blast
  moreover have "distinct xs" using assms(2) by (simp add: distinct_map)
  ultimately show ?thesis
    using assms(3) by (simp add: distinct_card)
qed

text \<open>Assigning \<open>f r\<close> to the position that the \<open>r\<close>-th element of a list names.\<close>

lemma length_fold_enumerate_update [simp]:
  "length (fold (\<lambda>(r, i) w. w[i := f r]) (enumerate k js) w) = length w"
  by (induction js arbitrary: k w) simp_all

lemma fold_enumerate_update_other:
  "i \<notin> set js \<Longrightarrow> fold (\<lambda>(r, i) w. w[i := f r]) (enumerate k js) w ! i = w ! i"
  by (induction js arbitrary: k w) simp_all

lemma fold_enumerate_update_nth:
  assumes "distinct js" "set js \<subseteq> {..<length w}" "q < length js"
  shows "fold (\<lambda>(r, i) w. w[i := f r]) (enumerate k js) w ! (js ! q) = f (k + q)"
  using assms
proof (induction js arbitrary: k w q)
  case (Cons j js)
  then show ?case
    by (cases q) (simp_all add: fold_enumerate_update_other)
qed simp

text \<open>A dictionary built in a loop over distinct keys.\<close>

lemma map_of_fold_update_other:
  "k \<notin> f ` set xs \<Longrightarrow> map_of (fold (\<lambda>x d. AList.update (f x) (v x) d) xs d) k = map_of d k"
  by (induction xs arbitrary: d) (auto simp: update_conv')

lemma map_of_fold_update:
  assumes "distinct (map f xs)" "x \<in> set xs"
  shows "map_of (fold (\<lambda>x d. AList.update (f x) (v x) d) xs d) (f x) = Some (v x)"
  using assms by (induction xs arbitrary: d) (auto simp: update_conv' map_of_fold_update_other)

lemma keys_fold_update:
  "distinct (map f xs) \<Longrightarrow> set (map f xs) \<inter> set (keys d) = {} \<Longrightarrow>
   fold (\<lambda>x d. AList.update (f x) (v x) d) xs d = d @ map (\<lambda>x. (f x, v x)) xs"
proof (induction xs arbitrary: d)
  case (Cons x xs)
  have "AList.update (f x) (v x) d = d @ [(f x, v x)]"
    using Cons.prems by (induction d) auto
  then show ?case using Cons by auto
qed simp

lemma list_all2_member2:
  "list_all2 R xs ys \<Longrightarrow> y \<in> set ys \<Longrightarrow> \<exists>x \<in> set xs. R x y"
  by (induction rule: list_all2_induct) auto

end
