(* ===== verification/Selection.thy ===== *)
theory Selection
  imports Prelude "HOL-Library.List_Lexorder" "HOL-Library.Char_ord"
begin

text \<open>
  Which miners a task is offered to (\<open>src/rlvr/v3/selection.py\<close>).  The random draws of
  \<open>secrets.SystemRandom\<close> are a parameter, the shuffle that consumes them is the standard
  library's.  The lemmas show who is excluded, that an offer has no duplicates and nobody but
  eligible miners, and that a kept order is a prefix of the next offer, so retrying a lease never
  reorders the miners that stay.
\<close>

type_synonym miner = "int \<times> string"

section \<open>Eligibility\<close>

text \<open>Python list indexing: negative indices count from the end; \<open>None\<close> is \<open>IndexError\<close>.\<close>

definition py_nth :: "'a list \<Rightarrow> int \<Rightarrow> 'a option" where
  "py_nth xs i =
     (if 0 \<le> i \<and> i < int (length xs) then Some (xs ! nat i)
      else if - int (length xs) \<le> i \<and> i < 0 then Some (xs ! nat (i + int (length xs)))
      else None)"

definition positive_float :: "pyfloat \<Rightarrow> bool" where
  "positive_float x = (case x of Fin v \<Rightarrow> v > 0 | PInf \<Rightarrow> True | NInf \<Rightarrow> False | NaN \<Rightarrow> False)"

definition validating :: "bool list \<Rightarrow> pyfloat list option \<Rightarrow> int \<Rightarrow> bool result" where
  "validating permits trust uid =
     (if \<not> uid < int (length permits) then Inr False
      else case py_nth permits uid of
        None \<Rightarrow> Inl IndexError
      | Some False \<Rightarrow> Inr False
      | Some True \<Rightarrow>
          (case trust of
             None \<Rightarrow> Inr True
           | Some t \<Rightarrow>
               if uid \<ge> int (length t) then Inr True
               else case py_nth t uid of
                 None \<Rightarrow> Inl IndexError
               | Some x \<Rightarrow> Inr (positive_float x)))"

fun eligible_from ::
  "bool list \<Rightarrow> pyfloat list option \<Rightarrow> string option \<Rightarrow> miner list \<Rightarrow> miner list result" where
  "eligible_from permits trust owner [] = Inr []"
| "eligible_from permits trust owner ((uid, hk) # rest) =
     (if Some hk = owner then eligible_from permits trust owner rest
      else rbind (validating permits trust uid) (\<lambda>v.
           rbind (eligible_from permits trust owner rest) (\<lambda>es.
           Inr (if v then es else (uid, hk) # es))))"

definition eligible_miners ::
  "miner list \<Rightarrow> bool list option \<Rightarrow> pyfloat list option \<Rightarrow> string option \<Rightarrow> miner list result" where
  "eligible_miners serving permits trust owner =
     eligible_from (case permits of None \<Rightarrow> [] | Some p \<Rightarrow> p) trust owner serving"

section \<open>Offers\<close>

definition CANDIDATE_LIMIT :: nat where "CANDIDATE_LIMIT = 256"

definition fresh_miners :: "miner list \<Rightarrow> miner list \<Rightarrow> miner list" where
  "fresh_miners kept eligible = sort (remdups (filter (\<lambda>m. m \<notin> set kept) eligible))"

text \<open>
  \<open>Random.shuffle\<close> of the standard library: from the last position down to 1, exchange with a
  position drawn among those not above.  \<open>draws i mod (i + 1)\<close> is the value \<open>randbelow(i + 1)\<close>
  returned; every outcome of the draws is some function \<open>draws\<close>.
\<close>

definition swap :: "nat \<Rightarrow> nat \<Rightarrow> 'a list \<Rightarrow> 'a list" where
  "swap i j xs = xs[i := xs ! j, j := xs ! i]"

definition shuffle :: "(nat \<Rightarrow> nat) \<Rightarrow> 'a list \<Rightarrow> 'a list" where
  "shuffle draws xs = fold (\<lambda>i. swap i (draws i mod (i + 1))) (rev [1..<length xs]) xs"

definition next_offer ::
  "(nat \<Rightarrow> nat) \<Rightarrow> miner list option \<Rightarrow> miner list \<Rightarrow> nat \<Rightarrow> miner list" where
  "next_offer draws previous eligible limit =
     (let kept = filter (\<lambda>m. m \<in> set eligible)
                   (case previous of None \<Rightarrow> [] | Some p \<Rightarrow> p) in
      take limit (kept @ shuffle draws (fresh_miners kept eligible)))"

definition choose_candidates ::
  "(nat \<Rightarrow> nat) \<Rightarrow> miner list \<Rightarrow> bool list option \<Rightarrow> nat \<Rightarrow> string option \<Rightarrow>
   miner list result" where
  "choose_candidates draws serving permits limit owner =
     rbind (eligible_miners serving permits None owner) (\<lambda>es.
     Inr (next_offer draws None es limit))"

section \<open>Lemmas\<close>

text \<open>Validating, as the docstring defines it, for the uids a metagraph has.\<close>

definition is_validating :: "bool list \<Rightarrow> pyfloat list option \<Rightarrow> nat \<Rightarrow> bool" where
  "is_validating permits trust u \<longleftrightarrow> u < length permits \<and> permits ! u \<and>
     (case trust of None \<Rightarrow> True | Some t \<Rightarrow> u \<ge> length t \<or> positive_float (t ! u))"

lemma validating_nonneg: "0 \<le> uid \<Longrightarrow> validating permits trust uid = Inr (is_validating permits trust (nat uid))"
  by (cases trust) (auto simp: validating_def is_validating_def py_nth_def split: bool.split)

lemma eligible_from_nonneg:
  "\<forall>(u, _) \<in> set serving. 0 \<le> u \<Longrightarrow>
   eligible_from permits trust owner serving =
     Inr (filter (\<lambda>(u, hk). Some hk \<noteq> owner \<and> \<not> is_validating permits trust (nat u)) serving)"
proof (induction serving)
  case (Cons m serving)
  obtain u hk where m: "m = (u, hk)" by (cases m)
  then show ?case using Cons validating_nonneg [of u permits trust] by auto
qed simp

text \<open>Eligibility: for a metagraph's (non-negative) uids the result lists, in serving order,
  exactly the miners whose hotkey is not the subnet owner's and whose uid is not validating, where
  a permit with missing or unknown trust counts as validating and a permit with zero, negative or
  NaN trust does not.\<close>

theorem eligible_miners_exact:
  assumes "\<forall>(u, _) \<in> set serving. 0 \<le> u"
  shows "eligible_miners serving permits trust owner =
    Inr (filter (\<lambda>(u, hk). Some hk \<noteq> owner \<and>
       \<not> is_validating (case permits of None \<Rightarrow> [] | Some p \<Rightarrow> p) trust (nat u)) serving)"
  using eligible_from_nonneg [OF assms] by (simp add: eligible_miners_def)

theorem eligible_miners_exact_witness:
  "eligible_miners [(0, ''owner''), (1, ''val''), (2, ''staked''), (3, ''new''), (4, ''m'')]
     (Some [False, True, True, True]) (Some [Fin 0, Fin (1/2), Fin 0]) (Some ''owner'') =
   Inr [(2, ''staked''), (4, ''m'')]"
  using eligible_miners_exact [of "[(0, ''owner''), (1, ''val''), (2, ''staked''), (3, ''new''), (4, ''m'')]"
      "Some [False, True, True, True]" "Some [Fin 0, Fin (1/2), Fin 0]" "Some ''owner''"]
  by (simp add: is_validating_def positive_float_def)

text \<open>
  The interface between the offer and the lease loop: what the loop relies on when it asks for
  the next order.  \<open>offer prev es\<close> is the order offered after \<open>prev\<close> with the miners \<open>es\<close> eligible.
\<close>

locale offer_order =
  fixes offer :: "'m list \<Rightarrow> 'm list \<Rightarrow> 'm list"
  assumes offer_eligible: "set (offer prev es) \<subseteq> set es"
    and offer_distinct: "distinct prev \<Longrightarrow> distinct (offer prev es)"
    and offer_kept: "prefix (filter (\<lambda>m. m \<in> set es) prev) (offer prev es) \<or>
                     prefix (offer prev es) (filter (\<lambda>m. m \<in> set es) prev)"
begin

text \<open>The orders offered while no round earns a fresh draw.\<close>

fun offers :: "'m list \<Rightarrow> 'm list list \<Rightarrow> 'm list" where
  "offers prev [] = prev"
| "offers prev (es # ess) = offers (offer prev es) ess"

lemma offers_distinct: "distinct prev \<Longrightarrow> distinct (offers prev ess)"
  by (induction ess arbitrary: prev) (auto simp: offer_distinct)

lemma offer_stable:
  assumes "set prev \<subseteq> set es" "length prev \<le> length (offer prev es)"
  shows "prefix prev (offer prev es)"
proof -
  have "filter (\<lambda>m. m \<in> set es) prev = prev" using assms(1) by (auto intro: filter_True)
  moreover have "prefix prev q" if pq: "prefix q prev" and len: "length prev \<le> length q" for q
  proof -
    obtain zs where "prev = q @ zs" using pq by (rule prefixE)
    then show ?thesis using len by simp
  qed
  ultimately show ?thesis using offer_kept [of es prev] assms(2) by auto
qed

end

lemma mset_shuffle [simp]: "mset (shuffle draws xs) = mset xs"
proof -
  have "mset (fold (\<lambda>i. swap i (draws i mod (i + 1))) is ys) = mset ys \<and>
      length (fold (\<lambda>i. swap i (draws i mod (i + 1))) is ys) = length ys"
    if "\<forall>i \<in> set is. i < length ys" for "is" and ys :: "'a list"
    using that
  proof (induction "is" arbitrary: ys)
    case (Cons i js)
    let ?j = "draws i mod (i + 1)"
    have j: "?j < length ys" using Cons.prems by (metis Suc_eq_plus1 le_less_trans less_Suc_eq_le list.set_intros(1) mod_less_divisor zero_less_Suc)
    then have "mset (swap i ?j ys) = mset ys" "length (swap i ?j ys) = length ys"
      using Cons.prems by (auto simp: swap_def mset_swap)
    then show ?case using Cons.IH [of "swap i ?j ys"] Cons.prems by simp
  qed simp
  then show ?thesis by (simp add: shuffle_def)
qed

lemma shuffle_props [simp]:
  "set (shuffle draws xs) = set xs" "distinct (shuffle draws xs) = distinct xs"
  "length (shuffle draws xs) = length xs"
  using mset_shuffle [of draws xs] by (metis mset_eq_setD, metis mset_eq_imp_distinct_iff, metis size_mset)

lemma fresh_miners_props:
  "set (fresh_miners kept es) = set es - set kept" "distinct (fresh_miners kept es)"
  by (auto simp: fresh_miners_def)

lemma next_offer_set:
  "set (next_offer draws prev es limit) \<subseteq> set es"
  using set_take_subset by (fastforce simp: next_offer_def Let_def fresh_miners_props)

lemma next_offer_distinct:
  "distinct (case prev of None \<Rightarrow> [] | Some p \<Rightarrow> p) \<Longrightarrow> distinct (next_offer draws prev es limit)"
  unfolding next_offer_def Let_def by (rule distinct_take) (auto simp: fresh_miners_props)

lemma next_offer_prefix:
  "prefix (take limit (filter (\<lambda>m. m \<in> set es) p)) (next_offer draws (Some p) es limit)"
  by (simp add: next_offer_def Let_def)

lemma next_offer_covers:
  "length (remdups es) \<le> limit \<Longrightarrow> distinct (case prev of None \<Rightarrow> [] | Some p \<Rightarrow> p) \<Longrightarrow>
   set (next_offer draws prev es limit) = set es"
proof -
  assume lim: "length (remdups es) \<le> limit" and d: "distinct (case prev of None \<Rightarrow> [] | Some p \<Rightarrow> p)"
  let ?k = "filter (\<lambda>m. m \<in> set es) (case prev of None \<Rightarrow> [] | Some p \<Rightarrow> p)"
  let ?all = "?k @ shuffle draws (fresh_miners ?k es)"
  have s: "set ?all = set es" by (auto simp: fresh_miners_props)
  moreover have "distinct ?all" using d by (auto simp: fresh_miners_props)
  ultimately have "length ?all = length (remdups es)"
    by (metis distinct_card length_remdups_card_conv)
  then show ?thesis using lim s by (simp add: next_offer_def Let_def)
qed

interpretation offering: offer_order "\<lambda>prev es. next_offer draws (Some prev) es limit" for draws limit
proof unfold_locales
  fix prev es :: "miner list"
  show "set (next_offer draws (Some prev) es limit) \<subseteq> set es" by (rule next_offer_set)
  show "distinct prev \<Longrightarrow> distinct (next_offer draws (Some prev) es limit)"
    using next_offer_distinct [of "Some prev"] by simp
  show "prefix (filter (\<lambda>m. m \<in> set es) prev) (next_offer draws (Some prev) es limit) \<or>
        prefix (next_offer draws (Some prev) es limit) (filter (\<lambda>m. m \<in> set es) prev)"
    by (cases "length (filter (\<lambda>m. m \<in> set es) prev) \<le> limit")
      (auto simp: next_offer_def Let_def take_is_prefix)
qed

text \<open>The kept order.  Whatever the draws are, an offer made after a previous order lists
  only eligible miners, lists none twice, starts with the previous order restricted to the miners
  still eligible (cut at the limit), and when the eligible miners fit the limit it lists all of
  them.  Retrying a lease can therefore not change who is asked first.\<close>

theorem next_offer_keeps_order:
  assumes "distinct prev"
  shows "set (next_offer draws (Some prev) es limit) \<subseteq> set es \<and>
    distinct (next_offer draws (Some prev) es limit) \<and>
    prefix (take limit (filter (\<lambda>m. m \<in> set es) prev)) (next_offer draws (Some prev) es limit) \<and>
    (length (remdups es) \<le> limit \<longrightarrow> set (next_offer draws (Some prev) es limit) = set es)"
  using offering.offer_eligible offering.offer_distinct [OF assms] next_offer_prefix
    next_offer_covers [of es limit "Some prev"] assms by simp

theorem next_offer_keeps_order_witness:
  "prefix [(5, ''e''), (2, ''b'')]
     (next_offer (\<lambda>_. 0) (Some [(5, ''e''), (9, ''z''), (2, ''b'')])
       [(1, ''a''), (2, ''b''), (5, ''e'')] 256)"
  using next_offer_keeps_order [of "[(5, ''e''), (9, ''z''), (2, ''b'')]" "\<lambda>_. 0"
      "[(1, ''a''), (2, ''b''), (5, ''e'')]" 256] by simp

end
