(* ===== verification/Canonical.thy ===== *)
theory Canonical
  imports Prelude "HOL-Library.List_Lexorder"
begin

text \<open>
  Canonical JSON (\<open>src/rlvr/v3/canonical.py\<close>), the byte form that task ids are hashes of.
  Strings are lists of Unicode code points; Unicode NFC normalisation (\<open>unicodedata\<close>) is a
  parameter.  The lemmas show that validation bounds depth and integers, that a validated value
  always serialises, and that the serialisation does not depend on the order of object keys.
\<close>

type_synonym ustring = "nat list"

text \<open>JSON values over a type of strings; \<open>json\<close> is the instance with code points.\<close>

datatype 's pyjson =
    JNull
  | JBool bool
  | JInt int
  | JFloat pyfloat
  | JStr 's
  | JList "'s pyjson list"
  | JObj "('s \<times> 's pyjson) list"

type_synonym json = "ustring pyjson"

datatype canonical_error =
    NotNFC
  | SurrogateCodePoint
  | IntegerRange
  | FloatNotAllowed
  | DepthExceeded
  | DuplicateKey ustring

definition SAFE_INTEGER_MAX :: int where "SAFE_INTEGER_MAX = 2 ^ 53 - 1"
definition MAX_NESTING_DEPTH :: nat where "MAX_NESTING_DEPTH = 64"

definition safe_integer :: "int \<Rightarrow> bool" where
  "safe_integer n \<longleftrightarrow> - SAFE_INTEGER_MAX \<le> n \<and> n \<le> SAFE_INTEGER_MAX"

definition parse_integer :: "int \<Rightarrow> canonical_error + int" where
  "parse_integer n = (if safe_integer n then Inr n else Inl IntegerRange)"

fun object_from_pairs ::
  "(ustring \<times> json) list \<Rightarrow> (ustring \<times> json) list \<Rightarrow> canonical_error + (ustring \<times> json) list" where
  "object_from_pairs [] acc = Inr acc"
| "object_from_pairs ((k, v) # ps) acc =
     (if k \<in> set (keys acc) then Inl (DuplicateKey k) else object_from_pairs ps (acc @ [(k, v)]))"

definition is_surrogate :: "nat \<Rightarrow> bool" where
  "is_surrogate c \<longleftrightarrow> 0xD800 \<le> c \<and> c \<le> 0xDFFF"

definition validate_protocol_string :: "(ustring \<Rightarrow> ustring) \<Rightarrow> ustring \<Rightarrow> canonical_error + unit" where
  "validate_protocol_string nfc s =
     (if nfc s \<noteq> s then Inl NotNFC
      else if list_ex is_surrogate s then Inl SurrogateCodePoint
      else Inr ())"

fun validate_json_value :: "(ustring \<Rightarrow> ustring) \<Rightarrow> nat \<Rightarrow> json \<Rightarrow> canonical_error + unit"
and validate_items :: "(ustring \<Rightarrow> ustring) \<Rightarrow> nat \<Rightarrow> json list \<Rightarrow> canonical_error + unit"
and validate_members :: "(ustring \<Rightarrow> ustring) \<Rightarrow> nat \<Rightarrow> (ustring \<times> json) list \<Rightarrow> canonical_error + unit"
where
  "validate_json_value nfc depth JNull = Inr ()"
| "validate_json_value nfc depth (JBool b) = Inr ()"
| "validate_json_value nfc depth (JStr s) = validate_protocol_string nfc s"
| "validate_json_value nfc depth (JInt n) = (if safe_integer n then Inr () else Inl IntegerRange)"
| "validate_json_value nfc depth (JFloat x) = Inl FloatNotAllowed"
| "validate_json_value nfc depth (JList vs) =
     (if depth \<ge> MAX_NESTING_DEPTH then Inl DepthExceeded else validate_items nfc (depth + 1) vs)"
| "validate_json_value nfc depth (JObj kvs) =
     (if depth \<ge> MAX_NESTING_DEPTH then Inl DepthExceeded else validate_members nfc (depth + 1) kvs)"
| "validate_items nfc depth [] = Inr ()"
| "validate_items nfc depth (v # vs) =
     rbind (validate_json_value nfc depth v) (\<lambda>_. validate_items nfc depth vs)"
| "validate_members nfc depth [] = Inr ()"
| "validate_members nfc depth ((k, v) # kvs) =
     rbind (validate_protocol_string nfc k) (\<lambda>_.
     rbind (validate_json_value nfc depth v) (\<lambda>_. validate_members nfc depth kvs))"

section \<open>Serialisation\<close>

definition hex_digit :: "nat \<Rightarrow> nat" where
  "hex_digit d = (if d < 10 then 48 + d else 87 + d)"

text \<open>\<open>json.dumps\<close> of a string with \<open>ensure_ascii=False\<close>.\<close>

definition escape_char :: "nat \<Rightarrow> ustring" where
  "escape_char c =
     (if c = 34 then [92, 34] else if c = 92 then [92, 92]
      else if c = 10 then [92, 110] else if c = 13 then [92, 114] else if c = 9 then [92, 116]
      else if c = 8 then [92, 98] else if c = 12 then [92, 102]
      else if c < 32 then [92, 117, 48, 48, hex_digit (c div 16), hex_digit (c mod 16)]
      else [c])"

definition dumps_string :: "ustring \<Rightarrow> ustring" where
  "dumps_string s = [34] @ concat (map escape_char s) @ [34]"

fun nat_digits :: "nat \<Rightarrow> ustring" where
  "nat_digits n = (if n < 10 then [48 + n] else nat_digits (n div 10) @ [48 + n mod 10])"

declare nat_digits.simps [simp del]

definition str_int :: "int \<Rightarrow> ustring" where
  "str_int n = (if n < 0 then 45 # nat_digits (nat (- n)) else nat_digits (nat n))"

text \<open>\<open>key.encode("utf-16-be")\<close>, the sort key of object members.\<close>

definition utf16_char :: "nat \<Rightarrow> nat list" where
  "utf16_char c =
     (if c < 0x10000 then [c div 256, c mod 256]
      else let u = c - 0x10000; hi = 0xD800 + u div 1024; lo = 0xDC00 + u mod 1024 in
           [hi div 256, hi mod 256, lo div 256, lo mod 256])"

definition utf16_be :: "ustring \<Rightarrow> nat list" where
  "utf16_be s = concat (map utf16_char s)"

fun join_comma :: "ustring list \<Rightarrow> ustring" where
  "join_comma [] = []"
| "join_comma [s] = s"
| "join_comma (s # t # ss) = s @ [44] @ join_comma (t # ss)"

fun serialize :: "nat \<Rightarrow> json \<Rightarrow> canonical_error + ustring"
and serialize_items :: "nat \<Rightarrow> json list \<Rightarrow> canonical_error + ustring list"
and serialize_members :: "nat \<Rightarrow> (ustring \<times> json) list \<Rightarrow> canonical_error + (ustring \<times> ustring) list"
where
  "serialize depth JNull = Inr (map (of_char :: char \<Rightarrow> nat) ''null'')"
| "serialize depth (JBool b) = Inr (map (of_char :: char \<Rightarrow> nat) (if b then ''true'' else ''false''))"
| "serialize depth (JStr s) = Inr (dumps_string s)"
| "serialize depth (JInt n) = Inr (str_int n)"
| "serialize depth (JFloat x) = Inl FloatNotAllowed"
| "serialize depth (JList vs) =
     (if depth \<ge> MAX_NESTING_DEPTH then Inl DepthExceeded
      else rbind (serialize_items (depth + 1) vs) (\<lambda>ss. Inr ([91] @ join_comma ss @ [93])))"
| "serialize depth (JObj kvs) =
     (if depth \<ge> MAX_NESTING_DEPTH then Inl DepthExceeded
      else rbind (serialize_members (depth + 1) kvs) (\<lambda>ms.
        Inr ([123] @ join_comma (map (\<lambda>(k, s). dumps_string k @ [58] @ s)
               (sort_key (\<lambda>(k, _). utf16_be k) ms)) @ [125])))"
| "serialize_items depth [] = Inr []"
| "serialize_items depth (v # vs) =
     rbind (serialize depth v) (\<lambda>s. rbind (serialize_items depth vs) (\<lambda>ss. Inr (s # ss)))"
| "serialize_members depth [] = Inr []"
| "serialize_members depth ((k, v) # kvs) =
     rbind (serialize depth v) (\<lambda>s. rbind (serialize_members depth kvs) (\<lambda>ms. Inr ((k, s) # ms)))"

text \<open>\<open>canonical_json_bytes\<close>, as the code points whose UTF-8 encoding the source returns.\<close>

definition canonical_json :: "(ustring \<Rightarrow> ustring) \<Rightarrow> json \<Rightarrow> canonical_error + ustring" where
  "canonical_json nfc v = rbind (validate_json_value nfc 0 v) (\<lambda>_. serialize 0 v)"

section \<open>Lemmas\<close>

text \<open>A validated value serialises.\<close>

lemma validated_serializes:
  "validate_json_value nfc depth v = Inr () \<Longrightarrow> \<exists>s. serialize depth v = Inr s"
  "validate_items nfc depth vs = Inr () \<Longrightarrow> \<exists>ss. serialize_items depth vs = Inr ss"
  "validate_members nfc depth kvs = Inr () \<Longrightarrow> \<exists>ms. serialize_members depth kvs = Inr ms"
  by (induction nfc depth v and nfc depth vs and nfc depth kvs
      rule: validate_json_value_validate_items_validate_members.induct)
    (auto simp: rbind_Inr split: if_splits)

text \<open>The nesting depth of a value: how many containers enclose its deepest point.\<close>

fun nesting :: "json \<Rightarrow> nat" where
  "nesting (JList vs) = Suc (fold (\<lambda>v m. max (nesting v) m) vs 0)"
| "nesting (JObj kvs) = Suc (fold (\<lambda>(k, v) m. max (nesting v) m) kvs 0)"
| "nesting _ = 0"

fun all_safe :: "json \<Rightarrow> bool" where
  "all_safe (JInt n) = safe_integer n"
| "all_safe (JFloat _) = False"
| "all_safe (JStr s) = list_all (\<lambda>c. \<not> is_surrogate c) s"
| "all_safe (JList vs) = list_all all_safe vs"
| "all_safe (JObj kvs) = list_all (\<lambda>(k, v). list_all (\<lambda>c. \<not> is_surrogate c) k \<and> all_safe v) kvs"
| "all_safe _ = True"

lemma fold_max_le:
  "fold (\<lambda>v m. max (f v) m) vs a \<le> (b::nat) \<longleftrightarrow> a \<le> b \<and> (\<forall>v \<in> set vs. f v \<le> b)"
  by (induction vs arbitrary: a) auto

lemma fold_max_le_members:
  "fold (\<lambda>(k, v) m. max (f v) m) kvs a \<le> (b::nat) \<longleftrightarrow> a \<le> b \<and> (\<forall>(k, v) \<in> set kvs. f v \<le> b)"
  by (induction kvs arbitrary: a) auto

lemma validated_string_no_surrogate:
  "validate_protocol_string nfc s = Inr () \<Longrightarrow> list_all (\<lambda>c. \<not> is_surrogate c) s"
  by (auto simp: validate_protocol_string_def list_ex_iff list_all_iff split: if_splits)

lemma validated_bounds:
  "validate_json_value nfc depth v = Inr () \<Longrightarrow> depth \<le> MAX_NESTING_DEPTH \<Longrightarrow>
     depth + nesting v \<le> MAX_NESTING_DEPTH \<and> all_safe v"
  "validate_items nfc depth vs = Inr () \<Longrightarrow> depth \<le> MAX_NESTING_DEPTH \<Longrightarrow>
     \<forall>v \<in> set vs. depth + nesting v \<le> MAX_NESTING_DEPTH \<and> all_safe v"
  "validate_members nfc depth kvs = Inr () \<Longrightarrow> depth \<le> MAX_NESTING_DEPTH \<Longrightarrow>
     \<forall>(k, v) \<in> set kvs. depth + nesting v \<le> MAX_NESTING_DEPTH \<and> all_safe v \<and>
        list_all (\<lambda>c. \<not> is_surrogate c) k"
proof (induction nfc depth v and nfc depth vs and nfc depth kvs
    rule: validate_json_value_validate_items_validate_members.induct)
  case (6 nfc depth vs)
  then have "depth < MAX_NESTING_DEPTH" "\<forall>v \<in> set vs. Suc depth + nesting v \<le> MAX_NESTING_DEPTH \<and> all_safe v"
    by (auto split: if_splits)
  then show ?case
    using fold_max_le [of nesting vs 0 "MAX_NESTING_DEPTH - Suc depth"]
    by (fastforce simp: list_all_iff)
next
  case (7 nfc depth kvs)
  then have *: "depth < MAX_NESTING_DEPTH" "\<forall>(k, v) \<in> set kvs. Suc depth + nesting v \<le> MAX_NESTING_DEPTH \<and>
      all_safe v \<and> list_all (\<lambda>c. \<not> is_surrogate c) k"
    by (auto split: if_splits)
  have "\<forall>(k, v) \<in> set kvs. nesting v \<le> MAX_NESTING_DEPTH - Suc depth" using * by fastforce
  then have "nesting (JObj kvs) \<le> MAX_NESTING_DEPTH - depth"
    using *(1) fold_max_le_members [of nesting kvs 0 "MAX_NESTING_DEPTH - Suc depth"] by simp
  moreover have "all_safe (JObj kvs)" using *(2) by (auto simp: list_all_iff)
  ultimately show ?case using *(1) by simp
qed (auto simp: rbind_Inr validated_string_no_surrogate split: if_splits)

section \<open>Independence of key order\<close>

definition scalar_value :: "nat \<Rightarrow> bool" where
  "scalar_value c \<longleftrightarrow> c < 0x110000 \<and> \<not> is_surrogate c"

text \<open>A decoder for \<open>utf16_be\<close>, to show that distinct keys have distinct sort keys.\<close>

fun utf16_decode :: "nat list \<Rightarrow> ustring" where
  "utf16_decode (a # b # rest) =
     (if 0xD8 \<le> a \<and> a \<le> 0xDB then
        (case rest of
           c # d # rest' \<Rightarrow>
             (0x10000 + ((a - 0xD8) * 256 + b) * 1024 + ((c - 0xDC) * 256 + d)) # utf16_decode rest'
         | _ \<Rightarrow> [])
      else (a * 256 + b) # utf16_decode rest)"
| "utf16_decode _ = []"

lemma surrogate_half:
  fixes w k :: nat
  assumes "w < 1024"
  shows "k \<le> (k * 256 + w) div 256" "(k * 256 + w) div 256 \<le> k + 3"
    "((k * 256 + w) div 256 - k) * 256 + (k * 256 + w) mod 256 = w"
proof -
  have "(k * 256 + w) div 256 = k + w div 256" "(k * 256 + w) mod 256 = w mod 256" by simp_all
  moreover have "w div 256 < 4" using assms by (simp add: less_mult_imp_div_less)
  moreover have "w div 256 * 256 + w mod 256 = w" by (rule div_mult_mod_eq)
  ultimately show "k \<le> (k * 256 + w) div 256" "(k * 256 + w) div 256 \<le> k + 3"
    "((k * 256 + w) div 256 - k) * 256 + (k * 256 + w) mod 256 = w" by simp_all
qed

lemma utf16_decode_char:
  assumes "scalar_value c"
  shows "utf16_decode (utf16_char c @ rest) = c # utf16_decode rest"
proof (cases "c < 0x10000")
  case True
  then have "\<not> (0xD8 \<le> c div 256 \<and> c div 256 \<le> 0xDB)"
    using assms by (auto simp: scalar_value_def is_surrogate_def)
  then show ?thesis using True by (auto simp: utf16_char_def)
next
  case False
  define u where "u = c - 0x10000"
  have "c < 0x110000" using assms by (simp add: scalar_value_def)
  then have c: "c = 0x10000 + u" "u < 0x100000"
    using False by (simp_all add: u_def)
  have d: "u div 1024 < 1024" using c(2) by (simp add: less_mult_imp_div_less)
  have hi: "0xD8 \<le> (0xD800 + u div 1024) div 256" "(0xD800 + u div 1024) div 256 \<le> 0xDB"
    "((0xD800 + u div 1024) div 256 - 0xD8) * 256 + (0xD800 + u div 1024) mod 256 = u div 1024"
    using surrogate_half [OF d, of "0xD8"] by simp_all
  have "u mod 1024 < 1024" by simp
  then have lo: "((0xDC00 + u mod 1024) div 256 - 0xDC) * 256 + (0xDC00 + u mod 1024) mod 256 = u mod 1024"
    using surrogate_half(3) [of "u mod 1024" "0xDC"] by simp
  have "utf16_decode (utf16_char c @ rest) =
      (0x10000 + u div 1024 * 1024 + u mod 1024) # utf16_decode rest"
    using False hi(1,2) unfolding utf16_char_def Let_def u_def [symmetric]
    by (simp add: hi(3) lo)
  then show ?thesis by (simp add: c(1))
qed

lemma utf16_decode_be: "\<forall>c \<in> set s. scalar_value c \<Longrightarrow> utf16_decode (utf16_be s) = s"
  by (induction s) (auto simp: utf16_be_def utf16_decode_char)

lemma utf16_be_inj: "inj_on utf16_be {s. \<forall>c \<in> set s. scalar_value c}"
  by (rule inj_on_inverseI [where g = utf16_decode]) (simp add: utf16_decode_be)

text \<open>
  Two values that are the same up to the order in which dictionaries hold their keys.  The keys of a
  Python dictionary are distinct, and the characters of a Python string are below 0x110000.
\<close>

inductive same_json :: "json \<Rightarrow> json \<Rightarrow> bool" where
  same_refl: "same_json v v"
| same_list: "list_all2 same_json vs ws \<Longrightarrow> same_json (JList vs) (JList ws)"
| same_obj: "list_all2 (rel_prod (=) same_json) kvs kws' \<Longrightarrow> mset kws' = mset kws \<Longrightarrow>
    distinct (keys kvs) \<Longrightarrow> \<forall>k \<in> set (keys kvs). \<forall>c \<in> set k. c < 0x110000 \<Longrightarrow>
    same_json (JObj kvs) (JObj kws)"
  monos list.rel_mono prod.rel_mono

lemma serialize_items_Inr:
  "serialize_items d vs = Inr ss \<longleftrightarrow> list_all2 (\<lambda>v s. serialize d v = Inr s) vs ss"
  by (induction vs arbitrary: ss) (auto simp: rbind_Inr list_all2_Cons1)

lemma serialize_members_Inr:
  "serialize_members d kvs = Inr ms \<longleftrightarrow>
   list_all2 (rel_prod (=) (\<lambda>v s. serialize d v = Inr s)) kvs ms"
  by (induction kvs arbitrary: ms) (auto simp: rbind_Inr list_all2_Cons1)

lemma rel_keys: "list_all2 (rel_prod (=) R) kvs ms \<Longrightarrow> keys ms = keys kvs"
  by (induction rule: list_all2_induct) auto

lemma sort_members_eq:
  assumes "mset ms = mset ms'" "distinct (keys ms)" "\<forall>k \<in> set (keys ms). \<forall>c \<in> set k. scalar_value c"
  shows "sort_key (\<lambda>(k, _). utf16_be k) ms = sort_key (\<lambda>(k, _). utf16_be k) ms'"
proof -
  have inj: "inj_on (\<lambda>(k, _). utf16_be k) (set ms)"
  proof (rule inj_onI, clarify)
    fix k s k' s' assume m: "(k, s) \<in> set ms" "(k', s') \<in> set ms" "utf16_be k = utf16_be k'"
    then have "k = k'" using assms(3) utf16_be_inj by (force simp: inj_on_def)
    then show "k = k' \<and> s = s'" using m assms(2) eq_key_imp_eq_value by fastforce
  qed
  show ?thesis
    by (rule sort_key_inj_key_eq) (use assms(1) inj in simp_all)
qed

lemma validate_items_Inr:
  "validate_items nfc d vs = Inr () \<longleftrightarrow> (\<forall>v \<in> set vs. validate_json_value nfc d v = Inr ())"
  by (induction vs) (auto simp: rbind_Inr)

lemma validate_members_Inr:
  "validate_members nfc d kvs = Inr () \<longleftrightarrow>
   (\<forall>(k, v) \<in> set kvs. validate_protocol_string nfc k = Inr () \<and> validate_json_value nfc d v = Inr ())"
  by (induction kvs) (auto simp: rbind_Inr)

lemma same_keys:
  assumes "list_all2 (rel_prod (=) R) kvs kws'" "mset kws' = mset kws"
  shows "set (keys kws) = set (keys kvs)" and "distinct (keys kws) \<longleftrightarrow> distinct (keys kvs)"
proof -
  have "mset (keys kws) = mset (keys kvs)" using rel_keys [OF assms(1)] assms(2) by (metis mset_map)
  then show "set (keys kws) = set (keys kvs)" "distinct (keys kws) \<longleftrightarrow> distinct (keys kvs)"
    using mset_eq_setD mset_eq_imp_distinct_iff by blast+
qed

lemma same_json_sym: "same_json v w \<Longrightarrow> same_json w v"
proof (induction rule: same_json.induct)
  case (same_list vs ws)
  then have "list_all2 same_json ws vs" by (simp add: list_all2_conv_all_nth)
  then show ?case by (rule same_json.same_list)
next
  case (same_obj kvs kws' kws)
  have "list_all2 (rel_prod (=) same_json) kws' kvs"
    using same_obj(1) by (auto simp: list_all2_conv_all_nth rel_prod_sel)
  then obtain kvs' where kvs': "list_all2 (rel_prod (=) same_json) kws kvs'" "mset kvs' = mset kvs"
    using list_all2_reorder_left_invariance same_obj(2) by metis
  have "list_all2 (rel_prod (=) same_json) kvs kws'" using same_obj(1) by (auto simp: list_all2_conv_all_nth rel_prod_sel)
  note ks = same_keys [OF this same_obj(2)]
  show ?case using same_obj(3,4) ks by (intro same_json.same_obj [OF kvs']) simp_all
qed (rule same_refl)

lemma rel_members_trans:
  assumes "list_all2 (rel_prod (=) R) kvs kws" "list_all2 (rel_prod (=) S) kvs ms"
    and "\<And>k v w s. (k, v) \<in> set kvs \<Longrightarrow> R v w \<Longrightarrow> S v s \<Longrightarrow> T w s"
  shows "list_all2 (rel_prod (=) T) kws ms"
  using assms by (induction kvs arbitrary: kws ms) (fastforce simp: list_all2_Cons1)+

text \<open>An accepted value serialises as every other one that is the same up to the order of keys.\<close>

lemma serialize_same:
  "same_json v w \<Longrightarrow> validate_json_value nfc d v = Inr () \<Longrightarrow> serialize d v = Inr s \<Longrightarrow> serialize d w = Inr s"
proof (induction arbitrary: d s rule: same_json.induct)
  case (same_list vs ws)
  then obtain ss where d: "\<not> d \<ge> MAX_NESTING_DEPTH" and ss: "serialize_items (d + 1) vs = Inr ss"
    and s: "s = [91] @ join_comma ss @ [93]"
    by (auto simp: rbind_Inr split: if_splits)
  have ok: "\<forall>v \<in> set vs. validate_json_value nfc (d + 1) v = Inr ()"
    using same_list.prems(1) d by (simp add: validate_items_Inr)
  have "list_all2 (\<lambda>v s. serialize (d + 1) v = Inr s) ws ss"
    using same_list.IH ss ok unfolding serialize_items_Inr
    by (force simp: list_all2_conv_all_nth)
  then have "serialize_items (d + 1) ws = Inr ss" by (simp only: serialize_items_Inr)
  then show ?case using d s by simp
next
  case (same_obj kvs kws' kws)
  then obtain ms where d: "\<not> d \<ge> MAX_NESTING_DEPTH" and ms: "serialize_members (d + 1) kvs = Inr ms"
    and s: "s = [123] @ join_comma (map (\<lambda>(k, s). dumps_string k @ [58] @ s)
               (sort_key (\<lambda>(k, _). utf16_be k) ms)) @ [125]"
    by (auto simp: rbind_Inr split: if_splits)
  have ok: "\<forall>(k, v) \<in> set kvs. validate_protocol_string nfc k = Inr () \<and> validate_json_value nfc (d + 1) v = Inr ()"
    using same_obj.prems(1) d by (simp add: validate_members_Inr)
  then have scalars: "\<forall>k \<in> set (keys kvs). \<forall>c \<in> set k. scalar_value c"
    using same_obj(4) by (fastforce simp: scalar_value_def list_all_iff dest: validated_string_no_surrogate)
  have "list_all2 (rel_prod (=) (\<lambda>v s. serialize (d + 1) v = Inr s)) kws' ms"
    by (rule rel_members_trans [OF same_obj.IH ms [unfolded serialize_members_Inr]]) (use ok in blast)
  then obtain ms' where ms': "list_all2 (rel_prod (=) (\<lambda>v s. serialize (d + 1) v = Inr s)) kws ms'"
    "mset ms' = mset ms"
    using list_all2_reorder_left_invariance same_obj.hyps(1) by (metis same_obj(2))
  have "keys ms = keys kvs" using ms rel_keys unfolding serialize_members_Inr by blast
  then have "sort_key (\<lambda>(k, _). utf16_be k) ms = sort_key (\<lambda>(k, _). utf16_be k) ms'"
    using sort_members_eq [of ms ms'] ms'(2) same_obj(3) scalars by simp
  moreover have "serialize_members (d + 1) kws = Inr ms'" using ms'(1) by (simp only: serialize_members_Inr)
  ultimately show ?case using d s by simp
qed simp

lemma validate_same:
  "same_json v w \<Longrightarrow> validate_json_value nfc d v = Inr () \<Longrightarrow> validate_json_value nfc d w = Inr ()"
proof (induction arbitrary: d rule: same_json.induct)
  case (same_list vs ws)
  have "validate_json_value nfc (d + 1) w = Inr ()" if "w \<in> set ws" for w
    using list_all2_member2 [OF same_list.IH that] same_list.prems
    by (auto simp: validate_items_Inr split: if_splits)
  then show ?case using same_list.prems by (auto simp: validate_items_Inr split: if_splits)
next
  case (same_obj kvs kws' kws)
  have eq: "set kws = set kws'" using same_obj.hyps(1) same_obj(2) by (metis mset_eq_setD)
  have d: "\<not> MAX_NESTING_DEPTH \<le> d" and
    kvs: "\<forall>(k, v) \<in> set kvs. validate_protocol_string nfc k = Inr () \<and>
      validate_json_value nfc (d + 1) v = Inr ()"
    using same_obj.prems by (simp_all add: validate_members_Inr split: if_splits)
  have "validate_protocol_string nfc k = Inr () \<and> validate_json_value nfc (d + 1) w = Inr ()"
    if "(k, w) \<in> set kws" for k w
  proof -
    have "(k, w) \<in> set kws'" using that eq by simp
    from list_all2_member2 [OF same_obj.IH this] obtain v where "(k, v) \<in> set kvs"
      "\<forall>d. validate_json_value nfc d v = Inr () \<longrightarrow> validate_json_value nfc d w = Inr ()"
      by (auto simp: rel_prod_sel)
    then show ?thesis using kvs by auto
  qed
  then show ?case using d by (auto simp: validate_members_Inr)
qed simp

lemma canonical_same:
  assumes "same_json v w" "canonical_json nfc v = Inr s"
  shows "canonical_json nfc w = Inr s"
  using assms(2) serialize_same [OF assms(1)] validate_same [OF assms(1)]
  by (auto simp: canonical_json_def rbind_Inr)

text \<open>C37. Canonical form: of two values that differ only in the order of dictionary keys, at any depth,
  either both are accepted with the same canonical text or both are refused; so equal objects hash to
  the same task id however they were built.  The keys of an object are distinct, as those of a
  dictionary are, and made of code points.\<close>

theorem canonical_json_order_independent:
  assumes "same_json v w"
  shows "(\<exists>s. canonical_json nfc v = Inr s \<and> canonical_json nfc w = Inr s) \<or>
    (\<exists>e e'. canonical_json nfc v = Inl e \<and> canonical_json nfc w = Inl e')"
proof (cases "canonical_json nfc v")
  case (Inl e)
  then have "canonical_json nfc w \<noteq> Inr s" for s
    using canonical_same [OF same_json_sym [OF assms], of nfc s] by auto
  then show ?thesis using Inl by (cases "canonical_json nfc w") blast+
next
  case (Inr s)
  then show ?thesis using canonical_same [OF assms Inr] by blast
qed

theorem canonical_json_order_independent_witness:
  "canonical_json (\<lambda>s. s) (JObj [([98], JInt 1), ([97], JNull)]) =
     Inr [123, 34, 97, 34, 58, 110, 117, 108, 108, 44, 34, 98, 34, 58, 49, 125]"
proof -
  have "same_json (JObj [([97], JNull), ([98], JInt 1)]) (JObj [([98], JInt 1), ([97], JNull)])"
    by (rule same_obj [of _ "[([97], JNull), ([98], JInt 1)]"]) (auto intro: same_refl)
  note same = canonical_json_order_independent [OF this, of "\<lambda>s. s"]
  have "canonical_json (\<lambda>s. s) (JObj [([97], JNull), ([98], JInt 1)]) =
      Inr [123, 34, 97, 34, 58, 110, 117, 108, 108, 44, 34, 98, 34, 58, 49, 125]"
    by (simp add: canonical_json_def validate_protocol_string_def is_surrogate_def
        MAX_NESTING_DEPTH_def safe_integer_def SAFE_INTEGER_MAX_def dumps_string_def
        escape_char_def str_int_def nat_digits.simps utf16_be_def utf16_char_def)
  then show ?thesis using same by simp
qed

text \<open>Validation decides: \<open>canonical_json_bytes\<close> either reports the validation error or
  returns a text, serialisation itself never fails, and an accepted value nests at most 64 deep
  and holds no float, no surrogate and no integer beyond 2^53 - 1 in magnitude.\<close>

theorem canonical_json_accepts:
  "(case validate_json_value nfc 0 v of
      Inl e \<Rightarrow> canonical_json nfc v = Inl e
    | Inr _ \<Rightarrow> (\<exists>s. canonical_json nfc v = Inr s) \<and> nesting v \<le> MAX_NESTING_DEPTH \<and> all_safe v)"
  using validated_serializes(1) [of nfc 0 v] validated_bounds(1) [of nfc 0 v]
  by (auto simp: canonical_json_def split: sum.split)

end
