(* ===== verification/Reasons.thy ===== *)
theory Reasons
  imports Prelude
begin

text \<open>
  The evaluation codes shared by grading, rounds, diagnostics and notices
  (\<open>src/rlvr/v3/reasons.py\<close>), with the string value of every member, and the fact that the value
  identifies the member, which lets receivers decode it.
\<close>

datatype miner_reason =
    NOT_SERVING | DISPATCH_FAILED | RESPONSE_UNAVAILABLE | SLOT_MISMATCH | ARTIFACT_INVALID
  | TRAJECTORY_INVALID | PATCH_REJECTED | PATCH_STATIC_REJECTED | PATCH_APPLY_FAILED
  | SCRIPT_REJECTED | WORKING_DIRECTORY_INVALID | SETUP_FAILED | CHECK_FAILED | TIMEOUT
  | MEMORY_LIMIT | OUTPUT_LIMIT | RESULT_TREE_INVALID

datatype round_reason =
    LEASE_UNAVAILABLE | UNSUPPORTED_PROFILE | UNSUPPORTED_VERIFIER_POLICY | INSUFFICIENT_STORAGE
  | SLOT_POOL_MISMATCH | LEASE_QUORUM_MISMATCH | LEASE_TOO_SHORT | QUORUM_NOT_MET | COMMIT_FAILED
  | REVEAL_MISMATCH | GRADING_EXPIRED | SUBMISSION_FORMAT_MISMATCH | SUBMISSION_GRANT_MISMATCH
  | SUBMISSION_DOWNLOAD_FAILED | UNSUPPORTED_TASK | WORKSPACE_INVALID | PATCH_TOOL_FAILED
  | SETUP_UNAVAILABLE | SCRIPT_UNAVAILABLE | VERIFIER_UNAVAILABLE | VALIDATOR_ERROR
  | WORKSPACE_DOWNLOAD_FAILED | WORKSPACE_EXTRACTION_FAILED | WORKSPACE_MATERIALIZATION_FAILED
  | VERIFIER_DOWNLOAD_FAILED | VERIFIER_INVALID | CLEANUP_FAILED

datatype stage =
    S_LEASE | S_WORKSPACE_DOWNLOAD | S_WORKSPACE_EXTRACTION | S_DISPATCH | S_COMMIT
  | S_VERIFIER_DOWNLOAD | S_VERIFIER_EXTRACTION | S_VERIFIER_MANIFEST | S_SUBMISSION_DOWNLOAD
  | S_WORKSPACE_MATERIALIZATION | S_GRADING | S_PATCH | S_SETUP | S_SCRIPT | S_CHECK
  | S_RESULT_TREE | S_CLEANUP

primrec miner_reason_value :: "miner_reason \<Rightarrow> string" where
  "miner_reason_value NOT_SERVING = ''not_serving''"
| "miner_reason_value DISPATCH_FAILED = ''dispatch_failed''"
| "miner_reason_value RESPONSE_UNAVAILABLE = ''response_unavailable''"
| "miner_reason_value SLOT_MISMATCH = ''slot_mismatch''"
| "miner_reason_value ARTIFACT_INVALID = ''artifact_invalid''"
| "miner_reason_value TRAJECTORY_INVALID = ''trajectory_invalid''"
| "miner_reason_value PATCH_REJECTED = ''patch_rejected''"
| "miner_reason_value PATCH_STATIC_REJECTED = ''patch_static_rejected''"
| "miner_reason_value PATCH_APPLY_FAILED = ''patch_apply_failed''"
| "miner_reason_value SCRIPT_REJECTED = ''script_rejected''"
| "miner_reason_value WORKING_DIRECTORY_INVALID = ''working_directory_invalid''"
| "miner_reason_value SETUP_FAILED = ''setup_failed''"
| "miner_reason_value CHECK_FAILED = ''check_failed''"
| "miner_reason_value TIMEOUT = ''timeout''"
| "miner_reason_value MEMORY_LIMIT = ''memory_limit''"
| "miner_reason_value OUTPUT_LIMIT = ''output_limit''"
| "miner_reason_value RESULT_TREE_INVALID = ''result_tree_invalid''"

primrec round_reason_value :: "round_reason \<Rightarrow> string" where
  "round_reason_value LEASE_UNAVAILABLE = ''lease_unavailable''"
| "round_reason_value UNSUPPORTED_PROFILE = ''unsupported_profile''"
| "round_reason_value UNSUPPORTED_VERIFIER_POLICY = ''unsupported_verifier_policy''"
| "round_reason_value INSUFFICIENT_STORAGE = ''insufficient_storage''"
| "round_reason_value SLOT_POOL_MISMATCH = ''slot_pool_mismatch''"
| "round_reason_value LEASE_QUORUM_MISMATCH = ''lease_quorum_mismatch''"
| "round_reason_value LEASE_TOO_SHORT = ''lease_too_short''"
| "round_reason_value QUORUM_NOT_MET = ''quorum_not_met''"
| "round_reason_value COMMIT_FAILED = ''commit_failed''"
| "round_reason_value REVEAL_MISMATCH = ''reveal_mismatch''"
| "round_reason_value GRADING_EXPIRED = ''grading_expired''"
| "round_reason_value SUBMISSION_FORMAT_MISMATCH = ''submission_format_mismatch''"
| "round_reason_value SUBMISSION_GRANT_MISMATCH = ''submission_grant_mismatch''"
| "round_reason_value SUBMISSION_DOWNLOAD_FAILED = ''submission_download_failed''"
| "round_reason_value UNSUPPORTED_TASK = ''unsupported_task''"
| "round_reason_value WORKSPACE_INVALID = ''workspace_invalid''"
| "round_reason_value PATCH_TOOL_FAILED = ''patch_tool_failed''"
| "round_reason_value SETUP_UNAVAILABLE = ''setup_unavailable''"
| "round_reason_value SCRIPT_UNAVAILABLE = ''script_unavailable''"
| "round_reason_value VERIFIER_UNAVAILABLE = ''verifier_unavailable''"
| "round_reason_value VALIDATOR_ERROR = ''validator_error''"
| "round_reason_value WORKSPACE_DOWNLOAD_FAILED = ''workspace_download_failed''"
| "round_reason_value WORKSPACE_EXTRACTION_FAILED = ''workspace_extraction_failed''"
| "round_reason_value WORKSPACE_MATERIALIZATION_FAILED = ''workspace_materialization_failed''"
| "round_reason_value VERIFIER_DOWNLOAD_FAILED = ''verifier_download_failed''"
| "round_reason_value VERIFIER_INVALID = ''verifier_invalid''"
| "round_reason_value CLEANUP_FAILED = ''cleanup_failed''"

primrec stage_value :: "stage \<Rightarrow> string" where
  "stage_value S_LEASE = ''lease''"
| "stage_value S_WORKSPACE_DOWNLOAD = ''workspace_download''"
| "stage_value S_WORKSPACE_EXTRACTION = ''workspace_extraction''"
| "stage_value S_DISPATCH = ''dispatch''"
| "stage_value S_COMMIT = ''commit''"
| "stage_value S_VERIFIER_DOWNLOAD = ''verifier_download''"
| "stage_value S_VERIFIER_EXTRACTION = ''verifier_extraction''"
| "stage_value S_VERIFIER_MANIFEST = ''verifier_manifest''"
| "stage_value S_SUBMISSION_DOWNLOAD = ''submission_download''"
| "stage_value S_WORKSPACE_MATERIALIZATION = ''workspace_materialization''"
| "stage_value S_GRADING = ''grading''"
| "stage_value S_PATCH = ''patch''"
| "stage_value S_SETUP = ''setup''"
| "stage_value S_SCRIPT = ''script''"
| "stage_value S_CHECK = ''check''"
| "stage_value S_RESULT_TREE = ''result_tree''"
| "stage_value S_CLEANUP = ''cleanup''"

text \<open>\<open>MinerReason(text)\<close>: decoding by value; \<open>None\<close> is the \<open>ValueError\<close> of an unknown code.\<close>

definition all_miner_reasons :: "miner_reason list" where
  "all_miner_reasons =
     [NOT_SERVING, DISPATCH_FAILED, RESPONSE_UNAVAILABLE, SLOT_MISMATCH, ARTIFACT_INVALID,
      TRAJECTORY_INVALID, PATCH_REJECTED, PATCH_STATIC_REJECTED, PATCH_APPLY_FAILED,
      SCRIPT_REJECTED, WORKING_DIRECTORY_INVALID, SETUP_FAILED, CHECK_FAILED, TIMEOUT,
      MEMORY_LIMIT, OUTPUT_LIMIT, RESULT_TREE_INVALID]"

definition miner_reason_of :: "string \<Rightarrow> miner_reason option" where
  "miner_reason_of s = List.find (\<lambda>r. miner_reason_value r = s) all_miner_reasons"

lemma miner_reason_of_value: "miner_reason_of (miner_reason_value r) = Some r"
  by (cases r; simp only: miner_reason_of_def all_miner_reasons_def; code_simp)

lemma miner_reason_value_inj: "inj miner_reason_value"
  by (rule inj_on_inverseI [where g = "\<lambda>s. the (miner_reason_of s)"])
    (simp add: miner_reason_of_value)

end
