(* ===== verification/Wire.thy ===== *)
theory Wire
  imports Canonical Reasons
begin

text \<open>
  Wire models: bounded scalar fields (\<open>src/rlvr/v3/wire.py\<close>), task identities
  (\<open>identity.py\<close>) and artifact references (\<open>artifacts.py\<close>).  A pydantic model is a record of its
  fields; its \<open>*_fields\<close> predicate is the field constraints, its \<open>check_*\<close> function the validators
  that run after them.  Text fields are HOL strings, code points below 256, on which NFC
  normalisation is the identity and no surrogate occurs.  The lemmas show that an accepted path
  stays inside its root and that accepted artifact models pair role and format.
\<close>

section \<open>Scalar fields\<close>

definition hex_char :: "char \<Rightarrow> bool" where
  "hex_char c \<longleftrightarrow> c \<in> set ''0123456789abcdef''"

definition hex_digest :: "string \<Rightarrow> bool" where
  "hex_digest s \<longleftrightarrow> length s = 64 \<and> list_all hex_char s"

definition bounded_identifier :: "string \<Rightarrow> bool" where
  "bounded_identifier s \<longleftrightarrow> 1 \<le> length s \<and> length s \<le> 128"

definition bounded_url :: "string \<Rightarrow> bool" where
  "bounded_url s \<longleftrightarrow> 1 \<le> length s \<and> length s \<le> 8192"

definition bounded_size :: "int \<Rightarrow> bool" where
  "bounded_size n \<longleftrightarrow> 0 \<le> n \<and> n \<le> SAFE_INTEGER_MAX"

definition positive_bounded_size :: "int \<Rightarrow> bool" where
  "positive_bounded_size n \<longleftrightarrow> 0 < n \<and> n \<le> SAFE_INTEGER_MAX"

definition wire_timestamp :: "int \<Rightarrow> bool" where
  "wire_timestamp n \<longleftrightarrow> 0 \<le> n \<and> n \<le> SAFE_INTEGER_MAX"

definition wire_uid :: "int \<Rightarrow> bool" where
  "wire_uid n \<longleftrightarrow> 0 \<le> n \<and> n \<le> 1023"

definition profile_token :: "string \<Rightarrow> bool" where
  "profile_token s \<longleftrightarrow> 1 \<le> length s \<and> length s \<le> 128 \<and>
     hd s \<in> set ''abcdefghijklmnopqrstuvwxyz0123456789'' \<and>
     list_all (\<lambda>c. c \<in> set ''abcdefghijklmnopqrstuvwxyz0123456789._-'') (tl s)"

section \<open>Relative paths\<close>

text \<open>\<open>str.split(sep)\<close> for a one-character separator.\<close>

fun split_on :: "'a \<Rightarrow> 'a list \<Rightarrow> 'a list list" where
  "split_on c [] = [[]]"
| "split_on c (x # xs) =
     (if x = c then [] # split_on c xs
      else case split_on c xs of [] \<Rightarrow> [[x]] | s # ss \<Rightarrow> (x # s) # ss)"

definition validate_relative_path :: "string \<Rightarrow> string result" where
  "validate_relative_path v =
     (if \<not> (1 \<le> length v \<and> length v \<le> 1024)
        then Inl (ValueError ''relative path length is outside the allowed range'')
      else if CHR 0x00 \<in> set v then Inl (ValueError ''relative paths must not contain NUL bytes'')
      else if CHR 0x5C \<in> set v then Inl (ValueError ''relative paths must use POSIX separators'')
      else if prefix ''/'' v then Inl (ValueError ''relative paths must not be absolute'')
      else if v = ''.'' then Inr v
      else if list_ex (\<lambda>seg. seg \<in> set ['''', ''.'', ''..'']) (split_on CHR ''/'' v)
        then Inl (ValueError ''relative path is not normalized'')
      else Inr v)"

section \<open>Task identities\<close>

record repository_identity =
  rep_task_kind :: string
  rep_instruction :: string
  rep_primary_language :: string
  rep_workspace_sha256 :: string
  rep_verifier_sha256 :: string
  rep_execution_profile_id :: string
  rep_working_directory :: string
  rep_verifier_policy :: string
  rep_authoring_version :: string

record terminal_identity =
  ter_instruction :: string
  ter_environment_sha256 :: string
  ter_verifier_sha256 :: string
  ter_execution_profile_id :: string
  ter_result_tree_path :: string
  ter_verifier_policy :: string
  ter_authoring_version :: string

datatype task_identity =
    RepositoryTask repository_identity
  | TerminalTask terminal_identity

definition repository_fields :: "repository_identity \<Rightarrow> bool" where
  "repository_fields i \<longleftrightarrow>
     rep_task_kind i \<in> set [''bug_fix'', ''feature''] \<and>
     1 \<le> length (rep_instruction i) \<and> length (rep_instruction i) \<le> 500000 \<and>
     1 \<le> length (rep_primary_language i) \<and> length (rep_primary_language i) \<le> 64 \<and>
     hex_digest (rep_workspace_sha256 i) \<and> hex_digest (rep_verifier_sha256 i) \<and>
     profile_token (rep_execution_profile_id i) \<and>
     validate_relative_path (rep_working_directory i) = Inr (rep_working_directory i) \<and>
     profile_token (rep_verifier_policy i) \<and>
     bounded_identifier (rep_authoring_version i)"

definition terminal_fields :: "terminal_identity \<Rightarrow> bool" where
  "terminal_fields i \<longleftrightarrow>
     1 \<le> length (ter_instruction i) \<and> length (ter_instruction i) \<le> 500000 \<and>
     hex_digest (ter_environment_sha256 i) \<and> hex_digest (ter_verifier_sha256 i) \<and>
     profile_token (ter_execution_profile_id i) \<and>
     validate_relative_path (ter_result_tree_path i) = Inr (ter_result_tree_path i) \<and>
     profile_token (ter_verifier_policy i) \<and>
     bounded_identifier (ter_authoring_version i)"

fun identity_fields :: "task_identity \<Rightarrow> bool" where
  "identity_fields (RepositoryTask i) = repository_fields i"
| "identity_fields (TerminalTask i) = terminal_fields i"

fun task_type :: "task_identity \<Rightarrow> string" where
  "task_type (RepositoryTask _) = ''repository_patch_v1''"
| "task_type (TerminalTask _) = ''terminal_script_v1''"

fun identity_verifier_sha256 :: "task_identity \<Rightarrow> string" where
  "identity_verifier_sha256 (RepositoryTask i) = rep_verifier_sha256 i"
| "identity_verifier_sha256 (TerminalTask i) = ter_verifier_sha256 i"

fun identity_profile :: "task_identity \<Rightarrow> string" where
  "identity_profile (RepositoryTask i) = rep_execution_profile_id i"
| "identity_profile (TerminalTask i) = ter_execution_profile_id i"

fun identity_policy :: "task_identity \<Rightarrow> string" where
  "identity_policy (RepositoryTask i) = rep_verifier_policy i"
| "identity_policy (TerminalTask i) = ter_verifier_policy i"

text \<open>\<open>model_dump\<close> of an identity, in field order.\<close>

definition ucs :: "string \<Rightarrow> ustring" where
  "ucs s = map of_char s"

fun identity_json :: "task_identity \<Rightarrow> json" where
  "identity_json (RepositoryTask i) = JObj
     [(ucs ''schema_version'', JInt 1), (ucs ''task_type'', JStr (ucs ''repository_patch_v1'')),
      (ucs ''task_kind'', JStr (ucs (rep_task_kind i))),
      (ucs ''instruction'', JStr (ucs (rep_instruction i))),
      (ucs ''primary_language'', JStr (ucs (rep_primary_language i))),
      (ucs ''workspace_sha256'', JStr (ucs (rep_workspace_sha256 i))),
      (ucs ''verifier_sha256'', JStr (ucs (rep_verifier_sha256 i))),
      (ucs ''execution_profile_id'', JStr (ucs (rep_execution_profile_id i))),
      (ucs ''working_directory'', JStr (ucs (rep_working_directory i))),
      (ucs ''patch_format'', JStr (ucs ''unified_diff_v1'')),
      (ucs ''verifier_policy'', JStr (ucs (rep_verifier_policy i))),
      (ucs ''authoring_version'', JStr (ucs (rep_authoring_version i)))]"
| "identity_json (TerminalTask i) = JObj
     [(ucs ''schema_version'', JInt 1), (ucs ''task_type'', JStr (ucs ''terminal_script_v1'')),
      (ucs ''instruction'', JStr (ucs (ter_instruction i))),
      (ucs ''environment_sha256'', JStr (ucs (ter_environment_sha256 i))),
      (ucs ''verifier_sha256'', JStr (ucs (ter_verifier_sha256 i))),
      (ucs ''execution_profile_id'', JStr (ucs (ter_execution_profile_id i))),
      (ucs ''result_tree_path'', JStr (ucs (ter_result_tree_path i))),
      (ucs ''verifier_policy'', JStr (ucs (ter_verifier_policy i))),
      (ucs ''authoring_version'', JStr (ucs (ter_authoring_version i)))]"

text \<open>\<open>sha256\<close> maps a text (its UTF-8 bytes) to the hexadecimal digest.\<close>

definition TASK_ID_DOMAIN :: ustring where
  "TASK_ID_DOMAIN = ucs ''hone-v3-task-id'' @ [0]"

definition compute_task_id :: "(ustring \<Rightarrow> string) \<Rightarrow> task_identity \<Rightarrow> string result" where
  "compute_task_id sha256 i =
     (if \<not> identity_fields i then Inl (ValueError ''invalid identity'')
      else case canonical_json (\<lambda>s. s) (identity_json i) of
        Inl _ \<Rightarrow> Inl (ValueError ''value cannot be serialized'')
      | Inr t \<Rightarrow> Inr (sha256 (TASK_ID_DOMAIN @ t)))"

section \<open>Artifacts\<close>

datatype archive_role = R_WORKSPACE | R_TERMINAL_ENVIRONMENT | R_DEPENDENCY_BUNDLE | R_VERIFIER
datatype upload_role = U_PATCH | U_SCRIPT | U_TRAJECTORY
datatype upload_format = UNIFIED_DIFF_V1 | BASH_SCRIPT_V1 | TRAJECTORY_V1

primrec upload_format_of :: "upload_role \<Rightarrow> upload_format" where
  "upload_format_of U_PATCH = UNIFIED_DIFF_V1"
| "upload_format_of U_SCRIPT = BASH_SCRIPT_V1"
| "upload_format_of U_TRAJECTORY = TRAJECTORY_V1"

definition validate_upload_format :: "upload_role \<Rightarrow> upload_format \<Rightarrow> unit result" where
  "validate_upload_format r f =
     (if upload_format_of r \<noteq> f then Inl (ValueError ''artifact role and format do not match'')
      else Inr ())"

record artifact_ref =
  ref_role :: archive_role
  ref_sha256 :: string
  compressed_size_bytes :: int
  expanded_size_bytes :: int

definition artifact_ref_fields :: "artifact_ref \<Rightarrow> bool" where
  "artifact_ref_fields a \<longleftrightarrow> hex_digest (ref_sha256 a) \<and>
     bounded_size (compressed_size_bytes a) \<and> bounded_size (expanded_size_bytes a)"

record miner_artifact_ref =
  art_role :: upload_role
  art_format :: upload_format
  art_upload_id :: string
  art_sha256 :: string
  art_size_bytes :: int

definition check_miner_artifact_ref :: "miner_artifact_ref \<Rightarrow> unit result" where
  "check_miner_artifact_ref a =
     (if \<not> (bounded_identifier (art_upload_id a) \<and> hex_digest (art_sha256 a) \<and>
            bounded_size (art_size_bytes a))
      then Inl (ValueError ''field'')
      else validate_upload_format (art_role a) (art_format a))"

record upload_slot =
  slot_challenge_id :: string
  slot_task_id :: string
  slot_uid :: int
  slot_hotkey :: string
  slot_role :: upload_role
  slot_format :: upload_format
  slot_upload_id :: string
  slot_upload_url :: string
  slot_expires_at :: int
  slot_max_bytes :: int

definition check_upload_slot :: "upload_slot \<Rightarrow> unit result" where
  "check_upload_slot s =
     (if \<not> (bounded_identifier (slot_challenge_id s) \<and> hex_digest (slot_task_id s) \<and>
            wire_uid (slot_uid s) \<and> bounded_identifier (slot_hotkey s) \<and>
            bounded_identifier (slot_upload_id s) \<and> bounded_url (slot_upload_url s) \<and>
            wire_timestamp (slot_expires_at s) \<and> positive_bounded_size (slot_max_bytes s))
      then Inl (ValueError ''field'')
      else validate_upload_format (slot_role s) (slot_format s))"

record miner_slot_set =
  sub_slot :: upload_slot
  trj_slot :: upload_slot

definition check_slot_set :: "miner_slot_set \<Rightarrow> unit result" where
  "check_slot_set s =
     rbind (check_upload_slot (sub_slot s)) (\<lambda>_. rbind (check_upload_slot (trj_slot s)) (\<lambda>_.
     if slot_role (sub_slot s) \<notin> {U_PATCH, U_SCRIPT}
       then Inl (ValueError ''submission slot must contain a patch or script'')
     else if slot_role (trj_slot s) \<noteq> U_TRAJECTORY
       then Inl (ValueError ''trajectory slot must contain a trajectory'')
     else if slot_challenge_id (sub_slot s) \<noteq> slot_challenge_id (trj_slot s)
       then Inl (ValueError ''slot binding mismatch: challenge_id'')
     else if slot_task_id (sub_slot s) \<noteq> slot_task_id (trj_slot s)
       then Inl (ValueError ''slot binding mismatch: task_id'')
     else if slot_uid (sub_slot s) \<noteq> slot_uid (trj_slot s)
       then Inl (ValueError ''slot binding mismatch: uid'')
     else if slot_hotkey (sub_slot s) \<noteq> slot_hotkey (trj_slot s)
       then Inl (ValueError ''slot binding mismatch: hotkey'')
     else if slot_upload_id (sub_slot s) = slot_upload_id (trj_slot s)
       then Inl (ValueError ''upload slots must have distinct object identities'')
     else Inr ()))"

record artifact_grant =
  grant_uid :: int
  grant_hotkey :: string
  grant_upload_id :: string
  grant_sha256 :: string
  grant_size_bytes :: int
  grant_format :: upload_format
  grant_read_url :: string

definition artifact_grant_fields :: "artifact_grant \<Rightarrow> bool" where
  "artifact_grant_fields g \<longleftrightarrow> wire_uid (grant_uid g) \<and> bounded_identifier (grant_hotkey g) \<and>
     bounded_identifier (grant_upload_id g) \<and> hex_digest (grant_sha256 g) \<and>
     bounded_size (grant_size_bytes g) \<and> grant_format g \<in> {UNIFIED_DIFF_V1, BASH_SCRIPT_V1} \<and>
     bounded_url (grant_read_url g)"

record artifact_failure =
  fail_uid :: int
  fail_hotkey :: string
  fail_reason :: miner_reason

definition artifact_failure_fields :: "artifact_failure \<Rightarrow> bool" where
  "artifact_failure_fields f \<longleftrightarrow> wire_uid (fail_uid f) \<and> bounded_identifier (fail_hotkey f) \<and>
     fail_reason f \<in> {SLOT_MISMATCH, ARTIFACT_INVALID, TRAJECTORY_INVALID}"

section \<open>Lemmas\<close>

text \<open>A reference reading of a relative path: walking its segments from the root.  \<open>None\<close> is a
  walk that leaves the root.\<close>

fun walk :: "string list \<Rightarrow> string list \<Rightarrow> string list option" where
  "walk at_dir [] = Some at_dir"
| "walk at_dir (seg # segs) =
     (if seg = [] \<or> seg = ''.'' then walk at_dir segs
      else if seg = ''..'' then (case at_dir of [] \<Rightarrow> None | _ # up \<Rightarrow> walk up segs)
      else walk (seg # at_dir) segs)"

lemma split_on_ne [simp]: "split_on c xs \<noteq> []"
  by (induction xs) (auto split: list.split)

lemma split_on_no_sep: "seg \<in> set (split_on c xs) \<Longrightarrow> c \<notin> set seg"
  by (induction xs arbitrary: seg) (auto split: list.splits if_splits)

lemma walk_plain:
  "\<forall>seg \<in> set segs. seg \<notin> {[], ''.'', ''..''} \<Longrightarrow> walk at_dir segs = Some (rev segs @ at_dir)"
  by (induction segs arbitrary: at_dir) auto

lemma validate_relative_path_Inr:
  "validate_relative_path v = Inr w \<longleftrightarrow> w = v \<and> 1 \<le> length v \<and> length v \<le> 1024 \<and>
     CHR 0x00 \<notin> set v \<and> CHR 0x5C \<notin> set v \<and> \<not> prefix ''/'' v \<and>
     (v = ''.'' \<or> (\<forall>seg \<in> set (split_on CHR ''/'' v). seg \<notin> {[], ''.'', ''..''}))"
  by (auto simp: validate_relative_path_def list_ex_iff)

text \<open>Confinement: a relative path that validation accepts is returned unchanged, is not
  absolute, and walking it segment by segment from any directory never leaves that directory: it
  ends at the directory itself (for \<open>.\<close>) or at the path's own segments below it, each of them a
  plain name without a separator.\<close>

theorem relative_path_confined:
  assumes "validate_relative_path v = Inr w"
  shows "w = v \<and> \<not> prefix ''/'' v \<and>
    walk [] (split_on CHR ''/'' v) = Some (if v = ''.'' then [] else rev (split_on CHR ''/'' v)) \<and>
    (\<forall>seg. seg \<in> set (split_on CHR ''/'' v) \<longrightarrow> CHR ''/'' \<notin> set seg \<and> seg \<noteq> ''..'')"
  using assms walk_plain [of "split_on CHR ''/'' v" "[]"] split_on_no_sep [of _ "CHR ''/''" v]
  by (auto simp: validate_relative_path_Inr)

theorem relative_path_confined_witness:
  "walk [] (split_on CHR ''/'' ''src/a.py'') = Some [''a.py'', ''src'']"
  using relative_path_confined [of "''src/a.py''" "''src/a.py''"]
  by (simp add: validate_relative_path_def)

lemma check_slot_set_Inr:
  assumes "check_slot_set s = Inr ()"
  shows "slot_role (sub_slot s) \<in> {U_PATCH, U_SCRIPT}" "slot_role (trj_slot s) = U_TRAJECTORY"
    and "slot_format (sub_slot s) = upload_format_of (slot_role (sub_slot s))"
    and "slot_challenge_id (trj_slot s) = slot_challenge_id (sub_slot s)"
    and "slot_task_id (trj_slot s) = slot_task_id (sub_slot s)"
    and "slot_uid (trj_slot s) = slot_uid (sub_slot s)"
    and "slot_hotkey (trj_slot s) = slot_hotkey (sub_slot s)"
    and "slot_upload_id (trj_slot s) \<noteq> slot_upload_id (sub_slot s)"
    and "wire_uid (slot_uid (sub_slot s))" "0 < slot_max_bytes (sub_slot s)"
  using assms
  by (auto simp: check_slot_set_def check_upload_slot_def validate_upload_format_def
      positive_bounded_size_def rbind_Inr split: if_splits)

lemma ucs_plain [simp]: "validate_protocol_string (\<lambda>s. s) (ucs s) = Inr ()"
proof -
  have "\<not> is_surrogate (of_char c)" for c
    using nat_of_char_less_256 [of c] unfolding is_surrogate_def by linarith
  then show ?thesis by (auto simp: validate_protocol_string_def list_ex_iff ucs_def)
qed

text \<open>Every well-formed identity has a task id.\<close>

lemma compute_task_id_total:
  assumes "identity_fields i"
  shows "\<exists>t. canonical_json (\<lambda>s. s) (identity_json i) = Inr t \<and>
    compute_task_id sha256 i = Inr (sha256 (TASK_ID_DOMAIN @ t))"
proof -
  have "validate_json_value (\<lambda>s. s) 0 (identity_json i) = Inr ()"
    by (cases i) (simp_all add: MAX_NESTING_DEPTH_def safe_integer_def SAFE_INTEGER_MAX_def)
  then obtain t where "canonical_json (\<lambda>s. s) (identity_json i) = Inr t"
    using validated_serializes(1) [OF \<open>validate_json_value _ 0 _ = _\<close>]
    by (auto simp: canonical_json_def)
  then show ?thesis using assms by (simp add: compute_task_id_def)
qed

end
