(* ===== verification/Api.thy ===== *)
theory Api
  imports Wire
begin

text \<open>
  Messages between validator, problem server and miners (\<open>src/rlvr/v3/api.py\<close>).  Every
  \<open>check_*\<close> definition is the construction of that model: field constraints first, then the
  model's own validators, in source order.  The lemmas show what an accepted lease, commit reveal
  and miner response bind together.
\<close>

section \<open>Leases\<close>

definition has_duplicates :: "'a list \<Rightarrow> bool" where
  "has_duplicates xs \<longleftrightarrow> length (remdups xs) \<noteq> length xs"

record miner_candidate =
  cand_uid :: int
  cand_hotkey :: string

record lease_request =
  lr_request_id :: string
  lr_candidates :: "miner_candidate list"
  lr_miners_per_task :: "int option"

definition check_lease_request :: "lease_request \<Rightarrow> unit result" where
  "check_lease_request r =
     (if \<not> (bounded_identifier (lr_request_id r) \<and>
            1 \<le> length (lr_candidates r) \<and> length (lr_candidates r) \<le> 256 \<and>
            list_all (\<lambda>c. wire_uid (cand_uid c) \<and> bounded_identifier (cand_hotkey c)) (lr_candidates r) \<and>
            (case lr_miners_per_task r of None \<Rightarrow> True | Some n \<Rightarrow> 1 \<le> n \<and> n \<le> 256))
      then Inl (ValueError ''field'')
      else if has_duplicates (map cand_uid (lr_candidates r))
        then Inl (ValueError ''candidates must not repeat a uid'')
      else Inr ())"

record lease_response =
  lease_challenge_id :: string
  lease_task_id :: string
  lease_identity :: task_identity
  lease_workspace :: artifact_ref
  lease_workspace_url :: string
  lease_verifier :: artifact_ref
  lease_issued_at :: int
  lease_expires_at :: int
  slot_pool :: "miner_slot_set list"
  commit_min_signed_responses :: int

fun expected_workspace_role :: "task_identity \<Rightarrow> archive_role" where
  "expected_workspace_role (RepositoryTask _) = R_WORKSPACE"
| "expected_workspace_role (TerminalTask _) = R_TERMINAL_ENVIRONMENT"

fun expected_workspace_digest :: "task_identity \<Rightarrow> string" where
  "expected_workspace_digest (RepositoryTask i) = rep_workspace_sha256 i"
| "expected_workspace_digest (TerminalTask i) = ter_environment_sha256 i"

fun expected_submission_role :: "task_identity \<Rightarrow> upload_role" where
  "expected_submission_role (RepositoryTask _) = U_PATCH"
| "expected_submission_role (TerminalTask _) = U_SCRIPT"

text \<open>The loop of \<open>validate_bindings\<close> over the slot pool, with the sets it accumulates.\<close>

fun check_slot_pool ::
  "lease_response \<Rightarrow> miner_slot_set list \<Rightarrow> int list \<Rightarrow> string list \<Rightarrow> string list \<Rightarrow> unit result" where
  "check_slot_pool l [] uids hotkeys upload_ids = Inr ()"
| "check_slot_pool l (s # ss) uids hotkeys upload_ids =
     (if slot_challenge_id (sub_slot s) \<noteq> lease_challenge_id l \<or>
         slot_task_id (sub_slot s) \<noteq> lease_task_id l
        then Inl (ValueError ''slot does not match lease'')
      else if slot_role (sub_slot s) \<noteq> expected_submission_role (lease_identity l)
        then Inl (ValueError ''submission slot does not match task type'')
      else if slot_uid (sub_slot s) \<in> set uids \<or> slot_hotkey (sub_slot s) \<in> set hotkeys
        then Inl (ValueError ''slot pool contains a duplicate miner'')
      else if slot_upload_id (sub_slot s) \<in> set upload_ids
        then Inl (ValueError ''slot pool contains a duplicate upload_id'')
      else if slot_upload_id (trj_slot s) \<in> set (slot_upload_id (sub_slot s) # upload_ids)
        then Inl (ValueError ''slot pool contains a duplicate upload_id'')
      else check_slot_pool l ss (slot_uid (sub_slot s) # uids) (slot_hotkey (sub_slot s) # hotkeys)
             (slot_upload_id (trj_slot s) # slot_upload_id (sub_slot s) # upload_ids))"

definition check_lease_response :: "(ustring \<Rightarrow> string) \<Rightarrow> lease_response \<Rightarrow> unit result" where
  "check_lease_response sha256 l =
     (if \<not> (bounded_identifier (lease_challenge_id l) \<and> hex_digest (lease_task_id l) \<and>
            identity_fields (lease_identity l) \<and> artifact_ref_fields (lease_workspace l) \<and>
            bounded_url (lease_workspace_url l) \<and> artifact_ref_fields (lease_verifier l) \<and>
            wire_timestamp (lease_issued_at l) \<and> wire_timestamp (lease_expires_at l) \<and>
            1 \<le> length (slot_pool l) \<and> length (slot_pool l) \<le> 1024 \<and>
            list_all (\<lambda>s. check_slot_set s = Inr ()) (slot_pool l) \<and>
            0 < commit_min_signed_responses l \<and> commit_min_signed_responses l \<le> 1024)
      then Inl (ValueError ''field'')
      else if compute_task_id sha256 (lease_identity l) \<noteq> Inr (lease_task_id l)
        then Inl (ValueError ''task identity does not match task_id'')
      else if ref_role (lease_workspace l) \<noteq> expected_workspace_role (lease_identity l) \<or>
              ref_sha256 (lease_workspace l) \<noteq> expected_workspace_digest (lease_identity l)
        then Inl (ValueError ''workspace does not match task identity'')
      else if ref_role (lease_verifier l) \<noteq> R_VERIFIER \<or>
              ref_sha256 (lease_verifier l) \<noteq> identity_verifier_sha256 (lease_identity l)
        then Inl (ValueError ''verifier does not match task identity'')
      else if lease_expires_at l \<le> lease_issued_at l
        then Inl (ValueError ''lease must expire after issuance'')
      else if commit_min_signed_responses l > int (length (slot_pool l))
        then Inl (ValueError ''commit quorum exceeds the slot pool'')
      else check_slot_pool l (slot_pool l) [] [] [])"

section \<open>Miner tasks and responses\<close>

record miner_task_request =
  mt_challenge_id :: string
  mt_task_id :: string
  mt_identity :: task_identity
  mt_workspace :: artifact_ref
  mt_workspace_url :: string
  mt_expires_at :: int
  mt_slots :: miner_slot_set

definition check_miner_task_request :: "(ustring \<Rightarrow> string) \<Rightarrow> miner_task_request \<Rightarrow> unit result" where
  "check_miner_task_request sha256 t =
     (if \<not> (bounded_identifier (mt_challenge_id t) \<and> hex_digest (mt_task_id t) \<and>
            identity_fields (mt_identity t) \<and> artifact_ref_fields (mt_workspace t) \<and>
            bounded_url (mt_workspace_url t) \<and> wire_timestamp (mt_expires_at t) \<and>
            check_slot_set (mt_slots t) = Inr ())
      then Inl (ValueError ''field'')
      else if compute_task_id sha256 (mt_identity t) \<noteq> Inr (mt_task_id t)
        then Inl (ValueError ''task identity does not match task_id'')
      else if ref_role (mt_workspace t) \<noteq> expected_workspace_role (mt_identity t) \<or>
              ref_sha256 (mt_workspace t) \<noteq> expected_workspace_digest (mt_identity t)
        then Inl (ValueError ''workspace does not match task identity'')
      else if slot_challenge_id (sub_slot (mt_slots t)) \<noteq> mt_challenge_id t
        then Inl (ValueError ''dispatch slots do not match challenge'')
      else if slot_task_id (sub_slot (mt_slots t)) \<noteq> mt_task_id t
        then Inl (ValueError ''dispatch slots do not match task'')
      else if slot_role (sub_slot (mt_slots t)) \<noteq> expected_submission_role (mt_identity t)
        then Inl (ValueError ''submission slot does not match task type'')
      else Inr ())"

record miner_task_response =
  mr_challenge_id :: string
  mr_task_id :: string
  mr_response_type :: string
  mr_submission :: miner_artifact_ref
  mr_trajectory :: miner_artifact_ref

definition check_miner_task_response :: "miner_task_response \<Rightarrow> unit result" where
  "check_miner_task_response r =
     (if \<not> (bounded_identifier (mr_challenge_id r) \<and> hex_digest (mr_task_id r) \<and>
            mr_response_type r \<in> set [''repository_patch_v1'', ''terminal_script_v1''] \<and>
            check_miner_artifact_ref (mr_submission r) = Inr () \<and>
            check_miner_artifact_ref (mr_trajectory r) = Inr ())
      then Inl (ValueError ''field'')
      else if art_role (mr_submission r) \<noteq>
              (if mr_response_type r = ''repository_patch_v1'' then U_PATCH else U_SCRIPT)
        then Inl (ValueError ''submission does not match response_type'')
      else if art_role (mr_trajectory r) \<noteq> U_TRAJECTORY
        then Inl (ValueError ''trajectory artifact is required'')
      else if art_upload_id (mr_submission r) = art_upload_id (mr_trajectory r)
        then Inl (ValueError ''submission and trajectory upload IDs must differ'')
      else Inr ())"

definition artifact_fits_slot :: "miner_artifact_ref \<Rightarrow> upload_slot \<Rightarrow> bool" where
  "artifact_fits_slot a s \<longleftrightarrow>
     \<not> (art_upload_id a \<noteq> slot_upload_id s \<or> art_role a \<noteq> slot_role s \<or>
        art_format a \<noteq> slot_format s \<or> art_size_bytes a > slot_max_bytes s)"

definition validate_miner_response :: "miner_task_request \<Rightarrow> miner_task_response \<Rightarrow> unit result" where
  "validate_miner_response t r =
     (if mr_challenge_id r \<noteq> mt_challenge_id t \<or> mr_task_id r \<noteq> mt_task_id t
        then Inl (ValueError ''miner response does not match its task'')
      else if mr_response_type r \<noteq> task_type (mt_identity t)
        then Inl (ValueError ''miner response type does not match its task'')
      else if \<not> artifact_fits_slot (mr_submission r) (sub_slot (mt_slots t))
        then Inl (ValueError ''miner artifact does not match its upload slot'')
      else if \<not> artifact_fits_slot (mr_trajectory r) (trj_slot (mt_slots t))
        then Inl (ValueError ''miner artifact does not match its upload slot'')
      else Inr ())"

section \<open>Commit and reveal\<close>

definition EPISTULA_HEADERS :: "string list" where
  "EPISTULA_HEADERS = [''Epistula-Version'', ''Epistula-Timestamp'', ''Epistula-Uuid'',
     ''Epistula-Signed-By'', ''Epistula-Signed-For'', ''Epistula-Request-Signature'']"

record miner_submission =
  ms_uid :: int
  ms_hotkey :: string
  ms_request_id :: string
  response_body :: ustring
  response_headers :: "(string, string) dict"
  ms_error :: ustring
  ms_latency_ms :: int

text \<open>UTF-8 size: one byte below 128, two bytes below 256.\<close>

definition utf8_size :: "string \<Rightarrow> nat" where
  "utf8_size s = sum_list (map (\<lambda>c. if of_char c < (128::nat) then 1 else 2) s)"

text \<open>UTF-8 size of a text given by code points.\<close>

definition utf8_len :: "ustring \<Rightarrow> nat" where
  "utf8_len u = sum_list (map (\<lambda>c. if c < 0x80 then 1 else if c < 0x800 then 2 else if c < 0x10000 then 3 else 4) u)"

text \<open>\<open>_utf8_size\<close>; a lone surrogate cannot be encoded.\<close>

definition utf8_sized :: "ustring \<Rightarrow> nat \<Rightarrow> bool" where
  "utf8_sized u maximum \<longleftrightarrow> \<not> list_ex is_surrogate u \<and> utf8_len u \<le> maximum"

definition check_miner_submission :: "miner_submission \<Rightarrow> unit result" where
  "check_miner_submission m =
     (if \<not> (wire_uid (ms_uid m) \<and> bounded_identifier (ms_hotkey m) \<and>
            bounded_identifier (ms_request_id m) \<and>
            0 \<le> ms_latency_ms m \<and> ms_latency_ms m \<le> SAFE_INTEGER_MAX)
        then Inl (ValueError ''field'')
      else if \<not> utf8_sized (response_body m) 16384
        then Inl (ValueError ''response_body exceeds its UTF-8 byte limit'')
      else if list_ex (\<lambda>(_, v). utf8_size v > 512) (response_headers m)
        then Inl (ValueError ''response header exceeds its UTF-8 byte limit'')
      else if \<not> utf8_sized (ms_error m) 4096
        then Inl (ValueError ''error exceeds its UTF-8 byte limit'')
      else if response_body m \<noteq> []
        then (if ms_error m \<noteq> [] \<or> set (keys (response_headers m)) \<noteq> set EPISTULA_HEADERS
              then Inl (ValueError ''signed response has an invalid envelope'') else Inr ())
      else if ms_error m = [] \<or> response_headers m \<noteq> []
        then Inl (ValueError ''failed response has an invalid envelope'')
      else Inr ())"

record commit_request =
  cr_challenge_id :: string
  cr_submissions :: "miner_submission list"

definition check_commit_request :: "commit_request \<Rightarrow> unit result" where
  "check_commit_request c =
     (if \<not> (bounded_identifier (cr_challenge_id c) \<and> length (cr_submissions c) \<le> 1024 \<and>
            list_all (\<lambda>m. check_miner_submission m = Inr ()) (cr_submissions c))
        then Inl (ValueError ''field'')
      else if has_duplicates (map ms_uid (cr_submissions c)) \<or>
              has_duplicates (map ms_hotkey (cr_submissions c))
        then Inl (ValueError ''commit contains duplicate miner identities'')
      else Inr ())"

record commit_reveal =
  rv_challenge_id :: string
  rv_task_id :: string
  rv_verifier :: artifact_ref
  rv_verifier_policy :: string
  rv_verifier_url :: string
  grading_expires_at :: int
  submission_grants :: "artifact_grant list"
  artifact_failures :: "artifact_failure list"

definition result_uids :: "commit_reveal \<Rightarrow> int list" where
  "result_uids r = map grant_uid (submission_grants r) @ map fail_uid (artifact_failures r)"

definition result_hotkeys :: "commit_reveal \<Rightarrow> string list" where
  "result_hotkeys r = map grant_hotkey (submission_grants r) @ map fail_hotkey (artifact_failures r)"

definition check_commit_reveal :: "commit_reveal \<Rightarrow> unit result" where
  "check_commit_reveal r =
     (if \<not> (bounded_identifier (rv_challenge_id r) \<and> hex_digest (rv_task_id r) \<and>
            artifact_ref_fields (rv_verifier r) \<and>
            rv_verifier_policy r = ''command-gold-digest-v1'' \<and> bounded_url (rv_verifier_url r) \<and>
            wire_timestamp (grading_expires_at r) \<and>
            length (submission_grants r) \<le> 1024 \<and> list_all artifact_grant_fields (submission_grants r) \<and>
            length (artifact_failures r) \<le> 1024 \<and> list_all artifact_failure_fields (artifact_failures r))
        then Inl (ValueError ''field'')
      else if ref_role (rv_verifier r) \<noteq> R_VERIFIER
        then Inl (ValueError ''commit response must contain a verifier'')
      else if length (result_uids r) > 1024
        then Inl (ValueError ''commit response contains too many results'')
      else if has_duplicates (result_uids r) \<or> has_duplicates (result_hotkeys r)
        then Inl (ValueError ''commit response contains duplicate miner identities'')
      else Inr ())"

definition submitted :: "commit_request \<Rightarrow> (int \<times> string) list" where
  "submitted c = map (\<lambda>m. (ms_uid m, ms_hotkey m)) (cr_submissions c)"

definition granted :: "commit_reveal \<Rightarrow> (int \<times> string) list" where
  "granted r = map (\<lambda>g. (grant_uid g, grant_hotkey g)) (submission_grants r)"

definition failed :: "commit_reveal \<Rightarrow> (int \<times> string) list" where
  "failed r = map (\<lambda>f. (fail_uid f, fail_hotkey f)) (artifact_failures r)"

definition validate_commit_reveal ::
  "lease_response \<Rightarrow> commit_request \<Rightarrow> commit_reveal \<Rightarrow> unit result" where
  "validate_commit_reveal l c r =
     (if cr_challenge_id c \<noteq> lease_challenge_id l \<or> rv_challenge_id r \<noteq> lease_challenge_id l
        then Inl (ValueError ''commit challenge binding mismatch'')
      else if rv_task_id r \<noteq> lease_task_id l
        then Inl (ValueError ''commit task binding mismatch'')
      else if ref_sha256 (rv_verifier r) \<noteq> ref_sha256 (lease_verifier l)
        then Inl (ValueError ''commit verifier binding mismatch'')
      else if rv_verifier_policy r \<noteq> identity_policy (lease_identity l)
        then Inl (ValueError ''commit verifier policy mismatch'')
      else if set (granted r @ failed r) \<noteq> set (submitted c)
        then Inl (ValueError ''commit results do not match submitted miners'')
      else Inr ())"

section \<open>Feedback, notices and trace checks\<close>

definition FEEDBACK_LATENCY_MAX_MS :: int where "FEEDBACK_LATENCY_MAX_MS = 3600000"

record feedback_verdict =
  fv_uid :: int
  fv_hotkey :: string
  fv_passed :: bool
  fv_grading_duration_ms :: int
  fv_response_latency_ms :: "int option"
  fv_reason_code :: "miner_reason option"

definition check_feedback_verdict :: "feedback_verdict \<Rightarrow> unit result" where
  "check_feedback_verdict v =
     (if \<not> (wire_uid (fv_uid v) \<and> bounded_identifier (fv_hotkey v) \<and>
            0 \<le> fv_grading_duration_ms v \<and> fv_grading_duration_ms v \<le> SAFE_INTEGER_MAX \<and>
            (case fv_response_latency_ms v of None \<Rightarrow> True
             | Some l \<Rightarrow> 0 \<le> l \<and> l \<le> FEEDBACK_LATENCY_MAX_MS))
        then Inl (ValueError ''field'')
      else if fv_passed v \<and> fv_reason_code v \<noteq> None
        then Inl (ValueError ''a passed verdict carries no reason code'')
      else Inr ())"

record feedback_request =
  fb_challenge_id :: string
  fb_task_id :: string
  fb_verdicts :: "feedback_verdict list"

definition check_feedback_request :: "feedback_request \<Rightarrow> unit result" where
  "check_feedback_request f =
     (if \<not> (bounded_identifier (fb_challenge_id f) \<and> hex_digest (fb_task_id f) \<and>
            1 \<le> length (fb_verdicts f) \<and> length (fb_verdicts f) \<le> 1024 \<and>
            list_all (\<lambda>v. check_feedback_verdict v = Inr ()) (fb_verdicts f))
        then Inl (ValueError ''field'')
      else if has_duplicates (map fv_uid (fb_verdicts f)) \<or>
              has_duplicates (map fv_hotkey (fb_verdicts f))
        then Inl (ValueError ''feedback contains duplicate miner identities'')
      else Inr ())"

text \<open>The reason of a failure explanation: a miner reason or one of two literals.\<close>

datatype explanation_reason = Miner miner_reason | EVALUATION_FAILED | PASSED

record failure_explanation =
  fe_reason_code :: explanation_reason
  fe_failed_check :: "ustring option"

definition FAILED_CHECK_MAX_BYTES :: nat where "FAILED_CHECK_MAX_BYTES = 256 * 1024"

record failure_notice =
  fn_challenge_id :: string
  fn_task_id :: string
  fn_uid :: int
  fn_hotkey :: string
  fn_failure :: failure_explanation

record trace_check_request =
  tc_challenge_id :: string
  tc_task_id :: string
  tc_uid :: int
  tc_hotkey :: string
  tc_trajectory :: miner_artifact_ref
  tc_submission_status :: string

definition check_trace_check_request :: "trace_check_request \<Rightarrow> unit result" where
  "check_trace_check_request t =
     (if \<not> (bounded_identifier (tc_challenge_id t) \<and> hex_digest (tc_task_id t) \<and>
            wire_uid (tc_uid t) \<and> bounded_identifier (tc_hotkey t) \<and>
            check_miner_artifact_ref (tc_trajectory t) = Inr () \<and>
            tc_submission_status t \<in> set [''passed'', ''failed'', ''rejected''])
        then Inl (ValueError ''field'')
      else if art_role (tc_trajectory t) \<noteq> U_TRAJECTORY
        then Inl (ValueError ''a trace check must reference a trajectory'')
      else Inr ())"

section \<open>Lemmas\<close>

lemma ucs_no_surrogate [simp]: "\<not> list_ex is_surrogate (ucs s)"
proof -
  have "\<not> is_surrogate (of_char c)" for c using nat_of_char_less_256 [of c] unfolding is_surrogate_def by linarith
  then show ?thesis by (simp add: list_ex_iff ucs_def)
qed

lemma has_duplicates_iff [simp]: "has_duplicates xs \<longleftrightarrow> \<not> distinct xs"
  by (simp add: has_duplicates_def)

text \<open>What the loop over the slot pool establishes, given what it has seen so far.\<close>

lemma check_slot_pool_Inr:
  "check_slot_pool l ss uids hks ids = Inr () \<longleftrightarrow>
     (\<forall>s \<in> set ss. slot_challenge_id (sub_slot s) = lease_challenge_id l \<and>
        slot_task_id (sub_slot s) = lease_task_id l \<and>
        slot_role (sub_slot s) = expected_submission_role (lease_identity l)) \<and>
     distinct (map (slot_uid \<circ> sub_slot) ss) \<and> set uids \<inter> set (map (slot_uid \<circ> sub_slot) ss) = {} \<and>
     distinct (map (slot_hotkey \<circ> sub_slot) ss) \<and> set hks \<inter> set (map (slot_hotkey \<circ> sub_slot) ss) = {} \<and>
     distinct (concat (map (\<lambda>s. [slot_upload_id (sub_slot s), slot_upload_id (trj_slot s)]) ss)) \<and>
     set ids \<inter> set (concat (map (\<lambda>s. [slot_upload_id (sub_slot s), slot_upload_id (trj_slot s)]) ss)) = {}"
proof (induction ss arbitrary: uids hks ids)
  case (Cons s ss)
  show ?case
    unfolding check_slot_pool.simps
    by (simp only: Cons.IH split: if_split) auto
qed simp

text \<open>The registrations a lease has slots for.\<close>

definition pool_registrations :: "lease_response \<Rightarrow> (int \<times> string) list" where
  "pool_registrations l = map (\<lambda>s. (slot_uid (sub_slot s), slot_hotkey (sub_slot s))) (slot_pool l)"

text \<open>Lease bindings: an accepted lease names the task its identity hashes to, its
  workspace and verifier are the ones the identity commits to, every slot is for this challenge and
  task and for the right kind of submission, no uid, no hotkey and no upload object occurs twice,
  and the quorum can be met by the pool.\<close>

theorem lease_response_bindings:
  assumes "check_lease_response sha256 l = Inr ()"
  shows "compute_task_id sha256 (lease_identity l) = Inr (lease_task_id l) \<and>
    ref_sha256 (lease_workspace l) = expected_workspace_digest (lease_identity l) \<and>
    ref_sha256 (lease_verifier l) = identity_verifier_sha256 (lease_identity l) \<and>
    lease_issued_at l < lease_expires_at l \<and>
    0 < commit_min_signed_responses l \<and> commit_min_signed_responses l \<le> int (length (slot_pool l)) \<and>
    (\<forall>s \<in> set (slot_pool l). slot_challenge_id (sub_slot s) = lease_challenge_id l \<and>
       slot_task_id (sub_slot s) = lease_task_id l \<and>
       slot_role (sub_slot s) = expected_submission_role (lease_identity l) \<and>
       slot_uid (trj_slot s) = slot_uid (sub_slot s) \<and>
       slot_hotkey (trj_slot s) = slot_hotkey (sub_slot s)) \<and>
    distinct (map fst (pool_registrations l)) \<and> distinct (map snd (pool_registrations l)) \<and>
    distinct (concat (map (\<lambda>s. [slot_upload_id (sub_slot s), slot_upload_id (trj_slot s)]) (slot_pool l)))"
proof -
  have pool: "check_slot_pool l (slot_pool l) [] [] [] = Inr ()"
    and sets: "\<forall>s \<in> set (slot_pool l). check_slot_set s = Inr ()"
    and rest: "compute_task_id sha256 (lease_identity l) = Inr (lease_task_id l)"
      "ref_sha256 (lease_workspace l) = expected_workspace_digest (lease_identity l)"
      "ref_sha256 (lease_verifier l) = identity_verifier_sha256 (lease_identity l)"
      "lease_issued_at l < lease_expires_at l" "0 < commit_min_signed_responses l"
      "commit_min_signed_responses l \<le> int (length (slot_pool l))"
    using assms by (auto simp: check_lease_response_def list_all_iff split: if_splits)
  show ?thesis
    using rest sets check_slot_set_Inr(6,7) pool [unfolded check_slot_pool_Inr]
    by (auto simp: pool_registrations_def comp_def)
qed

lemma commit_partition:
  assumes "check_commit_request c = Inr ()" "check_commit_reveal r = Inr ()" "validate_commit_reveal l c r = Inr ()"
  shows "distinct (map fst (granted r @ failed r))" and "mset (granted r @ failed r) = mset (submitted c)"
proof -
  show d: "distinct (map fst (granted r @ failed r))"
    using assms(2) by (auto simp: check_commit_reveal_def result_uids_def granted_def failed_def
        comp_def split: if_splits)
  have ds: "distinct (map fst (submitted c))"
    using assms(1) by (auto simp: check_commit_request_def submitted_def comp_def split: if_splits)
  have set: "set (granted r @ failed r) = set (submitted c)"
    using assms(3) by (auto simp: validate_commit_reveal_def split: if_splits)
  have "distinct (granted r @ failed r)" "distinct (submitted c)"
    using d ds by (metis distinct_map)+
  then show "mset (granted r @ failed r) = mset (submitted c)"
    using set set_eq_iff_mset_eq_distinct by blast
qed

text \<open>C36. Reveal accounting: when a commit, a reveal and the lease validate together, the reveal
  is for the lease's challenge, task, verifier and policy, and every submitted miner has exactly
  one result: it is granted or failed and not both, and nobody else has one.\<close>

theorem commit_reveal_partitions:
  assumes "check_commit_request c = Inr ()" "check_commit_reveal r = Inr ()"
    "validate_commit_reveal l c r = Inr ()"
  shows "rv_challenge_id r = lease_challenge_id l \<and> rv_task_id r = lease_task_id l \<and>
    ref_sha256 (rv_verifier r) = ref_sha256 (lease_verifier l) \<and>
    rv_verifier_policy r = identity_policy (lease_identity l) \<and>
    set (granted r) \<union> set (failed r) = set (submitted c) \<and>
    set (granted r) \<inter> set (failed r) = {} \<and>
    distinct (map fst (granted r @ failed r)) \<and>
    length (submission_grants r) + length (artifact_failures r) = length (cr_submissions c)"
proof -
  note part = commit_partition [OF assms]
  have "distinct (granted r @ failed r)" using part(1) by (metis distinct_map)
  then have "set (granted r) \<inter> set (failed r) = {}" by simp
  moreover have "set (granted r) \<union> set (failed r) = set (submitted c)" using part(2) by (metis mset_eq_setD set_append)
  moreover have "length (submission_grants r) + length (artifact_failures r) = length (cr_submissions c)"
    using mset_eq_length [OF part(2)] by (simp add: granted_def failed_def submitted_def)
  ultimately show ?thesis
    using assms(3) part(1) by (auto simp: validate_commit_reveal_def split: if_splits)
qed

lemma validate_miner_response_Inr:
  assumes "validate_miner_response t r = Inr ()"
  shows "mr_challenge_id r = mt_challenge_id t" "mr_task_id r = mt_task_id t"
    and "mr_response_type r = task_type (mt_identity t)"
    and "art_upload_id (mr_submission r) = slot_upload_id (sub_slot (mt_slots t))"
    and "art_size_bytes (mr_submission r) \<le> slot_max_bytes (sub_slot (mt_slots t))"
    and "art_upload_id (mr_trajectory r) = slot_upload_id (trj_slot (mt_slots t))"
    and "art_size_bytes (mr_trajectory r) \<le> slot_max_bytes (trj_slot (mt_slots t))"
  using assms by (auto simp: validate_miner_response_def artifact_fits_slot_def split: if_splits)

section \<open>A concrete exchange\<close>

text \<open>One repository task offered to two miners, one of which is granted and one failed.\<close>

definition digest_a :: string where "digest_a = replicate 64 CHR ''a''"
definition digest_b :: string where "digest_b = replicate 64 CHR ''b''"

definition identity_example :: task_identity where
  "identity_example = RepositoryTask \<lparr>rep_task_kind = ''bug_fix'', rep_instruction = ''fix'',
     rep_primary_language = ''python'', rep_workspace_sha256 = digest_a,
     rep_verifier_sha256 = digest_b, rep_execution_profile_id = ''repo-polyglot-v1'',
     rep_working_directory = ''.'', rep_verifier_policy = ''command-gold-digest-v1'',
     rep_authoring_version = ''1''\<rparr>"

definition slot_example :: "int \<Rightarrow> string \<Rightarrow> upload_role \<Rightarrow> string \<Rightarrow> upload_slot" where
  "slot_example uid hk role uploadid = \<lparr>slot_challenge_id = ''ch'', slot_task_id = digest_a,
     slot_uid = uid, slot_hotkey = hk, slot_role = role, slot_format = upload_format_of role,
     slot_upload_id = uploadid, slot_upload_url = ''https://s'', slot_expires_at = 2000,
     slot_max_bytes = 1000\<rparr>"

definition slots_example :: "int \<Rightarrow> string \<Rightarrow> string \<Rightarrow> string \<Rightarrow> miner_slot_set" where
  "slots_example uid hk p t = \<lparr>sub_slot = slot_example uid hk U_PATCH p,
     trj_slot = slot_example uid hk U_TRAJECTORY t\<rparr>"

definition ref_example :: "archive_role \<Rightarrow> string \<Rightarrow> artifact_ref" where
  "ref_example role sha = \<lparr>ref_role = role, ref_sha256 = sha, compressed_size_bytes = 10,
     expanded_size_bytes = 20\<rparr>"

definition lease_example :: lease_response where
  "lease_example = \<lparr>lease_challenge_id = ''ch'', lease_task_id = digest_a,
     lease_identity = identity_example, lease_workspace = ref_example R_WORKSPACE digest_a,
     lease_workspace_url = ''https://w'', lease_verifier = ref_example R_VERIFIER digest_b,
     lease_issued_at = 1000, lease_expires_at = 2000,
     slot_pool = [slots_example 3 ''h3'' ''p3'' ''t3'', slots_example 7 ''h7'' ''p7'' ''t7''],
     commit_min_signed_responses = 1\<rparr>"

definition submission_example :: "int \<Rightarrow> string \<Rightarrow> miner_submission" where
  "submission_example uid hk = \<lparr>ms_uid = uid, ms_hotkey = hk, ms_request_id = ''r'',
     response_body = [], response_headers = [], ms_error = ucs ''late'', ms_latency_ms = 5\<rparr>"

definition commit_example :: commit_request where
  "commit_example = \<lparr>cr_challenge_id = ''ch'',
     cr_submissions = [submission_example 3 ''h3'', submission_example 7 ''h7'']\<rparr>"

definition grant_example :: "int \<Rightarrow> string \<Rightarrow> string \<Rightarrow> artifact_grant" where
  "grant_example uid hk upl = \<lparr>grant_uid = uid, grant_hotkey = hk, grant_upload_id = upl,
     grant_sha256 = digest_a, grant_size_bytes = 12, grant_format = UNIFIED_DIFF_V1,
     grant_read_url = ''https://g''\<rparr>"

definition reveal_example :: commit_reveal where
  "reveal_example = \<lparr>rv_challenge_id = ''ch'', rv_task_id = digest_a,
     rv_verifier = ref_example R_VERIFIER digest_b, rv_verifier_policy = ''command-gold-digest-v1'',
     rv_verifier_url = ''https://v'', grading_expires_at = 3000,
     submission_grants = [grant_example 7 ''h7'' ''p7''],
     artifact_failures = [\<lparr>fail_uid = 3, fail_hotkey = ''h3'', fail_reason = ARTIFACT_INVALID\<rparr>]\<rparr>"

lemmas exchange_examples = lease_example_def slots_example_def slot_example_def ref_example_def
  identity_example_def commit_example_def submission_example_def reveal_example_def
  grant_example_def

lemma digest_examples [simp]: "hex_digest digest_a" "hex_digest digest_b"
  by (simp_all add: hex_digest_def digest_a_def digest_b_def hex_char_def list_all_iff)

lemmas field_defs = bounded_identifier_def bounded_url_def bounded_size_def wire_timestamp_def
  wire_uid_def positive_bounded_size_def SAFE_INTEGER_MAX_def

lemma identity_example_ok: "identity_fields identity_example"
  by (simp add: identity_example_def repository_fields_def profile_token_def
      validate_relative_path_def bounded_identifier_def)

lemma slots_example_ok:
  "wire_uid uid \<Longrightarrow> bounded_identifier hk \<Longrightarrow> bounded_identifier p \<Longrightarrow> bounded_identifier t \<Longrightarrow>
   p \<noteq> t \<Longrightarrow> check_slot_set (slots_example uid hk p t) = Inr ()"
  by (simp add: check_slot_set_def check_upload_slot_def validate_upload_format_def
      slots_example_def slot_example_def bounded_url_def bounded_identifier_def
      wire_timestamp_def positive_bounded_size_def SAFE_INTEGER_MAX_def)

lemma lease_example_ok: "check_lease_response (\<lambda>_. digest_a) lease_example = Inr ()"
proof -
  have id: "compute_task_id (\<lambda>_. digest_a) identity_example = Inr digest_a"
    using compute_task_id_total [OF identity_example_ok, of "\<lambda>_. digest_a"] by auto
  have sl: "check_slot_set (slots_example 3 ''h3'' ''p3'' ''t3'') = Inr ()"
    "check_slot_set (slots_example 7 ''h7'' ''p7'' ''t7'') = Inr ()"
    by (rule slots_example_ok; simp add: field_defs)+
  have pool: "check_slot_pool lease_example (slot_pool lease_example) [] [] [] = Inr ()"
    by (simp add: exchange_examples)
  show ?thesis
    using id identity_example_ok sl pool
    unfolding check_lease_response_def
    by (simp add: lease_example_def ref_example_def artifact_ref_fields_def field_defs
        identity_example_def)
qed

theorem lease_response_bindings_witness:
  "ref_sha256 (lease_verifier lease_example) = digest_b \<and>
   distinct (map fst (pool_registrations lease_example))"
  using lease_response_bindings [OF lease_example_ok] by (simp add: lease_example_def identity_example_def)

theorem commit_reveal_partitions_witness:
  "set (granted reveal_example) \<inter> set (failed reveal_example) = {} \<and>
   length (submission_grants reveal_example) + length (artifact_failures reveal_example) =
     length (cr_submissions commit_example)"
  using commit_reveal_partitions [of commit_example reveal_example lease_example]
  by (simp add: check_commit_request_def check_commit_reveal_def validate_commit_reveal_def
      check_miner_submission_def utf8_size_def utf8_sized_def utf8_len_def exchange_examples field_defs granted_def failed_def
      submitted_def result_uids_def result_hotkeys_def artifact_ref_fields_def
      artifact_grant_fields_def artifact_failure_fields_def)

end
