(* ===== verification/Files.thy ===== *)
theory Files
  imports Api
begin

text \<open>
  Paths and trees of files.  \<open>normpath\<close> is \<open>posixpath.normpath\<close> of the standard library; \<open>node\<close> is
  a file tree as \<open>lstat\<close> and \<open>scandir\<close> show it.  On them: \<open>inspect_tree\<close> (\<open>src/rlvr/v3/tree.py\<close>),
  \<open>_task_directory\<close> of \<open>grading.py\<close>, and the copy of \<open>workspace.py\<close>.  The lemmas show that an
  inspected tree holds nothing but plain directories and singly linked files in_limits the limits.
\<close>

type_synonym bytes = string

section \<open>Path text\<close>

fun join_with :: "'a \<Rightarrow> 'a list list \<Rightarrow> 'a list" where
  "join_with c [] = []"
| "join_with c [s] = s"
| "join_with c (s # t # ss) = s @ [c] @ join_with c (t # ss)"

abbreviation slash :: char where "slash \<equiv> CHR ''/''"

definition posix :: "string list \<Rightarrow> string" where
  "posix segs = join_with slash segs"

fun norm_comps :: "bool \<Rightarrow> string list \<Rightarrow> string list \<Rightarrow> string list" where
  "norm_comps rooted [] acc = rev acc"
| "norm_comps rooted (c # cs) acc =
     (if c = [] \<or> c = ''.'' then norm_comps rooted cs acc
      else if c \<noteq> ''..'' \<or> (\<not> rooted \<and> acc = []) \<or> (acc \<noteq> [] \<and> hd acc = ''..'')
        then norm_comps rooted cs (c # acc)
      else norm_comps rooted cs (tl acc))"

definition initial_slashes :: "string \<Rightarrow> nat" where
  "initial_slashes p =
     (if prefix ''//'' p \<and> \<not> prefix ''///'' p then 2 else if prefix ''/'' p then 1 else 0)"

definition normpath :: "string \<Rightarrow> string" where
  "normpath p =
     (if p = [] then ''.''
      else let n = initial_slashes p;
               q = replicate n slash @ posix (norm_comps (n > 0) (split_on slash p) []) in
           if q = [] then ''.'' else q)"

definition absolute_container_path :: "bool \<Rightarrow> string \<Rightarrow> bool" where
  "absolute_container_path allow_root v \<longleftrightarrow>
     prefix ''/'' v \<and> \<not> prefix ''//'' v \<and> (allow_root \<or> v \<noteq> ''/'') \<and>
     normpath v = v \<and> CHR 0x00 \<notin> set v"

section \<open>File trees\<close>

text \<open>A regular file has contents, a mode and a link count; a directory a mode and entries.\<close>

datatype node =
    Reg bytes nat nat
  | Dir nat "(string \<times> node) list"
  | Symlink string
  | Special

fun is_dir :: "node \<Rightarrow> bool" where
  "is_dir (Dir _ _) = True"
| "is_dir _ = False"

fun is_reg :: "node \<Rightarrow> bool" where
  "is_reg (Reg _ _ _) = True"
| "is_reg _ = False"

fun node_size :: "node \<Rightarrow> int" where
  "node_size (Reg b _ _) = int (length b)"
| "node_size _ = 0"

definition has_bit :: "nat \<Rightarrow> nat \<Rightarrow> bool" where
  "has_bit mode b \<longleftrightarrow> odd (mode div b)"

abbreviation user_read :: nat where "user_read \<equiv> 256"
abbreviation user_exec :: nat where "user_exec \<equiv> 64"

text \<open>\<open>lstat\<close> of a path below a node; a symbolic link is not followed by any step.\<close>

fun node_at :: "node \<Rightarrow> string list \<Rightarrow> node option" where
  "node_at n [] = Some n"
| "node_at (Dir m es) (s # ss) =
     (case map_of es s of None \<Rightarrow> None | Some c \<Rightarrow> node_at c ss)"
| "node_at _ (s # ss) = None"

text \<open>\<open>_task_directory\<close>: every step must be a real directory.\<close>

fun task_steps :: "node \<Rightarrow> string list \<Rightarrow> node option" where
  "task_steps n [] = (if is_dir n then Some n else None)"
| "task_steps n (s # ss) =
     (case node_at n [s] of
        None \<Rightarrow> None
      | Some c \<Rightarrow> if is_dir c then task_steps c ss else None)"

definition task_directory :: "node \<Rightarrow> string \<Rightarrow> node option" where
  "task_directory base relative =
     task_steps base (if relative = ''.'' then [] else split_on slash relative)"

section \<open>inspect\_tree\<close>

datatype tree_error =
    RootNotDirectory | NotInspectable | UnsafePath | GitMetadata | PathTooLong | UnsafeEntry
  | TooManyEntries | FileTooLarge | TotalTooLarge

record tree_limits =
  max_entries :: int
  max_file_bytes :: int
  max_total_file_bytes :: int
  max_path_bytes :: int

definition check_tree_limits :: "tree_limits \<Rightarrow> tree_limits result" where
  "check_tree_limits l =
     (if list_ex (\<lambda>v. v \<le> 0) [max_entries l, max_file_bytes l, max_total_file_bytes l, max_path_bytes l]
      then Inl (ValueError ''tree limits must be positive integers'') else Inr l)"

type_synonym inspected = "(string list \<times> node) list"

text \<open>One entry of the walk: the checks in source order, with what was inspected before.\<close>

definition inspect_entry ::
  "tree_limits option \<Rightarrow> string list \<Rightarrow> node \<Rightarrow> inspected \<times> int \<Rightarrow> tree_error + inspected \<times> int" where
  "inspect_entry limits segs n acc =
     (case acc of (seen, bytes_seen) \<Rightarrow>
      let relative = posix segs in
      if validate_relative_path relative \<noteq> Inr relative then Inl UnsafePath
      else if ''.git'' \<in> set (split_on slash relative) then Inl GitMetadata
      else if (case limits of None \<Rightarrow> False | Some l \<Rightarrow> int (utf8_size relative) > max_path_bytes l)
        then Inl PathTooLong
      else if \<not> is_dir n \<and> (case n of Reg _ _ k \<Rightarrow> k \<noteq> 1 | _ \<Rightarrow> True) then Inl UnsafeEntry
      else if (case limits of None \<Rightarrow> False | Some l \<Rightarrow> int (length seen) + 1 > max_entries l)
        then Inl TooManyEntries
      else if is_dir n then Inr (seen @ [(segs, n)], bytes_seen)
      else if (case limits of None \<Rightarrow> False | Some l \<Rightarrow> node_size n > max_file_bytes l)
        then Inl FileTooLarge
      else if (case limits of None \<Rightarrow> False | Some l \<Rightarrow> bytes_seen + node_size n > max_total_file_bytes l)
        then Inl TotalTooLarge
      else Inr (seen @ [(segs, n)], bytes_seen + node_size n))"

fun inspect_entries ::
  "tree_limits option \<Rightarrow> string list \<Rightarrow> (string \<times> node) list \<Rightarrow> inspected \<times> int \<Rightarrow>
   tree_error + inspected \<times> int" where
  "inspect_entries limits pre [] acc = Inr acc"
| "inspect_entries limits pre ((name, n) # es) acc =
     rbind (inspect_entry limits (pre @ [name]) n acc) (\<lambda>acc'. inspect_entries limits pre es acc')"

definition sorted_dirs :: "(string \<times> node) list \<Rightarrow> (string \<times> node) list" where
  "sorted_dirs es = sort_key (\<lambda>(name, _). map of_char name :: nat list) (filter (\<lambda>(_, n). is_dir n) es)"

definition sorted_files :: "(string \<times> node) list \<Rightarrow> (string \<times> node) list" where
  "sorted_files es = sort_key (\<lambda>(name, _). map of_char name :: nat list) (filter (\<lambda>(_, n). \<not> is_dir n) es)"

text \<open>\<open>os.walk\<close>: a directory's own entries first, then each subdirectory in sorted order.\<close>

function walk_tree ::
  "tree_limits option \<Rightarrow> (string list \<times> node) list \<Rightarrow> inspected \<times> int \<Rightarrow>
   tree_error + inspected \<times> int" where
  "walk_tree limits [] acc = Inr acc"
| "walk_tree limits ((pre, Dir m es) # rest) acc =
     (if \<not> has_bit m user_read \<or> (es \<noteq> [] \<and> \<not> has_bit m user_exec) then Inl NotInspectable
      else rbind (inspect_entries limits pre (sorted_dirs es @ sorted_files es) acc) (\<lambda>acc'.
           walk_tree limits (map (\<lambda>(name, n). (pre @ [name], n)) (sorted_dirs es) @ rest) acc'))"
| "walk_tree limits ((pre, Reg b m k) # rest) acc = walk_tree limits rest acc"
| "walk_tree limits ((pre, Symlink t) # rest) acc = walk_tree limits rest acc"
| "walk_tree limits ((pre, Special) # rest) acc = walk_tree limits rest acc"
  by pat_completeness auto

lemma sorted_dirs_size:
  "sum_list (map (\<lambda>(name, n). Suc (size n)) (sorted_dirs es)) < size (Dir m es)"
proof -
  have "sum_list (map (\<lambda>(name, n). Suc (size n)) (sorted_dirs es)) =
      sum_list (map (\<lambda>(name, n). Suc (size n)) (filter (\<lambda>(_, n). is_dir n) es))"
    by (simp add: sorted_dirs_def flip: sum_mset_sum_list)
  also have "\<dots> < size (Dir m es)"
    by (induction es) auto
  finally show ?thesis .
qed

termination walk_tree
proof (relation "measure (\<lambda>(_, st, _). sum_list (map (\<lambda>(_, n). Suc (size n)) st))")
  fix limits :: "tree_limits option" and pre m es rest acc acc'
  have "sum_list (map (\<lambda>(_, n). Suc (size n)) (map (\<lambda>(name, n). (pre @ [name], n)) (sorted_dirs es))) =
      sum_list (map (\<lambda>(name, n). Suc (size n)) (sorted_dirs es))"
    by (simp add: comp_def case_prod_unfold)
  then show "((limits, map (\<lambda>(name, n). (pre @ [name], n)) (sorted_dirs es) @ rest, acc'),
      limits, (pre, Dir m es) # rest, acc)
    \<in> measure (\<lambda>(_, st, _). sum_list (map (\<lambda>(_, n). Suc (size n)) st))"
    using sorted_dirs_size [of es m] by simp
qed auto

text \<open>\<open>normalize_modes\<close>: 0755 for directories and user-executable files, 0644 for the rest.\<close>

fun normalize_modes :: "node \<Rightarrow> node" where
  "normalize_modes (Dir m es) = Dir 493 (map (\<lambda>(name, n). (name, normalize_modes n)) es)"
| "normalize_modes (Reg b m k) = Reg b (if has_bit m user_exec then 493 else 420) k"
| "normalize_modes n = n"

text \<open>The report and the tree afterwards; an error leaves the modes alone.\<close>

definition inspect_tree ::
  "tree_limits option \<Rightarrow> bool \<Rightarrow> node \<Rightarrow> (tree_error + string list \<times> int) \<times> node" where
  "inspect_tree limits norm_modes base =
     (if \<not> is_dir base then (Inl RootNotDirectory, base)
      else case walk_tree limits [([], base)] ([], 0) of
        Inl e \<Rightarrow> (Inl e, base)
      | Inr (seen, file_bytes) \<Rightarrow>
          (Inr (sort_key (map of_char :: string \<Rightarrow> nat list) (map (posix \<circ> fst) seen), file_bytes),
           if norm_modes then normalize_modes base else base))"

section \<open>What an accepted tree is\<close>

text \<open>The reference: every entry of a tree with its path.\<close>

fun entries_of :: "string list \<Rightarrow> node \<Rightarrow> (string list \<times> node) list" where
  "entries_of pre (Dir m es) =
     concat (map (\<lambda>(name, n). (pre @ [name], n) # entries_of (pre @ [name]) n) es)"
| "entries_of pre _ = []"

definition safe_entry :: "tree_limits option \<Rightarrow> string list \<times> node \<Rightarrow> bool" where
  "safe_entry limits = (\<lambda>(segs, n).
     validate_relative_path (posix segs) = Inr (posix segs) \<and>
     ''.git'' \<notin> set (split_on slash (posix segs)) \<and>
     (case n of Dir _ _ \<Rightarrow> True | Reg _ _ k \<Rightarrow> k = 1 | _ \<Rightarrow> False) \<and>
     (case limits of None \<Rightarrow> True
      | Some l \<Rightarrow> int (utf8_size (posix segs)) \<le> max_path_bytes l \<and>
                 (is_dir n \<or> node_size n \<le> max_file_bytes l)))"

definition total_size :: "(string list \<times> node) list \<Rightarrow> int" where
  "total_size xs = sum_list (map (node_size \<circ> snd) xs)"

definition in_limits :: "tree_limits option \<Rightarrow> inspected \<times> int \<Rightarrow> bool" where
  "in_limits limits = (\<lambda>(seen, t). case limits of None \<Rightarrow> True
     | Some l \<Rightarrow> int (length seen) \<le> max_entries l \<and> t \<le> max_total_file_bytes l)"

lemma inspect_entry_Inr:
  assumes "inspect_entry limits segs n (seen, t) = Inr acc"
  shows "acc = (seen @ [(segs, n)], t + node_size n)" "safe_entry limits (segs, n)"
    "in_limits limits (seen, t) \<Longrightarrow> in_limits limits acc"
  using assms
  by (cases n; cases limits;
      auto simp: inspect_entry_def safe_entry_def in_limits_def Let_def split: if_splits)+

lemma inspect_entries_Inr:
  assumes "inspect_entries limits pre es (seen, t) = Inr acc"
  shows "acc = (seen @ map (\<lambda>(name, n). (pre @ [name], n)) es,
                t + total_size (map (\<lambda>(name, n). (pre @ [name], n)) es)) \<and>
    (\<forall>(name, n) \<in> set es. safe_entry limits (pre @ [name], n)) \<and>
    (in_limits limits (seen, t) \<longrightarrow> in_limits limits acc)"
  using assms
proof (induction es arbitrary: seen t)
  case (Cons e es)
  obtain name n where e: "e = (name, n)" by (cases e)
  obtain acc1 where a: "inspect_entry limits (pre @ [name]) n (seen, t) = Inr acc1"
    "inspect_entries limits pre es acc1 = Inr acc"
    using Cons.prems e by (auto simp: rbind_Inr)
  note i = inspect_entry_Inr [OF a(1)]
  from Cons.IH [of "seen @ [(pre @ [name], n)]" "t + node_size n"] a(2) i
  show ?case by (auto simp: e total_size_def)
qed (simp add: total_size_def)

lemma mset_dirs_files: "mset (sorted_dirs es @ sorted_files es) = mset es"
  by (simp add: sorted_dirs_def sorted_files_def multiset_partition [symmetric])

lemma entries_not_dir [simp]: "\<not> is_dir n \<Longrightarrow> entries_of pre n = []"
  by (cases n) auto

lemma mset_concat_filter:
  "(\<And>x. x \<in> set xs \<Longrightarrow> \<not> P x \<Longrightarrow> f x = []) \<Longrightarrow>
   mset (concat (map f (filter P xs))) = mset (concat (map f xs))"
  by (induction xs) auto

lemma mset_entries_dir:
  "mset (entries_of pre (Dir m es)) =
     mset (map (\<lambda>(name, n). (pre @ [name], n)) (sorted_dirs es @ sorted_files es)) +
     mset (concat (map (\<lambda>(name, n). entries_of (pre @ [name]) n) (sorted_dirs es)))"
proof -
  have "mset (concat (map (\<lambda>(name, n). entries_of (pre @ [name]) n) (sorted_dirs es))) =
      mset (concat (map (\<lambda>(name, n). entries_of (pre @ [name]) n) (filter (\<lambda>(_, n). is_dir n) es)))"
    by (simp add: sorted_dirs_def mset_concat flip: sum_mset_sum_list)
  also have "\<dots> = mset (concat (map (\<lambda>(name, n). entries_of (pre @ [name]) n) es))"
    by (rule mset_concat_filter) auto
  finally have sub: "mset (concat (map (\<lambda>(name, n). entries_of (pre @ [name]) n) (sorted_dirs es))) = \<dots>" .
  have "mset (map (\<lambda>(name, n). (pre @ [name], n)) (sorted_dirs es @ sorted_files es)) =
      mset (map (\<lambda>(name, n). (pre @ [name], n)) es)"
    by (simp only: mset_map mset_dirs_files)
  moreover have "mset (concat (map (\<lambda>(name, n). (pre @ [name], n) # entries_of (pre @ [name]) n) es)) =
      mset (map (\<lambda>(name, n). (pre @ [name], n)) es) +
      mset (concat (map (\<lambda>(name, n). entries_of (pre @ [name]) n) es))"
    by (induction es) auto
  ultimately show ?thesis by (simp only: entries_of.simps sub)
qed

definition stack_entries :: "(string list \<times> node) list \<Rightarrow> (string list \<times> node) list" where
  "stack_entries st = concat (map (\<lambda>(pre, n). entries_of pre n) st)"

lemma total_size_mset: "mset xs = mset ys \<Longrightarrow> total_size xs = total_size ys"
  unfolding total_size_def by (metis mset_map sum_mset_sum_list)

lemma total_size_append [simp]: "total_size (xs @ ys) = total_size xs + total_size ys"
  by (simp add: total_size_def)

lemma walk_tree_Inr:
  "walk_tree limits st acc = Inr acc' \<Longrightarrow>
   mset (fst acc') = mset (fst acc) + mset (stack_entries st) \<and>
   snd acc' = snd acc + total_size (stack_entries st) \<and>
   (\<forall>x \<in> set (stack_entries st). safe_entry limits x) \<and>
   (in_limits limits acc \<longrightarrow> in_limits limits acc')"
proof (induction limits st acc rule: walk_tree.induct)
  case (2 limits pre m es rest acc)
  obtain seen t where acc: "acc = (seen, t)" by (cases acc)
  let ?es = "sorted_dirs es @ sorted_files es"
  let ?new = "map (\<lambda>(name, n). (pre @ [name], n)) ?es"
  let ?st = "map (\<lambda>(name, n). (pre @ [name], n)) (sorted_dirs es) @ rest"
  obtain acc1 where a: "inspect_entries limits pre ?es (seen, t) = Inr acc1"
    "walk_tree limits ?st acc1 = Inr acc'"
    and ok: "\<not> (\<not> has_bit m user_read \<or> (es \<noteq> [] \<and> \<not> has_bit m user_exec))"
    using 2 acc by (auto simp: rbind_Inr split: if_splits)
  note i = inspect_entries_Inr [OF a(1)]
  have ih: "mset (fst acc') = mset (fst acc1) + mset (stack_entries ?st)"
    "snd acc' = snd acc1 + total_size (stack_entries ?st)"
    "\<forall>x \<in> set (stack_entries ?st). safe_entry limits x"
    "in_limits limits acc1 \<longrightarrow> in_limits limits acc'"
    using 2(1) [OF ok, of acc1] a acc by simp_all
  have st: "stack_entries ?st =
      concat (map (\<lambda>(name, n). entries_of (pre @ [name]) n) (sorted_dirs es)) @ stack_entries rest"
    by (simp add: stack_entries_def comp_def case_prod_unfold)
  have m: "mset (stack_entries ((pre, Dir m es) # rest)) = mset (?new @ stack_entries ?st)"
  proof -
    have "stack_entries ((pre, Dir m es) # rest) = entries_of pre (Dir m es) @ stack_entries rest"
      by (simp add: stack_entries_def)
    then show ?thesis by (simp only: st mset_append mset_entries_dir add.assoc)
  qed
  have safe: "\<forall>x \<in> set ?new. safe_entry limits x" using i by auto
  have s: "set (stack_entries ((pre, Dir m es) # rest)) = set (?new @ stack_entries ?st)"
    using m by (metis set_mset_mset)
  show ?case
  proof (intro conjI impI)
    show "mset (fst acc') = mset (fst acc) + mset (stack_entries ((pre, Dir m es) # rest))"
      using i ih(1) m by (simp add: acc)
    show "snd acc' = snd acc + total_size (stack_entries ((pre, Dir m es) # rest))"
      using i ih(2) total_size_mset [OF m] by (simp add: acc)
    show "\<forall>x \<in> set (stack_entries ((pre, Dir m es) # rest)). safe_entry limits x"
      unfolding s using safe ih(3) by (simp only: set_append ball_Un simp_thms)
    show "in_limits limits acc \<Longrightarrow> in_limits limits acc'"
      using i ih(4) acc by blast
  qed
qed (auto simp: stack_entries_def total_size_def)

text \<open>An accepted tree.  When \<open>inspect_tree\<close> succeeds, its report lists every entry below
  the root exactly once with the total size of the files, each entry is a directory or a regular
  file with a single link under a normalised path without \<open>.git\<close>, no symbolic link or device is
  anywhere in the tree, and under limits the path lengths, file sizes, entry count and total size
  all respect them.\<close>

theorem inspect_tree_accepts_only_safe:
  assumes "fst (inspect_tree limits norm_modes base) = Inr (paths, file_bytes)"
    and "in_limits limits ([], 0)"
  shows "is_dir base \<and> mset paths = mset (map (posix \<circ> fst) (entries_of [] base)) \<and>
    file_bytes = total_size (entries_of [] base) \<and>
    (\<forall>x \<in> set (entries_of [] base). safe_entry limits x) \<and>
    in_limits limits (entries_of [] base, file_bytes)"
proof -
  have d: "is_dir base" using assms(1) by (auto simp: inspect_tree_def split: if_splits)
  obtain seen where w: "walk_tree limits [([], base)] ([], 0) = Inr (seen, file_bytes)"
    and p: "paths = sort_key (map of_char :: string \<Rightarrow> nat list) (map (posix \<circ> fst) seen)"
    using assms(1) d by (auto simp: inspect_tree_def split: sum.splits prod.splits)
  note wt = walk_tree_Inr [OF w]
  have e: "stack_entries [([], base)] = entries_of [] base" by (simp add: stack_entries_def)
  have seen: "mset seen = mset (entries_of [] base)" using wt e by simp
  then have "length seen = length (entries_of [] base)" by (metis size_mset)
  moreover have "mset (map (posix \<circ> fst) seen) = mset (map (posix \<circ> fst) (entries_of [] base))"
    using seen by (metis mset_map)
  ultimately show ?thesis
    using d wt e p assms(2) by (auto simp: in_limits_def split: option.splits)
qed

definition tree_example :: node where
  "tree_example = Dir 493 [(''b.py'', Reg ''x=1'' 420 1), (''pkg'', Dir 493 [(''a'', Reg ''hi'' 493 1)])]"

theorem inspect_tree_accepts_only_safe_witness:
  "fst (inspect_tree (Some \<lparr>max_entries = 9, max_file_bytes = 9, max_total_file_bytes = 9,
     max_path_bytes = 20\<rparr>) True tree_example) = Inr ([''b.py'', ''pkg'', ''pkg/a''], 5) \<and>
   total_size (entries_of [] tree_example) = 5"
proof -
  let ?l = "\<lparr>max_entries = 9, max_file_bytes = 9, max_total_file_bytes = 9, max_path_bytes = 20\<rparr>"
  have "fst (inspect_tree (Some ?l) True tree_example) = Inr ([''b.py'', ''pkg'', ''pkg/a''], 5)"
    by (simp add: inspect_tree_def tree_example_def sorted_dirs_def sorted_files_def
        inspect_entry_def validate_relative_path_def posix_def utf8_size_def has_bit_def)
  with inspect_tree_accepts_only_safe [OF this] show ?thesis by (simp add: in_limits_def)
qed

section \<open>Facts for the clients of an inspected tree\<close>

definition safe_tree :: "tree_limits option \<Rightarrow> node \<Rightarrow> bool" where
  "safe_tree limits n \<longleftrightarrow> is_dir n \<and> (\<forall>x \<in> set (entries_of [] n). safe_entry limits x)"

lemma inspect_tree_root: "inspect_tree limits nm base = (Inr rep, base') \<Longrightarrow>
    base' = (if nm then normalize_modes base else base)"
  by (auto simp: inspect_tree_def split: if_splits sum.splits prod.splits)

lemma inspect_tree_Inl: "inspect_tree limits nm base = (Inl e, base') \<Longrightarrow> base' = base"
  by (auto simp: inspect_tree_def split: if_splits sum.splits prod.splits)

lemma inspect_tree_safe:
  assumes "inspect_tree limits nm base = (Inr rep, base')"
  shows "safe_tree limits base"
proof -
  have d: "is_dir base" using assms by (auto simp: inspect_tree_def split: if_splits)
  obtain acc where w: "walk_tree limits [([], base)] ([], 0) = Inr acc"
    using assms d by (auto simp: inspect_tree_def split: sum.splits)
  then show ?thesis
    using walk_tree_Inr [OF w] d by (simp add: safe_tree_def stack_entries_def)
qed

lemma entries_normalize:
  "entries_of pre (normalize_modes n) = map (\<lambda>(p, m). (p, normalize_modes m)) (entries_of pre n)"
proof (induction n arbitrary: pre)
  case (Dir m es)
  then have "map (\<lambda>(name, n). (pre @ [name], normalize_modes n) # entries_of (pre @ [name]) (normalize_modes n)) es =
      map (\<lambda>(name, n). map (\<lambda>(p, m). (p, normalize_modes m)) ((pre @ [name], n) # entries_of (pre @ [name]) n)) es"
    by (intro map_cong) (auto intro: prod_set_simps)
  then show ?case by (simp add: map_concat comp_def case_prod_unfold cong: map_cong)
qed auto

lemma safe_entry_normalize: "safe_entry limits (p, normalize_modes n) = safe_entry limits (p, n)"
  by (cases n) (auto simp: safe_entry_def split: option.splits)

lemma safe_tree_normalize [simp]: "safe_tree limits (normalize_modes n) = safe_tree limits n"
proof -
  have "is_dir (normalize_modes n) = is_dir n" by (cases n) auto
  then show ?thesis
    by (auto simp: safe_tree_def entries_normalize safe_entry_normalize)
qed

end
