(* ===== verification/PyText.thy ===== *)
theory PyText
  imports Wire
begin

text \<open>
  What the program uses of Python's \<open>bytes\<close> and \<open>str\<close>: UTF-8 decoding (strict and with
  replacement), \<open>splitlines\<close>, \<open>strip\<close>, \<open>split\<close> and \<open>int\<close>.  A decoded text is a list of code points.
\<close>

section \<open>UTF-8\<close>

text \<open>A lead byte gives the number of continuation bytes and the range of the first of them.\<close>

definition utf8_lead :: "nat \<Rightarrow> (nat \<times> nat \<times> nat) option" where
  "utf8_lead b =
     (if 0xC2 \<le> b \<and> b \<le> 0xDF then Some (1, 0x80, 0xBF)
      else if b = 0xE0 then Some (2, 0xA0, 0xBF)
      else if b = 0xED then Some (2, 0x80, 0x9F)
      else if 0xE1 \<le> b \<and> b \<le> 0xEF then Some (2, 0x80, 0xBF)
      else if b = 0xF0 then Some (3, 0x90, 0xBF)
      else if 0xF1 \<le> b \<and> b \<le> 0xF3 then Some (3, 0x80, 0xBF)
      else if b = 0xF4 then Some (3, 0x80, 0x8F)
      else None)"

fun continuation :: "nat \<Rightarrow> nat \<Rightarrow> nat \<Rightarrow> nat list \<Rightarrow> nat list" where
  "continuation (Suc k) low high (b # bs) =
     (if low \<le> b \<and> b \<le> high then b # continuation k 0x80 0xBF bs else [])"
| "continuation _ _ _ _ = []"

text \<open>One step: a code point, or the error for the longest ill-formed prefix; with the number of
  bytes consumed after the first.\<close>

definition utf8_step :: "nat \<Rightarrow> nat list \<Rightarrow> nat option \<times> nat" where
  "utf8_step b bs =
     (if b < 0x80 then (Some b, 0)
      else case utf8_lead b of
        None \<Rightarrow> (None, 0)
      | Some (k, low, high) \<Rightarrow>
          let cs = continuation k low high bs in
          if length cs = k then (Some (foldl (\<lambda>a c. a * 64 + (c - 0x80)) (b mod 2 ^ (6 - k)) cs), k)
          else (None, length cs))"

function utf8_scan :: "nat list \<Rightarrow> nat option list" where
  "utf8_scan [] = []"
| "utf8_scan (b # bs) = (case utf8_step b bs of (r, n) \<Rightarrow> r # utf8_scan (drop n bs))"
  by pat_completeness auto
termination by (relation "measure length") auto

definition utf8_decode :: "string \<Rightarrow> ustring option" where
  "utf8_decode s =
     (let rs = utf8_scan (ucs s) in if None \<in> set rs then None else Some (map the rs))"

definition utf8_replace :: "string \<Rightarrow> ustring" where
  "utf8_replace s = map (\<lambda>r. case r of None \<Rightarrow> 0xFFFD | Some c \<Rightarrow> c) (utf8_scan (ucs s))"

section \<open>Lines, blanks and numbers\<close>

definition uspace :: "nat \<Rightarrow> bool" where
  "uspace c \<longleftrightarrow> (9 \<le> c \<and> c \<le> 13) \<or> (28 \<le> c \<and> c \<le> 32) \<or> c = 0x85 \<or> c = 0xA0 \<or> c = 0x1680 \<or>
     (0x2000 \<le> c \<and> c \<le> 0x200A) \<or> c = 0x2028 \<or> c = 0x2029 \<or> c = 0x202F \<or> c = 0x205F \<or> c = 0x3000"

text \<open>\<open>str\<close> breaks lines at more characters than \<open>bytes\<close> does.\<close>

definition str_break :: "nat \<Rightarrow> bool" where
  "str_break c \<longleftrightarrow> (10 \<le> c \<and> c \<le> 13) \<or> (28 \<le> c \<and> c \<le> 30) \<or> c = 0x85 \<or> c = 0x2028 \<or> c = 0x2029"

definition bytes_break :: "nat \<Rightarrow> bool" where
  "bytes_break c \<longleftrightarrow> c = 10 \<or> c = 13"

function lines_from :: "(nat \<Rightarrow> bool) \<Rightarrow> ustring \<Rightarrow> ustring \<Rightarrow> ustring list" where
  "lines_from brk cur [] = (if cur = [] then [] else [rev cur])"
| "lines_from brk cur (c # cs) =
     (if brk c then rev cur # lines_from brk [] (if c = 13 \<and> take 1 cs = [10] then tl cs else cs)
      else lines_from brk (c # cur) cs)"
  by pat_completeness auto
termination by (relation "measure (\<lambda>(_, _, cs). length cs)") auto

definition splitlines :: "(nat \<Rightarrow> bool) \<Rightarrow> ustring \<Rightarrow> ustring list" where
  "splitlines brk s = lines_from brk [] s"

definition ustrip :: "ustring \<Rightarrow> ustring" where
  "ustrip s = rev (dropWhile uspace (rev (dropWhile uspace s)))"

fun words_from :: "ustring \<Rightarrow> ustring \<Rightarrow> ustring list" where
  "words_from cur [] = (if cur = [] then [] else [rev cur])"
| "words_from cur (c # cs) =
     (if uspace c then (if cur = [] then [] else [rev cur]) @ words_from [] cs
      else words_from (c # cur) cs)"

definition words_of :: "ustring \<Rightarrow> ustring list" where
  "words_of s = words_from [] s"

text \<open>\<open>int(text)\<close> on a text without blanks: a sign, then digits with single underscores between.\<close>

definition py_int :: "ustring \<Rightarrow> int option" where
  "py_int s =
     (let body = (if take 1 s \<in> {[43], [45]} then tl s else s) in
      if list_all (\<lambda>w. w \<noteq> [] \<and> list_all (\<lambda>c. 48 \<le> c \<and> c \<le> 57) w) (split_on 95 body)
      then Some ((if take 1 s = [45] then -1 else 1) *
                 foldl (\<lambda>n c. 10 * n + (int c - 48)) 0 (filter (\<lambda>c. c \<noteq> 95) body))
      else None)"

section \<open>Facts\<close>

lemma utf8_scan_ascii: "list_all (\<lambda>b. b < 0x80) bs \<Longrightarrow> utf8_scan bs = map Some bs"
  by (induction bs) (auto simp: utf8_step_def)

lemma utf8_decode_ascii: "list_all (\<lambda>c. of_char c < (0x80::nat)) s \<Longrightarrow> utf8_decode s = Some (ucs s)"
  by (auto simp: utf8_decode_def utf8_scan_ascii ucs_def list.pred_map comp_def)

end
