(* ===== verification/Supervisor.thy ===== *)
theory Supervisor
  imports Files PyText
begin

text \<open>
  The container supervisor (\<open>src/rlvr/v3/supervisor.py\<close>): the checked policy, mounts and requests, the
  Docker command line, the output drains, the workspace guard and \<open>run_container\<close> with its clean-up.
  Docker and the operating system are the parameter \<open>runtime\<close>: what the mount sources are at launch,
  what the launched process writes to its two pipes before its readers are joined, whether the
  watchdog expired, and what each control command answers.
\<close>

datatype supervisor_error = SupervisorError string

section \<open>Policy, mounts and requests\<close>

record supervisor_policy =
  sp_image :: string
  candidate_uid :: int
  candidate_gid :: int
  memory_bytes :: int
  cpus :: int
  pids_limit :: int
  tmpfs_bytes :: int
  sp_max_file_bytes :: int
  watchdog_slack_s :: int
  max_workspace_bytes :: int
  trusted_uid :: int
  trusted_gid :: int

definition image_char :: "char \<Rightarrow> bool" where
  "image_char c \<longleftrightarrow> c \<in> set ''ABCDEFGHIJKLMNOPQRSTUVWXYZabcdefghijklmnopqrstuvwxyz0123456789._:/-''"

text \<open>\<open>_IMAGE\<close>: a name, then the digest in the last 72 characters.\<close>

definition digest_pinned :: "string \<Rightarrow> bool" where
  "digest_pinned s \<longleftrightarrow> length s > 72 \<and>
     (let n = length s - 72 in
      list_all image_char (take n s) \<and> take 8 (drop n s) = ''@sha256:'' \<and> hex_digest (drop (n + 8) s))"

definition check_supervisor_policy :: "supervisor_policy \<Rightarrow> supervisor_policy result" where
  "check_supervisor_policy p =
     (if \<not> digest_pinned (sp_image p) then Inl (ValueError ''supervisor image must be digest-pinned'')
      else if list_ex (\<lambda>v. v < 1) [candidate_uid p, candidate_gid p, trusted_uid p, trusted_gid p]
        then Inl (ValueError ''supervisor users must be unprivileged'')
      else if list_ex (\<lambda>v. v < 1) [memory_bytes p, cpus p, pids_limit p, tmpfs_bytes p,
                sp_max_file_bytes p, watchdog_slack_s p, max_workspace_bytes p]
        then Inl (ValueError ''supervisor limits must be positive integers'')
      else Inr p)"

record mount =
  mnt_host :: string
  mnt_container :: string
  mnt_read_only :: bool

definition mountable :: "node \<Rightarrow> bool" where
  "mountable n \<longleftrightarrow> is_dir n \<or> is_reg n"

text \<open>The constructor \<open>Mount\<close>; \<open>info\<close> is what \<open>lstat\<close> finds at the source, if anything.\<close>

definition mk_mount :: "string \<Rightarrow> node option \<Rightarrow> string \<Rightarrow> bool \<Rightarrow> mount result" where
  "mk_mount host info target ro =
     (if \<not> prefix ''/'' host \<or> CHR '','' \<in> set host
        then Inl (ValueError ''mount source must be an absolute safe path'')
      else case info of
        None \<Rightarrow> Inl (ValueError ''mount source is unavailable'')
      | Some n \<Rightarrow>
          if \<not> mountable n then Inl (ValueError ''mount source is invalid'')
          else if \<not> absolute_container_path False target \<or> CHR '','' \<in> set target
            then Inl (ValueError ''mount target is invalid'')
          else Inr \<lparr>mnt_host = host, mnt_container = target, mnt_read_only = ro\<rparr>)"

record container_request =
  cq_name :: string
  cq_argv :: "string list"
  cq_cwd :: string
  cq_mounts :: "mount list"
  cq_stdin :: bytes
  cq_timeout_s :: int
  cq_max_stdout_bytes :: int
  cq_max_stderr_bytes :: int
  cq_trusted :: bool

definition container_name :: "string \<Rightarrow> bool" where
  "container_name s \<longleftrightarrow> s \<noteq> [] \<and> length s \<le> 64 \<and>
     hd s \<in> set ''abcdefghijklmnopqrstuvwxyz0123456789'' \<and>
     list_all (\<lambda>c. c \<in> set ''abcdefghijklmnopqrstuvwxyz0123456789_-'') (tl s)"

definition check_container_request :: "container_request \<Rightarrow> container_request result" where
  "check_container_request q =
     (if \<not> container_name (cq_name q) then Inl (ValueError ''container name is invalid'')
      else if cq_argv q = [] \<or> list_ex (\<lambda>a. a = [] \<or> CHR 0x00 \<in> set a) (cq_argv q) \<or>
              \<not> absolute_container_path False (hd (cq_argv q))
        then Inl (ValueError ''container argv is invalid'')
      else if \<not> absolute_container_path True (cq_cwd q)
        then Inl (ValueError ''container working directory is invalid'')
      else if has_duplicates (map mnt_container (cq_mounts q))
        then Inl (ValueError ''container mount targets must be unique'')
      else if cq_timeout_s q < 1 \<or> cq_timeout_s q > 3600
        then Inl (ValueError ''container timeout is invalid'')
      else if cq_max_stdout_bytes q < 1 \<or> cq_max_stderr_bytes q < 1
        then Inl (ValueError ''container output limits must be positive'')
      else Inr q)"

record container_result =
  exit_code :: int
  oom_killed :: bool
  timed_out :: bool
  cr_stdout :: bytes
  cr_stderr :: bytes
  stdout_overflow :: bool
  stderr_overflow :: bool

section \<open>Output, workspace guard and command line\<close>

text \<open>\<open>_drain\<close>: \<open>chunks\<close> are the results of \<open>pipe.read\<close>; an empty one ends the loop.\<close>

fun drain :: "nat \<Rightarrow> bytes list \<Rightarrow> bytes \<times> bool \<Rightarrow> bytes \<times> bool" where
  "drain limit [] st = st"
| "drain limit (chunk # chunks) (out, over) =
     (if chunk = [] then (out, over)
      else let remaining = int limit - int (length out);
               out' = (if remaining > 0 then out @ take (nat remaining) chunk else out);
               over' = (if int (length chunk) > remaining then True else over) in
           drain limit chunks (out', over'))"

text \<open>\<open>_guard_workspace\<close>: each tick shows the bytes allocated under every writable root, whether
  the stop event is set by then, and the answer of the kill command; the result tells whether the
  guard killed the container.  A control command that fails ends the guard's thread.\<close>

record guard_tick =
  tick_stopped :: bool
  tick_allocated :: "int list"
  tick_stop_set :: bool
  tick_kill :: "int option"

fun guard_workspace :: "int \<Rightarrow> guard_tick list \<Rightarrow> bool" where
  "guard_workspace budget [] = False"
| "guard_workspace budget (t # ts) =
     (if tick_stopped t then False
      else if sum_list (tick_allocated t) > budget \<and> \<not> tick_stop_set t then
        (case tick_kill t of None \<Rightarrow> False
         | Some rc \<Rightarrow> if rc = 0 then True else guard_workspace budget ts)
      else guard_workspace budget ts)"

definition chars :: "ustring \<Rightarrow> string" where
  "chars s = map char_of s"

definition dec :: "int \<Rightarrow> string" where
  "dec n = chars (str_int n)"

definition mount_argument :: "mount \<Rightarrow> string" where
  "mount_argument m = ''type=bind,source='' @ mnt_host m @ '',target='' @ mnt_container m @
     (if mnt_read_only m then '',readonly'' else [])"

definition docker_command :: "string \<Rightarrow> supervisor_policy \<Rightarrow> container_request \<Rightarrow> string list" where
  "docker_command docker p q =
     (let uid = (if cq_trusted q then trusted_uid p else candidate_uid p);
          gid = (if cq_trusted q then trusted_gid p else candidate_gid p) in
      [docker, ''run'', ''--name'', cq_name q, ''-i'', ''--network=none'', ''--ipc=none'',
       ''--cap-drop=ALL'', ''--security-opt=no-new-privileges'', ''--read-only'', ''--log-driver=none'',
       ''--memory='' @ dec (memory_bytes p), ''--memory-swap='' @ dec (memory_bytes p),
       ''--cpus='' @ dec (cpus p), ''--pids-limit='' @ dec (pids_limit p),
       ''--ulimit=fsize='' @ dec (sp_max_file_bytes p) @ '':'' @ dec (sp_max_file_bytes p),
       ''--tmpfs=/tmp:rw,exec,nosuid,nodev,size='' @ dec (tmpfs_bytes p),
       ''--user='' @ dec uid @ '':'' @ dec gid,
       ''--workdir'', cq_cwd q,
       ''--env'', ''PATH=/usr/local/bin:/usr/bin:/bin'', ''--env'', ''HOME=/tmp'',
       ''--env'', ''LANG=C.UTF-8'', ''--env'', ''LC_ALL=C.UTF-8''] @
      concat (map (\<lambda>m. [''--mount'', mount_argument m]) (cq_mounts q)) @
      [sp_image p, ''/usr/bin/timeout'', ''--signal=TERM'', ''--kill-after=1'', dec (cq_timeout_s q)] @
      cq_argv q)"
section \<open>run\_container\<close>

record process =
  pr_stdout :: "bytes list"
  pr_stderr :: "bytes list"
  pr_watchdog :: bool

record runtime =
  rt_available :: bool
  rt_lstat :: "string \<Rightarrow> node option"
  rt_guard_starts :: bool
  rt_process :: "string list \<Rightarrow> bytes \<Rightarrow> int \<Rightarrow> process option"
  rt_control :: "string list \<Rightarrow> (int \<times> string) option"

definition control_failed :: supervisor_error where
  "control_failed = SupervisorError ''container control operation failed''"

fun check_launch_mounts :: "runtime \<Rightarrow> mount list \<Rightarrow> supervisor_error + unit" where
  "check_launch_mounts rt [] = Inr ()"
| "check_launch_mounts rt (m # ms) =
     (case rt_lstat rt (mnt_host m) of
        None \<Rightarrow> Inl (SupervisorError ''container mount is unavailable'')
      | Some n \<Rightarrow> if \<not> mountable n then Inl (SupervisorError ''container mount is invalid'')
                  else check_launch_mounts rt ms)"

text \<open>What \<open>docker inspect\<close> printed, read as exit code and OOM flag.\<close>

definition inspected_state :: "int \<times> string \<Rightarrow> supervisor_error + int \<times> bool" where
  "inspected_state answer =
     (let parts = words_of (ustrip (ucs (snd answer))) in
      if fst answer \<noteq> 0 \<or> length parts \<noteq> 3
        then Inl (SupervisorError ''container state is unavailable'')
      else if parts ! 0 \<noteq> ucs ''exited'' then Inl (SupervisorError ''container did not stop'')
      else case py_int (parts ! 1) of
        None \<Rightarrow> Inl (SupervisorError ''container state is invalid'')
      | Some code \<Rightarrow>
          if \<not> (0 \<le> code \<and> code \<le> 255) \<or> parts ! 2 \<notin> {ucs ''true'', ucs ''false''}
            then Inl (SupervisorError ''container state is invalid'')
          else Inr (code, parts ! 2 = ucs ''true''))"

definition kill_command :: "string \<Rightarrow> container_request \<Rightarrow> string list" where
  "kill_command docker q = [docker, ''kill'', cq_name q]"

definition inspect_command :: "string \<Rightarrow> container_request \<Rightarrow> string list" where
  "inspect_command docker q = [docker, ''inspect'', ''--format'',
     ''{{.State.Status}} {{.State.ExitCode}} {{.State.OOMKilled}}'', cq_name q]"

definition remove_command :: "string \<Rightarrow> container_request \<Rightarrow> string list" where
  "remove_command docker q = [docker, ''rm'', ''-f'', cq_name q]"

text \<open>The body of the \<open>try\<close> from \<open>run_started = True\<close> on: the control commands issued and the
  pending error or the result.\<close>

definition started_run :: "runtime \<Rightarrow> supervisor_policy \<Rightarrow> string \<Rightarrow> container_request \<Rightarrow>
    string list list \<times> (supervisor_error + container_result)" where
  "started_run rt p docker q =
     (case rt_process rt (docker_command docker p q) (cq_stdin q) (cq_timeout_s q + watchdog_slack_s p) of
        None \<Rightarrow> ([], Inl (SupervisorError ''container launch failed''))
      | Some pr \<Rightarrow>
          let (out, out_over) = drain (nat (cq_max_stdout_bytes q)) (pr_stdout pr) ([], False);
              (err, err_over) = drain (nat (cq_max_stderr_bytes q)) (pr_stderr pr) ([], False);
              kills = (if pr_watchdog pr then [kill_command docker q] else []) in
          if pr_watchdog pr \<and> rt_control rt (kill_command docker q) = None then (kills, Inl control_failed)
          else
            (kills @ [inspect_command docker q],
             case rt_control rt (inspect_command docker q) of
               None \<Rightarrow> Inl control_failed
             | Some answer \<Rightarrow>
                 rbind (inspected_state answer) (\<lambda>(code, oom). Inr
                   \<lparr>exit_code = code, oom_killed = oom,
                    timed_out = pr_watchdog pr \<or> (code \<in> {124, 137} \<and> \<not> oom),
                    cr_stdout = out, cr_stderr = err,
                    stdout_overflow = out_over, stderr_overflow = err_over\<rparr>)))"

definition run_container :: "runtime \<Rightarrow> supervisor_policy \<Rightarrow> string \<Rightarrow> container_request \<Rightarrow>
    string list list \<times> (supervisor_error + container_result)" where
  "run_container rt p docker q =
     (if \<not> rt_available rt then ([], Inl (SupervisorError ''container runtime is unavailable''))
      else case check_launch_mounts rt (cq_mounts q) of
        Inl e \<Rightarrow> ([], Inl e)
      | Inr _ \<Rightarrow>
          if list_ex (\<lambda>m. \<not> mnt_read_only m) (cq_mounts q) \<and> \<not> rt_guard_starts rt
            then ([], Inl (SupervisorError ''workspace guard is unavailable''))
          else case started_run rt p docker q of (issued, r) \<Rightarrow>
            (issued @ [remove_command docker q],
             case rt_control rt (remove_command docker q) of
               None \<Rightarrow> Inl control_failed
             | Some (rc, _) \<Rightarrow>
                 if rc \<noteq> 0 then Inl (SupervisorError ''container cleanup failed'') else r))"

section \<open>Correctness\<close>

text \<open>What a pipe delivered: everything up to the first empty read.\<close>

definition delivered :: "bytes list \<Rightarrow> bytes" where
  "delivered chunks = concat (takeWhile (\<lambda>c. c \<noteq> []) chunks)"

lemma drain_state:
  "length out \<le> limit \<Longrightarrow> drain limit chunks (out, over) =
     (take limit (out @ delivered chunks), over \<or> length (out @ delivered chunks) > limit)"
proof (induction chunks arbitrary: out over)
  case (Cons chunk chunks)
  show ?case
  proof (cases "chunk = []")
    case False
    have step: "drain limit (chunk # chunks) (out, over) =
        drain limit chunks (take limit (out @ chunk), over \<or> length (out @ chunk) > limit)"
      using False Cons.prems by (cases "length out = limit") (auto simp: Let_def nat_diff_distrib)
    have "delivered (chunk # chunks) = chunk @ delivered chunks"
      using False by (simp add: delivered_def)
    then show ?thesis
      unfolding step using Cons.IH [of "take limit (out @ chunk)"] Cons.prems
      by (cases "length (out @ chunk) \<le> limit") auto
  qed (use Cons.prems in \<open>auto simp: delivered_def\<close>)
qed (auto simp: delivered_def)

lemma drain_correct:
  "drain limit chunks ([], False) = (take limit (delivered chunks), length (delivered chunks) > limit)"
  by (simp add: drain_state)


text \<open>Docker's answer about a container, word by word.\<close>

definition reports_exit :: "int \<times> string \<Rightarrow> int \<Rightarrow> bool \<Rightarrow> bool" where
  "reports_exit answer code oom \<longleftrightarrow>
     fst answer = 0 \<and> 0 \<le> code \<and> code \<le> 255 \<and>
     (\<exists>digits. words_of (ustrip (ucs (snd answer))) = [ucs ''exited'', digits, ucs (if oom then ''true'' else ''false'')] \<and>
        py_int digits = Some code)"

lemma inspected_state_Inr: "inspected_state answer = Inr (code, oom) \<longleftrightarrow> reports_exit answer code oom"
proof
  assume i: "inspected_state answer = Inr (code, oom)"
  then have "length (words_of (ustrip (ucs (snd answer)))) = 3" by (auto simp: inspected_state_def Let_def split: if_splits)
  then obtain x y z where w: "words_of (ustrip (ucs (snd answer))) = [x, y, z]"
    by (auto simp: eval_nat_numeral length_Suc_conv)
  show "reports_exit answer code oom"
    using i unfolding inspected_state_def reports_exit_def w by (auto simp: Let_def split: if_splits option.splits)
next
  assume "reports_exit answer code oom"
  moreover have "ucs ''true'' \<noteq> ucs ''false''" by (simp add: ucs_def)
  ultimately show "inspected_state answer = Inr (code, oom)"
    by (cases oom) (auto simp: reports_exit_def inspected_state_def Let_def)
qed

text \<open>A result that tells the truth about a container that ran to its end.\<close>

definition truthful :: "runtime \<Rightarrow> supervisor_policy \<Rightarrow> string \<Rightarrow> container_request \<Rightarrow> container_result \<Rightarrow> bool" where
  "truthful rt p docker q res \<longleftrightarrow>
     (\<exists>answer. rt_control rt (inspect_command docker q) = Some answer \<and>
        reports_exit answer (exit_code res) (oom_killed res)) \<and>
     (\<exists>pr. rt_process rt (docker_command docker p q) (cq_stdin q) (cq_timeout_s q + watchdog_slack_s p) = Some pr \<and>
        cr_stdout res = take (nat (cq_max_stdout_bytes q)) (delivered (pr_stdout pr)) \<and>
        stdout_overflow res = (length (delivered (pr_stdout pr)) > nat (cq_max_stdout_bytes q)) \<and>
        cr_stderr res = take (nat (cq_max_stderr_bytes q)) (delivered (pr_stderr pr)) \<and>
        stderr_overflow res = (length (delivered (pr_stderr pr)) > nat (cq_max_stderr_bytes q)) \<and>
        timed_out res = (pr_watchdog pr \<or> exit_code res \<in> {124, 137} \<and> \<not> oom_killed res))"

lemma started_run_truthful:
  assumes "started_run rt p docker q = (issued, Inr res)"
  shows "truthful rt p docker q res"
proof -
  obtain pr where pr: "rt_process rt (docker_command docker p q) (cq_stdin q) (cq_timeout_s q + watchdog_slack_s p) = Some pr"
    using assms by (auto simp: started_run_def split: option.splits)
  obtain answer code oom where an: "rt_control rt (inspect_command docker q) = Some answer"
    "inspected_state answer = Inr (code, oom)"
    using assms pr by (auto simp: started_run_def Let_def rbind_Inr split: if_splits option.splits prod.splits)
  show ?thesis
    using assms pr an inspected_state_Inr [of answer code oom]
    by (auto simp: truthful_def started_run_def drain_correct Let_def rbind.simps split: if_splits)
qed

text \<open>Everything docker was asked to do for a run worked, and the container had exited.\<close>

definition completes :: "runtime \<Rightarrow> supervisor_policy \<Rightarrow> string \<Rightarrow> container_request \<Rightarrow> bool" where
  "completes rt p docker q \<longleftrightarrow>
     (\<exists>pr. rt_process rt (docker_command docker p q) (cq_stdin q) (cq_timeout_s q + watchdog_slack_s p) = Some pr \<and>
        (pr_watchdog pr \<longrightarrow> rt_control rt (kill_command docker q) \<noteq> None)) \<and>
     (\<exists>answer code oom. rt_control rt (inspect_command docker q) = Some answer \<and> reports_exit answer code oom) \<and>
     (\<exists>out. rt_control rt (remove_command docker q) = Some (0, out))"

lemma started_run_completes:
  assumes "completes rt p docker q"
  shows "\<exists>log res. started_run rt p docker q = (log, Inr res)"
proof -
  obtain answer code oom where "rt_control rt (inspect_command docker q) = Some answer" "reports_exit answer code oom"
    using assms by (auto simp: completes_def)
  then show ?thesis
    using assms inspected_state_Inr [of answer code oom] by (auto simp: completes_def started_run_def drain_correct Let_def)
qed

text \<open>C27. The supervisor's contract.  Whatever Docker does, either nothing was launched and the call
  failed, or the last control command issued removes the container.  A result is returned only when
  that removal succeeded and Docker's answer to the inspection is the three words \<open>exited\<close>, the
  decimal of the result's exit code, which is from 0 to 255, and \<open>true\<close> or \<open>false\<close> as the result
  says it was killed for memory; conversely, a run whose process started, whose kill, if any, and
  removal worked and whose inspection gave such an answer returns a result.  The two streams of the
  result are the longest prefixes within the request's limits of what the container wrote, an overflow is flagged exactly when something was cut, and a time-out exactly on
  the watchdog or on the exit codes of the in-container timer without an OOM kill.\<close>

theorem run_container_contract:
  assumes "run_container rt p docker q = (issued, r)"
  shows "(if issued = [] then \<exists>e. r = Inl e else last issued = remove_command docker q) \<and>
    (\<forall>res. r = Inr res \<longrightarrow> (\<exists>out. rt_control rt (remove_command docker q) = Some (0, out)) \<and>
       truthful rt p docker q res) \<and>
    (issued \<noteq> [] \<and> completes rt p docker q \<longrightarrow> (\<exists>res. r = Inr res))"
proof (intro conjI allI impI)
  show "if issued = [] then \<exists>e. r = Inl e else last issued = remove_command docker q"
    using assms by (auto simp: run_container_def split: if_splits sum.splits prod.splits)
  fix res assume r: "r = Inr res"
  obtain log where run: "started_run rt p docker q = (log, Inr res)"
    and rm: "\<exists>out. rt_control rt (remove_command docker q) = Some (0, out)"
    using assms r
    by (auto simp: run_container_def split: if_splits sum.splits prod.splits option.splits)
  show "\<exists>out. rt_control rt (remove_command docker q) = Some (0, out)" by (rule rm)
  show "truthful rt p docker q res" using started_run_truthful [OF run] .
next
  assume c: "issued \<noteq> [] \<and> completes rt p docker q"
  then obtain log res where "started_run rt p docker q = (log, Inr res)" using started_run_completes by blast
  then show "\<exists>res. r = Inr res"
    using assms c by (auto simp: run_container_def completes_def split: if_splits sum.splits)
qed

definition request_example :: container_request where
  "request_example = \<lparr>cq_name = ''run-c1'', cq_argv = [''/bin/sh''], cq_cwd = ''/work'',
     cq_mounts = [\<lparr>mnt_host = ''/ws'', mnt_container = ''/work'', mnt_read_only = False\<rparr>],
     cq_stdin = [], cq_timeout_s = 10, cq_max_stdout_bytes = 2, cq_max_stderr_bytes = 8, cq_trusted = False\<rparr>"

definition policy_example :: supervisor_policy where
  "policy_example = \<lparr>sp_image = ''sandbox@sha256:'' @ digest_a, candidate_uid = 1000, candidate_gid = 1000,
     memory_bytes = 1024, cpus = 1, pids_limit = 64, tmpfs_bytes = 1024, sp_max_file_bytes = 1024,
     watchdog_slack_s = 5, max_workspace_bytes = 4096, trusted_uid = 65534, trusted_gid = 65534\<rparr>"

definition runtime_example :: runtime where
  "runtime_example = \<lparr>rt_available = True, rt_lstat = (\<lambda>_. Some (Dir 493 [])), rt_guard_starts = True,
     rt_process = (\<lambda>_ _ _. Some \<lparr>pr_stdout = [''ab'', ''c''], pr_stderr = [], pr_watchdog = False\<rparr>),
     rt_control = (\<lambda>cmd. Some (0, if cmd ! 1 = ''inspect'' then ''exited 3 false'' else []))\<rparr>"

lemma run_container_example:
  "run_container runtime_example p docker request_example =
     ([inspect_command docker request_example, remove_command docker request_example],
      Inr \<lparr>exit_code = 3, oom_killed = False, timed_out = False, cr_stdout = ''ab'', cr_stderr = [],
           stdout_overflow = True, stderr_overflow = False\<rparr>)"
  by (simp add: run_container_def started_run_def runtime_example_def request_example_def
      mountable_def inspect_command_def remove_command_def inspected_state_def ucs_def ustrip_def
      uspace_def words_of_def py_int_def Let_def rbind.simps)

theorem run_container_contract_witness:
  "\<exists>issued res. run_container runtime_example policy_example ''/usr/bin/docker'' request_example = (issued, Inr res) \<and>
     last issued = remove_command ''/usr/bin/docker'' request_example \<and>
     truthful runtime_example policy_example ''/usr/bin/docker'' request_example res \<and> stdout_overflow res"
  using run_container_contract [OF run_container_example] run_container_example by auto

text \<open>No mount can smuggle options into the command line: a constructed mount's argument splits
  at the commas into exactly its type, source and target, and it is read-only exactly when asked.\<close>

theorem mount_argument_fields:
  assumes "mk_mount host info target ro = Inr m"
  shows "split_on CHR '','' (mount_argument m) =
      [''type=bind'', ''source='' @ host, ''target='' @ target] @ (if ro then [''readonly''] else [])"
proof -
  have free: "CHR '','' \<notin> set host" "CHR '','' \<notin> set target" and
    m: "m = \<lparr>mnt_host = host, mnt_container = target, mnt_read_only = ro\<rparr>"
    using assms by (auto simp: mk_mount_def split: if_splits option.splits)
  have step: "c \<notin> set s \<Longrightarrow> split_on c (s @ c # t) = s # split_on c t" for c :: char and s t
    by (induction s) auto
  have end_step: "c \<notin> set s \<Longrightarrow> split_on c s = [s]" for c :: char and s
    by (induction s) auto
  show ?thesis
    using free step [of "CHR '',''" "''type=bind''"] step [of "CHR '',''" "''source='' @ host"]
      step [of "CHR '',''" "''target='' @ target"] end_step [of "CHR '',''" "''target='' @ target"]
      end_step [of "CHR '',''" "''readonly''"]
    by (simp add: m mount_argument_def)
qed

theorem mount_argument_fields_witness:
  "\<exists>m. mk_mount ''/ws'' (Some (Dir 493 [])) ''/result'' True = Inr m \<and>
     split_on CHR '','' (mount_argument m) = [''type=bind'', ''source=/ws'', ''target=/result'', ''readonly'']"
proof -
  have "mk_mount ''/ws'' (Some (Dir 493 [])) ''/result'' True =
      Inr \<lparr>mnt_host = ''/ws'', mnt_container = ''/result'', mnt_read_only = True\<rparr>" by code_simp
  with mount_argument_fields [OF this] show ?thesis by simp
qed

end
