(* ===== verification/Manifest.thy ===== *)
theory Manifest
  imports Files
begin

text \<open>
  The verifier manifest (\<open>src/rlvr/v3/manifest.py\<close>): schema checks on the parsed JSON value, then
  the checks of \<open>load_manifest\<close> against the extracted verifier directory.  Reading the JSON text is
  the parameter \<open>parse\<close> (\<open>parse_strict_json\<close>).  The lemmas show what a loaded manifest guarantees
  to the grading that runs it.
\<close>

datatype manifest_error = ManifestError string

type_synonym jvalue = "string pyjson"

record expectation =
  exp_exit_code :: int
  exp_stdout :: string
  exp_stderr :: "string option"

record setup_step =
  setup_argv :: "string list"
  setup_timeout_s :: int
  setup_max_output_bytes :: int

record check_common =
  check_id :: string
  chk_argv :: "string list"
  chk_timeout_s :: int
  chk_max_stdout_bytes :: int
  chk_max_stderr_bytes :: int
  chk_expect :: expectation

datatype check =
    InvocationCheck check_common (inv_cwd: string) (inv_stdin: "string option")
  | InspectionCheck check_common

primrec common :: "check \<Rightarrow> check_common" where
  "common (InvocationCheck c _ _) = c"
| "common (InspectionCheck c) = c"

record verifier_manifest =
  man_task_type :: string
  man_setup :: "setup_step option"
  man_checks :: "check list"

section \<open>Parsing\<close>

definition MAX_OUTPUT :: int where "MAX_OUTPUT = 2 ^ 23"
definition MAX_MANIFEST :: int where "MAX_MANIFEST = 2 ^ 20"

fun exact_keys :: "jvalue \<Rightarrow> string list \<Rightarrow> manifest_error + (string, jvalue) dict" where
  "exact_keys (JObj d) required =
     (if set (keys d) = set required then Inr d
      else Inl (ManifestError ''manifest fields do not match the schema''))"
| "exact_keys _ required = Inl (ManifestError ''manifest fields do not match the schema'')"

definition item :: "(string, jvalue) dict \<Rightarrow> string \<Rightarrow> jvalue" where
  "item d k = dict_get d k JNull"

fun bounded_int :: "jvalue \<Rightarrow> int \<Rightarrow> int \<Rightarrow> manifest_error + int" where
  "bounded_int (JInt n) low high =
     (if low \<le> n \<and> n \<le> high then Inr n
      else Inl (ManifestError ''manifest integer is outside its allowed range''))"
| "bounded_int _ low high = Inl (ManifestError ''manifest integer is outside its allowed range'')"

definition under :: "string \<Rightarrow> string \<Rightarrow> bool" where
  "under rt v \<longleftrightarrow> v = rt \<or> prefix (rt @ ''/'') v"

definition absolute_executable :: "bool \<Rightarrow> string \<Rightarrow> manifest_error + unit" where
  "absolute_executable inspection v =
     (if \<not> prefix ''/'' v \<or> prefix ''//'' v \<or> v = ''/'' \<or> normpath v \<noteq> v \<or> CHR 0x00 \<in> set v
        then Inl (ManifestError ''manifest executable path is invalid'')
      else if inspection \<and> list_ex (\<lambda>rt. under rt v) [''/result'', ''/verify'']
        then Inl (ManifestError ''inspection executable is not trusted'')
      else Inr ())"

fun argument :: "jvalue \<Rightarrow> manifest_error + string" where
  "argument (JStr s) =
     (if \<not> (1 \<le> utf8_size s \<and> utf8_size s \<le> 65536) \<or> CHR 0x00 \<in> set s
      then Inl (ManifestError ''manifest argument is invalid'') else Inr s)"
| "argument _ = Inl (ManifestError ''manifest argument is invalid'')"

fun parse_argv :: "bool \<Rightarrow> jvalue \<Rightarrow> manifest_error + string list" where
  "parse_argv inspection (JList vs) =
     (if \<not> (1 \<le> length vs \<and> length vs \<le> 64) then Inl (ManifestError ''manifest argv is invalid'')
      else rbind (rmap argument vs) (\<lambda>args.
           rbind (absolute_executable inspection (hd args)) (\<lambda>_. Inr args)))"
| "parse_argv inspection _ = Inl (ManifestError ''manifest argv is invalid'')"

fun parse_relative :: "jvalue \<Rightarrow> manifest_error + string" where
  "parse_relative (JStr s) =
     (case validate_relative_path s of
        Inl _ \<Rightarrow> Inl (ManifestError ''manifest path is invalid'')
      | Inr p \<Rightarrow> Inr p)"
| "parse_relative _ = Inl (ManifestError ''manifest path is invalid'')"

definition parse_rooted :: "jvalue \<Rightarrow> string \<Rightarrow> manifest_error + string" where
  "parse_rooted v rt =
     rbind (parse_relative v) (\<lambda>path.
       if path = rt \<or> \<not> prefix (rt @ ''/'') path
       then Inl (ManifestError ''manifest reference has the wrong root'') else Inr path)"

definition parse_rooted_opt :: "jvalue \<Rightarrow> string \<Rightarrow> manifest_error + string option" where
  "parse_rooted_opt v rt =
     (if v = JNull then Inr None else rbind (parse_rooted v rt) (\<lambda>p. Inr (Some p)))"

definition parse_expectation :: "jvalue \<Rightarrow> manifest_error + expectation" where
  "parse_expectation v =
     rbind (exact_keys v [''exit_code'', ''stdout'', ''stderr'']) (\<lambda>d.
     rbind (bounded_int (item d ''exit_code'') 0 255) (\<lambda>ec.
     rbind (parse_rooted (item d ''stdout'') ''gold'') (\<lambda>so.
     rbind (parse_rooted_opt (item d ''stderr'') ''gold'') (\<lambda>se.
     Inr \<lparr>exp_exit_code = ec, exp_stdout = so, exp_stderr = se\<rparr>))))"

definition parse_setup :: "jvalue \<Rightarrow> manifest_error + setup_step option" where
  "parse_setup v =
     (if v = JNull then Inr None
      else rbind (exact_keys v [''argv'', ''timeout_s'', ''max_output_bytes'']) (\<lambda>d.
           rbind (parse_argv False (item d ''argv'')) (\<lambda>argv.
           rbind (bounded_int (item d ''timeout_s'') 1 300) (\<lambda>ts.
           rbind (bounded_int (item d ''max_output_bytes'') 1 MAX_OUTPUT) (\<lambda>mo.
           Inr (Some \<lparr>setup_argv = argv, setup_timeout_s = ts, setup_max_output_bytes = mo\<rparr>))))))"

definition check_id_ok :: "string \<Rightarrow> bool" where
  "check_id_ok s \<longleftrightarrow> s \<noteq> [] \<and> length s \<le> 32 \<and>
     hd s \<in> set ''abcdefghijklmnopqrstuvwxyz0123456789'' \<and>
     list_all (\<lambda>c. c \<in> set ''abcdefghijklmnopqrstuvwxyz0123456789_-'') (tl s)"

definition common_keys :: "string list" where
  "common_keys = [''check_id'', ''kind'', ''argv'', ''timeout_s'', ''max_stdout_bytes'',
     ''max_stderr_bytes'', ''expect'']"

definition parse_common :: "bool \<Rightarrow> (string, jvalue) dict \<Rightarrow> manifest_error + check_common" where
  "parse_common inspection d =
     (case item d ''check_id'' of
        JStr cid \<Rightarrow>
          if \<not> check_id_ok cid then Inl (ManifestError ''manifest check ID is invalid'')
          else
           rbind (parse_argv inspection (item d ''argv'')) (\<lambda>argv.
           rbind (bounded_int (item d ''timeout_s'') 1 300) (\<lambda>ts.
           rbind (bounded_int (item d ''max_stdout_bytes'') 1 MAX_OUTPUT) (\<lambda>mo.
           rbind (bounded_int (item d ''max_stderr_bytes'') 1 MAX_OUTPUT) (\<lambda>me.
           rbind (parse_expectation (item d ''expect'')) (\<lambda>ex.
           Inr \<lparr>check_id = cid, chk_argv = argv, chk_timeout_s = ts, chk_max_stdout_bytes = mo,
                chk_max_stderr_bytes = me, chk_expect = ex\<rparr>)))))
      | _ \<Rightarrow> Inl (ManifestError ''manifest check ID is invalid''))"

fun parse_check :: "jvalue \<Rightarrow> manifest_error + check" where
  "parse_check (JObj kvs) =
     (if item kvs ''kind'' = JStr ''invocation'' then
        rbind (exact_keys (JObj kvs) (common_keys @ [''cwd'', ''stdin''])) (\<lambda>d.
        rbind (parse_common False d) (\<lambda>c.
        rbind (parse_relative (item d ''cwd'')) (\<lambda>cwd.
        rbind (parse_rooted_opt (item d ''stdin'') ''inputs'') (\<lambda>stdin.
        Inr (InvocationCheck c cwd stdin)))))
      else if item kvs ''kind'' = JStr ''inspection'' then
        rbind (exact_keys (JObj kvs) common_keys) (\<lambda>d.
        rbind (parse_common True d) (\<lambda>c. Inr (InspectionCheck c)))
      else Inl (ManifestError ''manifest check kind is invalid''))"
| "parse_check _ = Inl (ManifestError ''manifest check is invalid'')"

definition task_types :: "string list" where
  "task_types = [''repository_patch_v1'', ''terminal_script_v1'']"

definition parse_manifest :: "jvalue option \<Rightarrow> string \<Rightarrow> manifest_error + verifier_manifest" where
  "parse_manifest parsed ttype =
     (case parsed of None \<Rightarrow> Inl (ManifestError ''manifest is invalid'')
      | Some v \<Rightarrow>
        rbind (exact_keys v [''manifest_version'', ''task_type'', ''setup'', ''checks'']) (\<lambda>d.
        if ttype \<notin> set task_types \<or> item d ''task_type'' \<noteq> JStr ttype
          then Inl (ManifestError ''manifest task type does not match'')
        else rbind (bounded_int (item d ''manifest_version'') 1 1) (\<lambda>_.
          case item d ''checks'' of
            JList cs \<Rightarrow>
              if \<not> (1 \<le> length cs \<and> length cs \<le> 64)
                then Inl (ManifestError ''manifest check count is invalid'')
              else rbind (rmap parse_check cs) (\<lambda>checks.
                if has_duplicates (map (check_id \<circ> common) checks)
                  then Inl (ManifestError ''manifest check IDs are not unique'')
                else rbind (parse_setup (item d ''setup'')) (\<lambda>setup.
                  Inr \<lparr>man_task_type = ttype, man_setup = setup, man_checks = checks\<rparr>))
          | _ \<Rightarrow> Inl (ManifestError ''manifest check count is invalid''))))"

section \<open>Loading\<close>

text \<open>\<open>_regular_file\<close>: no step may be a symbolic link, the last must be a regular file.\<close>

fun regular_steps :: "node \<Rightarrow> string list \<Rightarrow> manifest_error + node" where
  "regular_steps n [] = (if is_reg n then Inr n
      else Inl (ManifestError ''manifest reference is not a regular file''))"
| "regular_steps n (s # ss) =
     (case node_at n [s] of
        None \<Rightarrow> Inl (ManifestError ''manifest reference is unavailable'')
      | Some (Symlink _) \<Rightarrow> Inl (ManifestError ''manifest reference is a symbolic link'')
      | Some c \<Rightarrow> regular_steps c ss)"

definition regular_file :: "node \<Rightarrow> string \<Rightarrow> manifest_error + node" where
  "regular_file base relative = regular_steps base (split_on slash relative)"

definition layout_ok :: "(string \<times> node) list \<Rightarrow> manifest_error + unit" where
  "layout_ok es =
     (if list_ex (\<lambda>(name, _). name \<notin> set [''manifest.json'', ''checks'', ''inputs'', ''gold'']) es
        then Inl (ManifestError ''verifier directory has an unexpected entry'')
      else if list_ex (\<lambda>name. case map_of es name of None \<Rightarrow> False | Some n \<Rightarrow> \<not> is_dir n)
                [''checks'', ''inputs'', ''gold'']
        then Inl (ManifestError ''verifier directory layout is invalid'')
      else Inr ())"

definition verify_reference :: "string \<Rightarrow> string option" where
  "verify_reference arg = (if prefix ''/verify/'' arg then Some (drop 8 arg) else None)"

fun check_verify_arguments :: "node \<Rightarrow> string list \<Rightarrow> manifest_error + unit" where
  "check_verify_arguments base [] = Inr ()"
| "check_verify_arguments base (a # as) =
     (case verify_reference a of
        None \<Rightarrow> check_verify_arguments base as
      | Some r \<Rightarrow>
          rbind (parse_relative (JStr (''checks/'' @ r))) (\<lambda>relative.
          rbind (regular_file base relative) (\<lambda>_. check_verify_arguments base as)))"

definition check_references :: "node \<Rightarrow> check \<Rightarrow> manifest_error + unit" where
  "check_references base c =
     rbind (case c of
              InvocationCheck _ _ (Some p) \<Rightarrow> rbind (regular_file base p) (\<lambda>_. Inr ())
            | InvocationCheck _ _ None \<Rightarrow> Inr ()
            | InspectionCheck cc \<Rightarrow> check_verify_arguments base (tl (chk_argv cc))) (\<lambda>_.
     rbind (regular_file base (exp_stdout (chk_expect (common c)))) (\<lambda>out.
     if node_size out > chk_max_stdout_bytes (common c)
       then Inl (ManifestError ''expected stdout exceeds its check limit'')
     else case exp_stderr (chk_expect (common c)) of
       None \<Rightarrow> Inr ()
     | Some p \<Rightarrow>
         rbind (regular_file base p) (\<lambda>err.
         if node_size err > chk_max_stderr_bytes (common c)
           then Inl (ManifestError ''expected stderr exceeds its check limit'') else Inr ())))"

definition load_manifest ::
  "(bytes \<Rightarrow> jvalue option) \<Rightarrow> node \<Rightarrow> string \<Rightarrow> manifest_error + verifier_manifest" where
  "load_manifest parse base ttype =
     (case base of
        Dir m es \<Rightarrow>
          rbind (layout_ok es) (\<lambda>_.
          rbind (regular_file base ''manifest.json'') (\<lambda>file.
          if node_size file > MAX_MANIFEST then Inl (ManifestError ''manifest file is too large'')
          else rbind (parse_manifest (case file of Reg b _ _ \<Rightarrow> parse b | _ \<Rightarrow> None) ttype) (\<lambda>man.
               rbind (rmap (check_references base) (man_checks man)) (\<lambda>_. Inr man))))
      | _ \<Rightarrow> Inl (ManifestError ''verifier directory is invalid''))"

section \<open>What a loaded manifest guarantees\<close>

definition executable_ok :: "bool \<Rightarrow> string list \<Rightarrow> bool" where
  "executable_ok inspection argv \<longleftrightarrow> argv \<noteq> [] \<and> length argv \<le> 64 \<and>
     absolute_container_path False (hd argv) \<and>
     (inspection \<longrightarrow> \<not> under ''/result'' (hd argv) \<and> \<not> under ''/verify'' (hd argv))"

definition common_ok :: "bool \<Rightarrow> check_common \<Rightarrow> bool" where
  "common_ok inspection c \<longleftrightarrow> check_id_ok (check_id c) \<and> executable_ok inspection (chk_argv c) \<and>
     1 \<le> chk_timeout_s c \<and> chk_timeout_s c \<le> 300 \<and>
     1 \<le> chk_max_stdout_bytes c \<and> chk_max_stdout_bytes c \<le> MAX_OUTPUT \<and>
     1 \<le> chk_max_stderr_bytes c \<and> chk_max_stderr_bytes c \<le> MAX_OUTPUT \<and>
     0 \<le> exp_exit_code (chk_expect c) \<and> exp_exit_code (chk_expect c) \<le> 255 \<and>
     prefix ''gold/'' (exp_stdout (chk_expect c))"

text \<open>A reference resolves, without passing a symbolic link, to a regular file of bounded size.\<close>

definition resolves :: "node \<Rightarrow> string \<Rightarrow> int \<Rightarrow> bool" where
  "resolves base p limit \<longleftrightarrow>
     (\<exists>b m k. node_at base (split_on slash p) = Some (Reg b m k) \<and> int (length b) \<le> limit)"

definition check_usable :: "node \<Rightarrow> check \<Rightarrow> bool" where
  "check_usable base c \<longleftrightarrow>
     (case c of
        InvocationCheck cc cwd stdin \<Rightarrow> common_ok False cc \<and> validate_relative_path cwd = Inr cwd \<and>
          (case stdin of None \<Rightarrow> True | Some p \<Rightarrow> prefix ''inputs/'' p \<and> (\<exists>n. resolves base p n))
      | InspectionCheck cc \<Rightarrow> common_ok True cc) \<and>
     resolves base (exp_stdout (chk_expect (common c))) (chk_max_stdout_bytes (common c)) \<and>
     (case exp_stderr (chk_expect (common c)) of None \<Rightarrow> True
      | Some p \<Rightarrow> prefix ''gold/'' p \<and> resolves base p (chk_max_stderr_bytes (common c)))"

lemma bounded_int_Inr: "bounded_int v low high = Inr n \<Longrightarrow> v = JInt n \<and> low \<le> n \<and> n \<le> high"
  by (cases v) (auto split: if_splits)

lemma parse_relative_Inr: "parse_relative v = Inr p \<Longrightarrow> v = JStr p \<and> validate_relative_path p = Inr p"
  by (cases v) (auto split: sum.splits simp: validate_relative_path_Inr)

lemma parse_rooted_Inr:
  "parse_rooted v rt = Inr p \<Longrightarrow> v = JStr p \<and> validate_relative_path p = Inr p \<and> prefix (rt @ ''/'') p"
  by (auto simp: parse_rooted_def rbind_Inr dest!: parse_relative_Inr split: if_splits)

lemma parse_argv_Inr: "parse_argv inspection v = Inr argv \<Longrightarrow> executable_ok inspection argv"
proof (cases v)
  case (JList vs)
  assume "parse_argv inspection v = Inr argv"
  then have r: "rmap argument vs = Inr argv" "absolute_executable inspection (hd argv) = Inr ()"
    "1 \<le> length vs" "length vs \<le> 64"
    using JList by (auto simp: rbind_Inr split: if_splits)
  then have "length argv = length vs" using rmap_Inr_length by blast
  then show ?thesis
    using r by (auto simp: executable_ok_def absolute_container_path_def absolute_executable_def
        split: if_splits)
qed auto

lemma parse_expectation_Inr:
  assumes "parse_expectation v = Inr e"
  shows "0 \<le> exp_exit_code e" "exp_exit_code e \<le> 255" "prefix ''gold/'' (exp_stdout e)"
    and "exp_stderr e = Some p \<Longrightarrow> prefix ''gold/'' p"
  using assms
  by (auto simp: parse_expectation_def parse_rooted_opt_def rbind_Inr split: if_splits
      dest!: bounded_int_Inr parse_rooted_Inr)

lemma parse_common_Inr:
  assumes "parse_common inspection d = Inr c"
  shows "common_ok inspection c" "exp_stderr (chk_expect c) = Some p \<Longrightarrow> prefix ''gold/'' p"
  using assms
  by (auto simp: parse_common_def common_ok_def rbind_Inr split: pyjson.splits if_splits
      dest: bounded_int_Inr parse_argv_Inr parse_expectation_Inr)

lemma regular_steps_Inr: "regular_steps n ss = Inr f \<Longrightarrow> node_at n ss = Some f \<and> is_reg f"
proof (induction n ss rule: regular_steps.induct)
  case (2 n s ss)
  then show ?case by (cases n) (auto split: option.splits node.splits)
qed (auto split: if_splits)

lemma regular_file_resolves:
  "regular_file base p = Inr f \<Longrightarrow> node_size f \<le> limit \<Longrightarrow> resolves base p limit"
  by (cases f) (auto simp: regular_file_def resolves_def dest!: regular_steps_Inr)

lemma parse_check_Inr:
  assumes "parse_check v = Inr c"
  shows "(case c of
        InvocationCheck cc cwd stdin \<Rightarrow> common_ok False cc \<and> validate_relative_path cwd = Inr cwd \<and>
          (case stdin of None \<Rightarrow> True | Some p \<Rightarrow> prefix ''inputs/'' p)
      | InspectionCheck cc \<Rightarrow> common_ok True cc) \<and>
     (case exp_stderr (chk_expect (common c)) of None \<Rightarrow> True | Some p \<Rightarrow> prefix ''gold/'' p)"
proof (cases v)
  case (JObj kvs)
  consider "item kvs ''kind'' = JStr ''invocation''" | "item kvs ''kind'' = JStr ''inspection''"
    using assms JObj by (auto split: if_splits)
  then show ?thesis
  proof cases
    case 1
    then obtain d cc cwd stdin where p: "parse_common False d = Inr cc"
      "parse_relative (item d ''cwd'') = Inr cwd"
      "parse_rooted_opt (item d ''stdin'') ''inputs'' = Inr stdin"
      "c = InvocationCheck cc cwd stdin"
      using assms JObj by (auto simp: rbind_Inr)
    have "case stdin of None \<Rightarrow> True | Some p \<Rightarrow> prefix ''inputs/'' p"
      using p(3) by (auto simp: parse_rooted_opt_def rbind_Inr dest!: parse_rooted_Inr split: if_splits)
    then show ?thesis
      using p parse_common_Inr [OF p(1)] parse_relative_Inr [OF p(2)] by (simp split: option.split)
  next
    case 2
    then obtain d cc where p: "parse_common True d = Inr cc" "c = InspectionCheck cc"
      using assms JObj by (auto simp: rbind_Inr)
    then show ?thesis using parse_common_Inr [OF p(1)] by (simp split: option.split)
  qed
qed (use assms in auto)

lemma check_references_usable:
  assumes "check_references base c = Inr ()" "parse_check v = Inr c"
  shows "check_usable base c"
proof -
  have out: "resolves base (exp_stdout (chk_expect (common c))) (chk_max_stdout_bytes (common c))"
    using assms(1) regular_file_resolves
    by (auto simp: check_references_def rbind_Inr split: if_splits)
  have err: "case exp_stderr (chk_expect (common c)) of None \<Rightarrow> True
      | Some p \<Rightarrow> resolves base p (chk_max_stderr_bytes (common c))"
    using assms(1) regular_file_resolves
    by (auto simp: check_references_def rbind_Inr split: if_splits option.splits)
  have inp: "\<exists>n. resolves base p n" if c: "c = InvocationCheck cc cwd (Some p)" for cc cwd p
  proof -
    obtain f where "regular_file base p = Inr f"
      using assms(1) c by (auto simp: check_references_def rbind_Inr)
    from regular_file_resolves [OF this order_refl] show ?thesis by blast
  qed
  show ?thesis
    using out err inp parse_check_Inr [OF assms(2)]
    by (auto simp: check_usable_def split: check.splits option.splits)
qed

lemma parse_manifest_Inr:
  assumes "parse_manifest v ttype = Inr man"
  shows "\<exists>cs. rmap parse_check cs = Inr (man_checks man) \<and> 1 \<le> length cs \<and> length cs \<le> 64 \<and>
    distinct (map (check_id \<circ> common) (man_checks man)) \<and> man_task_type man = ttype"
proof -
  obtain j where v: "v = Some j" using assms by (cases v) (auto simp: parse_manifest_def)
  then obtain d where d: "exact_keys j [''manifest_version'', ''task_type'', ''setup'', ''checks''] = Inr d"
    using assms by (auto simp: parse_manifest_def rbind_Inr)
  obtain cs where c: "item d ''checks'' = JList cs"
    using assms v d by (cases "item d ''checks''") (auto simp: parse_manifest_def rbind_Inr split: if_split_asm)
  then show ?thesis
    using assms v d
    by (intro exI [of _ cs])
       (auto simp: parse_manifest_def rbind_Inr has_duplicates_iff split: if_split_asm)
qed

text \<open>A loaded manifest is usable: it has between 1 and 64 checks with distinct ids, every
  command is an absolute normalised path (never the candidate's result or verifier mount for an
  inspection), every limit and exit code is in range, every working directory is confined, and every
  expected output and input is a regular file of the verifier reached without a symbolic link, the
  expected streams no larger than what the check may produce.\<close>

theorem load_manifest_usable:
  assumes "load_manifest parse base ttype = Inr man"
  shows "man_task_type man = ttype \<and> 1 \<le> length (man_checks man) \<and> length (man_checks man) \<le> 64 \<and>
    distinct (map (check_id \<circ> common) (man_checks man)) \<and>
    (\<forall>c \<in> set (man_checks man). check_usable base c)"
proof -
  obtain m es where base: "base = Dir m es"
    using assms by (cases base) (auto simp: load_manifest_def)
  then obtain v us where pm: "parse_manifest v ttype = Inr man"
    and refs: "rmap (check_references base) (man_checks man) = Inr us"
    using assms by (auto simp: load_manifest_def rbind_Inr split: if_split_asm)
  obtain cs where cs: "rmap parse_check cs = Inr (man_checks man)"
    "1 \<le> length cs" "length cs \<le> 64" "distinct (map (check_id \<circ> common) (man_checks man))"
    "man_task_type man = ttype"
    using parse_manifest_Inr [OF pm] by blast
  have len: "length (man_checks man) = length cs" using rmap_Inr_length [OF cs(1)] .
  have "check_usable base c" if c: "c \<in> set (man_checks man)" for c
  proof -
    obtain i where i: "i < length cs" "c = man_checks man ! i"
      using c len by (auto simp: in_set_conv_nth)
    show ?thesis
      using check_references_usable rmap_Inr_nth [OF cs(1) i(1)] rmap_Inr_nth [OF refs] i len
      by simp
  qed
  then show ?thesis using cs len by auto
qed

definition manifest_example :: jvalue where
  "manifest_example = JObj
     [(''manifest_version'', JInt 1), (''task_type'', JStr ''terminal_script_v1''), (''setup'', JNull),
      (''checks'', JList [JObj
        [(''check_id'', JStr ''c1''), (''kind'', JStr ''invocation''), (''argv'', JList [JStr ''/bin/sh'']),
         (''timeout_s'', JInt 10), (''max_stdout_bytes'', JInt 100), (''max_stderr_bytes'', JInt 100),
         (''expect'', JObj [(''exit_code'', JInt 0), (''stdout'', JStr ''gold/out''), (''stderr'', JNull)]),
         (''cwd'', JStr ''.''), (''stdin'', JNull)]])]"

definition verifier_example :: node where
  "verifier_example = Dir 493 [(''manifest.json'', Reg ''{}'' 420 1),
     (''gold'', Dir 493 [(''out'', Reg ''ok'' 420 1)])]"

lemma example_argv: "parse_argv False (JList [JStr ''/bin/sh'']) = Inr [''/bin/sh'']"
  by (simp add: utf8_size_def rbind.simps absolute_executable_def normpath_def initial_slashes_def
      posix_def Let_def)

lemma example_paths:
  "parse_rooted (JStr ''gold/out'') ''gold'' = Inr ''gold/out''" "parse_relative (JStr ''.'') = Inr ''.''"
  by (simp_all add: parse_rooted_def validate_relative_path_def)

lemmas manifest_example_defs = manifest_example_def verifier_example_def parse_manifest_def
  parse_common_def parse_expectation_def parse_rooted_opt_def parse_setup_def item_def dict_get_def
  check_id_ok_def common_keys_def MAX_OUTPUT_def task_types_def

lemma parse_manifest_example:
  "parse_manifest (Some manifest_example) ''terminal_script_v1'' = Inr
     \<lparr>man_task_type = ''terminal_script_v1'', man_setup = None, man_checks =
       [InvocationCheck \<lparr>check_id = ''c1'', chk_argv = [''/bin/sh''], chk_timeout_s = 10,
          chk_max_stdout_bytes = 100, chk_max_stderr_bytes = 100,
          chk_expect = \<lparr>exp_exit_code = 0, exp_stdout = ''gold/out'', exp_stderr = None\<rparr>\<rparr> ''.'' None]\<rparr>"
  by (simp add: manifest_example_defs example_argv example_paths insert_commute del: parse_argv.simps parse_relative.simps)

lemma load_manifest_example:
  "load_manifest (\<lambda>_. Some manifest_example) verifier_example ''terminal_script_v1'' = Inr
     \<lparr>man_task_type = ''terminal_script_v1'', man_setup = None, man_checks =
       [InvocationCheck \<lparr>check_id = ''c1'', chk_argv = [''/bin/sh''], chk_timeout_s = 10,
          chk_max_stdout_bytes = 100, chk_max_stderr_bytes = 100,
          chk_expect = \<lparr>exp_exit_code = 0, exp_stdout = ''gold/out'', exp_stderr = None\<rparr>\<rparr> ''.'' None]\<rparr>"
  using parse_manifest_example
  by (simp add: load_manifest_def verifier_example_def layout_ok_def regular_file_def MAX_MANIFEST_def
      check_references_def)

theorem load_manifest_usable_witness:
  "\<exists>man. load_manifest (\<lambda>_. Some manifest_example) verifier_example ''terminal_script_v1'' = Inr man \<and>
     man_checks man \<noteq> [] \<and> (\<forall>c \<in> set (man_checks man). check_usable verifier_example c)"
  using load_manifest_usable [OF load_manifest_example] load_manifest_example by auto

end
