(* ===== verification/Feedback.thy ===== *)
theory Feedback
  imports Supervisor Manifest
begin

text \<open>
  The bounded public display of the first failed check (\<open>src/rlvr/v3/feedback.py\<close>) and the
  validators of the notice that carries it (\<open>FailureExplanation\<close> of \<open>src/rlvr/v3/api.py\<close>).  The
  display is built only from the manifest's command and expectation and from the working directory
  and input the validator chose.
\<close>

section \<open>ASCII JSON strings\<close>

definition u_escape :: "nat \<Rightarrow> ustring" where
  "u_escape u = [92, 117, hex_digit (u div 4096), hex_digit (u div 256 mod 16),
     hex_digit (u div 16 mod 16), hex_digit (u mod 16)]"

definition ascii_escape :: "nat \<Rightarrow> ustring" where
  "ascii_escape c =
     (if c = 34 then [92, 34] else if c = 92 then [92, 92]
      else if c = 10 then [92, 110] else if c = 13 then [92, 114] else if c = 9 then [92, 116]
      else if c = 8 then [92, 98] else if c = 12 then [92, 102]
      else if 32 \<le> c \<and> c \<le> 126 then [c]
      else if c < 0x10000 then u_escape c
      else u_escape (0xD800 + (c - 0x10000) div 1024) @ u_escape (0xDC00 + (c - 0x10000) mod 1024))"

definition quote :: "ustring \<Rightarrow> ustring" where
  "quote s = [34] @ concat (map ascii_escape s) @ [34]"

definition escaped_bytes :: "ustring \<Rightarrow> nat" where
  "escaped_bytes s = length (quote s)"

definition is_bounded_display :: "ustring \<Rightarrow> bool" where
  "is_bounded_display v \<longleftrightarrow>
     0 < length v \<and> length v \<le> FAILED_CHECK_MAX_BYTES \<and> escaped_bytes v \<le> FAILED_CHECK_MAX_BYTES"

section \<open>What may be shown\<close>

definition path_characters :: "string \<Rightarrow> bool" where
  "path_characters v \<longleftrightarrow> v \<noteq> [] \<and> list_all (\<lambda>c. c \<in>
     set ''ABCDEFGHIJKLMNOPQRSTUVWXYZabcdefghijklmnopqrstuvwxyz0123456789_-./'') v"

definition no_parent :: "string \<Rightarrow> bool" where
  "no_parent v \<longleftrightarrow> ''..'' \<notin> set (split_on slash v)"

definition eligible_cwd :: "string \<Rightarrow> bool" where
  "eligible_cwd cwd \<longleftrightarrow> path_characters cwd \<and> normpath cwd = cwd \<and> (cwd = ''/work'' \<or> prefix ''/work/'' cwd)"

text \<open>\<open>posixpath.join\<close> of a directory and a relative path.\<close>

definition path_join :: "string \<Rightarrow> string \<Rightarrow> string" where
  "path_join a b = (if prefix ''/'' b then b else if a = [] \<or> last a = slash then a @ b else a @ ''/'' @ b)"

definition eligible_script :: "string \<Rightarrow> string \<Rightarrow> bool" where
  "eligible_script script cwd \<longleftrightarrow>
     length script \<le> FAILED_CHECK_MAX_BYTES \<and> path_characters script \<and> no_parent script \<and>
     \<not> prefix ''-'' script \<and> suffix ''.py'' script \<and>
     prefix ''/work/'' (normpath (if prefix ''/'' script then script else path_join cwd script))"

definition INLINE_SCRIPT_PLACEHOLDER :: string where
  "INLINE_SCRIPT_PLACEHOLDER = ''<inline script below>''"

definition INTERPRETERS :: "string list" where
  "INTERPRETERS = [''/usr/bin/python3'', ''/usr/local/bin/python3'']"

definition dumps_strings :: "ustring list \<Rightarrow> ustring" where
  "dumps_strings ss = [91] @ join_comma (map quote ss) @ [93]"

definition decode_opt :: "bytes option \<Rightarrow> ustring option option" where
  "decode_opt raw = (case raw of None \<Rightarrow> Some None | Some b \<Rightarrow> map_option Some (utf8_decode b))"

definition display_lines ::
  "string list \<Rightarrow> string \<Rightarrow> int \<Rightarrow> ustring \<Rightarrow> ustring \<Rightarrow> ustring option \<Rightarrow> string option \<Rightarrow> ustring list" where
  "display_lines argv cwd code stdin_text stdout_text stderr_text inline =
     [ucs ''Command (argv): '' @
        dumps_strings (map ucs (if inline = None then argv else argv[2 := INLINE_SCRIPT_PLACEHOLDER])),
      ucs ''Working directory: '' @ quote (ucs cwd),
      ucs ''Stdin: '' @ quote stdin_text,
      ucs ''Required exit code: '' @ str_int code,
      ucs ''Required stdout: '' @ quote stdout_text,
      ucs ''Required stderr: '' @ (case stderr_text of None \<Rightarrow> ucs ''not checked'' | Some t \<Rightarrow> quote t)] @
     (case inline of None \<Rightarrow> [] | Some script \<Rightarrow> [ucs ''Inline script:'', ucs script])"

definition render_failed_check ::
  "check \<Rightarrow> container_request \<Rightarrow> bytes \<Rightarrow> bytes option \<Rightarrow> ustring option" where
  "render_failed_check c q expected_stdout expected_stderr =
     (case c of
        InspectionCheck _ \<Rightarrow> None
      | InvocationCheck cc cwd stdin \<Rightarrow>
          let argv = chk_argv cc;
              inline = (if length argv = 3 \<and> argv ! 1 = ''-c'' then Some (argv ! 2) else None) in
          if cq_trusted q \<or> cq_argv q \<noteq> argv then None
          else if \<not> eligible_cwd (cq_cwd q) then None
          else if argv = [] \<or> argv ! 0 \<notin> set INTERPRETERS then None
          else if (case inline of Some script \<Rightarrow> script = []
                   | None \<Rightarrow> length argv \<noteq> 2 \<or> \<not> eligible_script (argv ! 1) (cq_cwd q)) then None
          else if (expected_stderr = None) \<noteq> (exp_stderr (chk_expect cc) = None) then None
          else if stdin = None \<and> cq_stdin q \<noteq> [] then None
          else if list_ex (\<lambda>raw. length raw > FAILED_CHECK_MAX_BYTES)
                    [cq_stdin q, expected_stdout, case expected_stderr of None \<Rightarrow> [] | Some b \<Rightarrow> b] then None
          else case (utf8_decode (cq_stdin q), utf8_decode expected_stdout, decode_opt expected_stderr) of
              (Some stdin_text, Some stdout_text, Some stderr_text) \<Rightarrow>
                let display = join_with 10 (display_lines argv (cq_cwd q) (exp_exit_code (chk_expect cc))
                                 stdin_text stdout_text stderr_text inline) in
                if escaped_bytes display \<le> FAILED_CHECK_MAX_BYTES then Some display else None
            | _ \<Rightarrow> None)"

text \<open>\<open>_failed_check_or_none\<close> of \<open>grading.py\<close>.\<close>

definition failed_check_or_none ::
  "check \<Rightarrow> container_request \<Rightarrow> bytes \<Rightarrow> bytes option \<Rightarrow> ustring option" where
  "failed_check_or_none c q expected_stdout expected_stderr =
     (case render_failed_check c q expected_stdout expected_stderr of
        None \<Rightarrow> None
      | Some display \<Rightarrow> if is_bounded_display display then Some display else None)"

section \<open>The notice\<close>

definition check_failure_explanation :: "failure_explanation \<Rightarrow> unit result" where
  "check_failure_explanation f =
     (case fe_failed_check f of
        None \<Rightarrow> Inr ()
      | Some v \<Rightarrow>
          if v = [] \<or> length v > FAILED_CHECK_MAX_BYTES \<or> length (quote v) > FAILED_CHECK_MAX_BYTES
            then Inl (ValueError ''failed check exceeds its display limit'')
          else if fe_reason_code f \<noteq> Miner CHECK_FAILED
            then Inl (ValueError ''only a failed comparison can include a check'')
          else Inr ())"

definition check_failure_notice :: "failure_notice \<Rightarrow> unit result" where
  "check_failure_notice n =
     (if \<not> (bounded_identifier (fn_challenge_id n) \<and> hex_digest (fn_task_id n) \<and> wire_uid (fn_uid n) \<and>
            bounded_identifier (fn_hotkey n))
        then Inl (ValueError ''field'')
      else check_failure_explanation (fn_failure n))"
section \<open>Correctness\<close>

lemma hex_digit_bounds: "n < 16 \<Longrightarrow> 48 \<le> hex_digit n" "hex_digit n \<noteq> 10"
  by (auto simp: hex_digit_def)

lemma ascii_escape_ne: "ascii_escape c \<noteq> []"
  by (simp add: ascii_escape_def u_escape_def)

lemma ascii_escape_no_newline: "10 \<notin> set (ascii_escape c)"
  by (auto simp: ascii_escape_def u_escape_def hex_digit_bounds(2) [symmetric])

lemma quote_no_newline: "10 \<notin> set (quote s)"
  using ascii_escape_no_newline by (auto simp: quote_def)

lemma length_le_escaped: "length s < escaped_bytes s"
proof -
  have "length s \<le> length (concat (map ascii_escape s))"
  proof (induction s)
    case (Cons c s)
    then show ?case using ascii_escape_ne [of c] by (cases "ascii_escape c") auto
  qed simp
  then show ?thesis by (simp add: escaped_bytes_def quote_def)
qed

lemma nat_digits_no_newline: "10 \<notin> set (nat_digits n)"
  by (induction n rule: nat_digits.induct) (subst nat_digits.simps, auto)

lemma str_int_no_newline: "10 \<notin> set (str_int n)"
  using nat_digits_no_newline by (auto simp: str_int_def)

lemma join_comma_no_newline: "\<forall>s \<in> set ss. 10 \<notin> set s \<Longrightarrow> 10 \<notin> set (join_comma ss)"
  by (induction ss rule: join_comma.induct) auto

lemma dumps_strings_no_newline: "10 \<notin> set (dumps_strings ss)"
  using join_comma_no_newline [of "map quote ss"] quote_no_newline by (auto simp: dumps_strings_def)

lemma split_on_line: "c \<notin> set s \<Longrightarrow> split_on c (s @ c # t) = s # split_on c t"
  by (induction s) auto

lemma split_on_join:
  "\<forall>s \<in> set (take n ss). c \<notin> set s \<Longrightarrow> n < length ss \<Longrightarrow>
     take n (split_on c (join_with c ss)) = take n ss"
proof (induction n arbitrary: ss)
  case (Suc n)
  then obtain s t us where ss: "ss = s # t # us"
    by (metis Suc_less_eq length_Cons less_nat_zero_code list.exhaust list.size(3))
  with Suc.prems Suc.IH [of "t # us"] show ?case by (simp add: split_on_line)
qed simp

lemma split_on_none: "c \<notin> set s \<Longrightarrow> split_on c s = [s]"
  by (induction s) auto

lemma split_on_join_all:
  "\<forall>s \<in> set ss. c \<notin> set s \<Longrightarrow> ss \<noteq> [] \<Longrightarrow> split_on c (join_with c ss) = ss"
  by (induction c ss rule: join_with.induct) (auto simp: split_on_line split_on_none)

lemma split_display_lines:
  "take 6 (split_on 10 (join_with 10 (display_lines argv cwd code si so se inl))) =
     take 6 (display_lines argv cwd code si so se inl)"
proof -
  have free: "\<forall>s \<in> set (take 6 (display_lines argv cwd code si so se inl)). 10 \<notin> set s"
    using quote_no_newline str_int_no_newline dumps_strings_no_newline
    by (auto simp: display_lines_def ucs_def split: option.splits)
  show ?thesis
  proof (cases inl)
    case None
    then have "take 6 (display_lines argv cwd code si so se inl) = display_lines argv cwd code si so se inl"
      by (simp add: display_lines_def)
    with free show ?thesis
      by (subst split_on_join_all) (auto simp: display_lines_def)
  next
    case (Some script)
    with free show ?thesis by (intro split_on_join) (auto simp: display_lines_def)
  qed
qed

text \<open>The inputs a rendered display was made from.\<close>

lemma render_failed_checkE:
  assumes "render_failed_check c q so se = Some d"
  obtains cc cwd stdin si ot et inl where "c = InvocationCheck cc cwd stdin" "\<not> cq_trusted q"
    "cq_argv q = chk_argv cc" "eligible_cwd (cq_cwd q)" "chk_argv cc \<noteq> []"
    "chk_argv cc ! 0 \<in> set INTERPRETERS"
    "utf8_decode (cq_stdin q) = Some si" "utf8_decode so = Some ot" "decode_opt se = Some et"
    "d = join_with 10 (display_lines (chk_argv cc) (cq_cwd q) (exp_exit_code (chk_expect cc)) si ot et inl)"
    "escaped_bytes d \<le> FAILED_CHECK_MAX_BYTES"
proof (cases c)
  case (InvocationCheck cc cwd stdin)
  show thesis
    using assms unfolding render_failed_check_def Let_def
    by (simp add: InvocationCheck split: if_split_asm option.split_asm)
       (rule that [OF InvocationCheck]; force)+
qed (use assms in \<open>simp add: render_failed_check_def\<close>)


lemma render_bounded:
  assumes "render_failed_check c q so se = Some d"
  shows "is_bounded_display d"
proof -
  obtain argv cwd code si ot et inl where d: "d = join_with 10 (display_lines argv cwd code si ot et inl)"
    and e: "escaped_bytes d \<le> FAILED_CHECK_MAX_BYTES"
    using render_failed_checkE [OF assms] by metis
  have "d \<noteq> []" by (simp add: d display_lines_def ucs_def)
  then show ?thesis using e length_le_escaped [of d] by (simp add: is_bounded_display_def)
qed

lemma failed_check_or_none_eq: "failed_check_or_none c q so se = render_failed_check c q so se"
  using render_bounded by (auto simp: failed_check_or_none_def split: option.splits)

text \<open>A display shown to a miner is accepted by the notice's validators, comes from an untrusted
  invocation whose command is the manifest's own under one of the two interpreters in a normalised
  directory below \<open>/work\<close>, and cannot be forged: its first six lines are exactly the command, working
  directory, input, exit code and expected streams of that check, whatever characters they hold.\<close>

theorem failed_check_display:
  assumes "failed_check_or_none c q so se = Some d"
  shows "check_failure_explanation \<lparr>fe_reason_code = Miner CHECK_FAILED, fe_failed_check = Some d\<rparr> = Inr () \<and>
    \<not> cq_trusted q \<and> eligible_cwd (cq_cwd q) \<and>
    (\<exists>cc cwd stdin si ot et inl. c = InvocationCheck cc cwd stdin \<and> cq_argv q = chk_argv cc \<and>
       chk_argv cc ! 0 \<in> set INTERPRETERS \<and>
       utf8_decode (cq_stdin q) = Some si \<and> utf8_decode so = Some ot \<and> decode_opt se = Some et \<and>
       take 6 (split_on 10 d) =
         take 6 (display_lines (chk_argv cc) (cq_cwd q) (exp_exit_code (chk_expect cc)) si ot et inl))"
proof -
  have r: "render_failed_check c q so se = Some d" using assms by (simp add: failed_check_or_none_eq)
  have "check_failure_explanation \<lparr>fe_reason_code = Miner CHECK_FAILED, fe_failed_check = Some d\<rparr> = Inr ()"
    using render_bounded [OF r]
    by (simp add: check_failure_explanation_def is_bounded_display_def escaped_bytes_def)
  moreover obtain cc cwd stdin si ot et inl where "c = InvocationCheck cc cwd stdin" "\<not> cq_trusted q"
    "cq_argv q = chk_argv cc" "eligible_cwd (cq_cwd q)" "chk_argv cc ! 0 \<in> set INTERPRETERS"
    "utf8_decode (cq_stdin q) = Some si" "utf8_decode so = Some ot" "decode_opt se = Some et"
    "d = join_with 10 (display_lines (chk_argv cc) (cq_cwd q) (exp_exit_code (chk_expect cc)) si ot et inl)"
    using render_failed_checkE [OF r] by metis
  ultimately show ?thesis using split_display_lines by blast
qed

definition python_common :: check_common where
  "python_common = \<lparr>check_id = ''c1'', chk_argv = [''/usr/bin/python3'', ''t.py''], chk_timeout_s = 10,
     chk_max_stdout_bytes = 100, chk_max_stderr_bytes = 100,
     chk_expect = \<lparr>exp_exit_code = 0, exp_stdout = ''gold/out'', exp_stderr = None\<rparr>\<rparr>"

definition python_check :: check where
  "python_check = InvocationCheck python_common ''.'' None"

definition python_request :: container_request where
  "python_request = request_example\<lparr>cq_argv := [''/usr/bin/python3'', ''t.py'']\<rparr>"

definition python_display :: ustring where
  "python_display = join_with 10 (display_lines [''/usr/bin/python3'', ''t.py''] ''/work'' 0 [] (ucs ''ok'') None None)"

lemma render_python_check: "render_failed_check python_check python_request ''ok'' None = Some python_display"
proof -
  have p: "eligible_cwd ''/work''" "eligible_script ''t.py'' ''/work''"
    unfolding eligible_script_def FAILED_CHECK_MAX_BYTES_def
    by (simp_all add: eligible_cwd_def path_characters_def no_parent_def path_join_def normpath_def
        initial_slashes_def posix_def Let_def suffix_Cons)
  have e: "escaped_bytes python_display \<le> 400"
    by code_simp
  show ?thesis
    using p e
    by (simp add: render_failed_check_def python_check_def python_common_def python_request_def
        request_example_def INTERPRETERS_def FAILED_CHECK_MAX_BYTES_def utf8_decode_ascii decode_opt_def
        python_display_def ucs_def Let_def)
qed

theorem failed_check_display_witness:
  "\<exists>d. failed_check_or_none python_check python_request ''ok'' None = Some d \<and>
     check_failure_explanation \<lparr>fe_reason_code = Miner CHECK_FAILED, fe_failed_check = Some d\<rparr> = Inr ()"
  using failed_check_display [of python_check python_request "''ok''" None python_display]
    render_python_check by (simp add: failed_check_or_none_eq)

end
