(* ===== verification/Patching.thy ===== *)
theory Patching
  imports Feedback
begin

text \<open>
  Submissions before they are graded: \<open>src/rlvr/v3/script.py\<close> and \<open>src/rlvr/v3/patch.py\<close>.  A
  \<open>world\<close> stands for Docker: for a request and the workspace it starts from, how the runtime behaves
  and what the workspace holds afterwards.  Temporary directories are parameters (\<open>None\<close> when the
  directory cannot be made); host-side git, used outside the round, is the parameter \<open>git\<close>.
\<close>

section \<open>Running a container on a workspace\<close>

type_synonym world = "container_request \<Rightarrow> node \<Rightarrow> runtime \<times> node"

definition execute :: "world \<Rightarrow> supervisor_policy \<Rightarrow> string \<Rightarrow> container_request \<Rightarrow> node \<Rightarrow>
    (supervisor_error + container_result) \<times> node" where
  "execute w p docker q ws =
     (case w q ws of (rt, ws') \<Rightarrow>
        case run_container rt p docker q of (issued, r) \<Rightarrow> (r, if issued = [] then ws else ws'))"

section \<open>Scripts\<close>

record script_limits =
  scl_max_script_bytes :: int

definition check_script_limits :: "script_limits \<Rightarrow> script_limits result" where
  "check_script_limits l =
     (if scl_max_script_bytes l \<le> 0 then Inl (ValueError ''script byte limit must be a positive integer'')
      else Inr l)"

datatype script_result = Accepted | ScriptRejected string

definition validate_script :: "bytes \<Rightarrow> script_limits \<Rightarrow> script_result" where
  "validate_script script limits =
     (if int (length script) > scl_max_script_bytes limits
        then ScriptRejected ''script exceeds the policy byte limit''
      else if CHR 0x00 \<in> set script then ScriptRejected ''script contains a NUL byte''
      else if utf8_decode script = None then ScriptRejected ''script is not valid UTF-8''
      else Accepted)"

section \<open>Patches\<close>

datatype patch_error = PatchToolError string | PatchRaised string

record patch_limits =
  pl_max_patch_bytes :: int
  pl_git_timeout_s :: int

definition check_patch_limits :: "patch_limits \<Rightarrow> patch_limits result" where
  "check_patch_limits l =
     (if pl_max_patch_bytes l \<le> 0 \<or> pl_git_timeout_s l \<le> 0
      then Inl (ValueError ''patch limits must be positive integers'') else Inr l)"

datatype patch_result = Applied | Rejected ustring miner_reason

definition first_line :: "ustring \<Rightarrow> ustring" where
  "first_line reason =
     (case filter (\<lambda>l. l \<noteq> []) (map ustrip (splitlines str_break reason)) of [] \<Rightarrow> [] | l # _ \<Rightarrow> l)"

definition rejected :: "ustring \<Rightarrow> miner_reason \<Rightarrow> patch_result" where
  "rejected reason code =
     Rejected (take 200 (if first_line reason = [] then ucs ''patch rejected'' else first_line reason)) code"

definition BINARY_MARKERS :: "string list" where
  "BINARY_MARKERS = [''GIT binary patch'', ''Binary files '', ''literal '', ''delta '']"

definition COPY_RENAME_MARKERS :: "string list" where
  "COPY_RENAME_MARKERS = [''copy from '', ''copy to '', ''copy old '', ''copy new '', ''rename from '',
     ''rename to '', ''rename old '', ''rename new '', ''similarity index '', ''dissimilarity index '']"

definition ALLOWED_MODES :: "string list" where
  "ALLOWED_MODES = [''100644'', ''100755'']"

text \<open>\<open>_MODE_LINE\<close>: the digits after one of the four mode prefixes.\<close>

definition mode_digits :: "ustring \<Rightarrow> ustring \<Rightarrow> ustring option" where
  "mode_digits line pre =
     (let digits = drop (length pre) line in
      if prefix pre line \<and> digits \<noteq> [] \<and> list_all (\<lambda>c. 48 \<le> c \<and> c \<le> 57) digits then Some digits else None)"

definition bad_mode_line :: "ustring \<Rightarrow> bool" where
  "bad_mode_line line \<longleftrightarrow> list_ex
     (\<lambda>pre. case mode_digits line (ucs pre) of None \<Rightarrow> False | Some d \<Rightarrow> d \<notin> set (map ucs ALLOWED_MODES))
     [''old mode '', ''new mode '', ''new file mode '', ''deleted file mode '']"

definition starts_with_any :: "ustring \<Rightarrow> string list \<Rightarrow> bool" where
  "starts_with_any line markers \<longleftrightarrow> list_ex (\<lambda>m. prefix (ucs m) line) markers"

fun scan_patch_lines :: "ustring list \<Rightarrow> patch_result option" where
  "scan_patch_lines [] = None"
| "scan_patch_lines (line # lines) =
     (if starts_with_any line BINARY_MARKERS
        then Some (rejected (ucs ''binary patches are not supported'') PATCH_STATIC_REJECTED)
      else if starts_with_any line COPY_RENAME_MARKERS
        then Some (rejected (ucs ''copy and rename patches are not supported'') PATCH_STATIC_REJECTED)
      else if bad_mode_line line
        then Some (rejected (ucs ''patch contains an unsupported file mode'') PATCH_STATIC_REJECTED)
      else scan_patch_lines lines)"

definition static_rejection :: "bytes \<Rightarrow> patch_limits \<Rightarrow> patch_result option" where
  "static_rejection patch limits =
     (if int (length patch) > pl_max_patch_bytes limits
        then Some (rejected (ucs ''patch exceeds the policy byte limit'') PATCH_STATIC_REJECTED)
      else if CHR 0x00 \<in> set patch
        then Some (rejected (ucs ''patch contains a NUL byte'') PATCH_STATIC_REJECTED)
      else if utf8_decode patch = None
        then Some (rejected (ucs ''patch is not valid UTF-8'') PATCH_STATIC_REJECTED)
      else scan_patch_lines (splitlines bytes_break (ucs patch)))"

primrec tree_message :: "tree_error \<Rightarrow> string" where
  "tree_message RootNotDirectory = ''result tree root is not a directory''"
| "tree_message NotInspectable = ''result tree could not be inspected''"
| "tree_message UnsafePath = ''result tree contains an unsafe path''"
| "tree_message GitMetadata = ''result tree contains .git metadata''"
| "tree_message PathTooLong = ''result tree path exceeds the policy limit''"
| "tree_message UnsafeEntry = ''result tree contains an unsafe entry''"
| "tree_message TooManyEntries = ''result tree contains too many entries''"
| "tree_message FileTooLarge = ''result tree file exceeds the policy limit''"
| "tree_message TotalTooLarge = ''result tree exceeds the total byte limit''"

text \<open>\<open>_walk_tree\<close>, with the workspace afterwards.\<close>

definition walk_workspace :: "bool \<Rightarrow> node \<Rightarrow> (patch_error + ustring option) \<times> node" where
  "walk_workspace baseline ws =
     (case inspect_tree None (\<not> baseline) ws of
        (Inl e, ws') \<Rightarrow>
          (if baseline then Inl (PatchToolError ''workspace could not be inspected'')
           else Inr (Some (ucs (''patched workspace: '' @ tree_message e))), ws')
      | (Inr _, ws') \<Rightarrow> (Inr None, ws'))"

definition hit_limit :: "container_result \<Rightarrow> bool" where
  "hit_limit r \<longleftrightarrow> timed_out r \<or> oom_killed r \<or> stdout_overflow r \<or> stderr_overflow r"

definition patch_request ::
  "string \<Rightarrow> string \<Rightarrow> node \<Rightarrow> bytes \<Rightarrow> patch_limits \<Rightarrow> string \<Rightarrow> string \<Rightarrow> string list \<Rightarrow> container_request result" where
  "patch_request host scratch ws patch limits run_prefix name argv =
     rbind (mk_mount host (Some ws) ''/workspace'' False) (\<lambda>m1.
     rbind (mk_mount (scratch @ ''/submission.diff'') (Some (Reg patch 292 1)) ''/submission.diff'' True) (\<lambda>m2.
     check_container_request
       \<lparr>cq_name = run_prefix @ ''-patch-'' @ name, cq_argv = argv, cq_cwd = ''/workspace'', cq_mounts = [m1, m2],
        cq_stdin = [], cq_timeout_s = pl_git_timeout_s limits, cq_max_stdout_bytes = 65536,
        cq_max_stderr_bytes = 65536, cq_trusted = False\<rparr>))"

text \<open>A step of a grading: its outcome, the workspace afterwards and the containers started.\<close>

type_synonym 'a graded = "'a \<times> node \<times> container_request list"

text \<open>\<open>invoke\<close>: a constructor's \<open>ValueError\<close> escapes, a supervisor error becomes a tool error.\<close>

definition patch_invoke ::
  "world \<Rightarrow> supervisor_policy \<Rightarrow> string \<Rightarrow> container_request result \<Rightarrow> node \<Rightarrow>
   (patch_error + container_result) graded" where
  "patch_invoke w p docker q ws =
     (case q of
        Inl _ \<Rightarrow> (Inl (PatchRaised ''ValueError''), ws, [])
      | Inr q \<Rightarrow>
          (case execute w p docker q ws of
             (Inl _, ws') \<Rightarrow> (Inl (PatchToolError ''git container failed''), ws', [q])
           | (Inr r, ws') \<Rightarrow> (Inr r, ws', [q])))"

definition finish_patch :: "node \<Rightarrow> (patch_error + patch_result) \<times> node" where
  "finish_patch ws =
     (case walk_workspace False ws of
        (Inl e, ws') \<Rightarrow> (Inl e, ws')
      | (Inr None, ws') \<Rightarrow> (Inr Applied, ws')
      | (Inr (Some post_error), ws') \<Rightarrow> (Inr (rejected post_error RESULT_TREE_INVALID), ws'))"

text \<open>Also returned: the containers started, in order.\<close>

definition apply_patch_in_container ::
  "world \<Rightarrow> supervisor_policy \<Rightarrow> string \<Rightarrow> string \<Rightarrow> string option \<Rightarrow> string \<Rightarrow> patch_limits \<Rightarrow> bytes \<Rightarrow> node \<Rightarrow>
   (patch_error + patch_result) graded" where
  "apply_patch_in_container w p docker host scratch run_prefix limits patch ws =
     (case static_rejection patch limits of
        Some r \<Rightarrow> (Inr r, ws, [])
      | None \<Rightarrow>
        (case walk_workspace True ws of
           (Inl e, ws1) \<Rightarrow> (Inl e, ws1, [])
         | (Inr _, ws1) \<Rightarrow>
           if patch = [] then (Inr Applied, ws1, [])
           else case scratch of
             None \<Rightarrow> (Inl (PatchRaised ''OSError''), ws1, [])
           | Some dir \<Rightarrow>
             (case patch_invoke w p docker (patch_request host dir ws1 patch limits run_prefix ''check''
                     [''/usr/bin/git'', ''apply'', ''--check'', ''-p1'', ''/submission.diff'']) ws1 of
                (Inl e, ws2, qs) \<Rightarrow> (Inl e, ws2, qs)
              | (Inr checked, ws2, qs) \<Rightarrow>
                if hit_limit checked
                  then (Inr (rejected (ucs ''git check exceeded its limits'') PATCH_APPLY_FAILED), ws2, qs)
                else if exit_code checked \<in> {126, 127}
                  then (Inl (PatchToolError ''git is unavailable in the sandbox''), ws2, qs)
                else if exit_code checked \<noteq> 0
                  then (Inr (rejected (utf8_replace (cr_stderr checked)) PATCH_APPLY_FAILED), ws2, qs)
                else
                  (case patch_invoke w p docker (patch_request host dir ws2 patch limits run_prefix ''apply''
                          [''/usr/bin/git'', ''apply'', ''-p1'', ''/submission.diff'']) ws2 of
                     (Inl e, ws3, qs') \<Rightarrow> (Inl e, ws3, qs @ qs')
                   | (Inr applied, ws3, qs') \<Rightarrow>
                     if exit_code applied \<noteq> 0 \<or> hit_limit applied
                       then (Inr (rejected (ucs ''git apply failed'') PATCH_APPLY_FAILED), ws3, qs @ qs')
                     else (case finish_patch ws3 of (r, ws4) \<Rightarrow> (r, ws4, qs @ qs'))))))"

text \<open>\<open>apply_patch\<close>, with git on the host: \<open>git args ws\<close> is the exit code, the two streams and the
  workspace afterwards, or \<open>None\<close> when git cannot run in time.\<close>

type_synonym host_git = "string list \<Rightarrow> node \<Rightarrow> (int \<times> bytes \<times> bytes) option \<times> node"

definition git_failed :: patch_error where
  "git_failed = PatchToolError ''git execution failed''"

definition git_version :: "(int \<times> bytes \<times> bytes) option \<Rightarrow> string \<Rightarrow> patch_error + unit" where
  "git_version outcome expected =
     (case outcome of None \<Rightarrow> Inl git_failed
      | Some (rc, out, _) \<Rightarrow>
          let ws = words_of (ustrip (map (\<lambda>c. if c < 0x80 then c else 0xFFFD) (ucs out))) in
          if rc \<noteq> 0 then Inl (PatchToolError ''git version check failed'')
          else if length ws < 3 \<or> take 2 ws \<noteq> [ucs ''git'', ucs ''version'']
            then Inl (PatchToolError ''git returned an invalid version'')
          else if ws ! 2 \<noteq> ucs expected
            then Inl (PatchToolError ''git version does not match release policy'')
          else Inr ())"

definition apply_patch ::
  "host_git \<Rightarrow> string option \<Rightarrow> string \<Rightarrow> patch_limits \<Rightarrow> bytes \<Rightarrow> node \<Rightarrow> (patch_error + patch_result) \<times> node" where
  "apply_patch git executable expected limits patch ws =
     (case static_rejection patch limits of
        Some r \<Rightarrow> (Inr r, ws)
      | None \<Rightarrow>
        (case walk_workspace True ws of
           (Inl e, ws1) \<Rightarrow> (Inl e, ws1)
         | (Inr _, ws1) \<Rightarrow>
           if patch = [] then (Inr Applied, ws1)
           else if executable = None then (Inl (PatchToolError ''git executable is unavailable''), ws1)
           else case git [''--version''] ws1 of (version, ws2) \<Rightarrow>
             (case git_version version expected of
                Inl e \<Rightarrow> (Inl e, ws2)
              | Inr _ \<Rightarrow>
                (case git [''apply'', ''--check'', ''-p1''] ws2 of
                   (None, ws3) \<Rightarrow> (Inl git_failed, ws3)
                 | (Some (rc, _, err), ws3) \<Rightarrow>
                   if rc \<noteq> 0 then (Inr (rejected (utf8_replace err) PATCH_APPLY_FAILED), ws3)
                   else case git [''apply'', ''-p1''] ws3 of
                     (None, ws4) \<Rightarrow> (Inl git_failed, ws4)
                   | (Some (rc', _, _), ws4) \<Rightarrow>
                     if rc' \<noteq> 0 then (Inl (PatchToolError ''git apply failed after a successful check''), ws4)
                     else finish_patch ws4))))"

section \<open>Correctness\<close>

text \<open>The reference for the static rejection: the declarative conditions on a patch.\<close>

definition plain_line :: "ustring \<Rightarrow> bool" where
  "plain_line line \<longleftrightarrow>
     (\<forall>m \<in> set (BINARY_MARKERS @ COPY_RENAME_MARKERS). \<not> prefix (ucs m) line) \<and>
     (\<forall>pre \<in> {''old mode '', ''new mode '', ''new file mode '', ''deleted file mode ''}.
        \<forall>d. line = ucs pre @ d \<longrightarrow> d \<noteq> [] \<longrightarrow> (\<forall>c \<in> set d. 48 \<le> c \<and> c \<le> 57) \<longrightarrow>
            d = ucs ''100644'' \<or> d = ucs ''100755'')"

definition plain_patch :: "patch_limits \<Rightarrow> bytes \<Rightarrow> bool" where
  "plain_patch limits patch \<longleftrightarrow>
     int (length patch) \<le> pl_max_patch_bytes limits \<and> CHR 0x00 \<notin> set patch \<and> utf8_decode patch \<noteq> None \<and>
     (\<forall>line \<in> set (splitlines bytes_break (ucs patch)). plain_line line)"

lemma mode_digits_Some:
  "mode_digits line pre = Some d \<longleftrightarrow> line = pre @ d \<and> d \<noteq> [] \<and> (\<forall>c \<in> set d. 48 \<le> c \<and> c \<le> 57)"
  by (auto simp: mode_digits_def Let_def list_all_iff prefix_def)

lemma bad_mode_line_iff:
  "bad_mode_line line \<longleftrightarrow> (\<exists>pre \<in> {''old mode '', ''new mode '', ''new file mode '', ''deleted file mode ''}.
     \<exists>d. line = ucs pre @ d \<and> d \<noteq> [] \<and> (\<forall>c \<in> set d. 48 \<le> c \<and> c \<le> 57) \<and>
         d \<noteq> ucs ''100644'' \<and> d \<noteq> ucs ''100755'')"
proof -
  have one: "(case mode_digits line pre of None \<Rightarrow> False | Some d \<Rightarrow> d \<notin> set (map ucs ALLOWED_MODES)) \<longleftrightarrow>
      (\<exists>d. line = pre @ d \<and> d \<noteq> [] \<and> (\<forall>c \<in> set d. 48 \<le> c \<and> c \<le> 57) \<and>
         d \<noteq> ucs ''100644'' \<and> d \<noteq> ucs ''100755'')" for pre
    by (auto simp: ALLOWED_MODES_def mode_digits_Some split: option.splits)
       (metis mode_digits_Some option.distinct(1))
  show ?thesis unfolding bad_mode_line_def list_ex_iff one by simp
qed

lemma plain_line_iff:
  "plain_line line \<longleftrightarrow> \<not> starts_with_any line BINARY_MARKERS \<and>
     \<not> starts_with_any line COPY_RENAME_MARKERS \<and> \<not> bad_mode_line line"
proof -
  have logic: "((\<forall>m \<in> A \<union> B. \<not> P m) \<and> (\<forall>p \<in> S. \<forall>d. a p d \<longrightarrow> b d \<longrightarrow> c d \<longrightarrow> e d \<or> f d)) \<longleftrightarrow>
      (\<not> (\<exists>m \<in> A. P m) \<and> \<not> (\<exists>m \<in> B. P m) \<and>
       \<not> (\<exists>p \<in> S. \<exists>d. a p d \<and> b d \<and> c d \<and> \<not> e d \<and> \<not> f d))"
    for A B :: "string set" and S :: "string set" and P a b c e f by blast
  show ?thesis
    unfolding plain_line_def bad_mode_line_iff starts_with_any_def list_ex_iff set_append by (rule logic)
qed

lemma scan_patch_lines_None:
  "scan_patch_lines lines = None \<longleftrightarrow> (\<forall>line \<in> set lines. plain_line line)"
  by (induction lines) (auto simp: plain_line_iff)

text \<open>C35. A patch passes the static check exactly when it is within the byte limit, free of NUL bytes,
  valid UTF-8, and none of its lines starts a binary, copy or rename section or gives a file mode
  other than the two allowed ones.\<close>

theorem static_rejection_exact: "static_rejection patch limits = None \<longleftrightarrow> plain_patch limits patch"
  by (auto simp: static_rejection_def plain_patch_def scan_patch_lines_None)


lemma walk_workspace_baseline:
  "walk_workspace True ws = (Inr r, ws') \<longleftrightarrow> ws' = ws \<and> r = None \<and> (\<exists>rep. inspect_tree None False ws = (Inr rep, ws))"
  by (auto simp: walk_workspace_def split: prod.splits sum.splits dest: inspect_tree_root)

lemma finish_patch_Applied:
  assumes "finish_patch ws = (Inr Applied, ws')"
  shows "safe_tree None ws'"
proof -
  obtain rep where i: "inspect_tree None True ws = (Inr rep, ws')"
    using assms
    by (auto simp: finish_patch_def walk_workspace_def rejected_def split: prod.splits sum.splits option.splits)
  show ?thesis using inspect_tree_safe [OF i] inspect_tree_root [OF i] by simp
qed

lemma finish_patch_total: "\<exists>r ws'. finish_patch ws = (Inr r, ws')"
  by (auto simp: finish_patch_def walk_workspace_def split: prod.splits sum.splits option.splits)

lemma rejected_bounded: "\<exists>txt. rejected reason code = Rejected txt code \<and> 0 < length txt \<and> length txt \<le> 200"
  by (auto simp: rejected_def ucs_def)

lemma scan_patch_lines_rejects: "scan_patch_lines lines = Some r \<Longrightarrow> \<exists>m. r = rejected m PATCH_STATIC_REJECTED"
  by (induction lines) (auto split: if_splits)

lemma static_rejection_rejects: "static_rejection patch limits = Some r \<Longrightarrow> \<exists>m. r = rejected m PATCH_STATIC_REJECTED"
  using scan_patch_lines_rejects by (auto simp: static_rejection_def split: if_splits)

lemma apply_patch_cases:
  assumes "apply_patch_in_container w p docker host scratch run_prefix limits patch ws = (Inr r, ws', qs)"
  shows "case r of
      Applied \<Rightarrow> plain_patch limits patch \<and> safe_tree None ws' \<and> (patch = [] \<longrightarrow> ws' = ws)
    | Rejected reason code \<Rightarrow> 0 < length reason \<and> length reason \<le> 200 \<and>
        code \<in> {PATCH_STATIC_REJECTED, PATCH_APPLY_FAILED, RESULT_TREE_INVALID}"
proof (cases "static_rejection patch limits")
  case (Some r')
  then have "r = r'" using assms by (simp add: apply_patch_in_container_def)
  moreover obtain m where "r' = rejected m PATCH_STATIC_REJECTED"
    using static_rejection_rejects [OF Some] by blast
  ultimately show ?thesis using rejected_bounded [of m PATCH_STATIC_REJECTED] by auto
next
  case None
  then have plain: "plain_patch limits patch"
    by (simp add: static_rejection_def plain_patch_def scan_patch_lines_None split: if_splits)
  obtain rep where base: "inspect_tree None False ws = (Inr rep, ws)" and
    w: "walk_workspace True ws = (Inr None, ws)"
    using assms None
    by (cases "walk_workspace True ws")
       (auto simp: apply_patch_in_container_def walk_workspace_baseline split: sum.splits)
  show ?thesis
  proof (cases "patch = []")
    case True
    then show ?thesis
      using assms None w plain inspect_tree_safe [OF base] by (simp add: apply_patch_in_container_def)
  next
    case False
    consider m where "r = rejected m PATCH_APPLY_FAILED" | ws3 where "finish_patch ws3 = (Inr r, ws')"
      using assms None w False
      by (auto simp: apply_patch_in_container_def split: option.splits prod.splits sum.splits if_splits)
    then show ?thesis
    proof cases
      case 1
      then show ?thesis using rejected_bounded [of m PATCH_APPLY_FAILED] by auto
    next
      case 2
      then consider "r = Applied" | m where "r = rejected m RESULT_TREE_INVALID"
        by (auto simp: finish_patch_def split: prod.splits sum.splits option.splits)
      then show ?thesis
      proof cases
        case 1
        then show ?thesis using plain False finish_patch_Applied 2 by simp
      next
        case 2
        then show ?thesis using rejected_bounded [of m RESULT_TREE_INVALID] by auto
      qed
    qed
  qed
qed

lemma apply_patch_rejection:
  "apply_patch_in_container w p docker host scratch run_prefix limits patch ws = (Inr (Rejected reason code), ws', qs) \<Longrightarrow>
     0 < length reason \<and> length reason \<le> 200"
  using apply_patch_cases by fastforce

text \<open>The outcome of applying a patch in the sandbox.  An applied patch passed the static check and
  leaves a workspace of plain directories and singly linked files without \<open>.git\<close>, unchanged when the
  patch is empty; a rejection carries a non-empty reason of at most 200 characters and one of the
  three codes that blame the miner.\<close>

theorem apply_patch_outcome:
  assumes "apply_patch_in_container w p docker host scratch run_prefix limits patch ws = (Inr r, ws', qs)"
  shows "case r of
      Applied \<Rightarrow> plain_patch limits patch \<and> safe_tree None ws' \<and> (patch = [] \<longrightarrow> ws' = ws)
    | Rejected reason code \<Rightarrow> 0 < length reason \<and> length reason \<le> 200 \<and>
        code \<in> {PATCH_STATIC_REJECTED, PATCH_APPLY_FAILED, RESULT_TREE_INVALID}"
  using apply_patch_cases [OF assms] .

definition sandbox_runtime :: runtime where
  "sandbox_runtime = \<lparr>rt_available = True, rt_lstat = (\<lambda>_. Some (Dir 493 [])), rt_guard_starts = True,
     rt_process = (\<lambda>_ _ _. Some \<lparr>pr_stdout = [''ok''], pr_stderr = [], pr_watchdog = False\<rparr>),
     rt_control = (\<lambda>cmd. Some (0, if cmd ! 1 = ''inspect'' then ''exited 0 false'' else []))\<rparr>"

definition sandbox_result :: container_result where
  "sandbox_result = \<lparr>exit_code = 0, oom_killed = False, timed_out = False, cr_stdout = ''ok'',
     cr_stderr = [], stdout_overflow = False, stderr_overflow = False\<rparr>"

lemma run_sandbox:
  assumes "cq_max_stdout_bytes q \<ge> 2"
  shows "run_container sandbox_runtime p docker q =
     ([inspect_command docker q, remove_command docker q], Inr sandbox_result)"
proof -
  have mounts: "check_launch_mounts sandbox_runtime ms = Inr ()" for ms
    by (induction ms) (simp_all add: sandbox_runtime_def mountable_def)
  have "inspected_state (0, ''exited 0 false'') = Inr (0, False)"
    by (simp add: inspected_state_def ucs_def ustrip_def uspace_def words_of_def py_int_def Let_def)
  moreover have "2 \<le> nat (cq_max_stdout_bytes q)" using assms by simp
  ultimately show ?thesis
    using mounts
    by (simp add: run_container_def started_run_def drain_correct delivered_def sandbox_runtime_def
        sandbox_result_def inspect_command_def remove_command_def Let_def)
qed

definition patched_tree :: node where
  "patched_tree = Dir 493 [(''a'', Reg ''new'' 420 1)]"

definition patch_world :: world where
  "patch_world q ws = (sandbox_runtime, if suffix ''-apply'' (cq_name q) then patched_tree else ws)"

definition patch_limits_example :: patch_limits where
  "patch_limits_example = \<lparr>pl_max_patch_bytes = 1000, pl_git_timeout_s = 30\<rparr>"

lemma example_trees:
  "inspect_tree None nm (Dir 493 []) = (Inr ([], 0), Dir 493 [])"
  "inspect_tree None nm patched_tree = (Inr ([''a''], 3), patched_tree)"
  by (auto simp: inspect_tree_def patched_tree_def sorted_dirs_def sorted_files_def
        inspect_entry_def validate_relative_path_def posix_def has_bit_def)

definition example_request :: "string \<Rightarrow> string list \<Rightarrow> container_request" where
  "example_request name argv = \<lparr>cq_name = name, cq_argv = argv, cq_cwd = ''/workspace'',
     cq_mounts = [\<lparr>mnt_host = ''/ws'', mnt_container = ''/workspace'', mnt_read_only = False\<rparr>,
       \<lparr>mnt_host = ''/tmp/s/submission.diff'', mnt_container = ''/submission.diff'', mnt_read_only = True\<rparr>],
     cq_stdin = [], cq_timeout_s = 30, cq_max_stdout_bytes = 65536, cq_max_stderr_bytes = 65536,
     cq_trusted = False\<rparr>"

lemma apply_patch_example:
  "apply_patch_in_container patch_world policy_example ''/docker'' ''/ws'' (Some ''/tmp/s'') ''v3-a-1''
     patch_limits_example ''x'' (Dir 493 []) = (Inr Applied, patched_tree,
       [example_request ''v3-a-1-patch-check'' [''/usr/bin/git'', ''apply'', ''--check'', ''-p1'', ''/submission.diff''],
        example_request ''v3-a-1-patch-apply'' [''/usr/bin/git'', ''apply'', ''-p1'', ''/submission.diff'']])"
proof -
  have s: "static_rejection ''x'' patch_limits_example = None"
    by (simp add: static_rejection_def patch_limits_example_def utf8_decode_ascii splitlines_def ucs_def
        bytes_break_def starts_with_any_def BINARY_MARKERS_def COPY_RENAME_MARKERS_def bad_mode_line_def
        mode_digits_def Let_def)
  have mounts: "mk_mount ''/ws'' (Some (Dir 493 [])) ''/workspace'' False =
      Inr \<lparr>mnt_host = ''/ws'', mnt_container = ''/workspace'', mnt_read_only = False\<rparr>"
    "mk_mount ''/tmp/s/submission.diff'' (Some (Reg ''x'' 292 1)) ''/submission.diff'' True =
      Inr \<lparr>mnt_host = ''/tmp/s/submission.diff'', mnt_container = ''/submission.diff'', mnt_read_only = True\<rparr>"
    by (simp_all add: mk_mount_def mountable_def absolute_container_path_def normpath_def
        initial_slashes_def posix_def Let_def)
  have inv: "patch_invoke patch_world policy_example ''/docker'' (Inr q) (Dir 493 []) =
      (Inr sandbox_result, if suffix ''-apply'' (cq_name q) then patched_tree else Dir 493 [], [q])"
    if "cq_max_stdout_bytes q = 65536" for q
    using that by (simp add: patch_invoke_def execute_def patch_world_def run_sandbox)
  have q1: "patch_request ''/ws'' ''/tmp/s'' (Dir 493 []) ''x'' patch_limits_example ''v3-a-1'' ''check''
      [''/usr/bin/git'', ''apply'', ''--check'', ''-p1'', ''/submission.diff''] = Inr (example_request ''v3-a-1-patch-check'' [''/usr/bin/git'', ''apply'', ''--check'', ''-p1'', ''/submission.diff''])"
    by (simp add: patch_request_def mounts [unfolded One_nat_def] patch_limits_example_def check_container_request_def container_name_def
        absolute_container_path_def normpath_def initial_slashes_def posix_def Let_def example_request_def)
  have q2: "patch_request ''/ws'' ''/tmp/s'' (Dir 493 []) ''x'' patch_limits_example ''v3-a-1'' ''apply''
      [''/usr/bin/git'', ''apply'', ''-p1'', ''/submission.diff''] = Inr (example_request ''v3-a-1-patch-apply'' [''/usr/bin/git'', ''apply'', ''-p1'', ''/submission.diff''])"
    by (simp add: patch_request_def mounts [unfolded One_nat_def] patch_limits_example_def check_container_request_def container_name_def
        absolute_container_path_def normpath_def initial_slashes_def posix_def Let_def example_request_def)
  show ?thesis
    using s inv [of "example_request _ _"]
    by (simp add: q1 q2 example_request_def apply_patch_in_container_def walk_workspace_def example_trees hit_limit_def
        sandbox_result_def finish_patch_def suffix_Cons)
qed

theorem apply_patch_outcome_witness:
  "\<exists>qs. apply_patch_in_container patch_world policy_example ''/docker'' ''/ws'' (Some ''/tmp/s'') ''v3-a-1''
     patch_limits_example ''x'' (Dir 493 []) = (Inr Applied, patched_tree, qs) \<and> safe_tree None patched_tree"
  using apply_patch_outcome [OF apply_patch_example] apply_patch_example by simp

end
