(* ===== verification/Grading.thy ===== *)
theory Grading
  imports Patching
begin

text \<open>
  Grading one submission (\<open>src/rlvr/v3/grading.py\<close>): the verifier's checks are run in order in
  containers on the materialised workspace until one fails, and the result tells whether the
  candidate passed, failed, was rejected, or the validator itself could not grade.  The workspace is
  threaded through every container; exceptions that leave the functions are the name of their class.
\<close>

section \<open>Results\<close>

datatype check_kind = Invocation | Inspection
datatype check_outcome = CheckPassed | CheckFailed | CheckSkipped

record check_result =
  cres_id :: string
  cres_kind :: check_kind
  cres_outcome :: check_outcome
  cres_exit_code :: "int option"

definition check_check_result :: "check_result \<Rightarrow> unit result" where
  "check_check_result r =
     (if cres_outcome r = CheckSkipped \<and> cres_exit_code r \<noteq> None
      then Inl (ValueError ''a skipped check cannot have an exit code'') else Inr ())"

datatype eval_status = EvalPassed | EvalFailed | EvalRejected | EvalAbandoned

datatype reason_code = MinerCode miner_reason | RoundCode round_reason

record evaluation_result =
  ev_status :: eval_status
  ev_reason :: ustring
  ev_checks :: "check_result list"
  ev_script_exit_code :: "int option"
  ev_reason_code :: "reason_code option"
  ev_stage :: "stage option"
  ev_failed_check :: "ustring option"

definition check_evaluation_result :: "evaluation_result \<Rightarrow> unit result" where
  "check_evaluation_result e =
     (if ev_status e = EvalPassed \<and> ev_reason e \<noteq> []
        then Inl (ValueError ''a passed evaluation cannot have a reason'')
      else if ev_status e \<noteq> EvalPassed \<and> \<not> (0 < length (ev_reason e) \<and> length (ev_reason e) \<le> 200)
        then Inl (ValueError ''a non-passing evaluation requires a bounded reason'')
      else if (case ev_failed_check e of None \<Rightarrow> False
               | Some d \<Rightarrow> ev_status e \<noteq> EvalFailed \<or> ev_reason_code e \<noteq> Some (MinerCode CHECK_FAILED) \<or>
                           ev_stage e \<noteq> Some S_CHECK \<or> \<not> is_bounded_display d)
        then Inl (ValueError ''only a failed check can carry a bounded check display'')
      else Inr ())"

primrec kind_of :: "check \<Rightarrow> check_kind" where
  "kind_of (InvocationCheck _ _ _) = Invocation"
| "kind_of (InspectionCheck _) = Inspection"

definition mk_check :: "check \<Rightarrow> check_outcome \<Rightarrow> int option \<Rightarrow> check_result" where
  "mk_check c outcome code =
     \<lparr>cres_id = check_id (common c), cres_kind = kind_of c, cres_outcome = outcome, cres_exit_code = code\<rparr>"

definition skipped :: "check \<Rightarrow> check_result" where
  "skipped c = mk_check c CheckSkipped None"

definition stop_grading ::
  "eval_status \<Rightarrow> string \<Rightarrow> verifier_manifest \<Rightarrow> check_result list \<Rightarrow> int option \<Rightarrow> reason_code option \<Rightarrow> stage \<Rightarrow>
   ustring option \<Rightarrow> evaluation_result" where
  "stop_grading status reason man completed script_code code stg display =
     \<lparr>ev_status = status, ev_reason = take 200 (ucs reason),
      ev_checks = completed @ map skipped (drop (length completed) (man_checks man)),
      ev_script_exit_code = script_code, ev_reason_code = code, ev_stage = Some stg,
      ev_failed_check = display\<rparr>"

definition container_failure :: "container_result \<Rightarrow> string option" where
  "container_failure r =
     (if timed_out r then Some ''container timed out''
      else if oom_killed r then Some ''container exceeded its memory limit''
      else if stdout_overflow r \<or> stderr_overflow r then Some ''container exceeded its output limit''
      else None)"

definition resource_reason :: "container_result \<Rightarrow> miner_reason option" where
  "resource_reason r =
     (if timed_out r then Some TIMEOUT
      else if oom_killed r then Some MEMORY_LIMIT
      else if stdout_overflow r \<or> stderr_overflow r then Some OUTPUT_LIMIT
      else None)"

definition work_cwd :: "string \<Rightarrow> string \<Rightarrow> string" where
  "work_cwd base relative = (if relative = ''.'' then base else base @ ''/'' @ relative)"

text \<open>A path below a node; \<open>.\<close> is the node itself.\<close>

definition steps_of :: "string \<Rightarrow> string list" where
  "steps_of relative = (if relative = ''.'' then [] else split_on slash relative)"

fun replace_at :: "node \<Rightarrow> string list \<Rightarrow> node \<Rightarrow> node" where
  "replace_at n [] new = new"
| "replace_at (Dir m es) (s # ss) new =
     Dir m (map (\<lambda>(name, c). if name = s then (name, replace_at c ss new) else (name, c)) es)"
| "replace_at n (s # ss) new = n"

text \<open>\<open>_inspect_result_tree\<close>: the tree error, if any, and the workspace afterwards.\<close>

definition inspect_result_tree :: "string \<Rightarrow> tree_limits \<Rightarrow> node \<Rightarrow> tree_error option \<times> node" where
  "inspect_result_tree relative limits ws =
     (case task_directory ws relative of
        None \<Rightarrow> (Some RootNotDirectory, ws)
      | Some tree \<Rightarrow>
          (case inspect_tree (Some limits) True tree of
             (Inl e, _) \<Rightarrow> (Some e, ws)
           | (Inr _, tree') \<Rightarrow> (None, replace_at ws (steps_of relative) tree')))"

section \<open>Requests\<close>

text \<open>Where a grading happens: the host paths of the workspace and of the verifier, the verifier's
  tree, the directories inside the workspace, and the container settings.\<close>

record grading_site =
  gs_host :: string
  gs_verifier_host :: string
  gs_verifier :: node
  gs_host_base :: string
  gs_result_tree :: string
  gs_work_base :: string
  gs_policy :: supervisor_policy
  gs_limits :: tree_limits
  gs_docker :: string
  gs_run_prefix :: string

text \<open>A verifier file's bytes; anything but a regular file is an \<open>OSError\<close>.\<close>

definition read_verifier :: "node \<Rightarrow> string \<Rightarrow> bytes option" where
  "read_verifier ver path =
     (case node_at ver (split_on slash path) of Some (Reg b _ _) \<Rightarrow> Some b | _ \<Rightarrow> None)"

definition opt_result :: "'a option \<Rightarrow> string \<Rightarrow> 'a result" where
  "opt_result v msg = (case v of None \<Rightarrow> Inl (ValueError msg) | Some x \<Rightarrow> Inr x)"

definition check_request :: "grading_site \<Rightarrow> node \<Rightarrow> check \<Rightarrow> container_request result" where
  "check_request g ws c =
     (case c of
        InvocationCheck cc cwd stdin \<Rightarrow>
          rbind (case stdin of None \<Rightarrow> Inr [] | Some p \<Rightarrow> opt_result (read_verifier (gs_verifier g) p) ''OSError'') (\<lambda>input.
          rbind (mk_mount (gs_host g) (Some ws) ''/work'' False) (\<lambda>m.
          check_container_request
            \<lparr>cq_name = gs_run_prefix g @ ''-'' @ check_id cc, cq_argv = chk_argv cc,
             cq_cwd = work_cwd (gs_work_base g) cwd, cq_mounts = [m], cq_stdin = input,
             cq_timeout_s = chk_timeout_s cc, cq_max_stdout_bytes = chk_max_stdout_bytes cc,
             cq_max_stderr_bytes = chk_max_stderr_bytes cc, cq_trusted = False\<rparr>))
      | InspectionCheck cc \<Rightarrow>
          rbind (mk_mount (work_cwd (gs_host g) (gs_result_tree g)) (node_at ws (steps_of (gs_result_tree g)))
                   ''/result'' True) (\<lambda>m1.
          rbind (mk_mount (gs_verifier_host g @ ''/checks'') (node_at (gs_verifier g) [''checks''])
                   ''/verify'' True) (\<lambda>m2.
          check_container_request
            \<lparr>cq_name = gs_run_prefix g @ ''-'' @ check_id cc, cq_argv = chk_argv cc,
             cq_cwd = ''/result'', cq_mounts = [m1, m2], cq_stdin = [],
             cq_timeout_s = chk_timeout_s cc, cq_max_stdout_bytes = chk_max_stdout_bytes cc,
             cq_max_stderr_bytes = chk_max_stderr_bytes cc, cq_trusted = True\<rparr>)))"

section \<open>Checks\<close>

definition working_directory_missing :: "grading_site \<Rightarrow> node \<Rightarrow> check \<Rightarrow> bool" where
  "working_directory_missing g ws c =
     (case c of
        InspectionCheck _ \<Rightarrow> False
      | InvocationCheck _ cwd _ \<Rightarrow>
          (case node_at ws (steps_of (gs_host_base g)) of
             None \<Rightarrow> True
           | Some base \<Rightarrow> task_directory base cwd = None))"

definition meets :: "check \<Rightarrow> container_result \<Rightarrow> bytes \<Rightarrow> bytes option \<Rightarrow> bool" where
  "meets c r expected_stdout expected_stderr \<longleftrightarrow>
     exit_code r = exp_exit_code (chk_expect (common c)) \<and> cr_stdout r = expected_stdout \<and>
     (case expected_stderr of None \<Rightarrow> True | Some b \<Rightarrow> cr_stderr r = b)"

definition expected_streams :: "node \<Rightarrow> check \<Rightarrow> (bytes \<times> bytes option) option" where
  "expected_streams ver c =
     (case read_verifier ver (exp_stdout (chk_expect (common c))) of
        None \<Rightarrow> None
      | Some out \<Rightarrow>
          (case exp_stderr (chk_expect (common c)) of
             None \<Rightarrow> Some (out, None)
           | Some p \<Rightarrow> map_option (\<lambda>err. (out, Some err)) (read_verifier ver p)))"

definition verifier_unavailable :: "verifier_manifest \<Rightarrow> int option \<Rightarrow> check_result list \<Rightarrow> evaluation_result" where
  "verifier_unavailable man script_code completed =
     stop_grading EvalAbandoned ''validator could not run the verifier'' man completed script_code
       (Some (RoundCode VERIFIER_UNAVAILABLE)) S_CHECK None"

text \<open>What the container's result means for the check: stop, or go on with its result.\<close>

definition judge_check ::
  "grading_site \<Rightarrow> verifier_manifest \<Rightarrow> int option \<Rightarrow> check_result list \<Rightarrow> check \<Rightarrow> container_request \<Rightarrow>
   container_result \<Rightarrow> node \<Rightarrow> (evaluation_result + check_result) \<times> node" where
  "judge_check g man script_code completed c q r ws =
     (let now = (\<lambda>outcome. completed @ [mk_check c outcome (Some (exit_code r))]) in
      case container_failure r of
        Some failure \<Rightarrow>
          (Inl (stop_grading EvalFailed failure man (now CheckFailed) script_code
                  (map_option MinerCode (resource_reason r)) S_CHECK None), ws)
      | None \<Rightarrow>
          if kind_of c = Inspection \<and> exit_code r \<in> {126, 127}
            then (Inl (stop_grading EvalAbandoned ''verifier executable is unavailable'' man (now CheckFailed)
                         script_code (Some (RoundCode VERIFIER_UNAVAILABLE)) S_CHECK None), ws)
          else case expected_streams (gs_verifier g) c of
            None \<Rightarrow> (Inl (verifier_unavailable man script_code completed), ws)
          | Some (out, err) \<Rightarrow>
              if \<not> meets c r out err
                then (Inl (stop_grading EvalFailed ''candidate output did not match the verifier'' man
                             (now CheckFailed) script_code (Some (MinerCode CHECK_FAILED)) S_CHECK
                             (failed_check_or_none c q out err)), ws)
              else if kind_of c = Inspection then (Inr (mk_check c CheckPassed (Some (exit_code r))), ws)
              else (case inspect_result_tree (gs_result_tree g) (gs_limits g) ws of
                      (Some _, ws') \<Rightarrow>
                        (Inl (stop_grading EvalFailed ''candidate result tree became invalid'' man
                                (now CheckFailed) script_code (Some (MinerCode RESULT_TREE_INVALID))
                                S_RESULT_TREE None), ws')
                    | (None, ws') \<Rightarrow> (Inr (mk_check c CheckPassed (Some (exit_code r))), ws')))"

definition run_check ::
  "world \<Rightarrow> grading_site \<Rightarrow> verifier_manifest \<Rightarrow> int option \<Rightarrow> check_result list \<Rightarrow> check \<Rightarrow> node \<Rightarrow>
   (evaluation_result + check_result) graded" where
  "run_check w g man script_code completed c ws =
     (if working_directory_missing g ws c
        then (Inl (stop_grading EvalFailed ''candidate working directory is unavailable'' man
                     (completed @ [mk_check c CheckFailed None]) script_code
                     (Some (MinerCode WORKING_DIRECTORY_INVALID)) S_CHECK None), ws, [])
      else case check_request g ws c of
        Inl _ \<Rightarrow> (Inl (verifier_unavailable man script_code completed), ws, [])
      | Inr q \<Rightarrow>
          (case execute w (gs_policy g) (gs_docker g) q ws of
             (Inl _, ws1) \<Rightarrow> (Inl (verifier_unavailable man script_code completed), ws1, [q])
           | (Inr r, ws1) \<Rightarrow>
               (case judge_check g man script_code completed c q r ws1 of (v, ws2) \<Rightarrow> (v, ws2, [q]))))"

fun run_check_list ::
  "world \<Rightarrow> grading_site \<Rightarrow> verifier_manifest \<Rightarrow> int option \<Rightarrow> check_result list \<Rightarrow> check list \<Rightarrow> node \<Rightarrow>
   evaluation_result graded" where
  "run_check_list w g man script_code completed [] ws =
     (\<lparr>ev_status = EvalPassed, ev_reason = [], ev_checks = completed, ev_script_exit_code = script_code,
       ev_reason_code = None, ev_stage = Some S_CHECK, ev_failed_check = None\<rparr>, ws, [])"
| "run_check_list w g man script_code completed (c # cs) ws =
     (case run_check w g man script_code completed c ws of
        (Inl e, ws1, qs) \<Rightarrow> (e, ws1, qs)
      | (Inr r, ws1, qs) \<Rightarrow>
          (case run_check_list w g man script_code (completed @ [r]) cs ws1 of
             (e, ws2, qs') \<Rightarrow> (e, ws2, qs @ qs')))"

definition run_checks ::
  "world \<Rightarrow> grading_site \<Rightarrow> verifier_manifest \<Rightarrow> int option \<Rightarrow> node \<Rightarrow> evaluation_result graded" where
  "run_checks w g man script_code ws =
     (case inspect_result_tree (gs_result_tree g) (gs_limits g) ws of
        (Some _, ws1) \<Rightarrow>
          (stop_grading EvalFailed ''candidate result tree is invalid'' man [] script_code
             (Some (MinerCode RESULT_TREE_INVALID)) S_RESULT_TREE None, ws1, [])
      | (None, ws1) \<Rightarrow> run_check_list w g man script_code [] (man_checks man) ws1)"

section \<open>Setup\<close>

definition setup_request :: "grading_site \<Rightarrow> string \<Rightarrow> setup_step \<Rightarrow> node \<Rightarrow> container_request result" where
  "setup_request g cwd s ws =
     rbind (mk_mount (gs_host g) (Some ws) ''/work'' False) (\<lambda>m.
     check_container_request
       \<lparr>cq_name = gs_run_prefix g @ ''-setup'', cq_argv = setup_argv s, cq_cwd = cwd, cq_mounts = [m],
        cq_stdin = [], cq_timeout_s = setup_timeout_s s, cq_max_stdout_bytes = setup_max_output_bytes s,
        cq_max_stderr_bytes = setup_max_output_bytes s, cq_trusted = False\<rparr>)"

definition setup_unavailable :: "verifier_manifest \<Rightarrow> evaluation_result" where
  "setup_unavailable man = stop_grading EvalAbandoned ''validator could not run task setup'' man [] None
     (Some (RoundCode SETUP_UNAVAILABLE)) S_SETUP None"

definition run_setup ::
  "world \<Rightarrow> grading_site \<Rightarrow> string \<Rightarrow> verifier_manifest \<Rightarrow> node \<Rightarrow> evaluation_result option graded" where
  "run_setup w g cwd man ws =
     (case man_setup man of
        None \<Rightarrow> (None, ws, [])
      | Some s \<Rightarrow>
          (case setup_request g cwd s ws of
             Inl _ \<Rightarrow> (Some (setup_unavailable man), ws, [])
           | Inr q \<Rightarrow>
               (case execute w (gs_policy g) (gs_docker g) q ws of
                  (Inl _, ws1) \<Rightarrow> (Some (setup_unavailable man), ws1, [q])
                | (Inr r, ws1) \<Rightarrow>
                    (let failure = (case container_failure r of
                           Some f \<Rightarrow> Some f
                         | None \<Rightarrow> if exit_code r \<noteq> 0 then Some ''task setup failed'' else None) in
                     (case failure of
                        None \<Rightarrow> None
                      | Some f \<Rightarrow> Some (stop_grading EvalFailed f man [] None
                          (Some (MinerCode (case resource_reason r of None \<Rightarrow> SETUP_FAILED | Some m \<Rightarrow> m)))
                          S_SETUP None), ws1, [q])))))"

section \<open>Whole submissions\<close>

definition rejected_evaluation :: "ustring \<Rightarrow> miner_reason \<Rightarrow> stage \<Rightarrow> evaluation_result" where
  "rejected_evaluation reason code stg =
     \<lparr>ev_status = EvalRejected, ev_reason = reason, ev_checks = [], ev_script_exit_code = None,
      ev_reason_code = Some (MinerCode code), ev_stage = Some stg, ev_failed_check = None\<rparr>"

definition patch_tool_failed :: evaluation_result where
  "patch_tool_failed =
     \<lparr>ev_status = EvalAbandoned, ev_reason = ucs ''validator could not apply the patch'', ev_checks = [],
      ev_script_exit_code = None, ev_reason_code = Some (RoundCode PATCH_TOOL_FAILED),
      ev_stage = Some S_PATCH, ev_failed_check = None\<rparr>"

definition repository_site :: "grading_site \<Rightarrow> repository_identity \<Rightarrow> grading_site" where
  "repository_site g i = g\<lparr>gs_host_base := rep_working_directory i, gs_result_tree := ''.'',
     gs_work_base := work_cwd ''/work'' (rep_working_directory i)\<rparr>"

definition evaluate_repository ::
  "world \<Rightarrow> grading_site \<Rightarrow> patch_limits \<Rightarrow> string option \<Rightarrow> node \<Rightarrow> bytes \<Rightarrow> repository_identity \<Rightarrow>
   verifier_manifest \<Rightarrow> (string + evaluation_result) graded" where
  "evaluate_repository w g limits scratch ws patch i man =
     (if man_task_type man \<noteq> ''repository_patch_v1'' then (Inl ''ValueError'', ws, [])
      else if task_directory ws (rep_working_directory i) = None
        then (Inr (stop_grading EvalAbandoned ''repository working directory is unavailable'' man [] None
                     (Some (RoundCode WORKSPACE_INVALID)) S_WORKSPACE_MATERIALIZATION None), ws, [])
      else case apply_patch_in_container w (gs_policy g) (gs_docker g) (gs_host g) scratch (gs_run_prefix g)
                  limits patch ws of
        (Inl (PatchToolError _), ws1, qs) \<Rightarrow> (Inr patch_tool_failed, ws1, qs)
      | (Inl (PatchRaised name), ws1, qs) \<Rightarrow> (Inl name, ws1, qs)
      | (Inr (Rejected reason code), ws1, qs) \<Rightarrow> (Inr (rejected_evaluation reason code S_PATCH), ws1, qs)
      | (Inr Applied, ws1, qs) \<Rightarrow>
          if task_directory ws1 (rep_working_directory i) = None
            then (Inr (stop_grading EvalFailed ''patch removed the repository working directory'' man [] None
                         (Some (MinerCode WORKING_DIRECTORY_INVALID)) S_PATCH None), ws1, qs)
          else let g' = repository_site g i in
            (case run_setup w g' (gs_work_base g') man ws1 of
               (Some e, ws2, qs') \<Rightarrow> (Inr e, ws2, qs @ qs')
             | (None, ws2, qs') \<Rightarrow>
                 (case run_checks w g' man None ws2 of (e, ws3, qs'') \<Rightarrow> (Inr e, ws3, qs @ qs' @ qs''))))"

definition SCRIPT_TIMEOUT_S :: int where "SCRIPT_TIMEOUT_S = 300"
definition SCRIPT_OUTPUT_BYTES :: int where "SCRIPT_OUTPUT_BYTES = 2 ^ 20"

definition terminal_site :: "grading_site \<Rightarrow> terminal_identity \<Rightarrow> grading_site" where
  "terminal_site g i = g\<lparr>gs_host_base := ''.'', gs_result_tree := ter_result_tree_path i, gs_work_base := ''/work''\<rparr>"

definition script_request ::
  "grading_site \<Rightarrow> string \<Rightarrow> string option \<Rightarrow> bytes \<Rightarrow> node \<Rightarrow> container_request result" where
  "script_request g result_path scratch script ws =
     rbind (opt_result scratch ''OSError'') (\<lambda>dir.
     rbind (mk_mount (gs_host g) (Some ws) ''/work'' False) (\<lambda>m1.
     rbind (mk_mount dir (Some (Dir 448 [(''script.sh'', Reg script 292 1)])) ''/submission'' True) (\<lambda>m2.
     check_container_request
       \<lparr>cq_name = gs_run_prefix g @ ''-script'',
        cq_argv = [''/usr/bin/bash'', ''--noprofile'', ''--norc'', ''/submission/script.sh''],
        cq_cwd = work_cwd ''/work'' result_path, cq_mounts = [m1, m2], cq_stdin = [],
        cq_timeout_s = SCRIPT_TIMEOUT_S, cq_max_stdout_bytes = SCRIPT_OUTPUT_BYTES,
        cq_max_stderr_bytes = SCRIPT_OUTPUT_BYTES, cq_trusted = False\<rparr>)))"

definition script_unavailable :: "verifier_manifest \<Rightarrow> evaluation_result" where
  "script_unavailable man = stop_grading EvalAbandoned ''validator could not run the script'' man [] None
     (Some (RoundCode SCRIPT_UNAVAILABLE)) S_SCRIPT None"

text \<open>From the setup's success on: the script's container, then the checks.\<close>

definition run_script ::
  "world \<Rightarrow> grading_site \<Rightarrow> string option \<Rightarrow> bytes \<Rightarrow> terminal_identity \<Rightarrow> verifier_manifest \<Rightarrow> node \<Rightarrow>
   evaluation_result graded" where
  "run_script w g scratch script i man ws =
     (case script_request g (ter_result_tree_path i) scratch script ws of
        Inl _ \<Rightarrow> (script_unavailable man, ws, [])
      | Inr q \<Rightarrow>
          (case execute w (gs_policy g) (gs_docker g) q ws of
             (Inl _, ws1) \<Rightarrow> (script_unavailable man, ws1, [q])
           | (Inr r, ws1) \<Rightarrow>
               (case container_failure r of
                  Some failure \<Rightarrow>
                    (stop_grading EvalFailed failure man [] (Some (exit_code r))
                       (map_option MinerCode (resource_reason r)) S_SCRIPT None, ws1, [q])
                | None \<Rightarrow>
                    (case run_checks w g man (Some (exit_code r)) ws1 of (e, ws2, qs) \<Rightarrow> (e, ws2, q # qs)))))"

definition evaluate_terminal ::
  "world \<Rightarrow> grading_site \<Rightarrow> script_limits \<Rightarrow> string option \<Rightarrow> node \<Rightarrow> bytes \<Rightarrow> terminal_identity \<Rightarrow>
   verifier_manifest \<Rightarrow> (string + evaluation_result) graded" where
  "evaluate_terminal w g limits scratch ws script i man =
     (if man_task_type man \<noteq> ''terminal_script_v1'' then (Inl ''ValueError'', ws, [])
      else case validate_script script limits of
        ScriptRejected reason \<Rightarrow> (Inr (rejected_evaluation (ucs reason) SCRIPT_REJECTED S_SCRIPT), ws, [])
      | Accepted \<Rightarrow>
          if task_directory ws (ter_result_tree_path i) = None
            then (Inr (stop_grading EvalAbandoned ''terminal result tree is unavailable'' man [] None
                         (Some (RoundCode WORKSPACE_INVALID)) S_WORKSPACE_MATERIALIZATION None), ws, [])
          else let g' = terminal_site g i in
            (case run_setup w g' (work_cwd ''/work'' (ter_result_tree_path i)) man ws of
               (Some e, ws1, qs) \<Rightarrow> (Inr e, ws1, qs)
             | (None, ws1, qs) \<Rightarrow>
                 if task_directory ws1 (ter_result_tree_path i) = None
                   then (Inr (stop_grading EvalFailed ''setup removed the terminal result directory'' man [] None
                                (Some (MinerCode WORKING_DIRECTORY_INVALID)) S_SETUP None), ws1, qs)
                 else (case run_script w g' scratch script i man ws1 of
                         (e, ws2, qs') \<Rightarrow> (Inr e, ws2, qs @ qs'))))"


section \<open>Well-formed results\<close>

text \<open>A grading's check results follow the manifest: passed checks, at most one failed check, then
  only skipped ones.\<close>

fun check_shape :: "check list \<Rightarrow> check_result list \<Rightarrow> bool" where
  "check_shape [] [] = True"
| "check_shape (c # cs) (r # rs) =
     (cres_id r = check_id (common c) \<and> cres_kind r = kind_of c \<and> check_check_result r = Inr () \<and>
      (if cres_outcome r = CheckPassed then check_shape cs rs else rs = map skipped cs))"
| "check_shape _ _ = False"

definition blames_right :: "evaluation_result \<Rightarrow> bool" where
  "blames_right e =
     (case ev_status e of
        EvalPassed \<Rightarrow> ev_reason_code e = None
      | EvalAbandoned \<Rightarrow> (\<exists>r. ev_reason_code e = Some (RoundCode r))
      | _ \<Rightarrow> (\<exists>m. ev_reason_code e = Some (MinerCode m)))"

definition passed_all :: "check_result list \<Rightarrow> bool" where
  "passed_all rs \<longleftrightarrow> list_all (\<lambda>r. cres_outcome r = CheckPassed) rs"

definition well_graded :: "verifier_manifest \<Rightarrow> evaluation_result \<Rightarrow> bool" where
  "well_graded man e \<longleftrightarrow> check_evaluation_result e = Inr () \<and> blames_right e \<and>
     (if ev_status e = EvalPassed then check_shape (man_checks man) (ev_checks e) \<and> passed_all (ev_checks e)
      else ev_checks e = [] \<or> check_shape (man_checks man) (ev_checks e))"

definition passed_prefix :: "check list \<Rightarrow> check_result list \<Rightarrow> bool" where
  "passed_prefix = list_all2 (\<lambda>c r. \<exists>n. r = mk_check c CheckPassed (Some n))"

lemma passed_prefix_snoc:
  "passed_prefix cs rs \<Longrightarrow> passed_prefix (cs @ [c]) (rs @ [mk_check c CheckPassed (Some n)])"
  by (auto simp: passed_prefix_def intro: list_all2_appendI)

lemma passed_prefix_Nil [simp]: "passed_prefix [] []"
  by (simp add: passed_prefix_def)

lemma passed_prefix_length: "passed_prefix cs rs \<Longrightarrow> length rs = length cs"
  by (simp add: passed_prefix_def list_all2_lengthD)

lemma passed_prefix_all: "passed_prefix cs rs \<Longrightarrow> passed_all rs"
  by (auto simp: passed_prefix_def passed_all_def list_all_iff mk_check_def dest!: list_all2_member2)

lemma check_shape_append:
  "passed_prefix cs rs \<Longrightarrow> check_shape (cs @ cs') (rs @ rs') = check_shape cs' rs'"
  unfolding passed_prefix_def
  by (induction rule: list_all2_induct) (auto simp: mk_check_def check_check_result_def)

lemma check_shape_skipped: "check_shape cs (map skipped cs)"
  by (cases cs) (auto simp: skipped_def mk_check_def check_check_result_def)

lemma check_shape_failed: "check_shape (c # cs) (mk_check c CheckFailed n # map skipped cs)"
  by (simp add: mk_check_def check_check_result_def)

text \<open>The two ways a grading stops, after the checks of \<open>pre\<close> passed: before the next check's
  result is recorded, or with that check failed.\<close>

lemma stop_well_graded:
  assumes "status \<in> {EvalFailed, EvalAbandoned}" "reason \<noteq> []"
    and "status = EvalFailed \<Longrightarrow> \<exists>m. code = Some (MinerCode m)"
    and "status = EvalAbandoned \<Longrightarrow> \<exists>r. code = Some (RoundCode r)"
    and "display = None \<or> (\<exists>d. display = Some d \<and> status = EvalFailed \<and> code = Some (MinerCode CHECK_FAILED) \<and>
           stg = S_CHECK \<and> is_bounded_display d)"
    and "man_checks man = pre @ rest" "passed_prefix pre prior"
    and "completed = prior \<or> (\<exists>c cs n. rest = c # cs \<and> completed = prior @ [mk_check c CheckFailed n])"
  shows "well_graded man (stop_grading status reason man completed script_code code stg display)"
proof -
  have len: "length prior = length pre" using passed_prefix_length [OF assms(7)] .
  have "check_shape (pre @ rest) (completed @ map skipped (drop (length completed) (pre @ rest)))"
    using assms(8)
  proof
    assume "completed = prior"
    then show ?thesis using len by (simp add: check_shape_append [OF assms(7)] check_shape_skipped)
  next
    assume "\<exists>c cs n. rest = c # cs \<and> completed = prior @ [mk_check c CheckFailed n]"
    then obtain c cs n where *: "rest = c # cs" "completed = prior @ [mk_check c CheckFailed n]" by blast
    then show ?thesis
      using len check_shape_append [OF assms(7), of "c # cs" "mk_check c CheckFailed n # map skipped cs"]
        check_shape_failed [of c cs n] by simp
  qed
  moreover have "0 < length (take 200 (ucs reason))" "length (take 200 (ucs reason)) \<le> 200"
    using assms(2) by (auto simp: ucs_def)
  ultimately show ?thesis
    using assms(1,3-6)
    by (auto simp: well_graded_def stop_grading_def check_evaluation_result_def blames_right_def)
qed

lemma container_failure_reason:
  "container_failure r = Some f \<Longrightarrow> f \<noteq> [] \<and> (\<exists>m. resource_reason r = Some m)"
  by (auto simp: container_failure_def resource_reason_def split: if_splits)

lemma failed_check_bounded: "failed_check_or_none c q out err = Some d \<Longrightarrow> is_bounded_display d"
  by (auto simp: failed_check_or_none_def split: option.splits if_splits)

lemma ev_status_stop [simp]: "ev_status (stop_grading st m man prior s co sg x) = st"
  by (simp add: stop_grading_def)

definition step_graded :: "verifier_manifest \<Rightarrow> check \<Rightarrow> evaluation_result + check_result \<Rightarrow> bool" where
  "step_graded man c v =
     (case v of
        Inl e \<Rightarrow> well_graded man e \<and> ev_status e \<noteq> EvalPassed
      | Inr res \<Rightarrow> \<exists>n. res = mk_check c CheckPassed (Some n))"

lemma step_graded_simps [simp]:
  "step_graded man c (Inl e) \<longleftrightarrow> well_graded man e \<and> ev_status e \<noteq> EvalPassed"
  "step_graded man c (Inr res) \<longleftrightarrow> (\<exists>n. res = mk_check c CheckPassed (Some n))"
  by (simp_all add: step_graded_def)

lemma judge_check_graded:
  assumes "judge_check g man script_code prior c q r ws = (v, ws')"
    and "man_checks man = pre @ c # cs" "passed_prefix pre prior"
  shows "step_graded man c v"
proof -
  note before = stop_well_graded [OF _ _ _ _ _ assms(2,3) disjI1 [OF refl]]
  have with_check: "well_graded man (stop_grading st m man (prior @ [mk_check c CheckFailed n]) s co sg x)"
    if "st \<in> {EvalFailed, EvalAbandoned}" "m \<noteq> []"
      "st = EvalFailed \<Longrightarrow> \<exists>m. co = Some (MinerCode m)" "st = EvalAbandoned \<Longrightarrow> \<exists>r. co = Some (RoundCode r)"
      "x = None \<or> (\<exists>d. x = Some d \<and> st = EvalFailed \<and> co = Some (MinerCode CHECK_FAILED) \<and>
         sg = S_CHECK \<and> is_bounded_display d)" for st m n s co sg x
    using that by (intro stop_well_graded [OF _ _ _ _ _ assms(2,3)]) auto
  show ?thesis
    using assms(1) container_failure_reason [of r] failed_check_bounded [of c q]
    unfolding judge_check_def Let_def verifier_unavailable_def
    by (auto split: option.splits if_splits prod.splits intro!: before with_check)
qed


lemma run_check_graded:
  assumes "run_check w g man script_code prior c ws = (v, ws', qs)"
    and "man_checks man = pre @ c # cs" "passed_prefix pre prior"
  shows "step_graded man c v"
proof -
  have stops: "well_graded man (verifier_unavailable man script_code prior)"
    "well_graded man (stop_grading EvalFailed ''candidate working directory is unavailable'' man
       (prior @ [mk_check c CheckFailed None]) script_code
       (Some (MinerCode WORKING_DIRECTORY_INVALID)) S_CHECK None)"
    unfolding verifier_unavailable_def using assms(2,3)
    by (auto intro!: stop_well_graded)
  show ?thesis
    using assms(1) stops judge_check_graded [OF _ assms(2,3)]
    unfolding run_check_def verifier_unavailable_def
    by (auto split: if_splits sum.splits prod.splits simp del: step_graded_simps(2))
qed

lemma run_check_list_graded:
  "run_check_list w g man script_code prior cs ws = (e, ws', qs) \<Longrightarrow>
   man_checks man = pre @ cs \<Longrightarrow> passed_prefix pre prior \<Longrightarrow> well_graded man e"
proof (induction cs arbitrary: pre prior ws qs)
  case Nil
  then show ?case
    using check_shape_append [OF Nil(3), of "[]" "[]"] passed_prefix_all [OF Nil(3)]
    by (auto simp: well_graded_def check_evaluation_result_def blames_right_def)
next
  case (Cons c cs)
  obtain v ws1 qs1 where r: "run_check w g man script_code prior c ws = (v, ws1, qs1)"
    using prod_cases3 by blast
  note one = run_check_graded [OF r Cons.prems(2,3)]
  show ?case
  proof (cases v)
    case (Inl e')
    then show ?thesis using one r Cons.prems(1) by simp
  next
    case (Inr res)
    then obtain n where n: "res = mk_check c CheckPassed (Some n)" using one by auto
    obtain qs2 where "run_check_list w g man script_code (prior @ [res]) cs ws1 = (e, ws', qs2)"
      using Cons.prems(1) r Inr by (auto split: prod.splits)
    then show ?thesis
      using Cons.IH [of "prior @ [res]" ws1 qs2 "pre @ [c]"] Cons.prems(2,3) n passed_prefix_snoc by simp
  qed
qed

lemma run_checks_graded: "run_checks w g man script_code ws = (e, ws', qs) \<Longrightarrow> well_graded man e"
  using run_check_list_graded [where pre = "[]" and prior = "[]"]
  by (auto simp: run_checks_def split: prod.splits option.splits
      intro!: stop_well_graded [where pre = "[]" and prior = "[]"])

lemma run_setup_graded: "run_setup w g cwd man ws = (Some e, ws', qs) \<Longrightarrow> well_graded man e \<and> ev_status e \<noteq> EvalPassed"
  using container_failure_reason
  by (auto simp: run_setup_def setup_unavailable_def Let_def
      split: option.splits sum.splits prod.splits if_splits
      intro!: stop_well_graded [where pre = "[]" and prior = "[]"])

lemma rejected_graded:
  "0 < length reason \<Longrightarrow> length reason \<le> 200 \<Longrightarrow> well_graded man (rejected_evaluation reason code stg)"
  by (auto simp: rejected_evaluation_def well_graded_def check_evaluation_result_def blames_right_def)

lemma patch_tool_failed_graded: "well_graded man patch_tool_failed"
  by (auto simp: patch_tool_failed_def well_graded_def check_evaluation_result_def blames_right_def ucs_def)

lemma run_script_graded: "run_script w g scratch script i man ws = (e, ws', qs) \<Longrightarrow> well_graded man e"
  using container_failure_reason run_checks_graded
  by (auto simp: run_script_def script_unavailable_def
      split: option.splits sum.splits prod.splits
      intro!: stop_well_graded [where pre = "[]" and prior = "[]"])

lemma validate_script_reason:
  "validate_script script limits = ScriptRejected reason \<Longrightarrow> reason \<noteq> [] \<and> length reason \<le> 200"
  by (auto simp: validate_script_def split: if_splits)


text \<open>The branch on the identity in \<open>evaluate_round\<close>.\<close>

definition evaluate_submission ::
  "world \<Rightarrow> grading_site \<Rightarrow> patch_limits \<Rightarrow> script_limits \<Rightarrow> string option \<Rightarrow> node \<Rightarrow> bytes \<Rightarrow> task_identity \<Rightarrow>
   verifier_manifest \<Rightarrow> (string + evaluation_result) graded" where
  "evaluate_submission w g pl sl scratch ws submission identity man =
     (case identity of
        RepositoryTask i \<Rightarrow> evaluate_repository w g pl scratch ws submission i man
      | TerminalTask i \<Rightarrow> evaluate_terminal w g sl scratch ws submission i man)"

lemma evaluate_repository_graded:
  assumes "evaluate_repository w g pl scratch ws patch i man = (Inr e, ws', qs)"
  shows "well_graded man e"
proof -
  note first = stop_well_graded [where pre = "[]" and prior = "[]"]
  obtain out ws1 ps where a: "apply_patch_in_container w (gs_policy g) (gs_docker g) (gs_host g) scratch
      (gs_run_prefix g) pl patch ws = (out, ws1, ps)" using prod_cases3 by blast
  show ?thesis
  proof (cases "\<exists>reason code. out = Inr (Rejected reason code)")
    case True
    then obtain reason code where out: "out = Inr (Rejected reason code)" by blast
    have "0 < length reason" "length reason \<le> 200"
      using apply_patch_rejection [OF a [unfolded out]] by auto
    then show ?thesis
      using assms a out
      by (auto simp: evaluate_repository_def split: if_splits intro!: first rejected_graded)
  next
    case False
    then show ?thesis
      using assms a patch_tool_failed_graded [of man] run_setup_graded run_checks_graded
      by (auto simp: evaluate_repository_def Let_def
          split: if_splits sum.splits patch_error.splits patch_result.splits option.splits prod.splits
          intro!: first)
  qed
qed

lemma evaluate_terminal_graded:
  assumes "evaluate_terminal w g sl scratch ws script i man = (Inr e, ws', qs)"
  shows "well_graded man e"
proof (cases "validate_script script sl")
  case Accepted
  then show ?thesis
    using assms run_setup_graded run_script_graded
    by (auto simp: evaluate_terminal_def Let_def split: if_splits option.splits prod.splits
        intro!: stop_well_graded [where pre = "[]" and prior = "[]"])
next
  case (ScriptRejected reason)
  then show ?thesis
    using assms validate_script_reason [OF ScriptRejected]
    by (auto simp: evaluate_terminal_def ucs_def split: if_splits intro!: rejected_graded)
qed

text \<open>C26. Every grading that returns is well formed.  The result satisfies its own validators; a passed
  result has no code, a failed or rejected one a code that blames the miner, an abandoned one a code
  that blames the validator; and its check results follow the manifest in order: all passed exactly
  for a passed result, otherwise passed checks, at most one failed check, and then only skipped ones
  (or none at all when the submission never reached the checks).\<close>

theorem evaluation_well_graded:
  assumes "evaluate_submission w g pl sl scratch ws submission identity man = (Inr e, ws', qs)"
  shows "well_graded man e"
  using assms evaluate_repository_graded evaluate_terminal_graded
  by (auto simp: evaluate_submission_def split: task_identity.splits)


section \<open>Isolation\<close>

text \<open>
  A container of a grading is named after its run.  An untrusted one sees the workspace and, read-only,
  its own submission; a trusted one sees the result tree and the verifier's checks, both read-only.
\<close>

definition isolated :: "grading_site \<Rightarrow> string option \<Rightarrow> container_request \<Rightarrow> bool" where
  "isolated g scratch q \<longleftrightarrow>
     prefix (gs_run_prefix g @ ''-'') (cq_name q) \<and>
     (if cq_trusted q then
        \<forall>m \<in> set (cq_mounts q). mnt_read_only m \<and>
          mnt_host m \<in> {work_cwd (gs_host g) (gs_result_tree g), gs_verifier_host g @ ''/checks''}
      else
        \<forall>m \<in> set (cq_mounts q).
          (mnt_host m = gs_host g \<and> mnt_container m \<in> {''/work'', ''/workspace''}) \<or>
          (mnt_read_only m \<and> (\<exists>dir. scratch = Some dir \<and>
             (mnt_host m, mnt_container m) \<in> {(dir, ''/submission''), (dir @ ''/submission.diff'', ''/submission.diff'')})))"

lemma mk_mount_Inr: "mk_mount host info target ro = Inr m \<Longrightarrow>
    m = \<lparr>mnt_host = host, mnt_container = target, mnt_read_only = ro\<rparr>"
  by (auto simp: mk_mount_def split: if_splits option.splits)

lemma check_container_request_Inr: "check_container_request q = Inr q' \<Longrightarrow> q' = q"
  by (auto simp: check_container_request_def split: if_splits)

lemmas request_Inr = mk_mount_Inr check_container_request_Inr

lemma check_request_isolated: "check_request g ws c = Inr q \<Longrightarrow> isolated g scratch q"
  by (cases c) (auto simp: check_request_def rbind_Inr isolated_def dest!: request_Inr)

lemma setup_request_isolated: "setup_request g cwd s ws = Inr q \<Longrightarrow> isolated g scratch q"
  by (auto simp: setup_request_def rbind_Inr isolated_def dest!: request_Inr)

lemma script_request_isolated: "script_request g path scratch script ws = Inr q \<Longrightarrow> isolated g scratch q"
  by (auto simp: script_request_def rbind_Inr isolated_def opt_result_def dest!: request_Inr split: option.splits)

lemma patch_request_isolated:
  "patch_request (gs_host g) dir ws patch limits (gs_run_prefix g) name argv = Inr q \<Longrightarrow> isolated g (Some dir) q"
  by (auto simp: patch_request_def rbind_Inr isolated_def dest!: request_Inr)

lemma run_check_isolated:
  "run_check w g man script_code prior c ws = (v, ws', qs) \<Longrightarrow> q \<in> set qs \<Longrightarrow> isolated g scratch q"
  by (auto simp: run_check_def split: if_splits sum.splits prod.splits intro: check_request_isolated)

lemma run_check_list_isolated:
  "run_check_list w g man script_code prior cs ws = (e, ws', qs) \<Longrightarrow> q \<in> set qs \<Longrightarrow> isolated g scratch q"
proof (induction cs arbitrary: prior ws e ws' qs)
  case (Cons c cs)
  obtain v ws1 qs1 where r: "run_check w g man script_code prior c ws = (v, ws1, qs1)"
    using prod_cases3 by blast
  show ?case
  proof (cases v)
    case (Inl e')
    then show ?thesis using run_check_isolated [OF r] r Cons.prems by auto
  next
    case (Inr res)
    obtain e2 ws2 qs2 where l: "run_check_list w g man script_code (prior @ [res]) cs ws1 = (e2, ws2, qs2)"
      using prod_cases3 by blast
    then have "q \<in> set qs1 \<or> q \<in> set qs2" using Cons.prems r Inr by auto
    then show ?thesis using run_check_isolated [OF r] Cons.IH [OF l] by blast
  qed
qed simp

lemma run_checks_isolated:
  "run_checks w g man script_code ws = (e, ws', qs) \<Longrightarrow> q \<in> set qs \<Longrightarrow> isolated g scratch q"
  by (auto simp: run_checks_def split: prod.splits option.splits intro: run_check_list_isolated)

lemma run_setup_isolated:
  "run_setup w g cwd man ws = (e, ws', qs) \<Longrightarrow> q \<in> set qs \<Longrightarrow> isolated g scratch q"
  by (auto simp: run_setup_def Let_def split: option.splits sum.splits prod.splits
      intro: setup_request_isolated)

lemma run_script_isolated:
  "run_script w g scratch script i man ws = (e, ws', qs) \<Longrightarrow> q \<in> set qs \<Longrightarrow> isolated g scratch q"
  by (auto simp: run_script_def split: option.splits sum.splits prod.splits
      intro: script_request_isolated run_checks_isolated)

lemma patch_containers_isolated:
  assumes "apply_patch_in_container w p docker (gs_host g) scratch (gs_run_prefix g) limits patch ws = (r, ws', qs)" "q \<in> set qs"
  shows "isolated g scratch q"
proof -
  have listed: "q' = Inr q" if "patch_invoke w p docker q' ws = (r, ws', qs)" "q \<in> set qs" for q' ws r ws' qs
    using that by (auto simp: patch_invoke_def split: sum.splits prod.splits)
  show ?thesis
  proof (cases scratch)
    case None
    then show ?thesis using assms by (auto simp: apply_patch_in_container_def split: option.splits sum.splits prod.splits if_splits)
  next
    case (Some dir)
    let ?request = "\<lambda>ws. patch_request (gs_host g) dir ws patch limits (gs_run_prefix g)"
    have step: "isolated g scratch q" if "patch_invoke w p docker (?request ws1 name argv) ws1 = (r, ws2, qs1)" "q \<in> set qs1"
      for ws1 name argv r ws2 qs1
      using patch_request_isolated listed [OF that] Some by simp
    show ?thesis
      using assms unfolding Some
      by (auto simp: apply_patch_in_container_def dest: step [unfolded Some] split: option.splits sum.splits prod.splits if_splits)
  qed
qed

text \<open>
  Nothing else is asked of the world: where two worlds answer the isolated requests alike, every step
  runs alike.
\<close>

definition agree :: "(container_request \<Rightarrow> bool) \<Rightarrow> world \<Rightarrow> world \<Rightarrow> bool" where
  "agree P w w' \<longleftrightarrow> (\<forall>q ws. P q \<longrightarrow> w q ws = w' q ws)"

lemma execute_agree: "agree P w w' \<Longrightarrow> P q \<Longrightarrow> execute w p docker q ws = execute w' p docker q ws"
  by (simp add: agree_def execute_def)

lemma run_check_agree:
  "agree (isolated g scratch) w w' \<Longrightarrow> run_check w g man script_code prior c ws = run_check w' g man script_code prior c ws"
  using execute_agree [OF _ check_request_isolated] by (simp add: run_check_def split: sum.split)

lemma run_checks_agree:
  assumes "agree (isolated g scratch) w w'"
  shows "run_checks w g man script_code ws = run_checks w' g man script_code ws"
proof -
  have "run_check_list w g man script_code prior cs ws = run_check_list w' g man script_code prior cs ws" for prior cs ws
    by (induction cs arbitrary: prior ws) (simp_all add: run_check_agree [OF assms] split: prod.split sum.split)
  then show ?thesis by (simp add: run_checks_def split: prod.split option.split)
qed

lemma run_setup_agree:
  "agree (isolated g scratch) w w' \<Longrightarrow> run_setup w g cwd man ws = run_setup w' g cwd man ws"
  using execute_agree [OF _ setup_request_isolated] by (simp add: run_setup_def split: option.split sum.split)

lemma run_script_agree:
  assumes "agree (isolated g scratch) w w'"
  shows "run_script w g scratch script i man ws = run_script w' g scratch script i man ws"
  using execute_agree [OF assms script_request_isolated] run_checks_agree [OF assms]
  by (simp add: run_script_def split: sum.split prod.split option.split)

lemma apply_patch_agree:
  assumes "agree (isolated g scratch) w w'"
  shows "apply_patch_in_container w p docker (gs_host g) scratch (gs_run_prefix g) limits patch ws =
    apply_patch_in_container w' p docker (gs_host g) scratch (gs_run_prefix g) limits patch ws"
proof -
  have "patch_invoke w p docker (patch_request (gs_host g) dir ws1 patch limits (gs_run_prefix g) name argv) ws1 =
      patch_invoke w' p docker (patch_request (gs_host g) dir ws1 patch limits (gs_run_prefix g) name argv) ws1"
    if "scratch = Some dir" for dir ws1 name argv
    using assms execute_agree [OF _ patch_request_isolated] that by (simp add: patch_invoke_def split: sum.split)
  then show ?thesis by (auto simp: apply_patch_in_container_def split: option.splits sum.splits prod.splits)
qed

text \<open>The site a grading uses for a task.\<close>

definition site_for :: "grading_site \<Rightarrow> task_identity \<Rightarrow> grading_site" where
  "site_for g identity =
     (case identity of RepositoryTask i \<Rightarrow> repository_site g i | TerminalTask i \<Rightarrow> terminal_site g i)"

text \<open>C25. Isolation.  Every container a grading starts, be it for the patch, the setup, the script or a check,
  is named after the run.  Those that run the candidate's code mount nothing but the workspace and,
  read-only, the submission itself, never the verifier; those that run the verifier's code as the
  trusted user mount the result tree and the verifier's checks, read-only both.  The list of containers
  is complete: the grading is the same in every world that treats such containers the same, so no
  other container has a say in it.\<close>

theorem grading_isolation:
  assumes "evaluate_submission w g pl sl scratch ws submission identity man = (v, ws', qs)"
  shows "(\<forall>q \<in> set qs. isolated (site_for g identity) scratch q) \<and>
    (\<forall>w'. agree (isolated (site_for g identity) scratch) w w' \<longrightarrow>
       evaluate_submission w' g pl sl scratch ws submission identity man = (v, ws', qs))"
proof (cases identity)
  case (RepositoryTask i)
  let ?g = "repository_site g i"
  have same: "gs_host ?g = gs_host g" "gs_run_prefix ?g = gs_run_prefix g" by (simp_all add: repository_site_def)
  have e: "evaluate_repository w g pl scratch ws submission i man = (v, ws', qs)"
    using assms RepositoryTask by (simp add: evaluate_submission_def)
  have "isolated ?g scratch q" if "q \<in> set qs" for q
    using e that patch_containers_isolated [where g = ?g, unfolded same]
    by (auto simp: evaluate_repository_def Let_def
        split: if_splits sum.splits patch_error.splits patch_result.splits option.splits prod.splits
        intro: run_setup_isolated run_checks_isolated)
  moreover have "evaluate_repository w' g pl scratch ws submission i man = evaluate_repository w g pl scratch ws submission i man"
    if a: "agree (isolated ?g scratch) w w'" for w'
    unfolding evaluate_repository_def Let_def apply_patch_agree [OF a, unfolded same] run_setup_agree [OF a] run_checks_agree [OF a]
    by (rule refl)
  ultimately show ?thesis using e RepositoryTask by (simp add: site_for_def evaluate_submission_def)
next
  case (TerminalTask i)
  let ?g = "terminal_site g i"
  have e: "evaluate_terminal w g sl scratch ws submission i man = (v, ws', qs)"
    using assms TerminalTask by (simp add: evaluate_submission_def)
  have "isolated ?g scratch q" if "q \<in> set qs" for q
    using e that
    by (auto simp: evaluate_terminal_def Let_def split: if_splits script_result.splits option.splits prod.splits
        intro: run_setup_isolated run_script_isolated)
  moreover have "evaluate_terminal w' g sl scratch ws submission i man = evaluate_terminal w g sl scratch ws submission i man"
    if a: "agree (isolated ?g scratch) w w'" for w'
    unfolding evaluate_terminal_def Let_def run_setup_agree [OF a] run_script_agree [OF a] by (rule refl)
  ultimately show ?thesis using e TerminalTask by (simp add: site_for_def evaluate_submission_def)
qed

section \<open>When a submission passes\<close>

text \<open>The reference: every check, run on the workspace its predecessors left, stays within its limits
  and meets its expectation, and every invocation leaves a valid result tree.\<close>

inductive checks_pass :: "world \<Rightarrow> grading_site \<Rightarrow> check list \<Rightarrow> node \<Rightarrow> bool" for w g where
  none: "checks_pass w g [] ws"
| some: "checks_pass w g (c # cs) ws"
    if "\<not> working_directory_missing g ws c" "check_request g ws c = Inr q"
      "execute w (gs_policy g) (gs_docker g) q ws = (Inr r, ws1)" "\<not> hit_limit r"
      "kind_of c = Inspection \<longrightarrow> exit_code r \<notin> {126, 127}"
      "expected_streams (gs_verifier g) c = Some (out, err)" "meets c r out err"
      "if kind_of c = Invocation then inspect_result_tree (gs_result_tree g) (gs_limits g) ws1 = (None, ws2)
       else ws2 = ws1"
      "checks_pass w g cs ws2"

inductive_cases checks_pass_ConsE: "checks_pass w g (c # cs) ws"

lemma container_failure_None: "container_failure r = None \<longleftrightarrow> \<not> hit_limit r"
  by (auto simp: container_failure_def hit_limit_def)

lemma judge_check_Inr:
  "judge_check g man script_code prior c q r ws1 = (Inr res, ws2) \<longleftrightarrow>
     res = mk_check c CheckPassed (Some (exit_code r)) \<and> \<not> hit_limit r \<and>
     (kind_of c = Inspection \<longrightarrow> exit_code r \<notin> {126, 127}) \<and>
     (\<exists>out err. expected_streams (gs_verifier g) c = Some (out, err) \<and> meets c r out err) \<and>
     (if kind_of c = Invocation then inspect_result_tree (gs_result_tree g) (gs_limits g) ws1 = (None, ws2)
      else ws2 = ws1)"
  by (cases "kind_of c")
     (auto simp: judge_check_def Let_def container_failure_None [symmetric] split: option.splits prod.splits)

lemma run_check_Inr:
  "run_check w g man script_code prior c ws = (Inr res, ws2, qs) \<longleftrightarrow>
     \<not> working_directory_missing g ws c \<and>
     (\<exists>q r ws1. check_request g ws c = Inr q \<and> execute w (gs_policy g) (gs_docker g) q ws = (Inr r, ws1) \<and>
        judge_check g man script_code prior c q r ws1 = (Inr res, ws2) \<and> qs = [q])"
  by (auto simp: run_check_def split: sum.splits prod.splits)

lemma checks_pass_Cons:
  "checks_pass w g (c # cs) ws \<longleftrightarrow>
     (\<exists>res ws2 qs. run_check w g man script_code prior c ws = (Inr res, ws2, qs) \<and> checks_pass w g cs ws2)"
proof
  assume "checks_pass w g (c # cs) ws"
  then show "\<exists>res ws2 qs. run_check w g man script_code prior c ws = (Inr res, ws2, qs) \<and> checks_pass w g cs ws2"
    unfolding run_check_Inr judge_check_Inr by (elim checks_pass_ConsE) blast
next
  assume "\<exists>res ws2 qs. run_check w g man script_code prior c ws = (Inr res, ws2, qs) \<and> checks_pass w g cs ws2"
  then show "checks_pass w g (c # cs) ws"
    unfolding run_check_Inr judge_check_Inr by (blast intro: checks_pass.some)
qed

lemma run_check_list_passed:
  assumes "man_checks man = pre @ cs" "passed_prefix pre prior"
  shows "ev_status (fst (run_check_list w g man script_code prior cs ws)) = EvalPassed \<longleftrightarrow> checks_pass w g cs ws"
  using assms
proof (induction cs arbitrary: pre prior ws)
  case Nil
  show ?case by (simp add: checks_pass.none)
next
  case (Cons c cs)
  obtain v ws2 qs where r: "run_check w g man script_code prior c ws = (v, ws2, qs)"
    using prod_cases3 by blast
  note one = run_check_graded [OF r Cons.prems]
  show ?case
  proof (cases v)
    case (Inl e)
    have "\<not> checks_pass w g (c # cs) ws"
      unfolding checks_pass_Cons [of w g c cs ws man script_code prior] using r Inl by simp
    then show ?thesis using one r Inl by simp
  next
    case (Inr res)
    then obtain n where n: "res = mk_check c CheckPassed (Some n)" using one by auto
    have "checks_pass w g (c # cs) ws \<longleftrightarrow> checks_pass w g cs ws2"
      unfolding checks_pass_Cons [of w g c cs ws man script_code prior] using r Inr by simp
    then show ?thesis
      using Cons.IH [of "pre @ [c]" "prior @ [res]" ws2] Cons.prems passed_prefix_snoc n r Inr
      by (auto split: prod.splits)
  qed
qed


lemma run_checks_passed:
  "ev_status (fst (run_checks w g man script_code ws)) = EvalPassed \<longleftrightarrow>
     (\<exists>ws1. inspect_result_tree (gs_result_tree g) (gs_limits g) ws = (None, ws1) \<and>
            checks_pass w g (man_checks man) ws1)"
  using run_check_list_passed [of man "[]" "man_checks man" "[]" w g script_code]
  by (auto simp: run_checks_def split: prod.splits option.splits)

lemma run_setup_None:
  "run_setup w g cwd man ws = (None, ws1, qs) \<longleftrightarrow>
     (case man_setup man of
        None \<Rightarrow> ws1 = ws \<and> qs = []
      | Some s \<Rightarrow> \<exists>q r. setup_request g cwd s ws = Inr q \<and> qs = [q] \<and>
          execute w (gs_policy g) (gs_docker g) q ws = (Inr r, ws1) \<and> \<not> hit_limit r \<and> exit_code r = 0)"
  by (auto simp: run_setup_def Let_def container_failure_None [symmetric]
      split: option.splits sum.splits prod.splits)

text \<open>A script passes when it is accepted, the setup succeeds, its own run stays within the limits
  (whatever its exit code) and every check passes.\<close>

definition script_passes ::
  "world \<Rightarrow> grading_site \<Rightarrow> script_limits \<Rightarrow> string option \<Rightarrow> node \<Rightarrow> bytes \<Rightarrow> terminal_identity \<Rightarrow>
   verifier_manifest \<Rightarrow> bool" where
  "script_passes w g sl scratch ws script i man \<longleftrightarrow>
     man_task_type man = ''terminal_script_v1'' \<and> validate_script script sl = Accepted \<and>
     task_directory ws (ter_result_tree_path i) \<noteq> None \<and>
     (let g' = terminal_site g i in \<exists>ws1 qs q r ws2 ws3.
        run_setup w g' (work_cwd ''/work'' (ter_result_tree_path i)) man ws = (None, ws1, qs) \<and>
        task_directory ws1 (ter_result_tree_path i) \<noteq> None \<and>
        script_request g' (ter_result_tree_path i) scratch script ws1 = Inr q \<and>
        execute w (gs_policy g') (gs_docker g') q ws1 = (Inr r, ws2) \<and> \<not> hit_limit r \<and>
        inspect_result_tree (gs_result_tree g') (gs_limits g') ws2 = (None, ws3) \<and>
        checks_pass w g' (man_checks man) ws3)"

lemma run_script_passed:
  "ev_status (fst (run_script w g scratch script i man ws)) = EvalPassed \<longleftrightarrow>
     (\<exists>q r ws1 ws2. script_request g (ter_result_tree_path i) scratch script ws = Inr q \<and>
        execute w (gs_policy g) (gs_docker g) q ws = (Inr r, ws1) \<and> \<not> hit_limit r \<and>
        inspect_result_tree (gs_result_tree g) (gs_limits g) ws1 = (None, ws2) \<and>
        checks_pass w g (man_checks man) ws2)"
proof (cases "script_request g (ter_result_tree_path i) scratch script ws")
  case (Inr q)
  show ?thesis
  proof (cases "fst (execute w (gs_policy g) (gs_docker g) q ws)")
    case (Inl e)
    then show ?thesis
      using Inr by (auto simp: run_script_def script_unavailable_def split: prod.splits)
  next
    case r: (Inr r)
    obtain ws1 where x: "execute w (gs_policy g) (gs_docker g) q ws = (Inr r, ws1)"
      using r by (metis prod.collapse)
    show ?thesis
    proof (cases "container_failure r")
      case None
      then have "fst (run_script w g scratch script i man ws) = fst (run_checks w g man (Some (exit_code r)) ws1)"
        using Inr x by (simp add: run_script_def split: prod.splits)
      then show ?thesis
        using Inr x None run_checks_passed by (auto simp: container_failure_None)
    next
      case (Some f)
      then show ?thesis
        using Inr x container_failure_None [of r] by (auto simp: run_script_def)
    qed
  qed
qed (auto simp: run_script_def script_unavailable_def)

lemma terminal_passes_iff:
  "(\<exists>e. fst (evaluate_terminal w g sl scratch ws script i man) = Inr e \<and> ev_status e = EvalPassed) \<longleftrightarrow>
     script_passes w g sl scratch ws script i man"
proof (cases "man_task_type man = ''terminal_script_v1'' \<and> validate_script script sl = Accepted \<and>
    task_directory ws (ter_result_tree_path i) \<noteq> None")
  case False
  then show ?thesis
    by (auto simp: evaluate_terminal_def script_passes_def rejected_evaluation_def
        split: script_result.splits)
next
  case True
  let ?g = "terminal_site g i" and ?cwd = "work_cwd ''/work'' (ter_result_tree_path i)"
  obtain s ws1 qs where s: "run_setup w ?g ?cwd man ws = (s, ws1, qs)" using prod_cases3 by blast
  show ?thesis
  proof (cases s)
    case (Some e)
    then show ?thesis
      using True s run_setup_graded [OF s [unfolded Some]]
      by (auto simp: evaluate_terminal_def script_passes_def Let_def)
  next
    case None
    then show ?thesis
      using True s run_script_passed [of w ?g scratch script i man ws1]
      by (auto simp: evaluate_terminal_def script_passes_def Let_def split: prod.splits)
  qed
qed

text \<open>A patch passes when it applies, the setup succeeds and every check passes.\<close>

definition patch_passes ::
  "world \<Rightarrow> grading_site \<Rightarrow> patch_limits \<Rightarrow> string option \<Rightarrow> node \<Rightarrow> bytes \<Rightarrow> repository_identity \<Rightarrow>
   verifier_manifest \<Rightarrow> bool" where
  "patch_passes w g pl scratch ws patch i man \<longleftrightarrow>
     man_task_type man = ''repository_patch_v1'' \<and> task_directory ws (rep_working_directory i) \<noteq> None \<and>
     (let g' = repository_site g i in \<exists>ws1 ps ws2 qs ws3.
        apply_patch_in_container w (gs_policy g) (gs_docker g) (gs_host g) scratch (gs_run_prefix g) pl patch ws =
          (Inr Applied, ws1, ps) \<and>
        task_directory ws1 (rep_working_directory i) \<noteq> None \<and>
        run_setup w g' (gs_work_base g') man ws1 = (None, ws2, qs) \<and>
        inspect_result_tree (gs_result_tree g') (gs_limits g') ws2 = (None, ws3) \<and>
        checks_pass w g' (man_checks man) ws3)"

lemma repository_passes_iff:
  "(\<exists>e. fst (evaluate_repository w g pl scratch ws patch i man) = Inr e \<and> ev_status e = EvalPassed) \<longleftrightarrow>
     patch_passes w g pl scratch ws patch i man"
proof (cases "man_task_type man = ''repository_patch_v1'' \<and> task_directory ws (rep_working_directory i) \<noteq> None")
  case False
  then show ?thesis by (auto simp: evaluate_repository_def patch_passes_def)
next
  case True
  let ?g = "repository_site g i"
  obtain out ws1 ps where a: "apply_patch_in_container w (gs_policy g) (gs_docker g) (gs_host g) scratch
      (gs_run_prefix g) pl patch ws = (out, ws1, ps)" using prod_cases3 by blast
  show ?thesis
  proof (cases "out = Inr Applied \<and> task_directory ws1 (rep_working_directory i) \<noteq> None")
    case False
    then show ?thesis
      using True a
      by (auto simp: evaluate_repository_def patch_passes_def patch_tool_failed_def rejected_evaluation_def
          split: sum.splits patch_error.splits patch_result.splits)
  next
    case applied: True
    obtain s ws2 qs where s: "run_setup w ?g (gs_work_base ?g) man ws1 = (s, ws2, qs)"
      using prod_cases3 by blast
    show ?thesis
    proof (cases s)
      case (Some e)
      then show ?thesis
        using True a applied s run_setup_graded [OF s [unfolded Some]]
        by (auto simp: evaluate_repository_def patch_passes_def Let_def)
    next
      case None
      then show ?thesis
        using True a applied s run_checks_passed [of w ?g man None ws2]
        by (auto simp: evaluate_repository_def patch_passes_def Let_def split: prod.splits)
    qed
  qed
qed

text \<open>C24. A submission passes exactly when the declarative reference says so: the patch applies or the
  script is accepted and runs within its limits, the task's setup succeeds, and every check of the
  manifest, run in order on the workspace its predecessors left, stays within its limits, meets its
  expected exit code and streams, and leaves a valid result tree.\<close>

theorem submission_passes_iff:
  "(\<exists>e. fst (evaluate_submission w g pl sl scratch ws submission identity man) = Inr e \<and>
        ev_status e = EvalPassed) \<longleftrightarrow>
     (case identity of
        RepositoryTask i \<Rightarrow> patch_passes w g pl scratch ws submission i man
      | TerminalTask i \<Rightarrow> script_passes w g sl scratch ws submission i man)"
  by (simp add: evaluate_submission_def repository_passes_iff terminal_passes_iff split: task_identity.split)


section \<open>An example\<close>

definition site_example :: grading_site where
  "site_example = \<lparr>gs_host = ''/ws'', gs_verifier_host = ''/ver'', gs_verifier = verifier_example,
     gs_host_base = ''.'', gs_result_tree = ''.'', gs_work_base = ''/work'', gs_policy = policy_example,
     gs_limits = \<lparr>max_entries = 9, max_file_bytes = 9, max_total_file_bytes = 9, max_path_bytes = 20\<rparr>,
     gs_docker = ''/docker'', gs_run_prefix = ''v3-a-1''\<rparr>"

definition terminal_example :: terminal_identity where
  "terminal_example = \<lparr>ter_instruction = ''do'', ter_environment_sha256 = digest_a, ter_verifier_sha256 = digest_a,
     ter_execution_profile_id = ''p'', ter_result_tree_path = ''.'', ter_verifier_policy = ''v'',
     ter_authoring_version = ''1''\<rparr>"

definition example_check :: check where
  "example_check = InvocationCheck \<lparr>check_id = ''c1'', chk_argv = [''/bin/sh''], chk_timeout_s = 10,
     chk_max_stdout_bytes = 100, chk_max_stderr_bytes = 100,
     chk_expect = \<lparr>exp_exit_code = 0, exp_stdout = ''gold/out'', exp_stderr = None\<rparr>\<rparr> ''.'' None"

definition example_manifest :: verifier_manifest where
  "example_manifest = \<lparr>man_task_type = ''terminal_script_v1'', man_setup = None, man_checks = [example_check]\<rparr>"

definition sandbox_world :: world where
  "sandbox_world q ws = (sandbox_runtime, ws)"

definition work_mount :: mount where
  "work_mount = \<lparr>mnt_host = ''/ws'', mnt_container = ''/work'', mnt_read_only = False\<rparr>"

definition check_request_example :: container_request where
  "check_request_example = \<lparr>cq_name = ''v3-a-1-c1'', cq_argv = [''/bin/sh''], cq_cwd = ''/work'',
     cq_mounts = [work_mount], cq_stdin = [], cq_timeout_s = 10, cq_max_stdout_bytes = 100,
     cq_max_stderr_bytes = 100, cq_trusted = False\<rparr>"

definition script_request_example :: container_request where
  "script_request_example = \<lparr>cq_name = ''v3-a-1-script'',
     cq_argv = [''/usr/bin/bash'', ''--noprofile'', ''--norc'', ''/submission/script.sh''], cq_cwd = ''/work'',
     cq_mounts = [work_mount, \<lparr>mnt_host = ''/tmp/s'', mnt_container = ''/submission'', mnt_read_only = True\<rparr>],
     cq_stdin = [], cq_timeout_s = 300, cq_max_stdout_bytes = 2 ^ 20, cq_max_stderr_bytes = 2 ^ 20,
     cq_trusted = False\<rparr>"

lemmas path_defs = absolute_container_path_def normpath_def initial_slashes_def posix_def Let_def

lemma example_mounts:
  "mk_mount ''/ws'' (Some (Dir 493 [])) ''/work'' False = Inr work_mount"
  "mk_mount ''/tmp/s'' (Some (Dir m es)) ''/submission'' True =
     Inr \<lparr>mnt_host = ''/tmp/s'', mnt_container = ''/submission'', mnt_read_only = True\<rparr>"
  by (simp_all add: mk_mount_def mountable_def work_mount_def path_defs)

lemma example_requests:
  "check_request site_example (Dir 493 []) example_check = Inr check_request_example"
  "script_request site_example ''.'' (Some ''/tmp/s'') ''ls'' (Dir 493 []) = Inr script_request_example"
  by (simp_all add: check_request_def script_request_def example_check_def site_example_def opt_result_def
      example_mounts [simplified] work_cwd_def check_container_request_def container_name_def path_defs
      check_request_example_def script_request_example_def work_mount_def SCRIPT_TIMEOUT_S_def
      SCRIPT_OUTPUT_BYTES_def)

lemma example_execute:
  "cq_max_stdout_bytes q \<ge> 2 \<Longrightarrow> execute sandbox_world p docker q ws = (Inr sandbox_result, ws)"
  by (simp add: execute_def sandbox_world_def run_sandbox)

lemma example_tree:
  "inspect_result_tree ''.'' (gs_limits site_example) (Dir 493 []) = (None, Dir 493 [])"
  by (simp add: inspect_result_tree_def task_directory_def inspect_tree_def sorted_dirs_def sorted_files_def
      has_bit_def steps_of_def)

lemma example_judge:
  "judge_check site_example example_manifest sc [] example_check check_request_example sandbox_result (Dir 493 []) =
     (Inr (mk_check example_check CheckPassed (Some 0)), Dir 493 [])"
  using example_tree
  by (auto simp: judge_check_Inr sandbox_result_def hit_limit_def meets_def expected_streams_def read_verifier_def
      example_check_def site_example_def verifier_example_def)

lemma example_site: "terminal_site site_example terminal_example = site_example"
  by (simp add: terminal_site_def site_example_def terminal_example_def)

lemma evaluate_example:
  "evaluate_submission sandbox_world site_example patch_limits_example \<lparr>scl_max_script_bytes = 100\<rparr>
     (Some ''/tmp/s'') (Dir 493 []) ''ls'' (TerminalTask terminal_example) example_manifest =
     (Inr \<lparr>ev_status = EvalPassed, ev_reason = [], ev_checks = [mk_check example_check CheckPassed (Some 0)],
           ev_script_exit_code = Some 0, ev_reason_code = None, ev_stage = Some S_CHECK, ev_failed_check = None\<rparr>,
      Dir 493 [], [script_request_example, check_request_example])"
proof -
  have wd: "\<not> working_directory_missing site_example (Dir 493 []) example_check"
    by (simp add: working_directory_missing_def example_check_def site_example_def steps_of_def
        task_directory_def)
  have man: "man_checks example_manifest = [example_check]" "man_setup example_manifest = None"
    "man_task_type example_manifest = ''terminal_script_v1''"
    by (simp_all add: example_manifest_def)
  have path: "ter_result_tree_path terminal_example = ''.''" "gs_result_tree site_example = ''.''"
    by (simp_all add: terminal_example_def site_example_def)
  have limits: "cq_max_stdout_bytes script_request_example \<ge> 2" "cq_max_stdout_bytes check_request_example \<ge> 2"
    by (simp_all add: script_request_example_def check_request_example_def)
  have rc: "run_check sandbox_world site_example example_manifest sc [] example_check (Dir 493 []) =
      (Inr (mk_check example_check CheckPassed (Some 0)), Dir 493 [], [check_request_example])" for sc
    unfolding run_check_Inr using wd example_requests(1) example_execute [OF limits(2)] example_judge by blast
  have script: "container_failure sandbox_result = None" "exit_code sandbox_result = 0"
    by (simp_all add: container_failure_def sandbox_result_def)
  have ok: "validate_script ''ls'' \<lparr>scl_max_script_bytes = 100\<rparr> = Accepted"
    by (simp add: validate_script_def utf8_decode_ascii)
  show ?thesis
    by (simp add: evaluate_submission_def evaluate_terminal_def ok man path task_directory_def example_site
        run_setup_def run_script_def example_requests(2) [simplified path] example_execute [OF limits(1)] script run_checks_def
        example_tree rc)
qed

theorem evaluation_well_graded_witness:
  "\<exists>e ws' qs. evaluate_submission sandbox_world site_example patch_limits_example \<lparr>scl_max_script_bytes = 100\<rparr>
     (Some ''/tmp/s'') (Dir 493 []) ''ls'' (TerminalTask terminal_example) example_manifest = (Inr e, ws', qs) \<and>
     well_graded example_manifest e \<and> ev_status e = EvalPassed"
  using evaluation_well_graded [OF evaluate_example] evaluate_example by simp

theorem grading_isolation_witness:
  "isolated (site_for site_example (TerminalTask terminal_example)) (Some ''/tmp/s'') script_request_example"
  using grading_isolation [OF evaluate_example] by simp

end
