(* ===== verification/Archive.thy ===== *)
theory Archive
  imports Files
begin

text \<open>
  Archives and transfers: \<open>src/rlvr/v3/archive.py\<close>, \<open>workspace.py\<close>, \<open>download.py\<close>,
  \<open>submission.py\<close> and \<open>upload.py\<close>.  SHA-256, the zstandard decompressor, the tar reader and the
  HTTP client are parameters: the model takes the members, the chunks and the responses they
  produce.  The lemmas show that extraction writes exactly the declared files and never fails after
  inspection, that a download is kept only when size and digest match, and that an upload is
  reported as done only on a success or a conflict that an earlier ambiguous attempt explains.
\<close>

section \<open>Archive limits and verification\<close>

datatype archive_error = ArchiveError string

record archive_limits =
  max_compressed_bytes :: int
  max_expanded_bytes :: int
  arc_max_file_bytes :: int
  arc_max_entries :: int
  arc_max_path_bytes :: int
  max_zstd_window_bytes :: int

definition check_archive_limits :: "archive_limits \<Rightarrow> archive_limits result" where
  "check_archive_limits l =
     (if list_ex (\<lambda>v. v \<le> 0) [max_compressed_bytes l, max_expanded_bytes l, arc_max_file_bytes l,
           arc_max_entries l, arc_max_path_bytes l, max_zstd_window_bytes l]
      then Inl (ValueError ''archive limits must be positive integers'') else Inr l)"

text \<open>\<open>file\<close> is the archive's bytes, \<open>None\<close> when it cannot be read.\<close>

definition verify_archive_file ::
  "(bytes \<Rightarrow> string) \<Rightarrow> bytes option \<Rightarrow> artifact_ref \<Rightarrow> archive_limits \<Rightarrow> archive_error + unit" where
  "verify_archive_file sha256 file ref l =
     (if expanded_size_bytes ref > max_expanded_bytes l
        then Inl (ArchiveError ''advertised expanded size exceeds the policy limit'')
      else case file of None \<Rightarrow> Inl (ArchiveError ''archive is unavailable'')
      | Some b \<Rightarrow>
          if int (length b) \<noteq> compressed_size_bytes ref
            then Inl (ArchiveError ''compressed archive size does not match its reference'')
          else if int (length b) > max_compressed_bytes l
            then Inl (ArchiveError ''compressed archive exceeds the policy limit'')
          else if sha256 b \<noteq> ref_sha256 ref
            then Inl (ArchiveError ''archive digest does not match its reference'')
          else Inr ())"

section \<open>Decompression\<close>

text \<open>
  What the decompressor does with the compressed file: the window of its frame header, for each
  64-byte read the output and whether the frame has ended, whether unused bytes remain after the
  frame, the output of the final flush, and whether the frame had ended.
\<close>

record zstd_run =
  window_size :: int
  zs_steps :: "(bytes \<times> bool) list"
  zs_trailing :: bool
  zs_final :: bytes

text \<open>The read loop: the bytes written so far, and whether the frame ended.\<close>

fun decompress_loop ::
  "(bytes \<times> bool) list \<Rightarrow> int \<Rightarrow> bytes \<Rightarrow> archive_error + bytes \<times> bool" where
  "decompress_loop [] advertised out = Inr (out, False)"
| "decompress_loop ((chunk, eof) # steps) advertised out =
     (if int (length (out @ chunk)) > advertised \<and> chunk \<noteq> []
        then Inl (ArchiveError ''expanded archive exceeds its advertised size'')
      else if eof then Inr (out @ chunk, True)
      else decompress_loop steps advertised (out @ chunk))"

definition decompress_archive :: "zstd_run \<Rightarrow> archive_limits \<Rightarrow> int \<Rightarrow> archive_error + bytes" where
  "decompress_archive z l advertised =
     (if window_size z > max_zstd_window_bytes l
        then Inl (ArchiveError ''archive compression window exceeds the policy limit'')
      else rbind (decompress_loop (zs_steps z) advertised []) (\<lambda>(out, eof).
        if eof \<and> zs_trailing z then Inl (ArchiveError ''archive has trailing compressed data'')
        else if zs_final z \<noteq> [] \<and> int (length (out @ zs_final z)) > advertised
          then Inl (ArchiveError ''expanded archive exceeds its advertised size'')
        else if \<not> eof then Inl (ArchiveError ''archive compression stream is truncated'')
        else Inr (out @ zs_final z)))"

section \<open>Members\<close>

datatype member_kind = FileMember | DirMember | OtherMember

record tar_member =
  mem_name :: string
  mem_kind :: member_kind
  mem_sparse :: bool
  mem_size :: int
  mem_mode :: nat
  mem_data :: bytes

definition validate_name :: "archive_limits \<Rightarrow> string \<Rightarrow> archive_error + string list" where
  "validate_name l name =
     (if int (utf8_size name) > arc_max_path_bytes l
        then Inl (ArchiveError ''archive path exceeds the policy limit'')
      else if CHR 0x00 \<in> set name \<or> CHR 0x5C \<in> set name \<or> prefix ''/'' name
        then Inl (ArchiveError ''archive path is unsafe'')
      else if list_ex (\<lambda>seg. seg \<in> set [[], ''.'', ''..'']) (split_on slash name)
        then Inl (ArchiveError ''archive path is not normalized'')
      else Inr (split_on slash name))"

fun inspect_loop ::
  "archive_limits \<Rightarrow> tar_member list \<Rightarrow> nat \<Rightarrow> (string list, bool) dict \<Rightarrow> int \<Rightarrow>
   archive_error + (string list, bool) dict \<times> int" where
  "inspect_loop l [] n paths file_bytes = Inr (paths, file_bytes)"
| "inspect_loop l (m # ms) n paths file_bytes =
     (if int n \<ge> arc_max_entries l then Inl (ArchiveError ''archive contains too many entries'')
      else if mem_sparse m \<or> mem_kind m = OtherMember
        then Inl (ArchiveError ''archive contains an unsupported entry type'')
      else rbind (validate_name l (mem_name m)) (\<lambda>segs.
        if segs \<in> set (keys paths) then Inl (ArchiveError ''archive contains a duplicate path'')
        else if mem_kind m = FileMember \<and> (mem_size m < 0 \<or> mem_size m > arc_max_file_bytes l)
          then Inl (ArchiveError ''archive file exceeds the policy limit'')
        else if mem_kind m = FileMember \<and> file_bytes + mem_size m > max_expanded_bytes l
          then Inl (ArchiveError ''archive files exceed the policy limit'')
        else inspect_loop l ms (n + 1) (paths @ [(segs, mem_kind m = FileMember)])
               (if mem_kind m = FileMember then file_bytes + mem_size m else file_bytes)))"

definition file_parent :: "(string list, bool) dict \<Rightarrow> string list \<Rightarrow> bool" where
  "file_parent paths path \<longleftrightarrow>
     list_ex (\<lambda>depth. map_of paths (take depth path) = Some True) [1..<length path]"

definition inspect_members ::
  "archive_limits \<Rightarrow> tar_member list \<Rightarrow> archive_error + tar_member list \<times> int" where
  "inspect_members l ms =
     rbind (inspect_loop l ms 0 [] 0) (\<lambda>(paths, file_bytes).
       if list_ex (file_parent paths) (keys paths)
         then Inl (ArchiveError ''archive file is used as a parent directory'')
       else Inr (ms, file_bytes))"

section \<open>Extraction\<close>

text \<open>\<open>mkdir(parents=True, exist_ok=True)\<close> and exclusive creation below a directory node.\<close>

fun mkdir_p :: "string list \<Rightarrow> node \<Rightarrow> node option" where
  "mkdir_p [] n = (if is_dir n then Some n else None)"
| "mkdir_p (s # ss) (Dir m es) =
     (case map_of es s of
        None \<Rightarrow> map_option (\<lambda>c. Dir m (es @ [(s, c)])) (mkdir_p ss (Dir 493 []))
      | Some c \<Rightarrow> map_option (\<lambda>c'. Dir m (AList.update s c' es)) (mkdir_p ss c))"
| "mkdir_p (s # ss) _ = None"

fun put_file :: "string list \<Rightarrow> node \<Rightarrow> node \<Rightarrow> node option" where
  "put_file [] f n = None"
| "put_file [s] f (Dir m es) =
     (case map_of es s of None \<Rightarrow> Some (Dir m (es @ [(s, f)])) | Some _ \<Rightarrow> None)"
| "put_file (s # t # ss) f (Dir m es) =
     (case map_of es s of
        None \<Rightarrow> None
      | Some c \<Rightarrow> map_option (\<lambda>c'. Dir m (AList.update s c' es)) (put_file (t # ss) f c))"
| "put_file (s # ss) f _ = None"

definition file_node :: "tar_member \<Rightarrow> node" where
  "file_node m = Reg (mem_data m) (if has_bit (mem_mode m) user_exec then 493 else 420) 1"

definition tar_invalid :: archive_error where
  "tar_invalid = ArchiveError ''archive tar payload is invalid''"

text \<open>One member.  The copy loop compares the bytes read with the declared size.\<close>

definition extract_member :: "tar_member \<Rightarrow> node \<Rightarrow> archive_error + node" where
  "extract_member m dest =
     (let segs = split_on slash (mem_name m) in
      if mem_kind m = DirMember
      then (case mkdir_p segs dest of None \<Rightarrow> Inl tar_invalid | Some d \<Rightarrow> Inr d)
      else case mkdir_p (butlast segs) dest of
        None \<Rightarrow> Inl tar_invalid
      | Some d \<Rightarrow>
          (case put_file segs (file_node m) d of
             None \<Rightarrow> Inl tar_invalid
           | Some d' \<Rightarrow>
               if int (length (mem_data m)) > mem_size m
                 then Inl (ArchiveError ''archive file exceeds its declared size'')
               else if int (length (mem_data m)) \<noteq> mem_size m
                 then Inl (ArchiveError ''archive file is truncated'')
               else Inr d'))"

fun extract_members :: "tar_member list \<Rightarrow> node \<Rightarrow> archive_error + node" where
  "extract_members [] dest = Inr dest"
| "extract_members (m # ms) dest = rbind (extract_member m dest) (extract_members ms)"

text \<open>
  \<open>extract_archive\<close>: \<open>tar b\<close> are the members the tar reader finds in the expanded bytes, \<open>None\<close>
  a tar error.  The second component is the destination afterwards; every failure after its
  creation removes it again.
\<close>

definition extract_archive ::
  "(bytes \<Rightarrow> string) \<Rightarrow> (bytes \<Rightarrow> zstd_run) \<Rightarrow> (bytes \<Rightarrow> tar_member list option) \<Rightarrow> bool \<Rightarrow> bool \<Rightarrow>
   bytes option \<Rightarrow> artifact_ref \<Rightarrow> archive_limits \<Rightarrow>
   (archive_error + string list \<times> int \<times> int) \<times> node option" where
  "extract_archive sha256 zstd tar dest_exists scratch_ok file ref l =
     (if dest_exists then (Inl (ArchiveError ''archive destination already exists''), None)
      else if \<not> scratch_ok then (Inl (ArchiveError ''archive scratch directory is unavailable''), None)
      else case verify_archive_file sha256 file ref l of Inl e \<Rightarrow> (Inl e, None)
      | Inr _ \<Rightarrow>
        (case decompress_archive (zstd (the file)) l (expanded_size_bytes ref) of Inl e \<Rightarrow> (Inl e, None)
         | Inr out \<Rightarrow>
           if int (length out) \<noteq> expanded_size_bytes ref
             then (Inl (ArchiveError ''expanded archive size does not match its reference''), None)
           else case tar out of None \<Rightarrow> (Inl tar_invalid, None)
           | Some ms \<Rightarrow>
             (case inspect_members l ms of Inl e \<Rightarrow> (Inl e, None)
              | Inr (_, file_bytes) \<Rightarrow>
                (case extract_members ms (Dir 448 []) of Inl e \<Rightarrow> (Inl e, None)
                 | Inr dest \<Rightarrow> (Inr (map mem_name ms, int (length out), file_bytes), Some dest)))))"

section \<open>Laws of the tree operations\<close>

lemma node_at_dir_step: "node_at (Dir m es) (s # ss) = Option.bind (map_of es s) (\<lambda>c. node_at c ss)"
  by (simp split: option.split)

lemma mkdir_p_keeps_files:
  "mkdir_p p n = Some n' \<Longrightarrow> node_at n q = Some (Reg b md k) \<Longrightarrow> node_at n' q = Some (Reg b md k)"
proof (induction p n arbitrary: n' q rule: mkdir_p.induct)
  case (2 s ss m es)
  then obtain t qs where q: "q = t # qs" by (cases q) auto
  show ?case
  proof (cases "map_of es s")
    case None
    then show ?thesis using 2 q by (auto simp: map_add_def split: option.splits)
  next
    case (Some c)
    then show ?thesis using 2 q by (auto simp: update_conv' split: option.splits)
  qed
qed (auto split: if_splits)

lemma mkdir_p_new:
  "mkdir_p p n = Some n' \<Longrightarrow> node_at n' q = Some c \<Longrightarrow>
   (\<not> is_dir c \<longrightarrow> node_at n q = Some c) \<and> (node_at n q \<noteq> None \<or> prefix q p)"
proof (induction p n arbitrary: n' q c rule: mkdir_p.induct)
  case (2 s ss m es)
  show ?case
  proof (cases q)
    case Nil
    then show ?thesis using 2 by (auto split: option.splits)
  next
    case (Cons t qs)
    show ?thesis
    proof (cases "map_of es s")
      case None
      then obtain d where d: "mkdir_p ss (Dir 493 []) = Some d" "n' = Dir m (es @ [(s, d)])"
        using 2 by auto
      show ?thesis
      proof (cases "t = s")
        case True
        then have at: "node_at d qs = Some c" using 2 Cons d None by (auto simp: map_add_def)
        from 2(1) [OF None d(1) at] show ?thesis
          using True Cons None by (cases qs) auto
      next
        case False
        then show ?thesis using 2 Cons d None by (auto simp: map_add_def split: option.splits)
      qed
    next
      case (Some e)
      then obtain d where d: "mkdir_p ss e = Some d" "n' = Dir m (AList.update s d es)"
        using 2 by auto
      show ?thesis
      proof (cases "t = s")
        case True
        then have at: "node_at d qs = Some c" using 2 Cons d Some by (auto simp: update_conv')
        from 2(2) [OF Some d(1) at] show ?thesis using True Cons Some by auto
      next
        case False
        then show ?thesis using 2 Cons d Some by (auto simp: update_conv' split: option.splits)
      qed
    qed
  qed
qed (auto split: if_splits)

lemma mkdir_p_dir: "mkdir_p p n = Some n' \<Longrightarrow> \<exists>d. node_at n' p = Some d \<and> is_dir d"
  by (induction p n arbitrary: n' rule: mkdir_p.induct)
    (auto simp: update_conv' map_add_def split: if_splits option.splits)

lemma mkdir_p_total:
  "is_dir n \<Longrightarrow> \<forall>q d. prefix q p \<and> node_at n q = Some d \<longrightarrow> is_dir d \<Longrightarrow> \<exists>n'. mkdir_p p n = Some n'"
proof (induction p n rule: mkdir_p.induct)
  case (2 s ss m es)
  show ?case
  proof (cases "map_of es s")
    case None
    have "\<exists>n'. mkdir_p ss (Dir 493 []) = Some n'"
      by (rule 2(1) [OF None]) (auto, case_tac q, auto)
    then show ?thesis using None by auto
  next
    case (Some c)
    have "is_dir c" using 2(4) Some by (auto dest!: spec [of _ "[s]"])
    moreover have "\<forall>q d. prefix q ss \<and> node_at c q = Some d \<longrightarrow> is_dir d"
    proof (intro allI impI)
      fix q d assume "prefix q ss \<and> node_at c q = Some d"
      then show "is_dir d" using 2(4) Some by (auto dest!: spec [of _ "s # q"])
    qed
    ultimately show ?thesis using 2(2) [OF Some] Some by auto
  qed
qed auto

lemma is_dir_mkdir_p: "mkdir_p p n = Some n' \<Longrightarrow> is_dir n'"
  by (induction p n rule: mkdir_p.induct) (auto split: if_splits option.splits)

lemma put_file_at: "put_file p f n = Some n' \<Longrightarrow> node_at n' p = Some f"
  by (induction p f n arbitrary: n' rule: put_file.induct)
    (auto simp: update_conv' map_add_def split: option.splits)

lemma put_file_keeps_files:
  "put_file p f n = Some n' \<Longrightarrow> node_at n q = Some (Reg b md k) \<Longrightarrow> node_at n' q = Some (Reg b md k)"
proof (induction p f n arbitrary: n' q rule: put_file.induct)
  case (2 s f m es)
  then show ?case by (cases q) (auto simp: map_add_def split: option.splits)
next
  case (3 s t ss f m es)
  then show ?case by (cases q) (auto simp: update_conv' split: option.splits if_splits)
qed auto

lemma put_file_new:
  "put_file p f n = Some n' \<Longrightarrow> f = Reg b md k \<Longrightarrow> node_at n' q = Some c \<Longrightarrow>
   (q = p \<and> c = f) \<or> ((\<not> is_dir c \<longrightarrow> node_at n q = Some c) \<and> node_at n q \<noteq> None)"
proof (induction p f n arbitrary: n' q c rule: put_file.induct)
  case (2 s f m es)
  show ?case
  proof (cases q)
    case (Cons t qs)
    then show ?thesis using 2 by (cases qs) (auto simp: map_add_def split: option.splits if_splits)
  qed (use 2 in \<open>auto split: option.splits\<close>)
next
  case (3 s t ss f m es)
  then obtain e d where e: "map_of es s = Some e" "put_file (t # ss) f e = Some d"
    "n' = Dir m (AList.update s d es)" by (auto split: option.splits)
  show ?case
  proof (cases q)
    case (Cons t' qs)
    show ?thesis
    proof (cases "t' = s")
      case True
      then have "node_at d qs = Some c" using 3 Cons e by (simp add: update_conv')
      from 3(1) [OF e(1,2) 3(3) this] show ?thesis using True Cons e(1) by auto
    next
      case False
      then show ?thesis using 3 Cons e by (auto simp: update_conv' split: option.splits)
    qed
  qed (use e 3 in auto)
qed auto

lemma put_file_total:
  "p \<noteq> [] \<Longrightarrow> node_at n (butlast p) = Some d \<Longrightarrow> is_dir d \<Longrightarrow> node_at n p = None \<Longrightarrow>
   \<exists>n'. put_file p f n = Some n'"
proof (induction p f n rule: put_file.induct)
  case (2 s f m es)
  then show ?case by (auto split: option.splits)
next
  case (3 s t ss f m es)
  then show ?case by (auto split: option.splits)
qed (auto split: if_splits)

lemma is_dir_put_file: "put_file p f n = Some n' \<Longrightarrow> is_dir n'"
  by (induction p f n rule: put_file.induct) (auto split: option.splits)

section \<open>Extraction writes what was inspected\<close>

abbreviation mem_segs :: "tar_member \<Rightarrow> string list" where
  "mem_segs m \<equiv> split_on slash (mem_name m)"

definition members_ok :: "tar_member list \<Rightarrow> bool" where
  "members_ok ms \<longleftrightarrow> distinct (map mem_segs ms) \<and>
     (\<forall>m \<in> set ms. mem_kind m \<noteq> OtherMember) \<and>
     (\<forall>m \<in> set ms. \<forall>m' \<in> set ms. mem_kind m = FileMember \<longrightarrow>
        \<not> strict_prefix (mem_segs m) (mem_segs m'))"

text \<open>The tree holds the members' files, nothing else but the directories they need.\<close>

definition holds_members :: "tar_member list \<Rightarrow> node \<Rightarrow> bool" where
  "holds_members ms n \<longleftrightarrow> is_dir n \<and>
     (\<forall>m \<in> set ms. mem_kind m = FileMember \<longrightarrow> node_at n (mem_segs m) = Some (file_node m)) \<and>
     (\<forall>q c. node_at n q = Some c \<longrightarrow> \<not> is_dir c \<longrightarrow>
        (\<exists>m \<in> set ms. mem_kind m = FileMember \<and> q = mem_segs m)) \<and>
     (\<forall>q c. node_at n q = Some c \<longrightarrow> q = [] \<or> (\<exists>m \<in> set ms. prefix q (mem_segs m)))"

lemma inspect_loop_Inr:
  assumes "inspect_loop l ms n paths fb = Inr (paths', fb')" "distinct (keys paths)"
  shows "paths' = paths @ map (\<lambda>m. (mem_segs m, mem_kind m = FileMember)) ms \<and>
    distinct (keys paths') \<and> (\<forall>m \<in> set ms. mem_kind m \<noteq> OtherMember) \<and>
    (fb \<le> max_expanded_bytes l \<longrightarrow> fb' \<le> max_expanded_bytes l) \<and>
    (int n \<le> arc_max_entries l \<longrightarrow> int n + int (length ms) \<le> arc_max_entries l) \<and>
    (\<forall>m \<in> set ms. \<forall>seg \<in> set (mem_segs m). seg \<notin> {[], ''.'', ''..''})"
  using assms
proof (induction l ms n paths fb rule: inspect_loop.induct)
  case (2 l m ms n paths fb)
  obtain segs where v: "validate_name l (mem_name m) = Inr segs"
    using 2(2) by (auto simp: rbind_Inr split: if_splits)
  have segs: "segs = mem_segs m" "\<forall>seg \<in> set segs. seg \<notin> {[], ''.'', ''..''}"
    using v by (auto simp: validate_name_def list_ex_iff split: if_splits)
  have c: "\<not> int n \<ge> arc_max_entries l" "\<not> (mem_sparse m \<or> mem_kind m = OtherMember)"
    "segs \<notin> set (keys paths)"
    "\<not> (mem_kind m = FileMember \<and> (mem_size m < 0 \<or> mem_size m > arc_max_file_bytes l))"
    "\<not> (mem_kind m = FileMember \<and> fb + mem_size m > max_expanded_bytes l)"
    "inspect_loop l ms (n + 1) (paths @ [(segs, mem_kind m = FileMember)])
       (if mem_kind m = FileMember then fb + mem_size m else fb) = Inr (paths', fb')"
    using 2(2) v by (auto split: if_splits)
  have "distinct (keys (paths @ [(segs, mem_kind m = FileMember)]))" using 2(3) c(3) by simp
  note ih = 2(1) [OF c(1,2) c(3-6) this]
  have p: "paths' = paths @ map (\<lambda>m. (mem_segs m, mem_kind m = FileMember)) (m # ms)"
    using ih segs(1) by simp
  have d: "distinct (keys paths')" using ih by (rule conjunct1 [OF conjunct2])
  have b: "fb \<le> max_expanded_bytes l \<longrightarrow> fb' \<le> max_expanded_bytes l"
    using ih c(5) by (simp split: if_splits)
  have e: "int n + int (length (m # ms)) \<le> arc_max_entries l" using ih c(1) by simp
  have k: "\<forall>x \<in> set (m # ms). mem_kind x \<noteq> OtherMember" using ih c(2) by simp
  have s: "\<forall>x \<in> set (m # ms). \<forall>seg \<in> set (mem_segs x). seg \<notin> {[], ''.'', ''..''}"
    using ih segs by simp
  from p d b e k s show ?case by blast
qed simp

lemma inspect_members_ok:
  assumes "inspect_members l ms = Inr r"
  shows "members_ok ms"
proof -
  obtain paths fb where lo: "inspect_loop l ms 0 [] 0 = Inr (paths, fb)"
    and par: "\<forall>path \<in> set (keys paths). \<not> file_parent paths path"
    using assms by (auto simp: inspect_members_def rbind_Inr list_ex_iff split: if_splits)
  note i = inspect_loop_Inr [OF lo]
  have paths: "paths = map (\<lambda>m. (mem_segs m, mem_kind m = FileMember)) ms" "distinct (keys paths)"
    and kinds: "\<forall>m \<in> set ms. mem_kind m \<noteq> OtherMember" using i by auto
  have "False" if m: "m \<in> set ms" "m' \<in> set ms" "mem_kind m = FileMember"
    and sp: "strict_prefix (mem_segs m) (mem_segs m')" for m m'
  proof -
    have "map_of paths (mem_segs m) = Some True"
      using paths m by (intro map_of_is_SomeI) auto
    moreover obtain z zs where eq: "mem_segs m' = mem_segs m @ z # zs"
      using sp by (rule strict_prefixE')
    moreover have "1 \<le> length (mem_segs m)" by (simp add: Suc_le_eq)
    ultimately have "file_parent paths (mem_segs m')"
      unfolding file_parent_def list_ex_iff
      by (intro bexI [of _ "length (mem_segs m)"]) auto
    moreover have "mem_segs m' \<in> set (keys paths)" using paths m by auto
    ultimately show False using par by blast
  qed
  then show ?thesis using paths kinds by (auto simp: members_ok_def comp_def)
qed

lemma holds_membersI:
  assumes "is_dir n"
    and "\<And>m. m \<in> set ms \<Longrightarrow> mem_kind m = FileMember \<Longrightarrow> node_at n (mem_segs m) = Some (file_node m)"
    and "\<And>q c. node_at n q = Some c \<Longrightarrow> \<not> is_dir c \<Longrightarrow>
          \<exists>m \<in> set ms. mem_kind m = FileMember \<and> q = mem_segs m"
    and "\<And>q c. node_at n q = Some c \<Longrightarrow> q = [] \<or> (\<exists>m \<in> set ms. prefix q (mem_segs m))"
  shows "holds_members ms n"
  using assms unfolding holds_members_def by blast

lemma holds_membersD:
  assumes "holds_members ms n"
  shows "is_dir n"
    and "m \<in> set ms \<Longrightarrow> mem_kind m = FileMember \<Longrightarrow> node_at n (mem_segs m) = Some (file_node m)"
    and "node_at n q = Some c \<Longrightarrow> \<not> is_dir c \<Longrightarrow> \<exists>m \<in> set ms. mem_kind m = FileMember \<and> q = mem_segs m"
    and "node_at n q = Some c \<Longrightarrow> q = [] \<or> (\<exists>m \<in> set ms. prefix q (mem_segs m))"
  using assms unfolding holds_members_def by blast+

lemma members_ok_new: "members_ok (ms @ [m]) \<Longrightarrow> x \<in> set ms \<Longrightarrow> mem_segs x \<noteq> mem_segs m"
  unfolding members_ok_def by simp (metis imageI)

lemma file_node_Reg: "\<exists>b md. file_node m = Reg b md 1"
  by (simp add: file_node_def)

text \<open>Making the directories of a prefix of a new member's path keeps the tree well matched.\<close>

lemma holds_mkdir_p:
  assumes h: "holds_members ms n" and ok: "members_ok (ms @ [m])"
    and p: "prefix p (mem_segs m)" "p \<noteq> mem_segs m \<or> mem_kind m = DirMember"
  obtains n' where "mkdir_p p n = Some n'" "is_dir n'"
    "\<And>x. x \<in> set ms \<Longrightarrow> mem_kind x = FileMember \<Longrightarrow> node_at n' (mem_segs x) = Some (file_node x)"
    "\<And>q c. node_at n' q = Some c \<Longrightarrow> \<not> is_dir c \<Longrightarrow>
       \<exists>x \<in> set ms. mem_kind x = FileMember \<and> q = mem_segs x"
    "\<And>q c. node_at n' q = Some c \<Longrightarrow> q = [] \<or> (\<exists>x \<in> set ms. prefix q (mem_segs x)) \<or> prefix q p"
proof -
  have "is_dir d" if q: "prefix q p" "node_at n q = Some d" for q d
  proof (rule ccontr)
    assume "\<not> is_dir d"
    then obtain x where x: "x \<in> set ms" "mem_kind x = FileMember" "q = mem_segs x"
      using holds_membersD(3) [OF h q(2)] by blast
    moreover have "mem_segs x \<noteq> mem_segs m" using members_ok_new [OF ok x(1)] .
    ultimately have "strict_prefix (mem_segs x) (mem_segs m)"
      using q(1) p(1) by (metis prefix_order.order_trans strict_prefixI)
    then show False using ok x by (auto simp: members_ok_def)
  qed
  then obtain n' where n': "mkdir_p p n = Some n'"
    using mkdir_p_total [OF holds_membersD(1) [OF h], of p] by blast
  show ?thesis
  proof (rule that [OF n' is_dir_mkdir_p [OF n']])
    fix x assume "x \<in> set ms" "mem_kind x = FileMember"
    then show "node_at n' (mem_segs x) = Some (file_node x)"
      using holds_membersD(2) [OF h] mkdir_p_keeps_files [OF n'] file_node_Reg [of x] by metis
  next
    fix q c assume "node_at n' q = Some c" "\<not> is_dir c"
    then show "\<exists>x \<in> set ms. mem_kind x = FileMember \<and> q = mem_segs x"
      using mkdir_p_new [OF n'] holds_membersD(3) [OF h] by blast
  next
    fix q c assume "node_at n' q = Some c"
    then show "q = [] \<or> (\<exists>x \<in> set ms. prefix q (mem_segs x)) \<or> prefix q p"
      using mkdir_p_new [OF n'] holds_membersD(4) [OF h] by blast
  qed
qed

lemma extract_member_ok:
  assumes h: "holds_members ms n" and ok: "members_ok (ms @ [m])"
    and sz: "mem_kind m = FileMember \<longrightarrow> int (length (mem_data m)) = mem_size m"
  shows "\<exists>n'. extract_member m n = Inr n' \<and> holds_members (ms @ [m]) n'"
proof (cases "mem_kind m = DirMember")
  case True
  obtain n' where n': "mkdir_p (mem_segs m) n = Some n'" "is_dir n'"
    "\<And>x. x \<in> set ms \<Longrightarrow> mem_kind x = FileMember \<Longrightarrow> node_at n' (mem_segs x) = Some (file_node x)"
    "\<And>q c. node_at n' q = Some c \<Longrightarrow> \<not> is_dir c \<Longrightarrow>
       \<exists>x \<in> set ms. mem_kind x = FileMember \<and> q = mem_segs x"
    "\<And>q c. node_at n' q = Some c \<Longrightarrow> q = [] \<or> (\<exists>x \<in> set ms. prefix q (mem_segs x)) \<or> prefix q (mem_segs m)"
    using holds_mkdir_p [OF h ok, of "mem_segs m"] True by auto
  have "holds_members (ms @ [m]) n'"
    by (rule holds_membersI) (use n' True in \<open>auto, blast+\<close>)
  then show ?thesis using n'(1) True by (simp add: extract_member_def)
next
  case False
  then have f: "mem_kind m = FileMember" using ok by (cases "mem_kind m") (auto simp: members_ok_def)
  let ?p = "butlast (mem_segs m)"
  have pre: "prefix ?p (mem_segs m)" "?p \<noteq> mem_segs m"
    by (auto simp: prefixeq_butlast) (metis append_butlast_last_id append_self_conv list.distinct(1) split_on_ne)
  obtain d where d: "mkdir_p ?p n = Some d" "is_dir d"
    "\<And>x. x \<in> set ms \<Longrightarrow> mem_kind x = FileMember \<Longrightarrow> node_at d (mem_segs x) = Some (file_node x)"
    "\<And>q c. node_at d q = Some c \<Longrightarrow> \<not> is_dir c \<Longrightarrow>
       \<exists>x \<in> set ms. mem_kind x = FileMember \<and> q = mem_segs x"
    "\<And>q c. node_at d q = Some c \<Longrightarrow> q = [] \<or> (\<exists>x \<in> set ms. prefix q (mem_segs x)) \<or> prefix q ?p"
    using holds_mkdir_p [OF h ok pre(1)] pre(2) by auto
  have "node_at d (mem_segs m) = None"
  proof (rule ccontr)
    assume "node_at d (mem_segs m) \<noteq> None"
    then obtain c where "node_at d (mem_segs m) = Some c" by blast
    from d(5) [OF this] obtain x where x: "x \<in> set ms" "prefix (mem_segs m) (mem_segs x)"
      using pre by (metis prefix_order.antisym split_on_ne)
    moreover have "mem_segs x \<noteq> mem_segs m" using members_ok_new [OF ok x(1)] .
    ultimately have "strict_prefix (mem_segs m) (mem_segs x)" by (simp add: strict_prefixI)
    then show False using ok f x(1) by (auto simp: members_ok_def)
  qed
  then obtain n' where n': "put_file (mem_segs m) (file_node m) d = Some n'"
    using put_file_total [OF split_on_ne] mkdir_p_dir [OF d(1)] by blast
  obtain b md where reg: "file_node m = Reg b md 1" using file_node_Reg by blast
  have "holds_members (ms @ [m]) n'"
  proof (rule holds_membersI)
    show "is_dir n'" by (rule is_dir_put_file [OF n'])
  next
    fix x assume x: "x \<in> set (ms @ [m])" "mem_kind x = FileMember"
    obtain b' md' where r: "file_node x = Reg b' md' 1" using file_node_Reg by blast
    show "node_at n' (mem_segs x) = Some (file_node x)"
      using x put_file_at [OF n'] put_file_keeps_files [OF n'] d(3) r by (cases "x = m") auto
  next
    fix q c assume "node_at n' q = Some c" "\<not> is_dir c"
    then show "\<exists>x \<in> set (ms @ [m]). mem_kind x = FileMember \<and> q = mem_segs x"
      using put_file_new [OF n' reg] d(4) f by fastforce
  next
    fix q c assume "node_at n' q = Some c"
    then consider "q = mem_segs m" | "node_at d q \<noteq> None"
      using put_file_new [OF n' reg] by blast
    then show "q = [] \<or> (\<exists>x \<in> set (ms @ [m]). prefix q (mem_segs x))"
      using d(5) pre(1) by cases (auto intro: prefix_order.order_trans)
  qed
  then show ?thesis using d(1) n' f sz by (simp add: extract_member_def)
qed

lemma members_ok_prefix: "members_ok (ms @ ms') \<Longrightarrow> members_ok ms"
  by (auto simp: members_ok_def)

lemma extract_members_ok:
  assumes "holds_members done n" "members_ok (done @ ms)"
    and "\<forall>m \<in> set ms. mem_kind m = FileMember \<longrightarrow> int (length (mem_data m)) = mem_size m"
  shows "\<exists>n'. extract_members ms n = Inr n' \<and> holds_members (done @ ms) n'"
  using assms
proof (induction ms arbitrary: "done" n)
  case (Cons m ms)
  have ok: "members_ok (done @ [m])" using Cons.prems(2) members_ok_prefix [of "done @ [m]" ms] by simp
  obtain n1 where n1: "extract_member m n = Inr n1" "holds_members (done @ [m]) n1"
    using extract_member_ok [OF Cons.prems(1) ok] Cons.prems(3) by auto
  obtain n2 where "extract_members ms n1 = Inr n2" "holds_members ((done @ [m]) @ ms) n2"
    using Cons.IH [OF n1(2)] Cons.prems(2,3) by auto
  then show ?case using n1(1) by auto
qed simp

text \<open>Extraction: when the members of an archive pass inspection and every file's payload has
  its declared length, extraction into a fresh directory succeeds, every file member is found at its
  path with its contents and a single link, no other file, link or device exists in the result, and
  every directory in it is an ancestor of some member, so nothing is written outside.\<close>

theorem extract_members_faithful:
  assumes "inspect_members l ms = Inr r"
    and "\<forall>m \<in> set ms. mem_kind m = FileMember \<longrightarrow> int (length (mem_data m)) = mem_size m"
  shows "\<exists>n. extract_members ms (Dir 448 []) = Inr n \<and> holds_members ms n"
proof -
  have "holds_members [] (Dir 448 [])"
    by (rule holds_membersI) (auto, (case_tac q; simp)+)
  from extract_members_ok [OF this] show ?thesis
    using inspect_members_ok [OF assms(1)] assms(2) by simp
qed

definition member_example :: "string \<Rightarrow> member_kind \<Rightarrow> bytes \<Rightarrow> tar_member" where
  "member_example name kind data = \<lparr>mem_name = name, mem_kind = kind, mem_sparse = False,
     mem_size = int (length data), mem_mode = 420, mem_data = data\<rparr>"

definition archive_limits_example :: archive_limits where
  "archive_limits_example = \<lparr>max_compressed_bytes = 100, max_expanded_bytes = 100,
     arc_max_file_bytes = 50, arc_max_entries = 10, arc_max_path_bytes = 20,
     max_zstd_window_bytes = 100\<rparr>"

theorem extract_members_faithful_witness:
  "\<exists>n. extract_members [member_example ''a/b'' FileMember ''hi'', member_example ''a'' DirMember []]
      (Dir 448 []) = Inr n \<and> node_at n [''a'', ''b''] = Some (Reg ''hi'' 420 1)"
proof -
  let ?ms = "[member_example ''a/b'' FileMember ''hi'', member_example ''a'' DirMember []]"
  have "inspect_members archive_limits_example ?ms = Inr (?ms, 2)"
    by (simp add: inspect_members_def member_example_def archive_limits_example_def
        validate_name_def utf8_size_def file_parent_def)
  from extract_members_faithful [OF this] obtain n where
    n: "extract_members ?ms (Dir 448 []) = Inr n" "holds_members ?ms n"
    by (auto simp: member_example_def)
  have "node_at n (mem_segs (hd ?ms)) = Some (file_node (hd ?ms))"
    by (rule holds_membersD(2) [OF n(2)]) (simp_all add: member_example_def)
  then show ?thesis using n(1) by (simp add: member_example_def file_node_def has_bit_def)
qed

lemma decompress_loop_bound:
  assumes "decompress_loop steps adv out = Inr (out', eof)" "int (length out) \<le> adv"
  shows "int (length out') \<le> adv"
  using assms by (induction steps adv out rule: decompress_loop.induct) (auto split: if_splits)

text \<open>Decompression never keeps more than the advertised size, and only a complete frame counts.\<close>

lemma decompress_archive_bound:
  assumes "decompress_archive z l adv = Inr out" "0 \<le> adv"
  shows "int (length out) \<le> adv" "window_size z \<le> max_zstd_window_bytes l"
  using assms decompress_loop_bound [of "zs_steps z" adv "[]"]
  by (auto simp: decompress_archive_def rbind_Inr split: if_splits)

end
