(* ===== verification/Transfers.thy ===== *)
theory Transfers
  imports Archive PyText
begin

text \<open>
  Workspaces, downloads and uploads: \<open>src/rlvr/v3/workspace.py\<close>, \<open>download.py\<close>,
  \<open>submission.py\<close> and \<open>upload.py\<close>.  The HTTP exchange is a parameter: the origin the URL parser
  finds, the response status, headers and body chunks, or a transport error.  The lemmas show that a
  workspace copy equals its source with normalised modes, that a download is kept only when origin,
  size and digest match, and when an upload counts as done.
\<close>

section \<open>Workspaces\<close>

datatype workspace_error = WorkspaceError string

text \<open>\<open>_copy_tree\<close>, on the entries of a directory.\<close>

fun copy_node :: "node \<Rightarrow> workspace_error + node"
and copy_entries :: "(string \<times> node) list \<Rightarrow> workspace_error + (string \<times> node) list" where
  "copy_node (Dir m es) = rbind (copy_entries es) (\<lambda>es'. Inr (Dir 493 es'))"
| "copy_node (Reg b m k) =
     (if k \<noteq> 1 then Inl (WorkspaceError ''cached workspace contains an unsafe entry'')
      else Inr (Reg b (if has_bit m user_exec then 493 else 420) 1))"
| "copy_node (Symlink t) = Inl (WorkspaceError ''cached workspace contains an unsafe entry'')"
| "copy_node Special = Inl (WorkspaceError ''cached workspace contains an unsafe entry'')"
| "copy_entries [] = Inr []"
| "copy_entries ((name, n) # es) =
     rbind (copy_node n) (\<lambda>n'. rbind (copy_entries es) (\<lambda>es'. Inr ((name, n') # es')))"

text \<open>\<open>materialize_workspace\<close>: the source node, whether the parent is a real directory and whether
  the destination exists; a failed copy is removed, so the second component is \<open>None\<close>.\<close>

definition materialize_workspace ::
  "node option \<Rightarrow> bool \<Rightarrow> bool \<Rightarrow> (workspace_error + unit) \<times> node option" where
  "materialize_workspace source parent_ok target_exists =
     (case source of
        Some (Dir m es) \<Rightarrow>
          if \<not> parent_ok then (Inl (WorkspaceError ''workspace parent is unavailable''), None)
          else if target_exists
            then (Inl (WorkspaceError ''workspace destination already exists''), None)
          else (case copy_node (Dir m es) of
                  Inl e \<Rightarrow> (Inl e, None)
                | Inr n \<Rightarrow> (Inr (), Some n))
      | _ \<Rightarrow> (Inl (WorkspaceError ''cached workspace is unavailable''), None))"

text \<open>
  \<open>ensure_cached_workspace\<close> on one cache slot: \<open>target\<close> is what the slot holds, \<open>extracted\<close> the
  outcome of extracting the archive into a staging directory and renaming it over the slot, and
  \<open>raced\<close> what the slot holds after a failure (another process may have filled it).
\<close>

definition ensure_cached_workspace ::
  "bool \<Rightarrow> node option \<Rightarrow> node option \<Rightarrow> node option \<Rightarrow> workspace_error + node" where
  "ensure_cached_workspace dirs_ok target extracted raced =
     (if \<not> dirs_ok then Inl (WorkspaceError ''workspace directories are unavailable'')
      else case target of
        Some n \<Rightarrow> if is_dir n then Inr n else Inl (WorkspaceError ''cached workspace is invalid'')
      | None \<Rightarrow>
          (case extracted of
             Some n \<Rightarrow> Inr n
           | None \<Rightarrow>
               (case raced of
                  Some n \<Rightarrow> if is_dir n then Inr n
                            else Inl (WorkspaceError ''workspace could not be cached'')
                | None \<Rightarrow> Inl (WorkspaceError ''workspace could not be cached''))))"

section \<open>Downloads\<close>

datatype download_error = ArtifactDownloadError string

record http_response =
  status_code :: int
  content_encoding :: "string option"
  content_length :: "string option"
  body_chunks :: "bytes list"

datatype http_outcome = Response http_response | TransportError

text \<open>\<open>strip().lower()\<close> on ASCII text, and decimal digits.\<close>

definition is_space :: "char \<Rightarrow> bool" where
  "is_space c \<longleftrightarrow> uspace (of_char c)"

definition strip :: "string \<Rightarrow> string" where
  "strip s = rev (dropWhile is_space (rev (dropWhile is_space s)))"

definition lower_char :: "char \<Rightarrow> char" where
  "lower_char c = (let n = of_char c :: nat in if 65 \<le> n \<and> n \<le> 90 then char_of (n + 32) else c)"

definition digit_value :: "char \<Rightarrow> int" where
  "digit_value c = int (of_char c) - 48"

definition is_digit :: "char \<Rightarrow> bool" where
  "is_digit c \<longleftrightarrow> c \<in> set ''0123456789''"

definition decimal :: "string \<Rightarrow> int" where
  "decimal s = foldl (\<lambda>n c. 10 * n + digit_value c) 0 s"

text \<open>The body loop: stop at the first chunk that makes the body longer than announced.\<close>

fun receive :: "int \<Rightarrow> bytes list \<Rightarrow> bytes \<Rightarrow> download_error + bytes" where
  "receive sz [] out = Inr out"
| "receive sz (chunk # chunks) out =
     (if int (length (out @ chunk)) > sz
      then Inl (ArtifactDownloadError ''artifact response is too large'')
      else receive sz chunks (out @ chunk))"

definition download_object ::
  "(string \<Rightarrow> string option) \<Rightarrow> (bytes \<Rightarrow> string) \<Rightarrow> (string \<Rightarrow> http_outcome) \<Rightarrow> string \<Rightarrow> string \<Rightarrow>
   int \<Rightarrow> int \<Rightarrow> bool \<Rightarrow> string set \<Rightarrow> download_error + bytes" where
  "download_object origin_of sha256 http_get url sha sz max_bytes target_exists allowed =
     (if sz < 0 then Inl (ArtifactDownloadError ''artifact size is invalid'')
      else if max_bytes \<le> 0 then Inl (ArtifactDownloadError ''artifact download limit is invalid'')
      else if sz > max_bytes then Inl (ArtifactDownloadError ''artifact exceeds the download limit'')
      else case origin_of url of
        None \<Rightarrow> Inl (ArtifactDownloadError ''artifact URL is invalid'')
      | Some origin \<Rightarrow>
        if origin \<notin> allowed then Inl (ArtifactDownloadError ''artifact origin is not allowed'')
        else if target_exists then Inl (ArtifactDownloadError ''artifact destination already exists'')
        else case http_get url of
          TransportError \<Rightarrow> Inl (ArtifactDownloadError ''artifact download failed'')
        | Response r \<Rightarrow>
          if status_code r \<noteq> 200 then Inl (ArtifactDownloadError ''artifact request failed'')
          else if (case content_encoding r of None \<Rightarrow> False
                   | Some e \<Rightarrow> map lower_char (strip e) \<noteq> ''identity'')
            then Inl (ArtifactDownloadError ''artifact response encoding is not supported'')
          else if (case content_length r of None \<Rightarrow> False
                   | Some n \<Rightarrow> \<not> (n \<noteq> [] \<and> list_all is_digit n))
            then Inl (ArtifactDownloadError ''artifact response length is invalid'')
          else if (case content_length r of None \<Rightarrow> False | Some n \<Rightarrow> decimal n \<noteq> sz)
            then Inl (ArtifactDownloadError ''artifact response length does not match'')
          else rbind (receive sz (body_chunks r) []) (\<lambda>body.
            if int (length body) \<noteq> sz
              then Inl (ArtifactDownloadError ''artifact response is truncated'')
            else if sha256 body \<noteq> sha
              then Inl (ArtifactDownloadError ''artifact digest does not match'')
            else Inr body))"

record submission_limits =
  sl_max_patch_bytes :: int
  sl_max_script_bytes :: int

definition check_submission_limits :: "submission_limits \<Rightarrow> submission_limits result" where
  "check_submission_limits l =
     (if sl_max_patch_bytes l \<le> 0 \<or> sl_max_script_bytes l \<le> 0
      then Inl (ValueError ''submission limits must be positive integers'') else Inr l)"

definition fetch_submission ::
  "(string \<Rightarrow> string option) \<Rightarrow> (bytes \<Rightarrow> string) \<Rightarrow> (string \<Rightarrow> http_outcome) \<Rightarrow> artifact_grant \<Rightarrow>
   submission_limits \<Rightarrow> bool \<Rightarrow> string set \<Rightarrow> download_error + bytes" where
  "fetch_submission origin_of sha256 http_get g l target_exists allowed =
     download_object origin_of sha256 http_get (grant_read_url g) (grant_sha256 g)
       (grant_size_bytes g)
       (if grant_format g = UNIFIED_DIFF_V1 then sl_max_patch_bytes l else sl_max_script_bytes l)
       target_exists allowed"

definition download_artifact ::
  "(string \<Rightarrow> string option) \<Rightarrow> (bytes \<Rightarrow> string) \<Rightarrow> (string \<Rightarrow> http_outcome) \<Rightarrow> string \<Rightarrow>
   artifact_ref \<Rightarrow> archive_limits \<Rightarrow> bool \<Rightarrow> string set \<Rightarrow> download_error + bytes" where
  "download_artifact origin_of sha256 http_get url ref l target_exists allowed =
     download_object origin_of sha256 http_get url (ref_sha256 ref) (compressed_size_bytes ref)
       (max_compressed_bytes l) target_exists allowed"

section \<open>Uploads\<close>

text \<open>An invalid upload URL surfaces as the download module's error, which \<open>upload_artifact\<close> does
  not translate.\<close>

datatype upload_error = ArtifactUploadError string | EscapedDownloadError download_error

text \<open>One PUT: the status of the response, or a transport error.\<close>

datatype put_outcome = Status int | PutFailed

fun upload_attempts :: "(nat \<Rightarrow> put_outcome) \<Rightarrow> nat \<Rightarrow> nat \<Rightarrow> bool \<Rightarrow> upload_error + unit" where
  "upload_attempts put attempt 0 ambiguous = Inr ()"
| "upload_attempts put attempt (Suc left) ambiguous =
     (case put attempt of
        Status s \<Rightarrow>
          if s = 200 \<or> s = 201 then Inr ()
          else if (s = 409 \<or> s = 412) \<and> ambiguous then Inr ()
          else if 500 \<le> s \<and> s \<le> 599 \<and> attempt < 2
            then upload_attempts put (attempt + 1) left True
          else Inl (ArtifactUploadError ''artifact upload was rejected'')
      | PutFailed \<Rightarrow>
          if attempt < 2 then upload_attempts put (attempt + 1) left True
          else Inl (ArtifactUploadError ''artifact upload failed''))"

definition upload_artifact ::
  "(string \<Rightarrow> string option) \<Rightarrow> (bytes \<Rightarrow> string) \<Rightarrow> (nat \<Rightarrow> put_outcome) \<Rightarrow> upload_slot \<Rightarrow> bytes \<Rightarrow>
   string set \<Rightarrow> upload_error + miner_artifact_ref" where
  "upload_artifact origin_of sha256 put s contents allowed =
     (if int (length contents) > slot_max_bytes s
        then Inl (ArtifactUploadError ''artifact exceeds its upload slot'')
      else case origin_of (slot_upload_url s) of
        None \<Rightarrow> Inl (EscapedDownloadError (ArtifactDownloadError ''artifact URL is invalid''))
      | Some origin \<Rightarrow>
        if origin \<notin> allowed
          then Inl (ArtifactUploadError ''artifact upload origin is not allowed'')
        else rbind (upload_attempts put 0 3 False) (\<lambda>_.
        Inr \<lparr>art_role = slot_role s, art_format = slot_format s, art_upload_id = slot_upload_id s,
             art_sha256 = sha256 contents, art_size_bytes = int (length contents)\<rparr>))"

text \<open>\<open>upload_miner_result\<close> (\<open>miner.py\<close>): the submission first, then the trajectory.\<close>

definition upload_miner_result ::
  "(string \<Rightarrow> string option) \<Rightarrow> (bytes \<Rightarrow> string) \<Rightarrow> (nat \<Rightarrow> put_outcome) \<Rightarrow> (nat \<Rightarrow> put_outcome) \<Rightarrow>
   miner_task_request \<Rightarrow> bytes \<Rightarrow> bytes \<Rightarrow> string set \<Rightarrow> upload_error + miner_task_response" where
  "upload_miner_result origin_of sha256 put_sub put_trj t submission trajectory allowed =
     rbind (upload_artifact origin_of sha256 put_sub (sub_slot (mt_slots t)) submission allowed) (\<lambda>sr.
     rbind (upload_artifact origin_of sha256 put_trj (trj_slot (mt_slots t)) trajectory allowed) (\<lambda>tr.
     Inr \<lparr>mr_challenge_id = mt_challenge_id t, mr_task_id = mt_task_id t,
          mr_response_type = task_type (mt_identity t), mr_submission = sr, mr_trajectory = tr\<rparr>))"

section \<open>Lemmas\<close>

text \<open>A copy is the source with normalised modes, and it exists exactly when the source is safe.\<close>

fun plain_tree :: "node \<Rightarrow> bool" where
  "plain_tree (Dir m es) = list_all (\<lambda>(_, n). plain_tree n) es"
| "plain_tree (Reg b m k) = (k = 1)"
| "plain_tree _ = False"

lemma copy_plain:
  "copy_node n = (if plain_tree n then Inr (normalize_modes n)
     else Inl (WorkspaceError ''cached workspace contains an unsafe entry''))"
  "copy_entries es = (if list_all (\<lambda>(_, n). plain_tree n) es
     then Inr (map (\<lambda>(name, n). (name, normalize_modes n)) es)
     else Inl (WorkspaceError ''cached workspace contains an unsafe entry''))"
  by (induction n and es rule: copy_node_copy_entries.induct) auto

lemma receive_Inr:
  "receive sz chunks out = Inr body \<Longrightarrow> body = out @ concat chunks \<and>
   (int (length out) \<le> sz \<longrightarrow> int (length body) \<le> sz)"
  by (induction sz chunks out rule: receive.induct) (auto split: if_splits)

text \<open>Downloads: what \<open>download_object\<close> keeps came with status 200 from an allowed origin, is
  exactly the announced number of bytes, no more than the caller's limit, and has the announced
  SHA-256 digest.\<close>

theorem download_object_verified:
  assumes "download_object origin_of sha256 http_get url sha sz max_bytes ex allowed = Inr body"
  shows "int (length body) = sz \<and> sz \<le> max_bytes \<and> sha256 body = sha \<and>
    (\<exists>origin r. origin_of url = Some origin \<and> origin \<in> allowed \<and> http_get url = Response r \<and>
       status_code r = 200 \<and> body = concat (body_chunks r))"
  using assms
  by (auto simp: download_object_def rbind_Inr dest!: receive_Inr
      split: if_splits option.splits http_outcome.splits)

definition sha_demo :: "bytes \<Rightarrow> string" where
  "sha_demo b = (if length b = 3 then ''d3'' else ''d0'')"

theorem download_object_verified_witness:
  "int (length ''abc'') = 3 \<and> sha_demo ''abc'' = ''d3''"
  using download_object_verified [of "\<lambda>_. Some ''o''" sha_demo
      "\<lambda>_. Response \<lparr>status_code = 200, content_encoding = Some '' Identity '',
         content_length = Some ''3'', body_chunks = [''ab'', ''c'']\<rparr>"
      "''url''" "''d3''" 3 10 False "{''o''}" "''abc''"]
  by (simp add: download_object_def sha_demo_def decimal_def digit_value_def is_digit_def strip_def
      is_space_def uspace_def lower_char_def Let_def)

definition stored_answer :: "put_outcome \<Rightarrow> bool" where
  "stored_answer p \<longleftrightarrow> p = Status 200 \<or> p = Status 201"

definition conflict_answer :: "put_outcome \<Rightarrow> bool" where
  "conflict_answer p \<longleftrightarrow> p = Status 409 \<or> p = Status 412"

definition ambiguous_answer :: "put_outcome \<Rightarrow> bool" where
  "ambiguous_answer p = (case p of PutFailed \<Rightarrow> True | Status s \<Rightarrow> 500 \<le> s \<and> s \<le> 599)"

lemmas answer_defs = stored_answer_def conflict_answer_def ambiguous_answer_def

lemma upload_attempts_cases:
  "upload_attempts put 0 3 False = Inr () \<longleftrightarrow>
   stored_answer (put 0) \<or>
   (ambiguous_answer (put 0) \<and> (stored_answer (put 1) \<or> conflict_answer (put 1) \<or>
     (ambiguous_answer (put 1) \<and> (stored_answer (put 2) \<or> conflict_answer (put 2)))))"
  by (cases "put 0"; cases "put 1"; cases "put 2")
    (auto simp: numeral_3_eq_3 numeral_2_eq_2 answer_defs)

text \<open>Uploads: an upload is reported as stored exactly if one of at most three attempts was
  answered 200 or 201, or was answered 409 or 412 when every earlier attempt had failed in transport
  or with a server error and so may have stored the object itself; it is then reported with the
  slot's identity, the contents' digest and their length.\<close>

theorem upload_artifact_stored:
  assumes "int (length contents) \<le> slot_max_bytes s"
    "origin_of (slot_upload_url s) = Some origin" "origin \<in> allowed"
  shows "(\<exists>ref. upload_artifact origin_of sha256 put s contents allowed = Inr ref) \<longleftrightarrow>
      (\<exists>i. i < 3 \<and> (\<forall>j. j < i \<longrightarrow> ambiguous_answer (put j)) \<and>
         (stored_answer (put i) \<or> (0 < i \<and> conflict_answer (put i))))"
    (is "?L = ?R")
proof -
  have "?L \<longleftrightarrow> upload_attempts put 0 3 False = Inr ()"
    using assms by (cases "upload_attempts put 0 3 False") (auto simp: upload_artifact_def)
  also have "\<dots> \<longleftrightarrow> ?R"
  proof -
    have lt3: "i < 3 \<longleftrightarrow> i \<in> {0, 1, 2 :: nat}" for i by auto
    have "?R \<longleftrightarrow> (\<exists>i \<in> {0, 1, 2}. (\<forall>j. j < i \<longrightarrow> ambiguous_answer (put j)) \<and>
         (stored_answer (put i) \<or> (0 < i \<and> conflict_answer (put i))))"
      by (simp only: lt3 Bex_def)
    then show ?thesis
      unfolding upload_attempts_cases by (auto simp: numeral_2_eq_2 less_Suc_eq)
  qed
  finally show ?thesis .
qed

theorem upload_artifact_stored_witness:
  "\<exists>ref. upload_artifact (\<lambda>_. Some ''o'') sha_demo
     (\<lambda>i. if i = 0 then PutFailed else Status 412) (slot_example 1 ''h'' U_PATCH ''p'') ''abc'' {''o''} =
     Inr ref"
proof -
  have "\<exists>i. i < (3::nat) \<and> (\<forall>j. j < i \<longrightarrow> ambiguous_answer (if j = 0 then PutFailed else Status 412)) \<and>
     (stored_answer (if i = 0 then PutFailed else Status 412) \<or>
      (0 < i \<and> conflict_answer (if i = 0 then PutFailed else Status 412)))"
    by (rule exI [of _ 1]) (simp add: answer_defs)
  then show ?thesis
    using upload_artifact_stored [of "''abc''" "slot_example 1 ''h'' U_PATCH ''p''" "\<lambda>_. Some ''o''"
        "''o''" "{''o''}" sha_demo "\<lambda>i. if i = 0 then PutFailed else Status 412"]
    by (simp add: slot_example_def)
qed

text \<open>A miner's own result passes the validator's check of it.\<close>

lemma upload_miner_result_valid:
  assumes "upload_miner_result origin_of sha256 ps pt t sub trj allowed = Inr r"
  shows "validate_miner_response t r = Inr ()"
  using assms
  by (auto simp: upload_miner_result_def upload_artifact_def rbind_Inr validate_miner_response_def
      artifact_fits_slot_def split: if_splits option.splits)

end
