(* ===== verification/EvalEngine.thy ===== *)
theory EvalEngine
  imports Prelude
begin

text \<open>
  The score book of the validator (\<open>src/rlvr/scoring/eval_engine.py\<close>): per uid a count-bounded
  history of payments, a score derived from it, and normalised weights.  Every method of the
  class \<open>EvalEngine\<close> is a definition; a method that can raise leaves the object in the state the
  exception interrupts.  The lemmas show the class invariant for every method, what one completed
  challenge appends to which history, and that the published weights are a ranked distribution.
\<close>

section \<open>State\<close>

type_synonym uid = int
type_synonym observation = "real \<times> real"

record engine =
  window_seconds :: real
  max_samples :: nat
  min_samples :: nat
  decay :: bool
  rank_decay :: "real option"
  scores :: "pyfloat list"
  histories :: "(uid, observation list) dict"
  hotkeys :: "(uid, string) dict"

type_synonym 'a engine_method = "(engine, py_error, 'a) meth"

section \<open>Operations\<close>

text \<open>\<open>rank_weights\<close>: the positions of positive scores, best first, ties to the lower uid.\<close>

definition best_first :: "real list \<Rightarrow> nat list" where
  "best_first sc = sort_key (\<lambda>i. (- (sc ! i), i)) (filter (\<lambda>i. sc ! i > 0) [0..<length sc])"

definition rank_weights :: "real list \<Rightarrow> real \<Rightarrow> real list" where
  "rank_weights sc dec =
     fold (\<lambda>(r, i) w. w[i := dec ^ r]) (enumerate 0 (best_first sc)) (replicate (length sc) 0)"

definition init_engine ::
  "int \<Rightarrow> pyfloat \<Rightarrow> int \<Rightarrow> int \<Rightarrow> bool \<Rightarrow> pyfloat option \<Rightarrow> engine result" where
  "init_engine num_uids window maxs mins dec rank =
     (if num_uids < 0 then Inl (ValueError ''num_uids must be non-negative'')
      else if \<not> is_finite window \<or> fin_val window \<le> 0
        then Inl (ValueError ''window_seconds must be finite and positive'')
      else if maxs < 1 then Inl (ValueError ''max_samples must be a positive integer'')
      else if \<not> (1 \<le> mins \<and> mins \<le> maxs)
        then Inl (ValueError ''min_samples must be between 1 and max_samples'')
      else if (case rank of None \<Rightarrow> False
               | Some r \<Rightarrow> \<not> (is_finite r \<and> 0 < fin_val r \<and> fin_val r \<le> 1))
        then Inl (ValueError ''rank_decay must be in (0, 1]'')
      else Inr \<lparr>window_seconds = fin_val window, max_samples = nat maxs, min_samples = nat mins,
                decay = dec, rank_decay = map_option fin_val rank,
                scores = replicate (nat num_uids) (Fin 0), histories = [], hotkeys = []\<rparr>)"

definition ensure_capacity :: "uid \<Rightarrow> unit engine_method" where
  "ensure_capacity uid = (\<lambda>e.
     if uid < 0 then (Inl (ValueError ''uid must be non-negative''), e)
     else (Inr (), e\<lparr>scores := scores e @ replicate (nat uid + 1 - length (scores e)) (Fin 0)\<rparr>))"

text \<open>\<open>observed_at\<close> is optional; \<open>now\<close> is what the engine's clock returns when it is absent.\<close>

definition timestamp_of :: "pyfloat option \<Rightarrow> pyfloat \<Rightarrow> real result" where
  "timestamp_of observed_at now =
     (let v = (case observed_at of None \<Rightarrow> now | Some t \<Rightarrow> t) in
      if \<not> is_finite v \<or> fin_val v < 0
      then Inl (ValueError ''observation timestamp must be finite and non-negative'')
      else Inr (fin_val v))"

definition score_of :: "nat \<Rightarrow> observation list \<Rightarrow> real" where
  "score_of mins h = (if h = [] then 0 else sum_list (map snd h) / real (max (length h) mins))"

text \<open>Assignment to a numpy array: a negative index counts from the end, beyond the ends raises.\<close>

definition set_score :: "uid \<Rightarrow> pyfloat \<Rightarrow> unit engine_method" where
  "set_score uid v = (\<lambda>e.
     let n = int (length (scores e)) in
     if uid \<ge> n \<or> uid < - n then (Inl IndexError, e)
     else (Inr (), e\<lparr>scores := (scores e)[nat (if uid < 0 then uid + n else uid) := v]\<rparr>))"

definition refresh_score :: "uid \<Rightarrow> unit engine_method" where
  "refresh_score uid = (\<lambda>e.
     set_score uid (Fin (score_of (min_samples e) (dict_get (histories e) uid []))) e)"

definition clamp_reward :: "pyfloat \<Rightarrow> real" where
  "clamp_reward r = (if \<not> is_finite r \<or> fin_val r < 0 then 0 else fin_val r)"

definition record_obs :: "uid \<Rightarrow> pyfloat \<Rightarrow> real \<Rightarrow> unit engine_method" where
  "record_obs uid reward ts =
     andthen (ensure_capacity uid) (\<lambda>_.
     andthen (modify (\<lambda>e. e\<lparr>histories :=
        AList.update uid
          (last_n (max_samples e) (dict_get (histories e) uid [] @ [(ts, clamp_reward reward)]))
          (histories e)\<rparr>)) (\<lambda>_.
     refresh_score uid))"

definition restore_one :: "uid \<times> observation list \<Rightarrow> unit engine_method" where
  "restore_one = (\<lambda>(uid, vals) e.
     let kept = last_n (max_samples e) vals in
     if kept = [] then (Inr (), e)
     else refresh_score uid (e\<lparr>histories := AList.update uid kept (histories e)\<rparr>))"

definition restore ::
  "nat \<Rightarrow> (uid, observation list) dict \<Rightarrow> (uid, string) dict \<Rightarrow> unit engine_method" where
  "restore num_uids hs hks =
     andthen (modify (\<lambda>e. e\<lparr>scores := replicate num_uids (Fin 0), histories := []\<rparr>)) (\<lambda>_.
     andthen (foreach restore_one hs) (\<lambda>_.
     modify (\<lambda>e. e\<lparr>hotkeys := hks\<rparr>)))"

definition set_hotkey :: "uid \<times> string \<Rightarrow> unit engine_method" where
  "set_hotkey = (\<lambda>(uid, hk).
     andthen (ensure_capacity uid) (\<lambda>_.
     modify (\<lambda>e. e\<lparr>hotkeys := AList.update uid hk (hotkeys e)\<rparr>)))"

definition set_hotkeys :: "(uid, string) dict \<Rightarrow> unit engine_method" where
  "set_hotkeys hks = foreach set_hotkey hks"

definition resize :: "int \<Rightarrow> unit engine_method" where
  "resize n = (\<lambda>e.
     if n < 0 then (Inl (ValueError ''n must be non-negative''), e)
     else if nat n = length (scores e) then (Inr (), e)
     else if nat n > length (scores e)
       then (Inr (), e\<lparr>scores := scores e @ replicate (nat n - length (scores e)) (Fin 0)\<rparr>)
     else (Inr (), e\<lparr>scores := take (nat n) (scores e),
                     histories := filter (\<lambda>(u, _). u < n) (histories e),
                     hotkeys := filter (\<lambda>(u, _). u < n) (hotkeys e)\<rparr>))"

text \<open>One turn of the loop of \<open>sync\<close>; the returned list is the uids reset by this turn.\<close>

definition sync_one :: "uid \<times> string \<Rightarrow> uid list engine_method" where
  "sync_one = (\<lambda>(uid, hk).
     andthen (ensure_capacity uid) (\<lambda>_ e.
       if (case map_of (hotkeys e) uid of None \<Rightarrow> False | Some prev \<Rightarrow> prev \<noteq> hk)
       then (Inr [uid], e\<lparr>scores := (scores e)[nat uid := Fin 0],
                          histories := AList.delete uid (histories e),
                          hotkeys := AList.update uid hk (hotkeys e)\<rparr>)
       else (Inr [], e\<lparr>hotkeys := AList.update uid hk (hotkeys e)\<rparr>)))"

fun sync_loop :: "(uid, string) dict \<Rightarrow> uid list engine_method" where
  "sync_loop [] = return []"
| "sync_loop (p # ps) =
     andthen (sync_one p) (\<lambda>r. andthen (sync_loop ps) (\<lambda>rs. return (r @ rs)))"

definition sync :: "(uid, string) dict \<Rightarrow> int option \<Rightarrow> uid list engine_method" where
  "sync hks n =
     andthen (sync_loop hks) (\<lambda>reset.
       case n of None \<Rightarrow> return reset
       | Some k \<Rightarrow> andthen (resize k) (\<lambda>_. return reset))"

text \<open>
  \<open>update\<close>.  The sets the source iterates over have no fixed order; the model visits them in the
  order of the list or dictionary they are built from (see \<open>record_zeros_perm\<close> for why no
  observable result depends on it).
\<close>

definition record_zeros :: "uid list \<Rightarrow> real \<Rightarrow> unit engine_method" where
  "record_zeros us ts = foreach (\<lambda>u. record_obs u (Fin 0) ts) us"

definition record_rewards :: "(uid, pyfloat) dict \<Rightarrow> real \<Rightarrow> unit engine_method" where
  "record_rewards rewards ts = foreach (\<lambda>(u, r). record_obs u r ts) rewards"

text \<open>The zeros at the end of \<open>update\<close>: dispatched but silent, or observed but silent.\<close>

definition record_silent ::
  "(uid, pyfloat) dict \<Rightarrow> uid list option \<Rightarrow> real \<Rightarrow> unit engine_method" where
  "record_silent rewards dispatched ts = (\<lambda>e.
     if \<not> decay e then (Inr (), e)
     else record_zeros
       (filter (\<lambda>u. u \<notin> set (keys rewards))
         (case dispatched of Some ds \<Rightarrow> remdups ds | None \<Rightarrow> keys (histories e))) ts e)"

definition update ::
  "(uid, pyfloat) dict \<Rightarrow> (uid, string) dict option \<Rightarrow> uid list option \<Rightarrow> pyfloat option \<Rightarrow>
   pyfloat \<Rightarrow> real engine_method" where
  "update rewards hks dispatched observed_at now =
     andthen (case hks of None \<Rightarrow> return () | Some h \<Rightarrow> set_hotkeys h) (\<lambda>_.
     case timestamp_of observed_at now of
       Inl err \<Rightarrow> raise err
     | Inr ts \<Rightarrow>
        if rewards = [] \<and> dispatched = None then return ts
        else andthen (record_rewards rewards ts) (\<lambda>_.
             andthen (record_silent rewards dispatched ts) (\<lambda>_. return ts)))"

definition record_nonserving ::
  "uid list \<Rightarrow> pyfloat option \<Rightarrow> pyfloat \<Rightarrow> unit engine_method" where
  "record_nonserving active_uids observed_at now = (\<lambda>e.
     if \<not> decay e \<or> histories e = [] then (Inr (), e)
     else case timestamp_of observed_at now of
       Inl err \<Rightarrow> (Inl err, e)
     | Inr ts \<Rightarrow>
        let active = filter (\<lambda>u. 0 \<le> u \<and> u < int (length (scores e))) active_uids in
        record_zeros (filter (\<lambda>u. u \<notin> set active) (keys (histories e))) ts e)"

definition align :: "nat \<Rightarrow> real list \<Rightarrow> real list" where
  "align n sc = take n sc @ replicate (n - length sc) 0"

definition l1_normalize :: "real list \<Rightarrow> real list" where
  "l1_normalize sc = (if sum_list sc \<le> 0 then replicate (length sc) 0
                   else map (\<lambda>x. x / sum_list sc) sc)"

definition get_weights :: "engine \<Rightarrow> int option \<Rightarrow> real list result" where
  "get_weights e n =
     (let sc = map fin_val (scores e) in
      rbind (case n of None \<Rightarrow> Inr sc
             | Some k \<Rightarrow> if k < 0 then Inl (ValueError ''n must be non-negative'')
                         else Inr (if nat k = length sc then sc else align (nat k) sc)) (\<lambda>sc.
      let sc = map (max 0) sc in
      let sc = (case rank_decay e of None \<Rightarrow> sc | Some d \<Rightarrow> rank_weights sc d) in
      Inr (l1_normalize sc)))"

section \<open>The contract of a bounded history book\<close>

text \<open>
  What the scoring code relies on: recording one observation appends it to that uid's history,
  drops the oldest entries beyond the cap, and leaves every other history alone.  Its client
  lemma is the effect of one pass over several uids.
\<close>

locale history_book =
  fixes hist :: "'s \<Rightarrow> uid \<Rightarrow> observation list"
    and cap :: "'s \<Rightarrow> nat"
    and rec :: "uid \<Rightarrow> 'r \<Rightarrow> real \<Rightarrow> 's \<Rightarrow> 's"
    and val :: "'r \<Rightarrow> real"
  assumes hist_rec: "0 \<le> u \<Longrightarrow> hist (rec u r ts s) v =
      (if v = u then last_n (cap s) (hist s u @ [(ts, val r)]) else hist s v)"
    and cap_rec: "cap (rec u r ts s) = cap s"
begin

lemma cap_fold: "cap (fold (\<lambda>(u, r). rec u r ts) us s) = cap s"
  by (induction us arbitrary: s) (auto simp: cap_rec)

lemma hist_fold:
  assumes "distinct (map fst us)" and "\<forall>u \<in> set (map fst us). 0 \<le> u"
  shows "hist (fold (\<lambda>(u, r). rec u r ts) us s) v =
    (case map_of us v of None \<Rightarrow> hist s v
     | Some r \<Rightarrow> last_n (cap s) (hist s v @ [(ts, val r)]))"
  using assms
proof (induction us arbitrary: s)
  case (Cons p us)
  obtain u r where p: "p = (u, r)" by (cases p)
  have "v = u \<Longrightarrow> map_of us v = None"
    using Cons.prems p by (auto simp: map_of_eq_None_iff)
  then show ?case
    using Cons p by (auto simp: hist_rec cap_rec split: option.split)
qed simp

end

section \<open>Invariant\<close>

definition hist :: "engine \<Rightarrow> uid \<Rightarrow> observation list" where
  "hist e u = dict_get (histories e) u []"

definition score_at :: "engine \<Rightarrow> uid \<Rightarrow> real" where
  "score_at e u = score_of (min_samples e) (hist e u)"

text \<open>
  The class invariant: the sample bounds make sense, every stored history belongs to a uid of the
  score vector and is non-empty, at most \<open>max_samples\<close> long and free of negative payments, and
  each entry of the score vector is the finite score of that uid's history.
\<close>

definition engine_inv :: "engine \<Rightarrow> bool" where
  "engine_inv e \<longleftrightarrow>
     1 \<le> min_samples e \<and> min_samples e \<le> max_samples e \<and>
     (case rank_decay e of None \<Rightarrow> True | Some d \<Rightarrow> 0 < d \<and> d \<le> 1) \<and>
     distinct (keys (histories e)) \<and>
     (\<forall>u \<in> set (keys (histories e)). 0 \<le> u \<and> u < int (length (scores e)) \<and>
        hist e u \<noteq> [] \<and> length (hist e u) \<le> max_samples e \<and>
        (\<forall>r \<in> snd ` set (hist e u). 0 \<le> r)) \<and>
     (\<forall>i < length (scores e). scores e ! i = Fin (score_at e (int i)))"

lemma length_ensure:
  "length (xs @ replicate (nat u + 1 - length xs) z) = max (length xs) (nat u + 1)"
  by simp

lemma nth_pad: "i < n + length xs \<Longrightarrow>
  (xs @ replicate n z) ! i = (if i < length xs then xs ! i else z)"
  by (simp add: nth_append)

lemma hist_AList_update:
  "hist (e\<lparr>histories := AList.update u h (histories e)\<rparr>) v = (if v = u then h else hist e v)"
  by (simp add: hist_def dict_get_def update_conv')

lemma hist_update_scores [simp]: "hist (e\<lparr>scores := s\<rparr>) = hist e"
  by (simp add: hist_def fun_eq_iff)

lemma hist_update_hotkeys [simp]: "hist (e\<lparr>hotkeys := s\<rparr>) = hist e"
  by (simp add: hist_def fun_eq_iff)

lemma hist_unknown: "u \<notin> set (keys (histories e)) \<Longrightarrow> hist e u = []"
  by (simp add: hist_def dict_get_def map_of_eq_None_iff [THEN iffD2])

lemma score_of_Nil [simp]: "score_of m [] = 0"
  by (simp add: score_of_def)

text \<open>The effect of \<open>_record\<close> in closed form.\<close>

definition recorded :: "uid \<Rightarrow> pyfloat \<Rightarrow> real \<Rightarrow> engine \<Rightarrow> engine" where
  "recorded u r ts e =
     (let h = last_n (max_samples e) (hist e u @ [(ts, clamp_reward r)]) in
      e\<lparr>scores := (scores e @ replicate (nat u + 1 - length (scores e)) (Fin 0))
                    [nat u := Fin (score_of (min_samples e) h)],
        histories := AList.update u h (histories e)\<rparr>)"

lemma record_obs_neg: "u < 0 \<Longrightarrow>
  record_obs u r ts e = (Inl (ValueError ''uid must be non-negative''), e)"
  by (simp add: record_obs_def method_simps ensure_capacity_def)

lemma record_obs_ok: "0 \<le> u \<Longrightarrow> record_obs u r ts e = (Inr (), recorded u r ts e)"
  by (auto simp: record_obs_def method_simps ensure_capacity_def refresh_score_def set_score_def
      recorded_def hist_def dict_get_def update_conv' Let_def)

lemma hist_recorded [simp]: "hist (recorded u r ts e) v =
  (if v = u then last_n (max_samples e) (hist e u @ [(ts, clamp_reward r)]) else hist e v)"
  by (simp add: recorded_def Let_def hist_def dict_get_def update_conv')

lemma recorded_frame [simp]:
  "max_samples (recorded u r ts e) = max_samples e"
  "min_samples (recorded u r ts e) = min_samples e"
  "decay (recorded u r ts e) = decay e"
  "rank_decay (recorded u r ts e) = rank_decay e"
  "hotkeys (recorded u r ts e) = hotkeys e"
  "window_seconds (recorded u r ts e) = window_seconds e"
  "length (scores (recorded u r ts e)) = max (length (scores e)) (nat u + 1)"
  "fst ` set (histories (recorded u r ts e)) = insert u (fst ` set (histories e))"
  by (simp_all add: recorded_def Let_def dom_update)

lemma recorded_distinct:
  "distinct (keys (histories e)) \<Longrightarrow> distinct (keys (histories (recorded u r ts e)))"
  by (simp add: recorded_def Let_def distinct_update)

interpretation book: history_book hist max_samples recorded clamp_reward
  by unfold_locales auto

lemma engine_invI:
  assumes "1 \<le> min_samples e" "min_samples e \<le> max_samples e"
    and "case rank_decay e of None \<Rightarrow> True | Some d \<Rightarrow> 0 < d \<and> d \<le> 1"
    and "distinct (keys (histories e))"
    and "\<And>u. u \<in> set (keys (histories e)) \<Longrightarrow> 0 \<le> u \<and> u < int (length (scores e)) \<and>
        hist e u \<noteq> [] \<and> length (hist e u) \<le> max_samples e \<and>
        (\<forall>r \<in> snd ` set (hist e u). 0 \<le> r)"
    and "\<And>i. i < length (scores e) \<Longrightarrow> scores e ! i = Fin (score_at e (int i))"
  shows "engine_inv e"
  using assms unfolding engine_inv_def by blast

lemma engine_invD:
  assumes "engine_inv e"
  shows "1 \<le> min_samples e" "min_samples e \<le> max_samples e"
    and "case rank_decay e of None \<Rightarrow> True | Some d \<Rightarrow> 0 < d \<and> d \<le> 1"
    and "distinct (keys (histories e))"
    and "u \<in> set (keys (histories e)) \<Longrightarrow> 0 \<le> u \<and> u < int (length (scores e)) \<and>
        hist e u \<noteq> [] \<and> length (hist e u) \<le> max_samples e \<and>
        (\<forall>r \<in> snd ` set (hist e u). 0 \<le> r)"
    and "i < length (scores e) \<Longrightarrow> scores e ! i = Fin (score_at e (int i))"
  using assms unfolding engine_inv_def by blast+

lemma clamp_reward_nonneg [simp]: "0 \<le> clamp_reward r"
  by (simp add: clamp_reward_def)

lemma score_beyond:
  "engine_inv e \<Longrightarrow> int (length (scores e)) \<le> u \<Longrightarrow> score_at e u = 0"
  using engine_invD(5) [of e u] hist_unknown [of u e] by (fastforce simp: score_at_def)

lemma last_n_snoc_ne [simp]: "1 \<le> n \<Longrightarrow> last_n n (xs @ [x]) \<noteq> []"
  by (simp add: last_n_def)

lemma snd_last_n_nonneg:
  assumes "\<forall>r \<in> snd ` set xs. (0::real) \<le> r" "0 \<le> y"
  shows "\<forall>r \<in> snd ` set (last_n n (xs @ [(x, y)])). 0 \<le> r"
  using assms set_last_n [of n "xs @ [(x, y)]"] by fastforce

lemma inv_grow:
  assumes "engine_inv e"
  shows "engine_inv (e\<lparr>scores := scores e @ replicate n (Fin 0)\<rparr>)"
  using engine_invD [OF assms] score_beyond [OF assms]
  by (intro engine_invI) (fastforce simp: nth_append score_at_def hist_def)+

lemma inv_put:
  assumes inv: "engine_inv e" and u: "0 \<le> u" "u < int (length (scores e))"
    and h: "h \<noteq> []" "length h \<le> max_samples e" "\<forall>r \<in> snd ` set h. 0 \<le> r"
  shows "engine_inv (e\<lparr>scores := (scores e)[nat u := Fin (score_of (min_samples e) h)],
           histories := AList.update u h (histories e)\<rparr>)" (is "engine_inv ?e")
proof -
  have H: "hist ?e v = (if v = u then h else hist e v)" for v
    using hist_AList_update [of u h e v] by (simp add: hist_def)
  show ?thesis
  proof (rule engine_invI)
    show "distinct (keys (histories ?e))"
      using engine_invD(4) [OF inv] by (simp add: distinct_update)
    fix v assume "v \<in> set (keys (histories ?e))"
    then have "v = u \<or> v \<in> set (keys (histories e))" by (auto simp: dom_update)
    then show "0 \<le> v \<and> v < int (length (scores ?e)) \<and> hist ?e v \<noteq> [] \<and>
        length (hist ?e v) \<le> max_samples ?e \<and> (\<forall>r \<in> snd ` set (hist ?e v). 0 \<le> r)"
      using engine_invD(5) [OF inv, of v] u h by (cases "v = u") (simp_all add: H)
  next
    fix i assume "i < length (scores ?e)"
    then show "scores ?e ! i = Fin (score_at ?e (int i))"
      using u engine_invD(6) [OF inv, of i] by (auto simp: score_at_def H nth_list_update)
  qed (use engine_invD [OF inv] in simp_all)
qed

lemma hist_nonneg: "engine_inv e \<Longrightarrow> \<forall>r \<in> snd ` set (hist e u). 0 \<le> r"
  using engine_invD(5) [of e u] hist_unknown [of u e] by fastforce

lemma inv_recorded:
  assumes "engine_inv e" and "0 \<le> u"
  shows "engine_inv (recorded u r ts e)"
  using inv_put [OF inv_grow [OF assms(1), of "nat u + 1 - length (scores e)"], of u
      "last_n (max_samples e) (hist e u @ [(ts, clamp_reward r)])"]
    assms engine_invD(1,2) [OF assms(1)]
    snd_last_n_nonneg [OF hist_nonneg [OF assms(1), of u] clamp_reward_nonneg]
  by (simp add: recorded_def Let_def of_nat_max less_max_iff_disj)

lemma keeps_record_obs [keeps_intro]: "keeps engine_inv (record_obs u r ts)"
  unfolding keeps_def
  by (metis inv_recorded record_obs_neg record_obs_ok not_less snd_conv)

lemma keeps_ensure_capacity [keeps_intro]: "keeps engine_inv (ensure_capacity u)"
  by (simp add: keeps_def ensure_capacity_def inv_grow)

lemma inv_hotkeys [simp]: "engine_inv (e\<lparr>hotkeys := hk\<rparr>) = engine_inv e"
  by (simp add: engine_inv_def score_at_def)

lemma keeps_modify_hotkeys [keeps_intro]:
  "keeps engine_inv (modify (\<lambda>e. e\<lparr>hotkeys := f e\<rparr>))"
  by (simp add: keeps_def method_simps)

lemma keeps_set_hotkeys [keeps_intro]: "keeps engine_inv (set_hotkeys hks)"
  unfolding set_hotkeys_def set_hotkey_def by (auto intro!: keeps_intro)

lemma hist_filter: "hist (e\<lparr>histories := filter (\<lambda>(u, _). P u) (histories e)\<rparr>) u =
    (if P u then hist e u else [])"
  by (simp add: hist_def dict_get_def map_of_filter_key)

lemma inv_truncate:
  assumes "engine_inv e" "n < length (scores e)"
  shows "engine_inv (e\<lparr>scores := take n (scores e),
           histories := filter (\<lambda>(u, _). u < int n) (histories e)\<rparr>)" (is "engine_inv ?e")
proof -
  have h: "hist ?e u = (if u < int n then hist e u else [])" for u
    using hist_filter [of "\<lambda>u. u < int n" e u] by (simp add: hist_def)
  have k: "keys (histories ?e) = filter (\<lambda>u. u < int n) (keys (histories e))"
    by (simp add: filter_map comp_def case_prod_unfold)
  show ?thesis
    using assms(2) engine_invD [OF assms(1)]
    by (intro engine_invI, unfold k h) (auto simp: score_at_def h)
qed

lemma keeps_resize [keeps_intro]: "keeps engine_inv (resize n)"
proof -
  have "engine_inv (snd (resize n e))" if "engine_inv e" for e
    using that inv_grow [OF that] inv_truncate [OF that, of "nat n"]
    by (auto simp: resize_def)
  then show ?thesis by (simp add: keeps_def)
qed

lemma hist_delete: "hist (e\<lparr>histories := AList.delete u (histories e)\<rparr>) v =
    (if v = u then [] else hist e v)"
  by (simp add: hist_def dict_get_def delete_conv')

lemma inv_reset:
  assumes "engine_inv e" "0 \<le> u"
  shows "engine_inv (e\<lparr>scores := (scores e)[nat u := Fin 0],
           histories := AList.delete u (histories e)\<rparr>)" (is "engine_inv ?e")
proof -
  have h: "hist ?e v = (if v = u then [] else hist e v)" for v
    using hist_delete [of u e v] by (simp add: hist_def)
  show ?thesis
  proof (rule engine_invI)
    show "distinct (keys (histories ?e))"
      using engine_invD(4) [OF assms(1)] by (simp add: distinct_delete)
    fix i assume "i < length (scores ?e)"
    then show "scores ?e ! i = Fin (score_at ?e (int i))"
      using assms(2) engine_invD(6) [OF assms(1), of i]
      by (auto simp: score_at_def h nth_list_update)
  next
    fix v assume "v \<in> set (keys (histories ?e))"
    then have "v \<noteq> u \<and> v \<in> set (keys (histories e))"
      by (simp add: delete_keys)
    then show "0 \<le> v \<and> v < int (length (scores ?e)) \<and> hist ?e v \<noteq> [] \<and>
        length (hist ?e v) \<le> max_samples ?e \<and> (\<forall>r \<in> snd ` set (hist ?e v). 0 \<le> r)"
      using engine_invD(5) [OF assms(1), of v] by (simp add: h)
  qed (use engine_invD [OF assms(1)] in simp_all)
qed

lemma keeps_sync_one [keeps_intro]: "keeps engine_inv (sync_one p)"
proof -
  obtain u hk where p: "p = (u, hk)" by (cases p)
  have "engine_inv (snd (sync_one (u, hk) e))" if "engine_inv e" for e
  proof (cases "u < 0")
    case False
    obtain e' where e': "ensure_capacity u e = (Inr (), e')"
      using False by (simp add: ensure_capacity_def)
    have e: "engine_inv e'" using keepsD [OF keeps_ensure_capacity that, of u] e' by simp
    show ?thesis
      using inv_reset [OF e, of u] e False
      by (auto simp: sync_one_def andthen_apply e' split: option.split)
  qed (use that in \<open>simp add: sync_one_def method_simps ensure_capacity_def\<close>)
  then show ?thesis by (simp add: keeps_def p)
qed

lemma keeps_sync [keeps_intro]: "keeps engine_inv (sync hks n)"
proof -
  have "keeps engine_inv (sync_loop hks)"
    by (induction hks) (auto intro!: keeps_intro)
  then show ?thesis
    unfolding sync_def by (auto intro!: keeps_intro split: option.split)
qed

lemma keeps_record_zeros [keeps_intro]: "keeps engine_inv (record_zeros us ts)"
  unfolding record_zeros_def by (auto intro!: keeps_intro)

lemma keeps_record_rewards [keeps_intro]: "keeps engine_inv (record_rewards rs ts)"
  unfolding record_rewards_def by (auto intro!: keeps_intro)

lemma keeps_record_silent [keeps_intro]: "keeps engine_inv (record_silent rewards ds ts)"
  by (simp add: keeps_def record_silent_def keepsD [OF keeps_record_zeros])

lemma keeps_update: "keeps engine_inv (update rewards hks dispatched observed_at now)"
  unfolding update_def by (auto intro!: keeps_intro split: option.split sum.split)

lemma keeps_record_nonserving: "keeps engine_inv (record_nonserving active observed_at now)"
  by (auto simp: keeps_def record_nonserving_def Let_def intro!: keepsD [OF keeps_record_zeros]
      split: sum.split)

text \<open>Persisted state that \<open>_restore\<close> may be given: what the loader has validated.\<close>

definition valid_saved :: "nat \<Rightarrow> (uid, observation list) dict \<Rightarrow> bool" where
  "valid_saved num_uids hs \<longleftrightarrow> distinct (keys hs) \<and>
     (\<forall>(u, h) \<in> set hs. 0 \<le> u \<and> u < int num_uids \<and> (\<forall>r \<in> snd ` set h. 0 \<le> r))"

lemma histories_scores_commute:
  "(e::engine)\<lparr>histories := h, scores := s\<rparr> = e\<lparr>scores := s, histories := h\<rparr>"
  by simp

lemma restore_one_ok:
  assumes "engine_inv e" "0 \<le> u" "u < int (length (scores e))" "\<forall>r \<in> snd ` set h. 0 \<le> r"
  shows "\<exists>e'. restore_one (u, h) e = (Inr (), e') \<and> engine_inv e' \<and>
    length (scores e') = length (scores e) \<and> max_samples e' = max_samples e \<and>
    (\<forall>v. hist e' v =
      (if v = u \<and> h \<noteq> [] then last_n (max_samples e) h else hist e v))"
proof (cases "h = []")
  case True
  then show ?thesis using assms(1) by (simp add: restore_one_def last_n_def)
next
  case False
  let ?h = "last_n (max_samples e) h"
  have cap: "1 \<le> max_samples e" using engine_invD(1,2) [OF assms(1)] by simp
  then have h: "?h \<noteq> []" using False by (cases h) (simp_all add: last_n_def)
  have "\<forall>r \<in> snd ` set ?h. 0 \<le> r" using assms(4) set_last_n [of "max_samples e" h] by blast
  from inv_put [OF assms(1-3) h _ this] show ?thesis
    using assms(2,3) h False
    by (simp add: restore_one_def Let_def refresh_score_def set_score_def dict_get_def
        update_conv' hist_def histories_scores_commute)
qed

lemma restore_loop_ok:
  assumes "engine_inv e" "distinct (keys hs)"
    "\<forall>(u, h) \<in> set hs. 0 \<le> u \<and> u < int (length (scores e)) \<and> (\<forall>r \<in> snd ` set h. 0 \<le> r)"
  shows "\<exists>e'. foreach restore_one hs e = (Inr (), e') \<and> engine_inv e' \<and>
    (\<forall>v. hist e' v = (case map_of hs v of None \<Rightarrow> hist e v
        | Some h \<Rightarrow> if h = [] then hist e v else last_n (max_samples e) h))"
  using assms
proof (induction hs arbitrary: e)
  case (Cons p hs)
  obtain u h where p: "p = (u, h)" by (cases p)
  obtain e1 where e1: "restore_one (u, h) e = (Inr (), e1)" "engine_inv e1"
    "length (scores e1) = length (scores e)" "max_samples e1 = max_samples e"
    "\<forall>v. hist e1 v = (if v = u \<and> h \<noteq> [] then last_n (max_samples e) h else hist e v)"
    using restore_one_ok [OF Cons.prems(1), of u h] Cons.prems(3) p by auto
  have "map_of hs u = None" using Cons.prems(2) p by (simp add: map_of_eq_None_iff)
  moreover obtain e2 where "foreach restore_one hs e1 = (Inr (), e2)" "engine_inv e2"
    "\<forall>v. hist e2 v = (case map_of hs v of None \<Rightarrow> hist e1 v
        | Some h \<Rightarrow> if h = [] then hist e1 v else last_n (max_samples e1) h)"
    using Cons.IH [OF e1(2)] Cons.prems(2,3) p e1(3) by auto
  ultimately show ?case
    using e1 p by (auto simp: andthen_apply split: option.split)
qed (simp add: return_apply)

lemma restore_ok:
  assumes "engine_inv e" "valid_saved n hs"
  shows "\<exists>e'. restore n hs hks e = (Inr (), e') \<and> engine_inv e' \<and> hotkeys e' = hks \<and>
    (\<forall>v. hist e' v = last_n (max_samples e) (dict_get hs v []))"
proof -
  let ?e = "e\<lparr>scores := replicate n (Fin 0), histories := []\<rparr>"
  have "engine_inv ?e"
    using engine_invD(1-3) [OF assms(1)]
    by (intro engine_invI) (simp_all add: score_at_def hist_def dict_get_def)
  moreover have "hist ?e v = []" for v by (simp add: hist_def dict_get_def)
  ultimately show ?thesis
    using restore_loop_ok [of ?e hs] assms(2)
    by (auto simp: valid_saved_def restore_def method_simps dict_get_def split: option.split)
qed

section \<open>What one completed challenge records\<close>

lemma foreach_record_ok:
  "\<forall>u \<in> set (keys rs). 0 \<le> u \<Longrightarrow>
   foreach (\<lambda>(u, r). record_obs u r ts) rs e = (Inr (), fold (\<lambda>(u, r). recorded u r ts) rs e)"
  by (induction rs arbitrary: e) (auto simp: method_simps record_obs_ok)

lemma record_zeros_as_rewards:
  "record_zeros us ts = foreach (\<lambda>(u, r). record_obs u r ts) (map (\<lambda>u. (u, Fin 0)) us)"
  unfolding record_zeros_def by (induction us) simp_all

lemma recorded_keys_fold:
  "set (keys (histories (fold (\<lambda>(u, r). recorded u r ts) rs e))) =
     set (keys rs) \<union> set (keys (histories e))"
  by (induction rs arbitrary: e) (simp_all add: case_prod_beta)

lemma recorded_decay_fold:
  "decay (fold (\<lambda>(u, r). recorded u r ts) rs e) = decay e"
  by (induction rs arbitrary: e) (simp_all add: case_prod_beta)

lemma recorded_distinct_fold:
  "distinct (keys (histories e)) \<Longrightarrow>
   distinct (keys (histories (fold (\<lambda>(u, r). recorded u r ts) rs e)))"
  by (induction rs arbitrary: e) (simp_all add: case_prod_beta recorded_distinct)

lemma map_of_zeros: "map_of (map (\<lambda>u. (u, z)) us) v = (if v \<in> set us then Some z else None)"
  by (induction us) auto

lemma record_zeros_effect:
  assumes "distinct us" "\<forall>u \<in> set us. 0 \<le> u"
  shows "\<exists>e'. record_zeros us ts e = (Inr (), e') \<and>
    (\<forall>v. hist e' v = (if v \<in> set us then last_n (max_samples e) (hist e v @ [(ts, 0)])
                      else hist e v))"
  using assms foreach_record_ok [of "map (\<lambda>u. (u, Fin 0)) us" ts e]
    book.hist_fold [of "map (\<lambda>u. (u, Fin 0)) us" ts e]
  by (simp add: record_zeros_as_rewards comp_def map_of_zeros clamp_reward_def)

text \<open>The order in which the zeros are recorded is not observable.\<close>

lemma record_zeros_perm:
  assumes "distinct us" "distinct vs" "set us = set vs" "\<forall>u \<in> set us. 0 \<le> u"
  shows "hist (snd (record_zeros us ts e)) v = hist (snd (record_zeros vs ts e)) v"
  using record_zeros_effect [of us ts e] record_zeros_effect [of vs ts e] assms by auto

text \<open>The observation a completed challenge is meant to add to a uid's history, if any.\<close>

definition observation_for ::
  "engine \<Rightarrow> (uid, pyfloat) dict \<Rightarrow> uid list option \<Rightarrow> uid \<Rightarrow> real option" where
  "observation_for e rewards dispatched v =
     (case map_of rewards v of
        Some r \<Rightarrow> Some (clamp_reward r)
      | None \<Rightarrow>
          if decay e \<and> (case dispatched of
               Some ds \<Rightarrow> v \<in> set ds
             | None \<Rightarrow> rewards \<noteq> [] \<and> v \<in> set (keys (histories e)))
          then Some 0 else None)"

definition with_observation :: "engine \<Rightarrow> real \<Rightarrow> uid \<Rightarrow> real option \<Rightarrow> observation list" where
  "with_observation e ts v ob =
     (case ob of None \<Rightarrow> hist e v | Some x \<Rightarrow> last_n (max_samples e) (hist e v @ [(ts, x)]))"

lemma ensure_capacity_frame:
  "hist (snd (ensure_capacity u e)) = hist e" "decay (snd (ensure_capacity u e)) = decay e"
  "max_samples (snd (ensure_capacity u e)) = max_samples e"
  "histories (snd (ensure_capacity u e)) = histories e"
  by (simp_all add: ensure_capacity_def)

lemma set_hotkeys_ok:
  assumes "\<forall>u \<in> set (keys hks). 0 \<le> u"
  shows "\<exists>e'. set_hotkeys hks e = (Inr (), e') \<and> hist e' = hist e \<and> decay e' = decay e \<and>
    max_samples e' = max_samples e \<and> histories e' = histories e"
  using assms unfolding set_hotkeys_def
proof (induction hks arbitrary: e)
  case (Cons p hks)
  obtain u hk where p: "p = (u, hk)" by (cases p)
  let ?e = "e\<lparr>scores := scores e @ replicate (nat u + 1 - length (scores e)) (Fin 0),
              hotkeys := AList.update u hk (hotkeys e)\<rparr>"
  have "set_hotkey (u, hk) e = (Inr (), ?e)"
    using Cons.prems p by (simp add: set_hotkey_def method_simps ensure_capacity_def)
  then show ?case
    using Cons.IH [of ?e] Cons.prems p by (auto simp: andthen_apply hist_def)
qed (simp add: return_apply)

lemma update_no_hotkeys:
  assumes inv: "engine_inv e" and d: "distinct (keys rewards)"
    and r: "\<forall>u \<in> set (keys rewards). 0 \<le> u"
    and ds: "\<forall>ds. dispatched = Some ds \<longrightarrow> (\<forall>u \<in> set ds. 0 \<le> u)"
    and t: "timestamp_of observed_at now = Inr ts"
  shows "\<exists>e'. update rewards None dispatched observed_at now e = (Inr ts, e') \<and>
    (\<forall>v. hist e' v = with_observation e ts v (observation_for e rewards dispatched v))"
proof (cases "rewards = [] \<and> dispatched = None")
  case True
  then show ?thesis
    using t by (simp add: update_def method_simps with_observation_def observation_for_def)
next
  case False
  let ?e1 = "fold (\<lambda>(u, r). recorded u r ts) rewards e"
  have h1: "hist ?e1 v = (case map_of rewards v of None \<Rightarrow> hist e v
      | Some x \<Rightarrow> last_n (max_samples e) (hist e v @ [(ts, clamp_reward x)]))" for v
    by (rule book.hist_fold [OF d]) (use r in simp)
  have e1: "record_rewards rewards ts e = (Inr (), ?e1)"
    unfolding record_rewards_def by (rule foreach_record_ok [OF r])
  define us where "us = filter (\<lambda>u. u \<notin> set (keys rewards))
     (case dispatched of Some ds \<Rightarrow> remdups ds | None \<Rightarrow> keys (histories ?e1))"
  have mem: "v \<in> set us \<longleftrightarrow> map_of rewards v = None \<and>
      (case dispatched of Some ds \<Rightarrow> v \<in> set ds | None \<Rightarrow> v \<in> set (keys (histories e)))" for v
    using recorded_keys_fold [of ts rewards e]
    by (auto simp: us_def map_of_eq_None_iff split: option.split)
  have "distinct us"
    using recorded_distinct_fold [OF engine_invD(4) [OF inv]]
    by (auto simp: us_def split: option.split)
  moreover have "\<forall>u \<in> set us. 0 \<le> u"
    using mem ds engine_invD(5) [OF inv] by (auto split: option.splits)
  ultimately obtain e2 where e2: "record_zeros us ts ?e1 = (Inr (), e2)"
    "\<forall>v. hist e2 v = (if v \<in> set us then last_n (max_samples e) (hist ?e1 v @ [(ts, 0)])
                      else hist ?e1 v)"
    using record_zeros_effect [of us ts ?e1] book.cap_fold by auto
  have "update rewards None dispatched observed_at now e = (Inr ts, if decay e then e2 else ?e1)"
    using False t e1 e2(1)
    by (auto simp: update_def method_simps record_silent_def us_def recorded_decay_fold)
  then show ?thesis
    using False h1 e2(2) mem
    by (auto simp: with_observation_def observation_for_def split: option.split)
qed

lemma update_cong_state:
  assumes "histories e1 = histories e" "decay e1 = decay e" "max_samples e1 = max_samples e"
  shows "observation_for e1 rewards ds v = observation_for e rewards ds v"
    and "with_observation e1 ts v ob = with_observation e ts v ob"
  using assms by (simp_all add: observation_for_def with_observation_def hist_def split: option.split)

lemma update_hotkeys_first:
  assumes "set_hotkeys hks e = (Inr (), e1)"
  shows "update rewards (Some hks) ds ob now e = update rewards None ds ob now e1"
  using assms by (simp add: update_def method_simps)

lemma update_effect:
  assumes inv: "engine_inv e" and d: "distinct (keys rewards)"
    and r: "\<forall>u \<in> set (keys rewards). 0 \<le> u"
    and ds: "\<forall>ds. dispatched = Some ds \<longrightarrow> (\<forall>u \<in> set ds. 0 \<le> u)"
    and hk: "\<forall>h. hks = Some h \<longrightarrow> (\<forall>u \<in> set (keys h). 0 \<le> u)"
    and t: "timestamp_of observed_at now = Inr ts"
  shows "\<exists>e'. update rewards hks dispatched observed_at now e = (Inr ts, e') \<and>
    (\<forall>v. hist e' v = with_observation e ts v (observation_for e rewards dispatched v))"
proof (cases hks)
  case (Some h)
  obtain e1 where e1: "set_hotkeys h e = (Inr (), e1)" "histories e1 = histories e"
    "decay e1 = decay e" "max_samples e1 = max_samples e"
    using set_hotkeys_ok [of h e] hk Some by auto
  have "engine_inv e1" using keepsD [OF keeps_set_hotkeys inv, of h] e1(1) by simp
  from update_no_hotkeys [OF this d r ds t] show ?thesis
    using update_hotkeys_first [OF e1(1)] update_cong_state [OF e1(2-4)] Some by simp
qed (use update_no_hotkeys [OF inv d r ds t] in simp)

text \<open>C21. One completed challenge.  Given a timestamp that is accepted and uids that are
  non-negative, \<open>update\<close> returns the timestamp and afterwards every uid's history is the old one
  with exactly the intended observation appended (its clamped payment when it responded, a zero
  when it was asked and silent, nothing otherwise) and cut to the newest \<open>max_samples\<close>.\<close>

theorem update_records_observations:
  assumes inv: "engine_inv e" and d: "distinct (keys rewards)"
    and r: "\<forall>u \<in> set (keys rewards). 0 \<le> u"
    and ds: "\<forall>ds. dispatched = Some ds \<longrightarrow> (\<forall>u \<in> set ds. 0 \<le> u)"
    and hk: "\<forall>h. hks = Some h \<longrightarrow> (\<forall>u \<in> set (keys h). 0 \<le> u)"
    and t: "timestamp_of observed_at now = Inr ts"
  shows "\<exists>e'. update rewards hks dispatched observed_at now e = (Inr ts, e') \<and>
    (\<forall>v. hist e' v = with_observation e ts v (observation_for e rewards dispatched v))"
  using update_effect [OF assms] .

definition engine_example :: engine where
  "engine_example = \<lparr>window_seconds = 57600, max_samples = 2, min_samples = 1, decay = True,
     rank_decay = Some (1/2), scores = [Fin (1/2), Fin 1, Fin 0],
     histories = [(0, [(1, 0), (2, 1)]), (1, [(2, 1)])], hotkeys = [(0, ''a'')]\<rparr>"

lemma engine_example_inv: "engine_inv engine_example"
proof -
  have "i < 3 \<Longrightarrow> i = 0 \<or> i = 1 \<or> i = (2::nat)" for i by auto
  then show ?thesis
    by (auto simp: engine_inv_def engine_example_def score_at_def hist_def dict_get_def
        score_of_def dest!: spec)
qed

theorem update_records_observations_witness:
  "\<exists>e'. update [(0, Fin (1/2)), (3, PInf)] (Some [(3, ''b'')]) (Some [1, 3]) (Some (Fin 9)) NaN
      engine_example = (Inr 9, e') \<and>
    hist e' 0 = [(2, 1), (9, 1/2)] \<and> hist e' 1 = [(2, 1), (9, 0)] \<and> hist e' 2 = [] \<and>
    hist e' 3 = [(9, 0)]"
proof -
  obtain e' where e': "update [(0, Fin (1/2)), (3, PInf)] (Some [(3, ''b'')]) (Some [1, 3])
      (Some (Fin 9)) NaN engine_example = (Inr 9, e')"
    "\<forall>v. hist e' v = with_observation engine_example 9 v
        (observation_for engine_example [(0, Fin (1/2)), (3, PInf)] (Some [1, 3]) v)"
    using update_records_observations [OF engine_example_inv,
        of "[(0, Fin (1/2)), (3, PInf)]" "Some [1, 3]" "Some [(3, ''b'')]" "Some (Fin 9)" NaN 9]
    by (auto simp: timestamp_of_def)
  then show ?thesis
    by (simp add: with_observation_def observation_for_def engine_example_def hist_def
        dict_get_def clamp_reward_def last_n_def)
qed

text \<open>\<open>record_nonserving\<close> touches only uids that have a history and are not active.\<close>

lemma record_nonserving_effect:
  assumes inv: "engine_inv e" and t: "timestamp_of observed_at now = Inr ts"
  shows "\<exists>e'. record_nonserving active observed_at now e = (Inr (), e') \<and>
    (\<forall>v. hist e' v =
      (if decay e \<and> hist e v \<noteq> [] \<and> v \<notin> set active
       then last_n (max_samples e) (hist e v @ [(ts, 0)]) else hist e v))"
proof (cases "\<not> decay e \<or> histories e = []")
  case True
  then show ?thesis by (auto simp: record_nonserving_def hist_def dict_get_def)
next
  case False
  define us where "us = filter (\<lambda>u. u \<notin> set (filter (\<lambda>u. 0 \<le> u \<and> u < int (length (scores e))) active))
     (keys (histories e))"
  have known: "v \<in> set (keys (histories e)) \<longleftrightarrow> hist e v \<noteq> []" for v
    using engine_invD(5) [OF inv, of v] hist_unknown [of v e] by blast
  have "v \<in> set us \<longleftrightarrow> hist e v \<noteq> [] \<and> v \<notin> set active" for v
    using engine_invD(5) [OF inv, of v] known [of v] by (auto simp: us_def)
  moreover have "distinct us" "\<forall>u \<in> set us. 0 \<le> u"
    using engine_invD(4,5) [OF inv] by (auto simp: us_def)
  moreover have "record_nonserving active observed_at now e = record_zeros us ts e"
    using False t by (simp add: record_nonserving_def Let_def us_def)
  ultimately show ?thesis
    using record_zeros_effect [of us ts e] False by (simp del: not_None_eq)
qed

section \<open>Ranks and weights\<close>

text \<open>The reference definition of a rank: how many positive scores beat position \<open>i\<close>.\<close>

definition beats :: "real list \<Rightarrow> nat \<Rightarrow> nat \<Rightarrow> bool" where
  "beats sc j i \<longleftrightarrow> sc ! j > sc ! i \<or> (sc ! j = sc ! i \<and> j < i)"

definition rank_of :: "real list \<Rightarrow> nat \<Rightarrow> nat" where
  "rank_of sc i = card {j. j < length sc \<and> sc ! j > 0 \<and> beats sc j i}"

lemma best_first_props:
  shows "set (best_first sc) = {i. i < length sc \<and> sc ! i > 0}" "distinct (best_first sc)"
    and "sorted (map (\<lambda>i. (- (sc ! i), i)) (best_first sc))"
    and "distinct (map (\<lambda>i. (- (sc ! i), i)) (best_first sc))"
  by (auto simp: best_first_def distinct_map inj_on_def)

lemma length_rank_weights [simp]: "length (rank_weights sc d) = length sc"
  by (simp add: rank_weights_def)

lemma rank_of_best_first:
  assumes "q < length (best_first sc)"
  shows "rank_of sc (best_first sc ! q) = q"
proof -
  let ?i = "best_first sc ! q"
  have "{j. j < length sc \<and> sc ! j > 0 \<and> beats sc j ?i} =
      {j \<in> set (best_first sc). (- (sc ! j), j) < (- (sc ! ?i), ?i)}"
    by (auto simp: best_first_props beats_def)
  then show ?thesis
    using sorted_key_rank [OF best_first_props(3,4) assms] by (simp add: rank_of_def)
qed

lemma rank_weights_nth:
  assumes "i < length sc"
  shows "rank_weights sc d ! i = (if sc ! i > 0 then d ^ rank_of sc i else 0)"
proof (cases "sc ! i > 0")
  case True
  then have "i \<in> set (best_first sc)" using assms by (simp add: best_first_props)
  then obtain q where q: "q < length (best_first sc)" "best_first sc ! q = i"
    by (auto simp: in_set_conv_nth)
  have "rank_weights sc d ! (best_first sc ! q) = d ^ (0 + q)"
    unfolding rank_weights_def
    by (rule fold_enumerate_update_nth) (auto simp: best_first_props q(1))
  then show ?thesis using True q rank_of_best_first [OF q(1)] by simp
next
  case False
  then have "i \<notin> set (best_first sc)" by (simp add: best_first_props)
  then show ?thesis
    using False assms by (simp add: rank_weights_def fold_enumerate_update_other)
qed

definition positives :: "real list \<Rightarrow> nat" where
  "positives sc = length (filter (\<lambda>x. x > 0) sc)"

lemma length_best_first: "length (best_first sc) = positives sc"
proof -
  have "map (\<lambda>i. sc ! i) [0..<length sc] = sc" by (simp add: map_nth)
  then have "positives sc = length (filter (\<lambda>x. x > 0) (map (\<lambda>i. sc ! i) [0..<length sc]))"
    by (simp add: positives_def)
  then show ?thesis by (simp add: best_first_def filter_map comp_def)
qed

lemma sum_rank_weights: "sum_list (rank_weights sc d) = (\<Sum>q < positives sc. d ^ q)"
proof -
  have "sum_list (rank_weights sc d) = (\<Sum>i < length sc. rank_weights sc d ! i)"
    by (simp add: sum_list_sum_nth atLeast0LessThan)
  also have "\<dots> = (\<Sum>i < length sc. if sc ! i > 0 then d ^ rank_of sc i else 0)"
    by (intro sum.cong) (simp_all add: rank_weights_nth)
  also have "\<dots> = (\<Sum>i \<in> set (best_first sc). d ^ rank_of sc i)"
    by (simp add: best_first_props sum.inter_filter [symmetric] lessThan_def)
  also have "\<dots> = (\<Sum>q < length (best_first sc). d ^ rank_of sc (best_first sc ! q))"
    by (rule sum.reindex_bij_betw [symmetric, OF bij_betw_nth])
      (simp_all add: best_first_props(2))
  finally show ?thesis by (simp add: rank_of_best_first length_best_first)
qed

lemma rank_of_mono:
  assumes "beats sc i j"
  shows "rank_of sc i \<le> rank_of sc j"
  unfolding rank_of_def
  by (rule card_mono) (use assms in \<open>auto simp: beats_def\<close>)

lemma rank_of_strict:
  assumes "beats sc i j" "i < length sc" "sc ! i > 0"
  shows "rank_of sc i < rank_of sc j"
  unfolding rank_of_def
proof (rule psubset_card_mono)
  show "{k. k < length sc \<and> sc ! k > 0 \<and> beats sc k i} \<subset>
        {k. k < length sc \<and> sc ! k > 0 \<and> beats sc k j}"
    using assms by (fastforce simp: beats_def)
qed simp

lemma sum_list_nonneg_zero:
  "\<forall>x \<in> set xs. (0::real) \<le> x \<Longrightarrow> \<not> sum_list xs > 0 \<Longrightarrow> \<forall>x \<in> set xs. x = 0"
  by (metis antisym_conv3 order_less_le sum_list_nonneg sum_list_nonneg_eq_0_iff)

lemma normalize_distribution:
  assumes "\<forall>x \<in> set sc. 0 \<le> x"
  shows "\<forall>w \<in> set (l1_normalize sc). 0 \<le> w \<and> w \<le> 1"
    and "sum_list (l1_normalize sc) = (if \<forall>x \<in> set sc. x = 0 then 0 else 1)"
proof -
  have le: "x \<le> sum_list sc" if "x \<in> set sc" for x
    using that assms by (simp add: member_le_sum_list)
  have sum: "sum_list (map (\<lambda>x. x / c) xs) = sum_list xs / c" for c :: real and xs
    by (induction xs) (simp_all add: add_divide_distrib)
  show "\<forall>w \<in> set (l1_normalize sc). 0 \<le> w \<and> w \<le> 1"
    using assms le by (auto simp: l1_normalize_def divide_le_eq_1)
  show "sum_list (l1_normalize sc) = (if \<forall>x \<in> set sc. x = 0 then 0 else 1)"
  proof (cases "sum_list sc > 0")
    case True
    then have "\<not> (\<forall>x \<in> set sc. x = 0)" by (metis less_irrefl sum_list_0 map_idI)
    then show ?thesis using True sum by (auto simp: l1_normalize_def)
  next
    case False
    then show ?thesis
      using sum_list_nonneg_zero [OF assms] by (simp add: l1_normalize_def sum_list_replicate)
  qed
qed

text \<open>The scores \<open>get_weights\<close> works on: non-finite and negative ones count as zero, the vector
  is cut or zero-padded to length \<open>n\<close>.\<close>

definition clean_scores :: "engine \<Rightarrow> nat \<Rightarrow> real list" where
  "clean_scores e n =
     map (\<lambda>i. if i < length (scores e) then max 0 (fin_val (scores e ! i)) else 0) [0..<n]"

lemma align_clean:
  "map (max 0) (let sc = map fin_val (scores e) in if n = length sc then sc else align n sc) =
   clean_scores e n"
  by (rule nth_equalityI) (auto simp: clean_scores_def align_def nth_append Let_def)

lemma get_weights_eq:
  assumes "0 \<le> n"
  shows "get_weights e (Some n) =
    Inr (l1_normalize (case rank_decay e of None \<Rightarrow> clean_scores e (nat n)
                    | Some d \<Rightarrow> rank_weights (clean_scores e (nat n)) d))"
  using assms align_clean [of e "nat n"]
  by (cases "nat n = length (scores e)"; cases "rank_decay e")
    (simp_all add: get_weights_def Let_def comp_def)

lemma get_weights_negative: "n < 0 \<Longrightarrow> get_weights e (Some n) =
    Inl (ValueError ''n must be non-negative'')"
  by (simp add: get_weights_def)

lemma length_clean_scores [simp]: "length (clean_scores e n) = n"
  by (simp add: clean_scores_def)

lemma clean_scores_nonneg: "\<forall>x \<in> set (clean_scores e n). 0 \<le> x"
  by (auto simp: clean_scores_def)

lemma rank_weights_nonneg: "0 < d \<Longrightarrow> \<forall>x \<in> set (rank_weights sc d). 0 \<le> x"
  by (auto simp: in_set_conv_nth rank_weights_nth)

lemma rank_weights_zero_iff:
  "0 < d \<Longrightarrow> \<forall>x \<in> set sc. 0 \<le> x \<Longrightarrow>
   (\<forall>x \<in> set (rank_weights sc d). x = 0) \<longleftrightarrow> (\<forall>x \<in> set sc. x = 0)"
  by (simp add: all_set_conv_all_nth rank_weights_nth) (metis less_eq_real_def less_irrefl)

lemma length_normalize [simp]: "length (l1_normalize sc) = length sc"
  by (simp add: l1_normalize_def)

text \<open>The published weights are a distribution whatever the scores are, non-finite ones
  included: for a metagraph of size \<open>n\<close> the vector has length \<open>n\<close>, its entries lie in [0, 1], and
  they sum to 1 unless no score is positive, in which case every weight is 0.\<close>

theorem get_weights_distribution:
  assumes "0 \<le> n" and "case rank_decay e of None \<Rightarrow> True | Some d \<Rightarrow> 0 < d \<and> d \<le> 1"
  shows "\<exists>w. get_weights e (Some n) = Inr w \<and> length w = nat n \<and>
    (\<forall>x \<in> set w. 0 \<le> x \<and> x \<le> 1) \<and>
    sum_list w = (if \<forall>x \<in> set (clean_scores e (nat n)). x = 0 then 0 else 1)"
  using assms get_weights_eq [OF assms(1), of e] clean_scores_nonneg [of e "nat n"]
    normalize_distribution [of "clean_scores e (nat n)"]
    normalize_distribution [of "rank_weights (clean_scores e (nat n)) (the (rank_decay e))"]
    rank_weights_nonneg [of "the (rank_decay e)" "clean_scores e (nat n)"]
    rank_weights_zero_iff [of "the (rank_decay e)" "clean_scores e (nat n)"]
  by (auto split: option.splits)

definition poisoned_example :: engine where
  "poisoned_example = engine_example\<lparr>scores := [NaN, Fin 1, Fin (-3), PInf, Fin (1/2)]\<rparr>"

theorem get_weights_distribution_witness:
  "\<exists>w. get_weights poisoned_example (Some 6) = Inr w \<and> length w = 6 \<and> sum_list w = 1"
  using get_weights_distribution [of 6 poisoned_example]
  by (auto simp: poisoned_example_def engine_example_def clean_scores_def upt_rec split: if_splits)

text \<open>Weights follow rank, not score: with \<open>rank_decay = d\<close> the weight of a position is
  \<open>d\<close> to the power of the number of positive scores that beat it (a higher score, or an equal
  score at a lower uid), divided by the geometric sum over all positive scores; a position without
  a positive score gets 0.\<close>

theorem get_weights_follow_rank:
  assumes "0 \<le> n" and "rank_decay e = Some d" and "0 < d" and "i < nat n"
  shows "\<exists>w. get_weights e (Some n) = Inr w \<and>
    w ! i = (let sc = clean_scores e (nat n) in
      if sc ! i > 0 then d ^ rank_of sc i / (\<Sum>q < positives sc. d ^ q) else 0)"
proof -
  let ?sc = "clean_scores e (nat n)"
  have "get_weights e (Some n) = Inr (l1_normalize (rank_weights ?sc d))"
    using get_weights_eq [OF assms(1)] assms(2) by simp
  moreover have "l1_normalize (rank_weights ?sc d) ! i =
      (if ?sc ! i > 0 then d ^ rank_of ?sc i / (\<Sum>q < positives ?sc. d ^ q) else 0)"
  proof (cases "positives ?sc = 0")
    case True
    then have "\<not> ?sc ! i > 0"
      using assms(4) by (auto simp: positives_def filter_empty_conv)
    then show ?thesis using True assms(4) by (simp add: l1_normalize_def sum_rank_weights)
  next
    case False
    then have "(\<Sum>q < positives ?sc. d ^ q) > 0"
      using assms(3) by (intro sum_pos) auto
    then show ?thesis using assms(4) by (simp add: l1_normalize_def sum_rank_weights rank_weights_nth)
  qed
  ultimately show ?thesis by (simp add: Let_def)
qed

theorem get_weights_follow_rank_witness:
  "\<exists>w. get_weights engine_example (Some 3) = Inr w \<and> w ! 0 = 1 / 3"
proof -
  have sc: "clean_scores engine_example 3 = [1/2, 1, 0]"
    by (simp add: clean_scores_def engine_example_def upt_rec)
  have "{j. j < 3 \<and> [1/2, 1, 0 :: real] ! j > 0 \<and> beats [1/2, 1, 0] j 0} = {1}"
    by (auto simp: beats_def numeral_3_eq_3 less_Suc_eq)
  then have "rank_of [1/2, 1, 0] 0 = 1" by (simp add: rank_of_def numeral_3_eq_3)
  moreover have "(\<Sum>q < 2. (1/2 :: real) ^ q) = 3/2" by (simp add: eval_nat_numeral)
  ultimately show ?thesis
    using get_weights_follow_rank [of 3 engine_example "1/2" 0]
    by (auto simp: sc positives_def) (simp add: engine_example_def)
qed

section \<open>Slots whose owner changes\<close>

lemma sync_one_ok:
  assumes "0 \<le> u"
  shows "\<exists>e'. sync_one (u, hk) e =
      (Inr (if map_of (hotkeys e) u \<notin> {None, Some hk} then [u] else []), e') \<and>
    (\<forall>v. hist e' v = (if v = u \<and> map_of (hotkeys e) u \<notin> {None, Some hk} then [] else hist e v)) \<and>
    map_of (hotkeys e') = (map_of (hotkeys e))(u \<mapsto> hk)"
  using assms hist_delete [of u e]
  by (auto simp: sync_one_def andthen_apply ensure_capacity_def update_conv' hist_def dict_get_def
      delete_conv' split: option.split)

lemma sync_loop_ok:
  assumes "distinct (keys hks)" "\<forall>u \<in> set (keys hks). 0 \<le> u"
  shows "\<exists>e'. sync_loop hks e =
      (Inr (filter (\<lambda>u. map_of (hotkeys e) u \<notin> {None, map_of hks u}) (keys hks)), e') \<and>
    (\<forall>v. hist e' v = (if v \<in> set (keys hks) \<and> map_of (hotkeys e) v \<notin> {None, map_of hks v}
       then [] else hist e v)) \<and>
    map_of (hotkeys e') = map_of (hotkeys e) ++ map_of hks"
  using assms
proof (induction hks arbitrary: e)
  case Nil
  then show ?case by (simp add: return_apply)
next
  case (Cons p hks)
  obtain u hk where p: "p = (u, hk)" by (cases p)
  have u: "0 \<le> u" "u \<notin> set (keys hks)" using Cons.prems p by auto
  obtain e1 where e1: "sync_one (u, hk) e =
      (Inr (if map_of (hotkeys e) u \<notin> {None, Some hk} then [u] else []), e1)"
    "\<forall>v. hist e1 v = (if v = u \<and> map_of (hotkeys e) u \<notin> {None, Some hk} then [] else hist e v)"
    "map_of (hotkeys e1) = (map_of (hotkeys e))(u \<mapsto> hk)"
    using sync_one_ok [OF u(1), of hk e] by blast
  obtain e2 where e2: "sync_loop hks e1 =
      (Inr (filter (\<lambda>v. map_of (hotkeys e1) v \<notin> {None, map_of hks v}) (keys hks)), e2)"
    "\<forall>v. hist e2 v = (if v \<in> set (keys hks) \<and> map_of (hotkeys e1) v \<notin> {None, map_of hks v}
       then [] else hist e1 v)"
    "map_of (hotkeys e2) = map_of (hotkeys e1) ++ map_of hks"
    using Cons.IH [of e1] Cons.prems p by auto
  have "map_of hks u = None" using u(2) by (simp add: map_of_eq_None_iff)
  moreover have "filter (\<lambda>v. map_of (hotkeys e1) v \<notin> {None, map_of hks v}) (keys hks) =
      filter (\<lambda>v. map_of (hotkeys e) v \<notin> {None, map_of (p # hks) v}) (keys hks)"
    by (rule filter_cong) (use u(2) e1(3) p in auto)
  ultimately show ?case
    using e1 e2 p u(2) by (auto simp: andthen_apply return_apply fun_eq_iff map_add_def
        split: option.split)
qed

text \<open>Deregistration: \<open>sync\<close> against the metagraph's hotkeys empties the history of exactly
  the uids that were tracked under a different hotkey, returns precisely those uids, leaves every
  other history untouched and records every new hotkey.\<close>

theorem sync_resets_reused_slots:
  assumes "distinct (keys hks)" "\<forall>u \<in> set (keys hks). 0 \<le> u"
  shows "\<exists>e'. sync hks None e =
      (Inr (filter (\<lambda>u. map_of (hotkeys e) u \<notin> {None, map_of hks u}) (keys hks)), e') \<and>
    (\<forall>v. hist e' v = (if v \<in> set (keys hks) \<and> map_of (hotkeys e) v \<notin> {None, map_of hks v}
       then [] else hist e v)) \<and>
    map_of (hotkeys e') = map_of (hotkeys e) ++ map_of hks"
  using sync_loop_ok [OF assms, of e] by (auto simp: sync_def method_simps)

theorem sync_resets_reused_slots_witness:
  "\<exists>e'. sync [(0, ''new''), (1, ''b'')] None engine_example = (Inr [0], e') \<and>
     hist e' 0 = [] \<and> hist e' 1 = [(2, 1)]"
  using sync_resets_reused_slots [of "[(0, ''new''), (1, ''b'')]" engine_example]
  by (auto simp: engine_example_def hist_def dict_get_def)

section \<open>Reachable engines\<close>

text \<open>Everything the rest of the validator does to its engine.\<close>

datatype engine_call =
    Update "(uid, pyfloat) dict" "(uid, string) dict option" "uid list option" "pyfloat option"
      pyfloat
  | RecordNonserving "uid list" "pyfloat option" pyfloat
  | SetHotkeys "(uid, string) dict"
  | Sync "(uid, string) dict" "int option"
  | Resize int

fun run_call :: "engine_call \<Rightarrow> engine \<Rightarrow> engine" where
  "run_call (Update rs hks ds ob now) e = snd (update rs hks ds ob now e)"
| "run_call (RecordNonserving act ob now) e = snd (record_nonserving act ob now e)"
| "run_call (SetHotkeys hks) e = snd (set_hotkeys hks e)"
| "run_call (Sync hks n) e = snd (sync hks n e)"
| "run_call (Resize n) e = snd (resize n e)"

inductive engine_reach :: "engine \<Rightarrow> bool" where
  created: "init_engine n win maxs mins dec rank = Inr e \<Longrightarrow> engine_reach e"
| called: "engine_reach e \<Longrightarrow> engine_reach (run_call c e)"
| restored: "engine_reach e \<Longrightarrow> valid_saved n hs \<Longrightarrow> engine_reach (snd (restore n hs hks e))"

lemma init_engine_inv:
  assumes "init_engine n win maxs mins dec rank = Inr e"
  shows "engine_inv e"
proof -
  have e: "e = \<lparr>window_seconds = fin_val win, max_samples = nat maxs, min_samples = nat mins,
      decay = dec, rank_decay = map_option fin_val rank,
      scores = replicate (nat n) (Fin 0), histories = [], hotkeys = []\<rparr>"
    and g: "1 \<le> mins" "mins \<le> maxs" "case rank of None \<Rightarrow> True
      | Some r \<Rightarrow> is_finite r \<and> 0 < fin_val r \<and> fin_val r \<le> 1"
    using assms by (auto simp: init_engine_def split: if_splits option.splits)
  show ?thesis
    unfolding e using g
    by (intro engine_invI) (auto simp: score_at_def hist_def dict_get_def nat_mono
        split: option.splits)
qed

lemma run_call_inv: "engine_inv e \<Longrightarrow> engine_inv (run_call c e)"
  by (cases c) (auto intro: keepsD keeps_intro keeps_update keeps_record_nonserving)

text \<open>C20. Whatever sequence of calls the validator makes after construction or a restore of
  validated state, calls that raise half way included, the engine keeps its invariant: histories
  of registered slots only, never longer than \<open>max_samples\<close> and never negative, and a score
  vector that is finite and equals the scores of those histories.\<close>

theorem engine_invariant:
  assumes "engine_reach e"
  shows "engine_inv e"
  using assms
proof (induction rule: engine_reach.induct)
  case (restored e n hs hks)
  then show ?case using restore_ok [of e n hs hks] by auto
qed (auto intro: init_engine_inv run_call_inv)

definition fresh_example :: engine where
  "fresh_example = \<lparr>window_seconds = 57600, max_samples = 100, min_samples = 12, decay = True,
     rank_decay = Some (995/1000), scores = [], histories = [], hotkeys = []\<rparr>"

theorem engine_invariant_witness:
  "engine_inv (run_call (Update [(-1, Fin 1)] None None (Some (Fin 5)) NaN)
     (run_call (Update [(7, Fin 1)] None None (Some (Fin 5)) NaN) fresh_example))"
proof -
  have "init_engine 0 (Fin 57600) 100 12 True (Some (Fin (995/1000))) = Inr fresh_example"
    by (simp add: init_engine_def fresh_example_def)
  then show ?thesis
    by (intro engine_invariant engine_reach.called) (rule engine_reach.created)
qed

section \<open>What no call changes\<close>

definition settings_are :: "bool \<Rightarrow> nat \<Rightarrow> engine \<Rightarrow> bool" where
  "settings_are d m e \<longleftrightarrow> decay e = d \<and> max_samples e = m"

lemma settings_record_obs: "keeps (settings_are d m) (record_obs u r ts)"
  by (auto simp: keeps_def settings_are_def record_obs_def ensure_capacity_def refresh_score_def set_score_def
      method_simps Let_def)

lemma settings_set_hotkeys: "keeps (settings_are d m) (set_hotkeys h)"
  unfolding set_hotkeys_def
  by (intro keeps_foreach)
     (auto simp: keeps_def settings_are_def set_hotkey_def ensure_capacity_def method_simps split: if_splits)

lemma settings_record_zeros: "keeps (settings_are d m) (record_zeros us ts)"
  unfolding record_zeros_def by (intro keeps_foreach settings_record_obs)

lemma settings_update: "keeps (settings_are d m) (update rewards hks ds ob now)"
proof -
  have "keeps (settings_are d m) (record_rewards rewards ts)" for ts
    unfolding record_rewards_def by (intro keeps_foreach) (auto intro: settings_record_obs)
  moreover have "keeps (settings_are d m) (record_silent rewards ds ts)" for ts
    using settings_record_zeros by (auto simp: record_silent_def keeps_def)
  ultimately show ?thesis
    unfolding update_def
    by (auto intro!: keeps_intro settings_set_hotkeys split: option.splits sum.splits)
qed

lemma update_frame:
  "update rewards hks ds ob now e = (v, e') \<Longrightarrow> decay e' = decay e \<and> max_samples e' = max_samples e"
  using keepsD [OF settings_update [of "decay e" "max_samples e" rewards hks ds ob now], of e]
  by (simp add: settings_are_def)

end
