(* ===== verification/Scoring.thy ===== *)
theory Scoring
  imports Prelude
begin

text \<open>
  Verdicts and payments (\<open>src/rlvr/types.py\<close>, \<open>src/rlvr/scoring/verifier.py\<close>,
  \<open>payment.py\<close>, \<open>difficulty.py\<close>).  The executor is not modelled here: \<open>verify\<close> takes the result
  list of each run.  The lemmas show that a verdict passes exactly when every hidden test passed
  in every run, and that payments are gated on that verdict and otherwise ordered by speed.
\<close>

section \<open>Data contracts\<close>

datatype difficulty_band = EASY | IN_BAND | HARD | UNKNOWN

record 'v execution_result =
  test_index :: int
  test_passed :: bool
  result_value :: "'v option"
  value_ok :: bool
  actual_repr :: "string option"
  exec_error :: "string option"
  error_kind :: "string option"
  timed_out :: bool
  runtime_ms :: pyfloat

record 'v verification =
  ver_problem_id :: string
  num_tests :: nat
  num_passed :: nat
  all_passed :: bool
  ver_reward :: real
  compile_error :: "string option"
  ver_results :: "'v execution_result list"
  flagged_flaky :: bool

record solution_response =
  sol_problem_id :: string
  sol_code :: string
  raw_response :: string
  sol_latency_ms :: pyfloat

record 'v miner_outcome =
  out_uid :: int
  out_hotkey :: string
  solution :: solution_response
  out_verification :: "'v verification"
  out_reward :: real

section \<open>Verifier\<close>

text \<open>\<open>_verdict_for\<close>: the first result for that index decides.\<close>

fun verdict_for :: "'v execution_result list \<Rightarrow> int \<Rightarrow> bool option" where
  "verdict_for [] i = None"
| "verdict_for (r # rs) i = (if test_index r = i then Some (test_passed r) else verdict_for rs i)"

fun passed_every_run :: "'v execution_result list list \<Rightarrow> int \<Rightarrow> bool" where
  "passed_every_run [] i = True"
| "passed_every_run (run # runs) i =
     (if verdict_for run i \<noteq> Some True then False else passed_every_run runs i)"

definition truthy :: "string option \<Rightarrow> bool" where
  "truthy s = (case s of None \<Rightarrow> False | Some t \<Rightarrow> t \<noteq> [])"

definition detect_compile_error :: "'v execution_result list list \<Rightarrow> nat \<Rightarrow> string option" where
  "detect_compile_error runs n =
     (case runs of
        [] \<Rightarrow> None
      | run # _ \<Rightarrow>
         if n = 0 \<or> run = [] \<or> length run \<noteq> n then None
         else if \<not> list_all (\<lambda>r. truthy (exec_error r) \<and> error_kind r = Some ''compile_error'') run
         then None
         else (case filter (\<lambda>r. truthy (exec_error r)) run of
                 [] \<Rightarrow> Some ''compile error''
               | r # _ \<Rightarrow> exec_error r))"

definition reward_for :: "bool \<Rightarrow> nat \<Rightarrow> nat \<Rightarrow> bool \<Rightarrow> real" where
  "reward_for partial_credit passed scored all_ok =
     (if partial_credit then (if scored = 0 then 0 else real passed / real scored)
      else if all_ok then 1 else 0)"

text \<open>The set of concrete verdicts one test has over the runs, and the tests that flip.\<close>

definition concrete_verdicts :: "'v execution_result list list \<Rightarrow> int \<Rightarrow> bool list" where
  "concrete_verdicts runs i = remdups (List.map_filter (\<lambda>run. verdict_for run i) runs)"

definition flaky_tests :: "'v execution_result list list \<Rightarrow> nat \<Rightarrow> nat list" where
  "flaky_tests runs n =
     (if length runs > 1
      then filter (\<lambda>i. length (concrete_verdicts runs (int i)) > 1) [0..<n] else [])"

text \<open>\<open>verify\<close>: \<open>exec k\<close> is what the executor returned for the \<open>k\<close>-th pass over the suite.\<close>

definition verify ::
  "bool \<Rightarrow> nat \<Rightarrow> string \<Rightarrow> nat \<Rightarrow> (nat \<Rightarrow> 'v execution_result list) \<Rightarrow> 'v verification" where
  "verify partial_credit runs pid n exec =
     (let all_runs = map exec [0..<runs];
          first_run = (case all_runs of [] \<Rightarrow> [] | r # _ \<Rightarrow> r) in
      case detect_compile_error all_runs n of
        Some err \<Rightarrow> \<lparr>ver_problem_id = pid, num_tests = n, num_passed = 0, all_passed = False,
                     ver_reward = 0, compile_error = Some err, ver_results = first_run,
                     flagged_flaky = False\<rparr>
      | None \<Rightarrow>
          let flaky = flaky_tests all_runs n;
              passed = length (filter (\<lambda>i. i \<notin> set flaky \<and> passed_every_run all_runs (int i)) [0..<n]);
              all_ok = (n > 0 \<and> passed = n) in
          \<lparr>ver_problem_id = pid, num_tests = n, num_passed = passed, all_passed = all_ok,
           ver_reward = reward_for partial_credit passed n all_ok, compile_error = None,
           ver_results = first_run, flagged_flaky = (flaky \<noteq> [])\<rparr>)"

section \<open>Difficulty\<close>

definition pass_rate :: "'v miner_outcome list \<Rightarrow> real" where
  "pass_rate outcomes =
     (let n = length outcomes in
      if n = 0 then 0
      else real (length (filter (\<lambda>m. all_passed (out_verification m)) outcomes)) / real n)"

definition classify_band :: "real \<Rightarrow> real \<Rightarrow> real \<Rightarrow> difficulty_band" where
  "classify_band p low high = (if p > high then EASY else if p < low then HARD else IN_BAND)"

section \<open>Payments\<close>

text \<open>\<open>min(1.0, max(0.0, float(x)))\<close>, comparisons with a NaN being false.\<close>

fun clamp_unit :: "pyfloat \<Rightarrow> real" where
  "clamp_unit (Fin x) = min 1 (max 0 x)"
| "clamp_unit PInf = 1"
| "clamp_unit NInf = 0"
| "clamp_unit NaN = 0"

text \<open>The share of a pass that arrives \<open>delay\<close> after the fastest one.\<close>

definition speed_share :: "real \<Rightarrow> real \<Rightarrow> real \<Rightarrow> real" where
  "speed_share flr half_life delay = flr + (1 - flr) * 2 powr (- delay / half_life)"

definition positive_finite :: "pyfloat \<Rightarrow> bool" where
  "positive_finite x \<longleftrightarrow> is_finite x \<and> fin_val x > 0"

definition rewarded_latencies :: "'v miner_outcome list \<Rightarrow> real list" where
  "rewarded_latencies outcomes =
     map (\<lambda>m. fin_val (sol_latency_ms (solution m)))
       (filter (\<lambda>m. all_passed (out_verification m) \<and>
                    positive_finite (sol_latency_ms (solution m))) outcomes)"

definition fastest_of :: "real list \<Rightarrow> real option" where
  "fastest_of ls = (if ls = [] then None else Some (Min (set ls)))"

definition speed_multiplier :: "real option \<Rightarrow> pyfloat \<Rightarrow> real \<Rightarrow> pyfloat \<Rightarrow> real" where
  "speed_multiplier fastest half_life flr latency =
     (case fastest of
        None \<Rightarrow> 1
      | Some f \<Rightarrow>
          if \<not> positive_finite half_life then 1
          else if \<not> positive_finite latency then flr
          else speed_share flr (fin_val half_life) (max 0 (fin_val latency - f)))"

definition compute_payments ::
  "'v miner_outcome list \<Rightarrow> pyfloat \<Rightarrow> pyfloat \<Rightarrow> (int, real) dict" where
  "compute_payments outcomes half_life flr =
     (let fastest = fastest_of (rewarded_latencies outcomes) in
      fold (\<lambda>m d. AList.update (out_uid m)
              (if \<not> all_passed (out_verification m) then 0
               else speed_multiplier fastest half_life (clamp_unit flr)
                      (sol_latency_ms (solution m))) d) outcomes [])"

section \<open>Lemmas\<close>

lemma passed_every_run_iff:
  "passed_every_run runs i \<longleftrightarrow> (\<forall>run \<in> set runs. verdict_for run i = Some True)"
  by (induction runs) auto

lemma flaky_not_passed:
  assumes "i \<in> set (flaky_tests runs n)"
  shows "\<not> passed_every_run runs (int i)"
proof
  assume "passed_every_run runs (int i)"
  then have "set (concrete_verdicts runs (int i)) \<subseteq> {True}"
    by (auto simp: concrete_verdicts_def passed_every_run_iff List.map_filter_def)
  moreover have "distinct (concrete_verdicts runs (int i))" by (simp add: concrete_verdicts_def)
  ultimately have "length (concrete_verdicts runs (int i)) \<le> 1"
    by (metis card_mono distinct_card finite.emptyI finite.insertI is_singletonI is_singleton_altdef)
  then show False using assms by (auto simp: flaky_tests_def split: if_splits)
qed

lemma filter_all_length: "length (filter P xs) = length xs \<longleftrightarrow> (\<forall>x \<in> set xs. P x)"
  by (metis filter_id_conv length_filter_less less_irrefl)

lemma compile_error_fails:
  assumes "detect_compile_error runs n = Some err" "\<forall>run \<in> set runs. \<forall>r \<in> set run.
      truthy (exec_error r) \<longrightarrow> \<not> test_passed r" "i < n" "runs \<noteq> []"
  shows "\<not> passed_every_run runs (int i)"
proof -
  obtain run rest where r: "runs = run # rest" using assms(4) by (cases runs) auto
  have "list_all (\<lambda>r. truthy (exec_error r) \<and> error_kind r = Some ''compile_error'') run"
    using assms(1) r by (auto simp: detect_compile_error_def split: if_splits)
  then have "\<forall>r \<in> set run. \<not> test_passed r" using assms(2) r by (auto simp: list_all_iff)
  then have "verdict_for run j \<noteq> Some True" for j by (induction run) auto
  then show ?thesis using r by simp
qed

text \<open>A solution is accepted exactly when the suite is not empty, no compile failure was
  signalled, and every hidden test has a passing verdict in every run.  In particular a test whose
  verdict flips between runs makes the solution fail and is never dropped from the suite; without
  partial credit the reward is 1 for accepted solutions and 0 otherwise.\<close>

theorem verify_all_passed_iff:
  fixes exec :: "nat \<Rightarrow> 'v execution_result list"
  shows "(all_passed (verify partial_credit runs pid n exec) \<longleftrightarrow>
       n > 0 \<and> detect_compile_error (map exec [0..<runs]) n = None \<and>
       (\<forall>i. i < n \<longrightarrow> (\<forall>k. k < runs \<longrightarrow> verdict_for (exec k) (int i) = Some True))) \<and>
    (flagged_flaky (verify partial_credit runs pid n exec) \<longrightarrow>
       \<not> all_passed (verify partial_credit runs pid n exec)) \<and>
    ver_reward (verify False runs pid n exec) =
      (if all_passed (verify False runs pid n exec) then 1 else 0)"
proof -
  let ?runs = "map exec [0..<runs]"
  have pe: "passed_every_run ?runs (int i) \<longleftrightarrow>
      (\<forall>k < runs. verdict_for (exec k) (int i) = Some True)" for i
    by (auto simp: passed_every_run_iff)
  have eq: "length (filter (\<lambda>i. i \<notin> set (flaky_tests ?runs n) \<and> passed_every_run ?runs (int i)) [0..<n]) = n
      \<longleftrightarrow> (\<forall>i < n. passed_every_run ?runs (int i))"
    using filter_all_length [of "\<lambda>i. i \<notin> set (flaky_tests ?runs n) \<and> passed_every_run ?runs (int i)" "[0..<n]"]
      flaky_not_passed [of _ ?runs n] by auto
  have fl: "flaky_tests ?runs n \<noteq> [] \<Longrightarrow> \<exists>i < n. \<not> passed_every_run ?runs (int i)"
    using flaky_not_passed [of "hd (flaky_tests ?runs n)" ?runs n] hd_in_set
    by (fastforce simp: flaky_tests_def split: if_splits)
  show ?thesis
  proof (cases "detect_compile_error ?runs n")
    case None
    then show ?thesis
      using eq fl by (auto simp: verify_def Let_def reward_for_def pe)
  qed (simp add: verify_def Let_def)
qed

lemma clamp_unit_bounds: "0 \<le> clamp_unit x \<and> clamp_unit x \<le> 1"
  by (cases x) auto

lemma speed_share_bounds:
  assumes "0 \<le> f" "f \<le> 1" "0 < h" "0 \<le> d"
  shows "f \<le> speed_share f h d" "speed_share f h d \<le> 1"
proof -
  have p: "2 powr (- d / h) \<le> 1"
    using powr_mono [of "- d / h" 0 2] assms by simp
  show "f \<le> speed_share f h d" using assms by (simp add: speed_share_def)
  have "(1 - f) * 2 powr (- d / h) \<le> (1 - f) * 1"
    using p assms by (intro mult_left_mono) auto
  then show "speed_share f h d \<le> 1" by (simp add: speed_share_def)
qed

lemma speed_share_antimono:
  assumes "f \<le> 1" "0 < h" "d \<le> d'"
  shows "speed_share f h d' \<le> speed_share f h d"
proof -
  have "2 powr (- d' / h) \<le> 2 powr (- d / h)"
    using assms by (intro powr_mono) (simp_all add: divide_right_mono)
  then show ?thesis using assms by (simp add: speed_share_def mult_left_mono)
qed

lemma speed_share_zero [simp]: "speed_share f h 0 = 1"
  by (simp add: speed_share_def)

text \<open>One more half-life halves what is paid above the floor.\<close>

lemma speed_share_half_life:
  assumes "0 < h"
  shows "speed_share f h (d + h) - f = (speed_share f h d - f) / 2"
proof -
  have "- (d + h) / h = - d / h + (- 1)" using assms by (simp add: field_simps)
  then have "2 powr (- (d + h) / h) = 2 powr (- d / h) * 2 powr (- 1)"
    by (simp only: powr_add)
  then show ?thesis by (simp add: speed_share_def powr_minus)
qed

lemma speed_multiplier_bounds:
  assumes "0 \<le> f" "f \<le> 1"
  shows "f \<le> speed_multiplier fastest hl f l" "speed_multiplier fastest hl f l \<le> 1"
  using assms speed_share_bounds [OF assms, of "fin_val hl"]
  by (auto simp: speed_multiplier_def positive_finite_def split: option.split)

definition payment_for :: "'v miner_outcome list \<Rightarrow> pyfloat \<Rightarrow> pyfloat \<Rightarrow> 'v miner_outcome \<Rightarrow> real" where
  "payment_for outcomes hl flr m =
     (if \<not> all_passed (out_verification m) then 0
      else speed_multiplier (fastest_of (rewarded_latencies outcomes)) hl (clamp_unit flr)
             (sol_latency_ms (solution m)))"

lemma compute_payments_eq:
  assumes "distinct (map out_uid outcomes)"
  shows "compute_payments outcomes hl flr =
    map (\<lambda>m. (out_uid m, payment_for outcomes hl flr m)) outcomes"
  unfolding compute_payments_def Let_def payment_for_def
  by (subst keys_fold_update) (use assms in simp_all)

lemma fastest_le:
  assumes "m \<in> set outcomes" "all_passed (out_verification m)"
    "positive_finite (sol_latency_ms (solution m))"
  shows "\<exists>f. fastest_of (rewarded_latencies outcomes) = Some f \<and>
    f \<le> fin_val (sol_latency_ms (solution m))"
proof -
  have "fin_val (sol_latency_ms (solution m)) \<in> set (rewarded_latencies outcomes)"
    using assms by (auto simp: rewarded_latencies_def)
  then show ?thesis by (auto simp: fastest_of_def)
qed

text \<open>Payments of one problem.  Correctness is a hard gate: an outcome that did not pass is
  listed with 0.  A pass is paid at least the floor and at most 1, a pass that is not slower than
  another (both with a valid latency) is paid at least as much, and a pass with the smallest valid
  latency is paid 1.\<close>

theorem compute_payments_gate_and_order:
  assumes "distinct (map out_uid outcomes)" "m \<in> set outcomes"
  shows "map_of (compute_payments outcomes hl flr) (out_uid m) = Some (payment_for outcomes hl flr m) \<and>
    (\<not> all_passed (out_verification m) \<longrightarrow> payment_for outcomes hl flr m = 0) \<and>
    (all_passed (out_verification m) \<longrightarrow>
       clamp_unit flr \<le> payment_for outcomes hl flr m \<and> payment_for outcomes hl flr m \<le> 1) \<and>
    (\<forall>m2 \<in> set outcomes. all_passed (out_verification m) \<and> all_passed (out_verification m2) \<and>
       positive_finite (sol_latency_ms (solution m)) \<and> positive_finite (sol_latency_ms (solution m2)) \<and>
       fin_val (sol_latency_ms (solution m)) \<le> fin_val (sol_latency_ms (solution m2)) \<longrightarrow>
       payment_for outcomes hl flr m2 \<le> payment_for outcomes hl flr m) \<and>
    (all_passed (out_verification m) \<and> positive_finite (sol_latency_ms (solution m)) \<and>
       fastest_of (rewarded_latencies outcomes) = Some (fin_val (sol_latency_ms (solution m))) \<longrightarrow>
       payment_for outcomes hl flr m = 1)"
proof (intro conjI ballI impI)
  show "map_of (compute_payments outcomes hl flr) (out_uid m) = Some (payment_for outcomes hl flr m)"
    unfolding compute_payments_def Let_def payment_for_def
    by (rule map_of_fold_update [OF assms])
next
  fix m2 assume "m2 \<in> set outcomes" and h: "all_passed (out_verification m) \<and>
     all_passed (out_verification m2) \<and>
     positive_finite (sol_latency_ms (solution m)) \<and> positive_finite (sol_latency_ms (solution m2)) \<and>
     fin_val (sol_latency_ms (solution m)) \<le> fin_val (sol_latency_ms (solution m2))"
  then show "payment_for outcomes hl flr m2 \<le> payment_for outcomes hl flr m"
    using fastest_le [OF assms(2)] clamp_unit_bounds [of flr]
    by (auto simp: payment_for_def speed_multiplier_def positive_finite_def
        intro!: speed_share_antimono)
qed (use speed_multiplier_bounds clamp_unit_bounds in
      \<open>auto simp: payment_for_def speed_multiplier_def\<close>)

definition outcome_example :: "int \<Rightarrow> bool \<Rightarrow> pyfloat \<Rightarrow> unit miner_outcome" where
  "outcome_example u ok l = \<lparr>out_uid = u, out_hotkey = ''hk'',
     solution = \<lparr>sol_problem_id = ''p'', sol_code = [], raw_response = [], sol_latency_ms = l\<rparr>,
     out_verification = \<lparr>ver_problem_id = ''p'', num_tests = 1, num_passed = 1, all_passed = ok,
       ver_reward = 1, compile_error = None, ver_results = [], flagged_flaky = False\<rparr>,
     out_reward = 1\<rparr>"

theorem compute_payments_gate_and_order_witness:
  "map_of (compute_payments [outcome_example 1 False (Fin 5), outcome_example 2 True (Fin 100),
      outcome_example 3 True (Fin 250)] (Fin 180000) (Fin (95/100))) 2 = Some 1"
  using compute_payments_gate_and_order [of "[outcome_example 1 False (Fin 5),
      outcome_example 2 True (Fin 100), outcome_example 3 True (Fin 250)]"
      "outcome_example 2 True (Fin 100)" "Fin 180000" "Fin (95/100)"]
  by (simp add: outcome_example_def rewarded_latencies_def fastest_of_def positive_finite_def)

lemma pass_rate_bounds: "0 \<le> pass_rate outcomes \<and> pass_rate outcomes \<le> 1"
  by (auto simp: pass_rate_def Let_def divide_le_eq_1 length_filter_le)

lemma classify_band_cases:
  "low \<le> high \<Longrightarrow> classify_band p low high = IN_BAND \<longleftrightarrow> low \<le> p \<and> p \<le> high"
  by (auto simp: classify_band_def)

definition result_example :: "int \<Rightarrow> bool \<Rightarrow> unit execution_result" where
  "result_example i ok = \<lparr>test_index = i, test_passed = ok, result_value = None, value_ok = ok,
     actual_repr = None, exec_error = None, error_kind = None, timed_out = False,
     runtime_ms = Fin 1\<rparr>"

theorem verify_all_passed_iff_witness:
  "\<not> all_passed (verify False 2 ''p'' 1 (\<lambda>k. [result_example 0 (k = 0)])) \<and>
   ver_reward (verify False 2 ''p'' 1 (\<lambda>k. [result_example 0 (k = 0)])) = 0"
proof -
  let ?exec = "\<lambda>k. [result_example 0 (k = (0::nat))]"
  have "\<not> (\<forall>k. k < (2::nat) \<longrightarrow> verdict_for (?exec k) (int 0) = Some True)"
    by (intro notI, drule spec [of _ 1]) (simp add: result_example_def)
  then have "\<not> (\<forall>i. i < (1::nat) \<longrightarrow> (\<forall>k. k < 2 \<longrightarrow> verdict_for (?exec k) (int i) = Some True))"
    by blast
  then show ?thesis
    using verify_all_passed_iff [of False 2 "''p''" 1 ?exec] by (simp only: if_False simp_thms)
qed

end
