(* ===== verification/Policy.thy ===== *)
theory Policy
  imports Prelude
begin

text \<open>
  The versioned validator policy (\<open>src/rlvr/policy.py\<close>) and the host sizing of
  \<open>src/rlvr/v3/release.py\<close>.  \<open>check_policy\<close> is \<open>ValidatorPolicy.__post_init__\<close>, in the order of
  its checks; \<open>release_policy\<close> is the shipped instance.  The lemmas show that the shipped policy is
  accepted and that the number of concurrent gradings fits the host.
\<close>

record validator_policy =
  version :: string
  challenges_per_round :: int
  verification_runs :: int
  dispatch_fraction :: real
  payment_speed_half_life_ms :: real
  payment_speed_floor :: real
  owner_burn_share :: real
  score_window_max_samples :: int
  score_window_min_samples :: int
  rank_decay_p :: real
  min_weight_observations :: int
  decay_nonresponders :: bool
  round_interval_blocks :: int
  weights_interval_blocks :: int
  rust_image :: string
  rustc_version :: string
  rust_edition :: string
  rustc_flags :: "string list"
  rust_judge_version :: string
  rust_compile_timeout_s :: real
  rust_artifact_max_bytes :: int
  rust_memory :: string
  rust_tmpfs_bytes :: int
  problem_response_read_bytes :: int
  v3_artifact_origins :: "string list"
  v3_execution_profile_id :: string
  v3_image :: string
  v3_memory_bytes :: int
  v3_cpus :: int
  v3_pids_limit :: int
  v3_tmpfs_bytes :: int
  v3_workspace_compressed_bytes :: int
  v3_workspace_bytes :: int
  v3_verifier_compressed_bytes :: int
  v3_verifier_expanded_bytes :: int
  v3_max_file_bytes :: int
  v3_patch_bytes :: int
  v3_script_bytes :: int
  v3_problem_response_read_bytes :: int
  v3_miners_per_task :: int
  v3_commit_quorum :: int
  v3_min_lease_s :: int

definition v3_resource_limits :: "validator_policy \<Rightarrow> int list" where
  "v3_resource_limits p =
     [v3_memory_bytes p, v3_cpus p, v3_pids_limit p, v3_tmpfs_bytes p,
      v3_workspace_compressed_bytes p, v3_workspace_bytes p, v3_verifier_compressed_bytes p,
      v3_verifier_expanded_bytes p, v3_max_file_bytes p, v3_patch_bytes p, v3_script_bytes p,
      v3_miners_per_task p, v3_commit_quorum p, v3_min_lease_s p,
      v3_problem_response_read_bytes p]"

definition check_policy :: "validator_policy \<Rightarrow> validator_policy result" where
  "check_policy p =
     (if \<not> (0 < dispatch_fraction p \<and> dispatch_fraction p \<le> 1)
        then Inl (ValueError ''dispatch_fraction must be in (0, 1]'')
      else if \<not> (0 \<le> payment_speed_floor p \<and> payment_speed_floor p \<le> 1)
        then Inl (ValueError ''payment_speed_floor must be in [0, 1]'')
      else if owner_burn_share p \<noteq> 0 then Inl (ValueError ''owner_burn_share must be zero'')
      else if payment_speed_half_life_ms p \<le> 0
        then Inl (ValueError ''payment_speed_half_life_ms must be positive'')
      else if \<not> (1 \<le> score_window_min_samples p \<and>
                 score_window_min_samples p \<le> score_window_max_samples p)
        then Inl (ValueError ''score sample bounds are invalid'')
      else if \<not> (0 < rank_decay_p p \<and> rank_decay_p p \<le> 1)
        then Inl (ValueError ''rank_decay must be in (0, 1]'')
      else if \<not> (1 \<le> min_weight_observations p \<and>
                 min_weight_observations p \<le> score_window_max_samples p)
        then Inl (ValueError ''min_weight_observations is outside the score window'')
      else if challenges_per_round p < 1
        then Inl (ValueError ''challenges_per_round must be positive'')
      else if verification_runs p < 1 then Inl (ValueError ''verification_runs must be positive'')
      else if round_interval_blocks p < 0 \<or> weights_interval_blocks p < 0
        then Inl (ValueError ''block intervals must be non-negative'')
      else if \<not> sublist ''@sha256:'' (rust_image p)
        then Inl (ValueError ''rust_image must be digest-pinned'')
      else if rust_edition p \<notin> set [''2021'', ''2024'']
        then Inl (ValueError ''unsupported Rust edition'')
      else if rust_compile_timeout_s p \<le> 0 \<or> rust_artifact_max_bytes p \<le> 0
        then Inl (ValueError ''Rust compile limits must be positive'')
      else if rust_tmpfs_bytes p \<le> 0 \<or> problem_response_read_bytes p \<le> 0
        then Inl (ValueError ''Rust resource limits must be positive'')
      else if v3_artifact_origins p = [] \<or>
              list_ex (\<lambda>origin. \<not> prefix ''https://'' origin) (v3_artifact_origins p)
        then Inl (ValueError ''V3 artifact origins must be pinned HTTPS origins'')
      else if \<not> sublist ''@sha256:'' (v3_image p)
        then Inl (ValueError ''V3 image must be digest-pinned'')
      else if list_ex (\<lambda>v. v \<le> 0) (v3_resource_limits p)
        then Inl (ValueError ''V3 resource limits must be positive integers'')
      else Inr p)"

definition release_policy :: validator_policy where
  "release_policy = \<lparr>
     version = ''2026-08-10'', challenges_per_round = 1, verification_runs = 1,
     dispatch_fraction = 1/2, payment_speed_half_life_ms = 180000, payment_speed_floor = 1,
     owner_burn_share = 0, score_window_max_samples = 100, score_window_min_samples = 12,
     rank_decay_p = 995/1000, min_weight_observations = 4, decay_nonresponders = True,
     round_interval_blocks = 38, weights_interval_blocks = 180,
     rust_image = ''ghcr.io/hone-subnet-org/hone-rust-sandbox@sha256:bc05667bf1dacdbeb1491f15aacfeacc99ef3607f3b65274d62a509a003625fa'',
     rustc_version = ''1.89.0'', rust_edition = ''2021'',
     rustc_flags = [''-C'', ''opt-level=2''], rust_judge_version = ''rust-exact-token-v1'',
     rust_compile_timeout_s = 60, rust_artifact_max_bytes = 10000000, rust_memory = ''2g'',
     rust_tmpfs_bytes = 256 * 1024 * 1024, problem_response_read_bytes = 2 * 1024 * 1024,
     v3_artifact_origins = [''https://hone-artifacts-o23247xbwz.s3.us-east-1.amazonaws.com:443''],
     v3_execution_profile_id = ''repo-polyglot-v1'',
     v3_image = ''public.ecr.aws/t3h1r6x1/hone-subnet/polyglot-sandbox@sha256:87f7ea823a2ffde124040db0f271e59110e666afecfc68106c4b07fddb4eee08'',
     v3_memory_bytes = 4 * 1024 ^ 3, v3_cpus = 2, v3_pids_limit = 256, v3_tmpfs_bytes = 1024 ^ 3,
     v3_workspace_compressed_bytes = 2 * 1024 ^ 3, v3_workspace_bytes = 10 * 1024 ^ 3,
     v3_verifier_compressed_bytes = 512 * 1024 ^ 2, v3_verifier_expanded_bytes = 2 * 1024 ^ 3,
     v3_max_file_bytes = 2 * 1024 ^ 3, v3_patch_bytes = 1024 ^ 2, v3_script_bytes = 1024 ^ 2,
     v3_problem_response_read_bytes = 32 * 1024 ^ 2, v3_miners_per_task = 128,
     v3_commit_quorum = 4, v3_min_lease_s = 600\<rparr>"

section \<open>Host sizing\<close>

definition GRADING_CONCURRENCY_MAX :: int where "GRADING_CONCURRENCY_MAX = 16"
definition HOST_MEMORY_RESERVE_BYTES :: int where "HOST_MEMORY_RESERVE_BYTES = 4 * 1024 ^ 3"
definition HOST_DISK_RESERVE_BYTES :: int where "HOST_DISK_RESERVE_BYTES = 2 * 1000 ^ 3"

text \<open>Python's \<open>//\<close> on integers rounds towards minus infinity, as \<open>div\<close> on \<open>int\<close> does; the
  divisors are positive in an accepted policy.\<close>

definition default_grading_concurrency :: "validator_policy \<Rightarrow> int \<Rightarrow> int \<Rightarrow> int \<Rightarrow> int" where
  "default_grading_concurrency p cpus memory_bytes free_disk_bytes =
     (let by_cpu = cpus div v3_cpus p;
          by_memory = (memory_bytes - HOST_MEMORY_RESERVE_BYTES) div v3_memory_bytes p;
          by_disk = (free_disk_bytes - HOST_DISK_RESERVE_BYTES) div v3_workspace_bytes p in
      max 1 (min GRADING_CONCURRENCY_MAX (min by_cpu (min by_memory by_disk))))"

section \<open>Lemmas\<close>

lemma check_policy_Inr: "check_policy p = Inr q \<Longrightarrow> q = p"
  by (simp add: check_policy_def split: if_splits)

lemma check_policy_accepts:
  assumes "check_policy p = Inr q"
  shows "1 \<le> score_window_min_samples p" "score_window_min_samples p \<le> score_window_max_samples p"
    and "0 < rank_decay_p p" "rank_decay_p p \<le> 1"
    and "0 \<le> payment_speed_floor p" "payment_speed_floor p \<le> 1" "0 < payment_speed_half_life_ms p"
    and "1 \<le> min_weight_observations p" "min_weight_observations p \<le> score_window_max_samples p"
    and "v \<in> set (v3_resource_limits p) \<Longrightarrow> 0 < v"
    and "origin \<in> set (v3_artifact_origins p) \<Longrightarrow> prefix ''https://'' origin"
    and "sublist ''@sha256:'' (v3_image p)"
  using assms by (auto simp: check_policy_def list_ex_iff not_le split: if_splits)

lemma release_policy_accepted: "check_policy release_policy = Inr release_policy"
  by code_simp

lemma div_mult_le_int: "0 < (c::int) \<Longrightarrow> k \<le> a div c \<Longrightarrow> k * c \<le> a"
  by (metis dual_order.trans mult.commute mult_left_mono less_imp_le minus_mod_eq_mult_div
      diff_le_eq le_add_same_cancel1 pos_mod_sign)

lemma max_one_min:
  assumes "n = max 1 (min a (min b (min c (d::int))))" "1 \<le> a"
  shows "1 \<le> n \<and> n \<le> a" "1 < n \<Longrightarrow> n \<le> b \<and> n \<le> c \<and> n \<le> d"
  using assms by (auto simp: max_def min_def split: if_splits)

text \<open>Host sizing: between 1 and 16 gradings run at once, and whenever the answer is more
  than one, that many sandboxes fit in the host's CPUs, in its memory after the 4 GiB reserve and
  in its free disk after the 2 GB reserve.\<close>

theorem default_grading_concurrency_fits:
  assumes "check_policy p = Inr q" and "n = default_grading_concurrency p cpus mem disk"
  shows "1 \<le> n \<and> n \<le> GRADING_CONCURRENCY_MAX \<and>
    (n > 1 \<longrightarrow> n * v3_cpus p \<le> cpus \<and>
       HOST_MEMORY_RESERVE_BYTES + n * v3_memory_bytes p \<le> mem \<and>
       HOST_DISK_RESERVE_BYTES + n * v3_workspace_bytes p \<le> disk)"
proof -
  have pos: "0 < v3_cpus p" "0 < v3_memory_bytes p" "0 < v3_workspace_bytes p"
    using check_policy_accepts(10) [OF assms(1)] by (simp_all add: v3_resource_limits_def)
  note m = max_one_min [OF assms(2) [unfolded default_grading_concurrency_def Let_def]]
  have "1 < n \<Longrightarrow> n * v3_cpus p \<le> cpus \<and>
      n * v3_memory_bytes p \<le> mem - HOST_MEMORY_RESERVE_BYTES \<and>
      n * v3_workspace_bytes p \<le> disk - HOST_DISK_RESERVE_BYTES"
    using m(2) pos div_mult_le_int by (simp add: GRADING_CONCURRENCY_MAX_def)
  moreover have "1 \<le> n \<and> n \<le> GRADING_CONCURRENCY_MAX"
    by (rule m(1)) (simp add: GRADING_CONCURRENCY_MAX_def)
  ultimately show ?thesis by auto
qed

theorem default_grading_concurrency_fits_witness:
  "default_grading_concurrency release_policy 16 (64 * 1024 ^ 3) (200 * 1000 ^ 3) = 8 \<and>
   8 * v3_cpus release_policy \<le> 16 \<and>
   HOST_DISK_RESERVE_BYTES + 8 * v3_workspace_bytes release_policy \<le> 200 * 1000 ^ 3"
proof -
  have "default_grading_concurrency release_policy 16 (64 * 1024 ^ 3) (200 * 1000 ^ 3) = 8"
    by code_simp
  then show ?thesis
    using default_grading_concurrency_fits [OF release_policy_accepted,
        of 8 16 "64 * 1024 ^ 3" "200 * 1000 ^ 3"] by simp
qed

end
