(* ===== verification/Rounds.thy ===== *)
theory Rounds
  imports Grading Transfers EvalEngine Scoring Policy
begin

text \<open>
  The data of a round and what is done with it (\<open>src/rlvr/v3/round.py\<close>, without the flow of
  \<open>evaluate_round\<close>), and the policy a validator release builds for it (\<open>src/rlvr/v3/release.py\<close>):
  diagnostic feedback, payments, and the observations a completed round adds to the score engine.
\<close>

section \<open>Policy\<close>

record round_policy =
  rp_workspace_archive :: archive_limits
  rp_verifier_archive :: archive_limits
  rp_submissions :: submission_limits
  rp_tree :: tree_limits
  rp_patch :: patch_limits
  rp_script :: script_limits
  rp_supervisor :: supervisor_policy
  rp_docker_binary :: string
  rp_artifact_origins :: "string list"
  rp_execution_profile_id :: string
  rp_verifier_policy :: string
  rp_dispatch_concurrency :: int
  rp_grading_concurrency :: int
  rp_miners_per_task :: int
  rp_commit_quorum :: int
  rp_min_lease_s :: int

definition check_round_policy :: "round_policy \<Rightarrow> round_policy result" where
  "check_round_policy p =
     (if rp_dispatch_concurrency p < 1 then Inl (ValueError ''dispatch concurrency must be positive'')
      else if rp_grading_concurrency p < 1 then Inl (ValueError ''grading concurrency must be positive'')
      else if \<not> (1 \<le> rp_miners_per_task p \<and> rp_miners_per_task p \<le> 1024)
        then Inl (ValueError ''miners per task must be between 1 and 1024'')
      else if \<not> (1 \<le> rp_commit_quorum p \<and> rp_commit_quorum p \<le> rp_miners_per_task p)
        then Inl (ValueError ''commit quorum must be between 1 and miners per task'')
      else if rp_min_lease_s p < 1 then Inl (ValueError ''minimum lease window must be positive'')
      else Inr p)"

definition release_supervisor :: "validator_policy \<Rightarrow> int \<Rightarrow> int \<Rightarrow> supervisor_policy" where
  "release_supervisor p uid gid =
     \<lparr>sp_image = v3_image p, candidate_uid = uid, candidate_gid = gid, memory_bytes = v3_memory_bytes p,
      cpus = v3_cpus p, pids_limit = v3_pids_limit p, tmpfs_bytes = v3_tmpfs_bytes p,
      sp_max_file_bytes = v3_max_file_bytes p, watchdog_slack_s = 5,
      max_workspace_bytes = v3_workspace_bytes p, trusted_uid = 65534, trusted_gid = 65534\<rparr>"

text \<open>\<open>round_policy\<close> of \<open>release.py\<close>: the user of the process and the resolved Docker binary, if
  any, are parameters; every constructor's checks are applied in order.\<close>

definition build_round_policy ::
  "int \<Rightarrow> int \<Rightarrow> string option \<Rightarrow> validator_policy \<Rightarrow> int \<Rightarrow> int \<Rightarrow> round_policy result" where
  "build_round_policy uid gid docker p dispatch grading =
     (if uid = 0 \<or> gid = 0 then Inl (ValueError ''V3 validator must run as an unprivileged service user'')
      else case docker of
        None \<Rightarrow> Inl (ValueError ''Docker is required for V3 grading'')
      | Some binary \<Rightarrow>
          rbind (check_archive_limits \<lparr>max_compressed_bytes = v3_workspace_compressed_bytes p,
             max_expanded_bytes = v3_workspace_bytes p, arc_max_file_bytes = v3_max_file_bytes p,
             arc_max_entries = 200000, arc_max_path_bytes = 4096, max_zstd_window_bytes = 128 * 1024 ^ 2\<rparr>) (\<lambda>wa.
          rbind (check_archive_limits \<lparr>max_compressed_bytes = v3_verifier_compressed_bytes p,
             max_expanded_bytes = v3_verifier_expanded_bytes p, arc_max_file_bytes = 512 * 1024 ^ 2,
             arc_max_entries = 20000, arc_max_path_bytes = 4096, max_zstd_window_bytes = 128 * 1024 ^ 2\<rparr>) (\<lambda>va.
          rbind (check_submission_limits \<lparr>sl_max_patch_bytes = v3_patch_bytes p,
             sl_max_script_bytes = v3_script_bytes p\<rparr>) (\<lambda>sl.
          rbind (check_tree_limits \<lparr>max_entries = 200000, max_file_bytes = v3_max_file_bytes p,
             max_total_file_bytes = v3_workspace_bytes p, max_path_bytes = 4096\<rparr>) (\<lambda>tl.
          rbind (check_patch_limits \<lparr>pl_max_patch_bytes = v3_patch_bytes p, pl_git_timeout_s = 30\<rparr>) (\<lambda>pl.
          rbind (check_script_limits \<lparr>scl_max_script_bytes = v3_script_bytes p\<rparr>) (\<lambda>scl.
          rbind (check_supervisor_policy (release_supervisor p uid gid)) (\<lambda>sp.
          check_round_policy
            \<lparr>rp_workspace_archive = wa, rp_verifier_archive = va, rp_submissions = sl, rp_tree = tl,
             rp_patch = pl, rp_script = scl, rp_supervisor = sp, rp_docker_binary = binary,
             rp_artifact_origins = v3_artifact_origins p,
             rp_execution_profile_id = v3_execution_profile_id p,
             rp_verifier_policy = ''command-gold-digest-v1'', rp_dispatch_concurrency = dispatch,
             rp_grading_concurrency = grading, rp_miners_per_task = v3_miners_per_task p,
             rp_commit_quorum = v3_commit_quorum p, rp_min_lease_s = v3_min_lease_s p\<rparr>))))))))"

section \<open>Results\<close>

record miner_evaluation =
  me_uid :: int
  me_hotkey :: string
  me_latency_ms :: int
  me_result :: evaluation_result
  me_grading_duration_ms :: int
  me_trajectory :: "miner_artifact_ref option"

datatype round_status = Completed | Unavailable | Abandoned

record round_result =
  rr_status :: round_status
  rr_reason :: ustring
  rr_evaluations :: "miner_evaluation list"
  rr_retry_after_s :: "int option"
  rr_reason_code :: "round_reason option"
  rr_stage :: "stage option"
  rr_challenge_id :: "string option"
  rr_task_id :: "string option"
  rr_assigned_miners :: "(int \<times> string) list"
  rr_diagnostic_evaluations :: "miner_evaluation list"
  rr_dispatch_failures :: "(int \<times> string \<times> miner_reason) list"
  rr_checks_total :: "nat option"

definition registration :: "miner_evaluation \<Rightarrow> int \<times> string" where
  "registration e = (me_uid e, me_hotkey e)"

text \<open>\<open>derive_miner_request_id\<close> of \<open>api.py\<close>.\<close>

definition derive_miner_request_id :: "(ustring \<Rightarrow> string) \<Rightarrow> string \<Rightarrow> int \<Rightarrow> string \<Rightarrow> string" where
  "derive_miner_request_id sha256 challenge uid hotkey =
     sha256 (ucs ''hone-v3-miner-request'' @ [0] @ ucs challenge @ [0] @ str_int uid @ [0] @ ucs hotkey)"

definition failed_submission ::
  "(ustring \<Rightarrow> string) \<Rightarrow> string \<Rightarrow> int \<Rightarrow> string \<Rightarrow> string \<Rightarrow> miner_submission" where
  "failed_submission sha256 challenge uid hotkey err =
     \<lparr>ms_uid = uid, ms_hotkey = hotkey, ms_request_id = derive_miner_request_id sha256 challenge uid hotkey,
      response_body = [], response_headers = [],
      ms_error = ucs (if take 4096 err = [] then ''miner unavailable'' else take 4096 err), ms_latency_ms = 0\<rparr>"

definition grant_matches_signed_response :: "artifact_grant \<Rightarrow> miner_task_response option \<Rightarrow> bool" where
  "grant_matches_signed_response g response =
     (case response of
        None \<Rightarrow> False
      | Some r \<Rightarrow>
          grant_upload_id g = art_upload_id (mr_submission r) \<and> grant_sha256 g = art_sha256 (mr_submission r) \<and>
          grant_size_bytes g = art_size_bytes (mr_submission r) \<and> grant_format g = art_format (mr_submission r))"

section \<open>Diagnostic feedback\<close>

definition verdict :: "artifact_grant \<Rightarrow> miner_evaluation \<Rightarrow> feedback_verdict" where
  "verdict g e =
     (let passed = ev_status (me_result e) = EvalPassed in
      \<lparr>fv_uid = grant_uid g, fv_hotkey = grant_hotkey g, fv_passed = passed,
       fv_grading_duration_ms = me_grading_duration_ms e,
       fv_response_latency_ms =
         (if 0 \<le> me_latency_ms e \<and> me_latency_ms e \<le> FEEDBACK_LATENCY_MAX_MS then Some (me_latency_ms e) else None),
       fv_reason_code =
         (if passed then None
          else case ev_reason_code (me_result e) of Some (MinerCode m) \<Rightarrow> Some m | _ \<Rightarrow> None)\<rparr>)"

text \<open>The evaluation a dictionary built from the list holds for a registration: the last one.\<close>

definition evaluation_of :: "miner_evaluation list \<Rightarrow> int \<times> string \<Rightarrow> miner_evaluation option" where
  "evaluation_of es r = map_of (rev (map (\<lambda>e. (registration e, e)) es)) r"

text \<open>\<open>_send_diagnostic_feedback\<close>: \<open>send\<close> is \<open>client.feedback\<close>, \<open>None\<close> when it raises; a
  missing evaluation or a refused request is caught like every other exception.\<close>

definition feedback_request_for ::
  "string \<Rightarrow> string \<Rightarrow> artifact_grant list \<Rightarrow> miner_evaluation list \<Rightarrow> feedback_request option" where
  "feedback_request_for challenge task grants es =
     (if list_ex (\<lambda>g. evaluation_of es (grant_uid g, grant_hotkey g) = None) grants then None
      else let f = \<lparr>fb_challenge_id = challenge, fb_task_id = task,
             fb_verdicts = map (\<lambda>g. verdict g (the (evaluation_of es (grant_uid g, grant_hotkey g)))) grants\<rparr> in
           if check_feedback_request f = Inr () then Some f else None)"

definition send_diagnostic_feedback ::
  "(feedback_request \<Rightarrow> bool option) \<Rightarrow> string \<Rightarrow> string \<Rightarrow> artifact_grant list \<Rightarrow> miner_evaluation list \<Rightarrow> bool" where
  "send_diagnostic_feedback send challenge task grants es =
     (if grants = [] then True
      else case feedback_request_for challenge task grants es of
        None \<Rightarrow> False
      | Some f \<Rightarrow> (case send f of None \<Rightarrow> False | Some accepted \<Rightarrow> accepted))"

section \<open>Payments and scores\<close>

definition eval_passed :: "miner_evaluation \<Rightarrow> bool" where
  "eval_passed e \<longleftrightarrow> ev_status (me_result e) = EvalPassed"

definition round_fastest :: "miner_evaluation list \<Rightarrow> int option" where
  "round_fastest es =
     (let ls = map me_latency_ms (filter (\<lambda>e. eval_passed e \<and> me_latency_ms e > 0) es) in
      if ls = [] then None else Some (Min (set ls)))"

definition round_payment :: "int option \<Rightarrow> pyfloat \<Rightarrow> real \<Rightarrow> miner_evaluation \<Rightarrow> real" where
  "round_payment fastest half_life flr e =
     (if \<not> eval_passed e then 0
      else case fastest of
        None \<Rightarrow> 1
      | Some f \<Rightarrow> if \<not> positive_finite half_life then 1
                  else speed_share flr (fin_val half_life) (of_int (max 0 (me_latency_ms e - f))))"

definition compute_round_payments :: "round_result \<Rightarrow> pyfloat \<Rightarrow> pyfloat \<Rightarrow> (int, real) dict" where
  "compute_round_payments r half_life flr =
     (if rr_status r \<noteq> Completed then []
      else fold (\<lambda>e d. AList.update (me_uid e)
             (round_payment (round_fastest (rr_evaluations r)) half_life (clamp_unit flr) e) d)
           (rr_evaluations r) [])"

definition eligible_evaluations :: "(int, string) dict \<Rightarrow> miner_evaluation list \<Rightarrow> miner_evaluation list" where
  "eligible_evaluations active es = filter (\<lambda>e. map_of active (me_uid e) = Some (me_hotkey e)) es"

definition filtered_round :: "round_result \<Rightarrow> miner_evaluation list \<Rightarrow> round_result" where
  "filtered_round r es = \<lparr>rr_status = Completed, rr_reason = rr_reason r, rr_evaluations = es,
     rr_retry_after_s = None, rr_reason_code = None, rr_stage = None, rr_challenge_id = None, rr_task_id = None,
     rr_assigned_miners = [], rr_diagnostic_evaluations = [], rr_dispatch_failures = [], rr_checks_total = None\<rparr>"

text \<open>\<open>now\<close> is the clock the engine reads when no observation time is given.\<close>

definition apply_round_scores ::
  "round_result \<Rightarrow> (int, string) dict \<Rightarrow> pyfloat \<Rightarrow> pyfloat \<Rightarrow> pyfloat \<Rightarrow> (engine, py_error, bool) meth" where
  "apply_round_scores r active half_life flr now =
     (if rr_status r \<noteq> Completed then return False
      else let eligible = eligible_evaluations active (rr_evaluations r);
               payments = compute_round_payments (filtered_round r eligible) half_life flr in
           andthen (update (map (\<lambda>(u, x). (u, Fin x)) payments)
                     (Some (fold (\<lambda>e. AList.update (me_uid e) (the (map_of active (me_uid e)))) eligible []))
                     (Some (map me_uid eligible)) None now) (\<lambda>observed_at.
           andthen (record_nonserving (keys active) (Some (Fin observed_at)) now) (\<lambda>_. return True)))"


section \<open>Lemmas\<close>

lemma round_fastest_member:
  assumes "round_fastest es = Some f"
  shows "\<exists>e \<in> set es. eval_passed e \<and> me_latency_ms e = f"
proof -
  let ?ls = "map me_latency_ms (filter (\<lambda>e. eval_passed e \<and> me_latency_ms e > 0) es)"
  have "?ls \<noteq> []" "f = Min (set ?ls)" using assms by (auto simp: round_fastest_def Let_def split: if_splits)
  then have "f \<in> set ?ls" using Min_in [of "set ?ls"] by (metis List.finite_set set_empty)
  then show ?thesis by auto
qed

lemma round_payment_bounds:
  "\<not> eval_passed e \<Longrightarrow> round_payment fs hl (clamp_unit flr) e = 0"
  "eval_passed e \<Longrightarrow> clamp_unit flr \<le> round_payment fs hl (clamp_unit flr) e"
  "round_payment fs hl (clamp_unit flr) e \<le> 1"
  "0 \<le> round_payment fs hl (clamp_unit flr) e"
proof -
  have share: "clamp_unit flr \<le> speed_share (clamp_unit flr) (fin_val hl) (of_int (max 0 (me_latency_ms e - f)))"
    "speed_share (clamp_unit flr) (fin_val hl) (of_int (max 0 (me_latency_ms e - f))) \<le> 1"
    if "positive_finite hl" for f
    using that clamp_unit_bounds [of flr]
    by (auto intro!: speed_share_bounds simp: positive_finite_def)
  show "\<not> eval_passed e \<Longrightarrow> round_payment fs hl (clamp_unit flr) e = 0" by (simp add: round_payment_def)
  show lo: "eval_passed e \<Longrightarrow> clamp_unit flr \<le> round_payment fs hl (clamp_unit flr) e"
    using share(1) clamp_unit_bounds [of flr] by (auto simp: round_payment_def split: option.splits)
  show "round_payment fs hl (clamp_unit flr) e \<le> 1"
    using share(2) by (auto simp: round_payment_def split: option.splits)
  show "0 \<le> round_payment fs hl (clamp_unit flr) e"
    using lo clamp_unit_bounds [of flr] by (cases "eval_passed e") (auto simp: round_payment_def)
qed

lemma round_payment_antimono:
  assumes "eval_passed e" "eval_passed e2" "me_latency_ms e \<le> me_latency_ms e2"
  shows "round_payment fs hl (clamp_unit flr) e2 \<le> round_payment fs hl (clamp_unit flr) e"
  using assms clamp_unit_bounds [of flr]
  by (auto simp: round_payment_def positive_finite_def split: option.splits intro!: speed_share_antimono)

lemma compute_round_payments_eq:
  assumes "rr_status r = Completed" "distinct (map me_uid (rr_evaluations r))"
  shows "compute_round_payments r hl flr =
    map (\<lambda>e. (me_uid e, round_payment (round_fastest (rr_evaluations r)) hl (clamp_unit flr) e)) (rr_evaluations r)"
  unfolding compute_round_payments_def using assms by (subst keys_fold_update) simp_all

text \<open>The payment a completed round gives to a uid, if it was evaluated.\<close>

definition paid :: "round_result \<Rightarrow> pyfloat \<Rightarrow> pyfloat \<Rightarrow> int \<Rightarrow> real option" where
  "paid r hl flr u = map_of (compute_round_payments r hl flr) u"

lemma map_of_uid_map:
  assumes "distinct (map me_uid es)" "e \<in> set es"
  shows "map_of (map (\<lambda>e. (me_uid e, f e)) es) (me_uid e) = Some (f e)"
  using assms by (induction es) (auto simp: image_iff)

lemma fastest_paid_in_full:
  assumes "e \<in> set es" "eval_passed e" "\<forall>e2 \<in> set es. eval_passed e2 \<longrightarrow> me_latency_ms e \<le> me_latency_ms e2"
  shows "round_payment (round_fastest es) hl fl e = 1"
proof (cases "round_fastest es")
  case None
  then show ?thesis using assms(2) by (simp add: round_payment_def)
next
  case (Some f)
  then obtain e2 where "e2 \<in> set es" "eval_passed e2" "me_latency_ms e2 = f"
    using round_fastest_member by blast
  then have "me_latency_ms e - f \<le> 0" using assms(3) by auto
  then show ?thesis using assms(2) Some by (simp add: round_payment_def max_def)
qed

text \<open>C23. Payments of a completed round.  Exactly the evaluated miners are listed.  Correctness is a hard
  gate: a miner that did not pass is paid 0.  A pass is paid between the floor and 1, a pass that is
  not slower than another is paid at least as much, and the fastest pass is paid 1.  Any other round
  pays nobody.\<close>

theorem round_payments_gate_and_order:
  assumes "distinct (map me_uid (rr_evaluations r))"
  shows "if rr_status r \<noteq> Completed then \<forall>u. paid r hl flr u = None
    else (\<forall>u. paid r hl flr u \<noteq> None \<longleftrightarrow> u \<in> me_uid ` set (rr_evaluations r)) \<and>
      (\<forall>e \<in> set (rr_evaluations r). \<exists>x. paid r hl flr (me_uid e) = Some x \<and>
         (if eval_passed e then clamp_unit flr \<le> x \<and> x \<le> 1 else x = 0) \<and>
         (eval_passed e \<and> (\<forall>e2 \<in> set (rr_evaluations r). eval_passed e2 \<longrightarrow> me_latency_ms e \<le> me_latency_ms e2)
            \<longrightarrow> x = 1) \<and>
         (\<forall>e2 \<in> set (rr_evaluations r). \<forall>y. paid r hl flr (me_uid e2) = Some y \<and> eval_passed e \<and>
            eval_passed e2 \<and> me_latency_ms e \<le> me_latency_ms e2 \<longrightarrow> y \<le> x))"
proof (cases "rr_status r = Completed")
  case True
  let ?f = "round_payment (round_fastest (rr_evaluations r)) hl (clamp_unit flr)"
  have p: "paid r hl flr (me_uid e) = Some (?f e)" if "e \<in> set (rr_evaluations r)" for e
    using that assms compute_round_payments_eq [OF True assms] map_of_uid_map by (simp add: paid_def)
  have dom: "paid r hl flr u \<noteq> None \<longleftrightarrow> u \<in> me_uid ` set (rr_evaluations r)" for u
    using compute_round_payments_eq [OF True assms] by (simp add: paid_def map_of_eq_None_iff image_image)
  have each: "(if eval_passed e then clamp_unit flr \<le> ?f e \<and> ?f e \<le> 1 else ?f e = 0)" for e
    using round_payment_bounds by auto
  show ?thesis
    unfolding if_not_P [OF not_not [THEN iffD2, OF True]]
  proof (intro conjI allI ballI)
    show "paid r hl flr u \<noteq> None \<longleftrightarrow> u \<in> me_uid ` set (rr_evaluations r)" for u by (rule dom)
    fix e assume e: "e \<in> set (rr_evaluations r)"
    have "y \<le> ?f e" if "e2 \<in> set (rr_evaluations r)" "paid r hl flr (me_uid e2) = Some y" "eval_passed e"
      "eval_passed e2" "me_latency_ms e \<le> me_latency_ms e2" for e2 y
      using p [OF that(1)] that(2) round_payment_antimono [OF that(3-5)] by simp
    then show "\<exists>x. paid r hl flr (me_uid e) = Some x \<and>
         (if eval_passed e then clamp_unit flr \<le> x \<and> x \<le> 1 else x = 0) \<and>
         (eval_passed e \<and> (\<forall>e2 \<in> set (rr_evaluations r). eval_passed e2 \<longrightarrow> me_latency_ms e \<le> me_latency_ms e2)
            \<longrightarrow> x = 1) \<and>
         (\<forall>e2 \<in> set (rr_evaluations r). \<forall>y. paid r hl flr (me_uid e2) = Some y \<and> eval_passed e \<and>
            eval_passed e2 \<and> me_latency_ms e \<le> me_latency_ms e2 \<longrightarrow> y \<le> x)"
      using p [OF e] each fastest_paid_in_full [OF e] by (intro exI [of _ "?f e"]) blast
  qed
next
  case False
  then show ?thesis by (simp add: paid_def compute_round_payments_def)
qed


definition passed_result :: evaluation_result where
  "passed_result = \<lparr>ev_status = EvalPassed, ev_reason = [], ev_checks = [], ev_script_exit_code = None,
     ev_reason_code = None, ev_stage = Some S_CHECK, ev_failed_check = None\<rparr>"

definition failed_result :: evaluation_result where
  "failed_result = passed_result\<lparr>ev_status := EvalFailed, ev_reason := ucs ''no'',
     ev_reason_code := Some (MinerCode CHECK_FAILED)\<rparr>"

definition evaluation_example :: "int \<Rightarrow> string \<Rightarrow> int \<Rightarrow> evaluation_result \<Rightarrow> miner_evaluation" where
  "evaluation_example u hk l res = \<lparr>me_uid = u, me_hotkey = hk, me_latency_ms = l, me_result = res,
     me_grading_duration_ms = 5, me_trajectory = None\<rparr>"

definition round_example :: round_result where
  "round_example = filtered_round
     \<lparr>rr_status = Completed, rr_reason = [], rr_evaluations = [], rr_retry_after_s = None, rr_reason_code = None,
      rr_stage = None, rr_challenge_id = None, rr_task_id = None, rr_assigned_miners = [],
      rr_diagnostic_evaluations = [], rr_dispatch_failures = [], rr_checks_total = None\<rparr>
     [evaluation_example 0 ''a'' 100 passed_result, evaluation_example 1 ''b'' 200 passed_result,
      evaluation_example 2 ''c'' 10 failed_result]"

lemmas round_examples = round_example_def filtered_round_def evaluation_example_def passed_result_def
  failed_result_def eval_passed_def

theorem round_payments_gate_and_order_witness:
  "paid round_example (Fin 100) (Fin 0) 0 = Some 1 \<and> paid round_example (Fin 100) (Fin 0) 2 = Some 0"
proof -
  have "distinct (map me_uid (rr_evaluations round_example))" by (simp add: round_examples)
  from round_payments_gate_and_order [OF this, of "Fin 100" "Fin 0"]
  have "\<exists>x. paid round_example (Fin 100) (Fin 0) 0 = Some x \<and> x = 1"
    "\<exists>x. paid round_example (Fin 100) (Fin 0) 2 = Some x \<and> x = 0"
    by (simp_all add: round_examples)
  then show ?thesis by simp
qed

section \<open>Scores after a round\<close>

lemma eligible_uids: "set (map me_uid (eligible_evaluations active es)) \<subseteq> set (keys active)"
  by (auto simp: eligible_evaluations_def dest!: map_of_SomeD) force

lemma eligible_distinct:
  "distinct (map me_uid es) \<Longrightarrow> distinct (map me_uid (eligible_evaluations active es))"
  by (simp add: eligible_evaluations_def distinct_map_filter)

lemma clamp_payment: "clamp_reward (Fin (round_payment fs hl (clamp_unit flr) e)) = round_payment fs hl (clamp_unit flr) e"
  using round_payment_bounds(4) [of fs hl flr e] by (simp add: clamp_reward_def)

lemma map_of_map_Fin: "map_of (map (\<lambda>(u, x). (u, Fin x)) d) v = map_option Fin (map_of d v)"
  by (induction d) auto

lemma keys_map_Fin: "keys (map (\<lambda>(u, x). (u, Fin x)) d) = keys d"
  by (induction d) auto

text \<open>What a completed round adds to a uid's history: its payment when it was evaluated under its
  current hotkey, a zero when it has a history and is no longer active, nothing otherwise.\<close>

definition round_observation ::
  "engine \<Rightarrow> round_result \<Rightarrow> (int, string) dict \<Rightarrow> pyfloat \<Rightarrow> pyfloat \<Rightarrow> int \<Rightarrow> real option" where
  "round_observation e r active hl flr v =
     (case paid (filtered_round r (eligible_evaluations active (rr_evaluations r))) hl flr v of
        Some x \<Rightarrow> Some x
      | None \<Rightarrow> if decay e \<and> hist e v \<noteq> [] \<and> v \<notin> set (keys active) then Some 0 else None)"

lemma paid_bounds:
  assumes "distinct (map me_uid es)" "paid (filtered_round r es) hl flr v = Some x"
  shows "0 \<le> x" "v \<in> me_uid ` set es" "clamp_reward (Fin x) = x"
proof -
  have eq: "compute_round_payments (filtered_round r es) hl flr =
      map (\<lambda>e. (me_uid e, round_payment (round_fastest es) hl (clamp_unit flr) e)) es"
    using assms(1) by (subst compute_round_payments_eq) (simp_all add: filtered_round_def)
  then obtain e where "e \<in> set es" "v = me_uid e" "x = round_payment (round_fastest es) hl (clamp_unit flr) e"
    using assms(2) by (auto simp: paid_def dest!: map_of_SomeD)
  then show "0 \<le> x" "v \<in> me_uid ` set es" "clamp_reward (Fin x) = x"
    using round_payment_bounds(4) clamp_payment by auto
qed

text \<open>The update of a completed round: each paid uid gets its payment, every other history is kept.\<close>

lemma payments_recorded:
  fixes es r hl flr active
  defines "pays \<equiv> compute_round_payments (filtered_round r es) hl flr"
    and "hks \<equiv> fold (\<lambda>x. AList.update (me_uid x) (the (map_of active (me_uid x)))) es []"
  assumes inv: "engine_inv e" and t: "timestamp_of None now = Inr ts"
    and des: "distinct (map me_uid es)" and pes: "\<forall>x \<in> set es. 0 \<le> me_uid x"
  shows "\<exists>e1. update (map (\<lambda>(u, x). (u, Fin x)) pays) (Some hks) (Some (map me_uid es)) None now e = (Inr ts, e1) \<and>
    (\<forall>v. hist e1 v = with_observation e ts v (paid (filtered_round r es) hl flr v))"
proof -
  have pays: "pays = map (\<lambda>x. (me_uid x, round_payment (round_fastest es) hl (clamp_unit flr) x)) es"
    unfolding pays_def using des by (subst compute_round_payments_eq) (simp_all add: filtered_round_def)
  have hks: "hks = map (\<lambda>x. (me_uid x, the (map_of active (me_uid x)))) es"
    unfolding hks_def using des by (subst keys_fold_update) simp_all
  let ?pf = "map (\<lambda>(u, x). (u, Fin x)) pays"
  have keys: "keys ?pf = map me_uid es" unfolding keys_map_Fin pays by simp
  have kd: "distinct (keys ?pf)" unfolding keys by (rule des)
  have kp: "\<forall>u \<in> set (keys ?pf). 0 \<le> u" unfolding keys using pes by simp
  obtain e1 where u: "update ?pf (Some hks) (Some (map me_uid es)) None now e = (Inr ts, e1)"
    and h1: "\<And>v. hist e1 v = with_observation e ts v (observation_for e ?pf (Some (map me_uid es)) v)"
    using update_effect [OF inv kd kp _ _ t, of "Some (map me_uid es)" "Some hks"] pes
    by (auto simp: hks)
  have none: "map_of pays v = None \<longleftrightarrow> v \<notin> set (map me_uid es)" for v
    by (simp add: pays map_of_eq_None_iff image_image)
  have "observation_for e ?pf (Some (map me_uid es)) v = paid (filtered_round r es) hl flr v" for v
    using paid_bounds(3) [OF des, of r hl flr v] none [of v]
    by (cases "map_of pays v")
       (simp_all add: observation_for_def map_of_map_Fin paid_def pays_def [symmetric])
  then show ?thesis using u h1 by simp
qed

text \<open>C22. Scores after a round.  A round that did not complete leaves the engine untouched and reports
  so.  A completed round adds to every history exactly the intended observation at one common
  timestamp, cut to the newest \<open>max_samples\<close>: a miner evaluated under its current hotkey gets its
  payment; with decay on, a miner with a history that is no longer active gets a zero; everyone else,
  an active miner that was not evaluated or whose hotkey changed since included, gets nothing.\<close>

theorem round_scores_effect:
  assumes inv: "engine_inv e" and t: "timestamp_of None now = Inr ts"
    and d: "distinct (map me_uid (rr_evaluations r))" and pos: "\<forall>x \<in> set (rr_evaluations r). 0 \<le> me_uid x"
  shows "if rr_status r \<noteq> Completed then apply_round_scores r active hl flr now e = (Inr False, e)
    else \<exists>e'. apply_round_scores r active hl flr now e = (Inr True, e') \<and>
      (\<forall>v. hist e' v = with_observation e ts v (round_observation e r active hl flr v))"
proof (cases "rr_status r = Completed")
  case False
  then show ?thesis by (simp add: apply_round_scores_def return_apply)
next
  case True
  define es where "es = eligible_evaluations active (rr_evaluations r)"
  define pays where "pays = compute_round_payments (filtered_round r es) hl flr"
  define hks where "hks = fold (\<lambda>x. AList.update (me_uid x) (the (map_of active (me_uid x)))) es []"
  have des: "distinct (map me_uid es)" unfolding es_def by (rule eligible_distinct [OF d])
  have pes: "\<forall>x \<in> set es. 0 \<le> me_uid x" using pos by (auto simp: es_def eligible_evaluations_def)
  obtain e1 where u: "update (map (\<lambda>(u, x). (u, Fin x)) pays) (Some hks) (Some (map me_uid es)) None now e = (Inr ts, e1)"
    and h1: "\<And>v. hist e1 v = with_observation e ts v (paid (filtered_round r es) hl flr v)"
    using payments_recorded [OF inv t des pes, of r hl flr active] unfolding pays_def hks_def by blast
  have frame: "decay e1 = decay e" "max_samples e1 = max_samples e" using update_frame u by auto
  have inv1: "engine_inv e1" using keepsD [OF keeps_update inv] u by (metis snd_conv)
  have ts: "timestamp_of (Some (Fin ts)) now = Inr ts"
    using t by (auto simp: timestamp_of_def Let_def split: if_splits)
  obtain e2 where n: "record_nonserving (keys active) (Some (Fin ts)) now e1 = (Inr (), e2)"
    and h2: "\<And>v. hist e2 v = (if decay e1 \<and> hist e1 v \<noteq> [] \<and> v \<notin> set (keys active)
       then last_n (max_samples e1) (hist e1 v @ [(ts, 0)]) else hist e1 v)"
    using record_nonserving_effect [OF inv1 ts, of "keys active"] by blast
  have "hist e2 v = with_observation e ts v (round_observation e r active hl flr v)" for v
    using h2 [of v] h1 [of v] frame paid_bounds(2) [OF des, of r hl flr v] eligible_uids
    by (auto simp: with_observation_def round_observation_def es_def split: option.splits)
  moreover have "apply_round_scores r active hl flr now e = (Inr True, e2)"
    using True u n
    by (simp add: apply_round_scores_def method_simps es_def pays_def hks_def Let_def)
  ultimately show ?thesis using True by auto
qed


theorem round_scores_effect_witness:
  "\<exists>e'. apply_round_scores round_example [(0, ''a''), (2, ''x'')] (Fin 100) (Fin 0) (Fin 9) engine_example = (Inr True, e') \<and>
     hist e' 0 = [(2, 1), (9, 1)] \<and> hist e' 1 = [(2, 1), (9, 0)] \<and> hist e' 2 = []"
proof -
  have st: "rr_status round_example = Completed" by (simp add: round_examples)
  obtain e' where e': "apply_round_scores round_example [(0, ''a''), (2, ''x'')] (Fin 100) (Fin 0) (Fin 9) engine_example = (Inr True, e')"
    "\<And>v. hist e' v = with_observation engine_example 9 v
        (round_observation engine_example round_example [(0, ''a''), (2, ''x'')] (Fin 100) (Fin 0) v)"
    using round_scores_effect [OF engine_example_inv, of "Fin 9" 9 round_example "[(0, ''a''), (2, ''x'')]" "Fin 100" "Fin 0"] st
    by (auto simp: timestamp_of_def round_examples)
  have el: "eligible_evaluations [(0, ''a''), (2, ''x'')] (rr_evaluations round_example) =
      [evaluation_example 0 ''a'' 100 passed_result]"
    by (simp add: eligible_evaluations_def round_examples)
  have "paid (filtered_round round_example [evaluation_example 0 ''a'' 100 passed_result]) (Fin 100) (Fin 0) v =
      (if v = 0 then Some 1 else None)" for v
    by (simp add: paid_def compute_round_payments_def round_payment_def round_fastest_def positive_finite_def round_examples)
  then show ?thesis
    using e' el
    by (simp add: round_observation_def with_observation_def engine_example_def hist_def dict_get_def last_n_def)
qed

section \<open>Feedback\<close>

lemma verdict_ok:
  assumes "artifact_grant_fields g" "0 \<le> me_grading_duration_ms e" "me_grading_duration_ms e \<le> SAFE_INTEGER_MAX"
  shows "check_feedback_verdict (verdict g e) = Inr ()"
  using assms
  by (auto simp: check_feedback_verdict_def verdict_def Let_def artifact_grant_fields_def)

text \<open>Feedback always goes out.  For the grants of an accepted reveal and evaluations that cover them
  with a duration in the wire range, the feedback request is built and passes its own validators,
  whatever the latencies and reasons are; a passed verdict carries no reason, and a reason is sent
  only when it blames the miner.\<close>

theorem feedback_request_built:
  assumes "check_commit_reveal rv = Inr ()" "submission_grants rv \<noteq> []"
    and "bounded_identifier challenge" "hex_digest task"
    and "\<forall>g \<in> set (submission_grants rv). \<exists>e. evaluation_of es (grant_uid g, grant_hotkey g) = Some e \<and>
        0 \<le> me_grading_duration_ms e \<and> me_grading_duration_ms e \<le> SAFE_INTEGER_MAX"
  shows "\<exists>f. feedback_request_for challenge task (submission_grants rv) es = Some f \<and>
    check_feedback_request f = Inr () \<and> length (fb_verdicts f) = length (submission_grants rv) \<and>
    (\<forall>v \<in> set (fb_verdicts f). fv_passed v \<longrightarrow> fv_reason_code v = None)"
proof -
  let ?gs = "submission_grants rv"
  let ?f = "\<lparr>fb_challenge_id = challenge, fb_task_id = task,
     fb_verdicts = map (\<lambda>g. verdict g (the (evaluation_of es (grant_uid g, grant_hotkey g)))) ?gs\<rparr>"
  have rv: "list_all artifact_grant_fields ?gs" "length ?gs \<le> 1024" "distinct (result_uids rv)" "distinct (result_hotkeys rv)"
    using assms(1) by (auto simp: check_commit_reveal_def split: if_splits)
  have vs: "list_all (\<lambda>v. check_feedback_verdict v = Inr ()) (fb_verdicts ?f)"
    using assms(5) rv(1) verdict_ok by (fastforce simp: list_all_iff)
  have uids: "map fv_uid (fb_verdicts ?f) = map grant_uid ?gs" "map fv_hotkey (fb_verdicts ?f) = map grant_hotkey ?gs"
    by (simp_all add: verdict_def Let_def)
  have dup: "\<not> has_duplicates (map fv_uid (fb_verdicts ?f))" "\<not> has_duplicates (map fv_hotkey (fb_verdicts ?f))"
    unfolding uids using rv(3,4) by (simp_all add: result_uids_def result_hotkeys_def)
  have "1 \<le> length ?gs" using assms(2) by (cases ?gs) auto
  then have ok: "check_feedback_request ?f = Inr ()"
    unfolding check_feedback_request_def using assms(3,4) rv(2) vs dup by (simp del: has_duplicates_iff)
  have "feedback_request_for challenge task ?gs es = Some ?f"
    unfolding feedback_request_for_def Let_def using assms(5) ok by (auto simp: list_ex_iff)
  then show ?thesis using ok by (auto simp: verdict_def Let_def)
qed

theorem feedback_request_built_witness:
  "\<exists>f. feedback_request_for ''ch'' digest_a (submission_grants reveal_example)
       [evaluation_example 7 ''h7'' (-7) failed_result] = Some f \<and>
     check_feedback_request f = Inr () \<and> length (fb_verdicts f) = length (submission_grants reveal_example)"
proof -
  have "check_commit_reveal reveal_example = Inr ()"
    by (simp add: check_commit_reveal_def exchange_examples field_defs result_uids_def result_hotkeys_def
        artifact_ref_fields_def artifact_grant_fields_def artifact_failure_fields_def)
  from feedback_request_built [OF this, of "''ch''" digest_a "[evaluation_example 7 ''h7'' (-7) failed_result]"]
  show ?thesis
    by (auto simp: exchange_examples evaluation_of_def registration_def evaluation_example_def field_defs)
qed

section \<open>The released policy\<close>

lemma release_image_pinned: "digest_pinned (v3_image release_policy)"
  by (simp add: digest_pinned_def release_policy_def image_char_def hex_digest_def hex_char_def Let_def)

text \<open>The released policy builds.  An unprivileged service user with Docker always gets a round policy
  from the released validator policy, with a pinned sandbox image, users above root, and the released
  quorum within the released number of miners.\<close>

theorem release_round_policy_built:
  assumes "0 < uid" "0 < gid" "1 \<le> dispatch" "1 \<le> grading"
  shows "\<exists>rp. build_round_policy uid gid (Some docker) release_policy dispatch grading = Inr rp \<and>
    digest_pinned (sp_image (rp_supervisor rp)) \<and>
    0 < candidate_uid (rp_supervisor rp) \<and> 0 < trusted_uid (rp_supervisor rp) \<and>
    rp_miners_per_task rp = 128 \<and> rp_commit_quorum rp = 4 \<and> rp_min_lease_s rp = 600"
  using assms release_image_pinned
  by (simp add: build_round_policy_def check_archive_limits_def check_submission_limits_def check_tree_limits_def
      check_patch_limits_def check_script_limits_def check_supervisor_policy_def release_supervisor_def
      check_round_policy_def release_policy_def)

theorem release_round_policy_built_witness:
  "\<exists>rp. build_round_policy 1000 1000 (Some ''/usr/bin/docker'') release_policy 8 2 = Inr rp \<and> rp_miners_per_task rp = 128"
  using release_round_policy_built [of 1000 1000 8 2 "''/usr/bin/docker''"] by auto

end
