(* ===== verification/RoundFlow.thy ===== *)
theory RoundFlow
  imports Rounds
begin

text \<open>
  \<open>evaluate_round\<close> of \<open>src/rlvr/v3/round.py\<close>: lease, workspace, dispatch, commit and reveal,
  verifier, grading of every distinct submission, feedback.  The outside world is the record
  \<open>round_env\<close>: the problem server, the miners, HTTP, zstd and tar, the clock, the disk, and Docker
  (one \<open>world\<close> per graded miner).  Gradings run concurrently but share nothing, so a schedule matters
  only through which gradings had not started when another one failed (\<open>en_not_started\<close>).
\<close>

section \<open>Stops\<close>

datatype round_stop =
    Stop ustring round_reason stage
  | Crash stage string

record progress =
  pg_evaluations :: "miner_evaluation list"
  pg_failures :: "(int \<times> string \<times> miner_reason) list"
  pg_checks :: "nat option"

definition no_progress :: progress where
  "no_progress = \<lparr>pg_evaluations = [], pg_failures = [], pg_checks = None\<rparr>"

definition stage_words :: "stage \<Rightarrow> string" where
  "stage_words s = map (\<lambda>c. if c = CHR ''_'' then CHR '' '' else c) (stage_value s)"

fun crash_code :: "stage \<Rightarrow> round_reason" where
  "crash_code S_WORKSPACE_DOWNLOAD = WORKSPACE_DOWNLOAD_FAILED"
| "crash_code S_WORKSPACE_EXTRACTION = WORKSPACE_EXTRACTION_FAILED"
| "crash_code S_WORKSPACE_MATERIALIZATION = WORKSPACE_MATERIALIZATION_FAILED"
| "crash_code S_VERIFIER_DOWNLOAD = VERIFIER_DOWNLOAD_FAILED"
| "crash_code S_VERIFIER_EXTRACTION = VERIFIER_INVALID"
| "crash_code S_VERIFIER_MANIFEST = VERIFIER_INVALID"
| "crash_code S_CLEANUP = CLEANUP_FAILED"
| "crash_code _ = VALIDATOR_ERROR"

definition finish :: "lease_response \<Rightarrow> round_status \<Rightarrow> ustring \<Rightarrow> round_reason option \<Rightarrow> stage \<Rightarrow> progress \<Rightarrow> round_result" where
  "finish lease status reason code stg pg =
     (let observed = sort_key me_uid (pg_evaluations pg) in
      \<lparr>rr_status = status, rr_reason = reason, rr_evaluations = (if status = Completed then observed else []),
       rr_retry_after_s = None, rr_reason_code = code, rr_stage = Some stg,
       rr_challenge_id = Some (lease_challenge_id lease), rr_task_id = Some (lease_task_id lease),
       rr_assigned_miners = map (\<lambda>s. (slot_uid (sub_slot s), slot_hotkey (sub_slot s))) (slot_pool lease),
       rr_diagnostic_evaluations = observed,
       rr_dispatch_failures = sort_key fst (pg_failures pg), rr_checks_total = pg_checks pg\<rparr>)"

fun stopped :: "lease_response \<Rightarrow> round_stop \<Rightarrow> progress \<Rightarrow> round_result" where
  "stopped lease (Stop reason code stg) pg = finish lease Abandoned reason (Some code) stg pg"
| "stopped lease (Crash stg name) pg =
     finish lease Abandoned (ucs (''validator failed during '' @ stage_words stg @ '' ('' @ name @ '')''))
       (Some (crash_code stg)) stg pg"

section \<open>The outside world\<close>

record lease_outcome =
  lo_challenge :: "lease_response option"
  lo_reason :: ustring
  lo_retry_after_s :: "int option"

record dir_entry =
  de_name :: string
  de_is_dir :: bool
  de_is_symlink :: bool
  de_removable :: bool

record round_env =
  en_lease :: "(int \<times> string) list \<Rightarrow> int \<Rightarrow> lease_outcome"
  en_time :: "nat \<Rightarrow> real"
  en_dirs_ok :: bool
  en_work_entries :: "dir_entry list"
  en_cache_entries :: "dir_entry list"
  en_tools :: bool
  en_temp_ok :: bool
  en_cached :: "node option"
  en_cache_trusted :: bool
  en_staged :: bool
  en_raced :: "node option"
  en_free :: "nat \<Rightarrow> int"
  en_origin :: "string \<Rightarrow> string option"
  en_sha_bytes :: "bytes \<Rightarrow> string"
  en_sha_text :: "ustring \<Rightarrow> string"
  en_http :: "string \<Rightarrow> http_outcome"
  en_zstd :: "bytes \<Rightarrow> zstd_run"
  en_tar :: "bytes \<Rightarrow> tar_member list option"
  en_parse :: "bytes \<Rightarrow> jvalue option"
  en_solvers :: "(int \<times> string) list"
  en_solve :: "int \<times> string \<Rightarrow> miner_task_request \<Rightarrow> (miner_submission \<times> miner_task_response option) option"
  en_commit :: "commit_request \<Rightarrow> commit_reveal option"
  en_world :: "nat \<Rightarrow> world"
  en_round_dir :: string
  en_submission_dir :: "nat \<Rightarrow> string option"
  en_duration_ms :: "nat \<Rightarrow> int"
  en_workspace_removed :: "nat \<Rightarrow> bool"
  en_not_started :: "nat \<Rightarrow> bool"
  en_feedback :: "feedback_request \<Rightarrow> bool option"

section \<open>Lease and workspace\<close>

definition pool_registrations_of :: "lease_response \<Rightarrow> (int \<times> string) list" where
  "pool_registrations_of lease = map (\<lambda>s. (slot_uid (sub_slot s), slot_hotkey (sub_slot s))) (slot_pool lease)"

text \<open>The guards before anything is downloaded, in order, at stage \<open>lease\<close>.\<close>

definition lease_guard :: "round_policy \<Rightarrow> (int \<times> string) list \<Rightarrow> lease_response \<Rightarrow> real \<Rightarrow> round_stop option" where
  "lease_guard p offered lease now =
     (let pool = set (pool_registrations_of lease);
          expected = nat (min (rp_miners_per_task p) (int (length offered))) in
      if card pool \<noteq> expected \<or> pool \<noteq> set (take expected offered)
        then Some (Stop (ucs ''lease pool is not the first miners the validator offered'') SLOT_POOL_MISMATCH S_LEASE)
      else if commit_min_signed_responses lease \<noteq> rp_commit_quorum p
        then Some (Stop (ucs ''lease quorum differs from release policy'') LEASE_QUORUM_MISMATCH S_LEASE)
      else if of_int (lease_expires_at lease) - now < of_int (rp_min_lease_s p)
        then Some (Stop (ucs ''lease leaves miners less time than release policy requires'') LEASE_TOO_SHORT S_LEASE)
      else if identity_profile (lease_identity lease) \<noteq> rp_execution_profile_id p
        then Some (Stop (ucs ''unsupported execution profile'') UNSUPPORTED_PROFILE S_LEASE)
      else if identity_policy (lease_identity lease) \<noteq> rp_verifier_policy p
        then Some (Stop (ucs ''unsupported verifier policy'') UNSUPPORTED_VERIFIER_POLICY S_LEASE)
      else None)"

definition miner_directory_name :: "string \<Rightarrow> bool" where
  "miner_directory_name name \<longleftrightarrow> prefix ''miner-'' name \<and> drop 6 name \<noteq> [] \<and> list_all is_digit (drop 6 name)"

definition managed_name :: "string \<Rightarrow> bool" where
  "managed_name name \<longleftrightarrow> prefix ''hone-v3-round-'' name \<or> hex_digest name \<or> miner_directory_name name"

text \<open>\<open>_remove_tree\<close>: the class of the exception it raises, if any.\<close>

definition remove_tree :: "bool \<Rightarrow> dir_entry \<Rightarrow> string option" where
  "remove_tree tools d =
     (if de_is_symlink d \<or> \<not> de_is_dir d then Some ''ValueError''
      else if \<not> managed_name (de_name d) then Some ''ValueError''
      else if \<not> tools then Some ''RuntimeError''
      else if \<not> de_removable d then Some ''RuntimeError''
      else None)"

definition clean_work_entry :: "bool \<Rightarrow> dir_entry \<Rightarrow> string option" where
  "clean_work_entry tools d =
     (if prefix ''hone-v3-round-'' (de_name d) \<and> de_is_dir d \<and> \<not> de_is_symlink d then remove_tree tools d else None)"

definition clean_cache_entry :: "bool \<Rightarrow> string \<Rightarrow> dir_entry \<Rightarrow> string option" where
  "clean_cache_entry tools keep d =
     (if de_name d = keep then None
      else if de_is_dir d \<and> \<not> de_is_symlink d then remove_tree tools d
      else if prefix ''.workspace-'' (de_name d) \<and> \<not> de_removable d then Some ''OSError''
      else None)"

fun first_some :: "'a option list \<Rightarrow> 'a option" where
  "first_some [] = None"
| "first_some (None # xs) = first_some xs"
| "first_some (Some x # xs) = Some x"

definition prepare_directories :: "round_env \<Rightarrow> lease_response \<Rightarrow> round_stop option" where
  "prepare_directories env lease =
     (if \<not> en_dirs_ok env then Some (Crash S_WORKSPACE_MATERIALIZATION ''OSError'')
      else case first_some (map (clean_work_entry (en_tools env)) (en_work_entries env) @
                  map (clean_cache_entry (en_tools env) (ref_sha256 (lease_workspace lease))) (en_cache_entries env)) of
        Some name \<Rightarrow> Some (Crash S_CLEANUP name)
      | None \<Rightarrow> if \<not> en_temp_ok env then Some (Crash S_WORKSPACE_MATERIALIZATION ''OSError'') else None)"

definition obtain_workspace :: "round_env \<Rightarrow> round_policy \<Rightarrow> lease_response \<Rightarrow> round_stop + node" where
  "obtain_workspace env p lease =
     (let ref = lease_workspace lease in
      if en_cached env = None \<and> en_free env 0 < compressed_size_bytes ref + 2 * expanded_size_bytes ref
        then Inl (Stop (ucs ''insufficient workspace storage'') INSUFFICIENT_STORAGE S_WORKSPACE_DOWNLOAD)
      else
        (case (if en_cached env \<noteq> None then Inr None
               else case download_artifact (en_origin env) (en_sha_bytes env) (en_http env) (lease_workspace_url lease)
                           ref (rp_workspace_archive p) False (set (rp_artifact_origins p)) of
                 Inl _ \<Rightarrow> Inl (Crash S_WORKSPACE_DOWNLOAD ''ArtifactDownloadError'')
               | Inr b \<Rightarrow> Inr (Some b)) of
           Inl stop \<Rightarrow> Inl stop
         | Inr archive \<Rightarrow>
             let extracted = (if en_staged env then
                   snd (extract_archive (en_sha_bytes env) (en_zstd env) (en_tar env) False True archive ref
                          (rp_workspace_archive p)) else None) in
             (case ensure_cached_workspace (en_cache_trusted env) (en_cached env) extracted (en_raced env) of
                Inl _ \<Rightarrow> Inl (Crash S_WORKSPACE_EXTRACTION ''WorkspaceError'')
              | Inr n \<Rightarrow> Inr n)))"

section \<open>Dispatch and commit\<close>

definition task_for :: "lease_response \<Rightarrow> miner_slot_set \<Rightarrow> miner_task_request" where
  "task_for lease slots = \<lparr>mt_challenge_id = lease_challenge_id lease, mt_task_id = lease_task_id lease,
     mt_identity = lease_identity lease, mt_workspace = lease_workspace lease,
     mt_workspace_url = lease_workspace_url lease, mt_expires_at = lease_expires_at lease, mt_slots = slots\<rparr>"

type_synonym dispatched = "miner_submission \<times> miner_task_response option \<times> miner_reason option"

definition not_answered :: "round_env \<Rightarrow> lease_response \<Rightarrow> int \<times> string \<Rightarrow> string \<Rightarrow> miner_reason \<Rightarrow> string + dispatched" where
  "not_answered env lease reg err code =
     (let s = failed_submission (en_sha_text env) (lease_challenge_id lease) (fst reg) (snd reg) err in
      if check_miner_submission s \<noteq> Inr () then Inl ''ValidationError'' else Inr (s, None, Some code))"

definition dispatch :: "round_env \<Rightarrow> lease_response \<Rightarrow> miner_slot_set \<Rightarrow> string + dispatched" where
  "dispatch env lease slots =
     (let reg = (slot_uid (sub_slot slots), slot_hotkey (sub_slot slots)) in
      if reg \<notin> set (en_solvers env) then not_answered env lease reg ''miner is not serving'' NOT_SERVING
      else if check_miner_task_request (en_sha_text env) (task_for lease slots) \<noteq> Inr () then Inl ''ValidationError''
      else case en_solve env reg (task_for lease slots) of
        None \<Rightarrow> not_answered env lease reg ''miner dispatch failed'' DISPATCH_FAILED
      | Some (s, None) \<Rightarrow> Inr (s, None, Some RESPONSE_UNAVAILABLE)
      | Some (s, Some r) \<Rightarrow> Inr (s, Some r, None))"

definition dispatch_failures :: "lease_response \<Rightarrow> dispatched list \<Rightarrow> (int \<times> string \<times> miner_reason) list" where
  "dispatch_failures lease ds =
     concat (map2 (\<lambda>(u, hk) (_, _, failure). case failure of None \<Rightarrow> [] | Some code \<Rightarrow> [(u, hk, code)])
       (pool_registrations_of lease) ds)"

definition not_serving_failures :: "round_env \<Rightarrow> lease_response \<Rightarrow> (int \<times> string \<times> miner_reason) list" where
  "not_serving_failures env lease =
     map (\<lambda>(u, hk). (u, hk, NOT_SERVING)) (filter (\<lambda>r. r \<notin> set (en_solvers env)) (pool_registrations_of lease))"

definition signed_responses :: "dispatched list \<Rightarrow> ((int \<times> string) \<times> miner_task_response) list" where
  "signed_responses ds =
     concat (map (\<lambda>(s, parsed, _). case parsed of None \<Rightarrow> [] | Some r \<Rightarrow> [((ms_uid s, ms_hotkey s), r)]) ds)"

definition commit_for :: "lease_response \<Rightarrow> dispatched list \<Rightarrow> commit_request" where
  "commit_for lease ds = \<lparr>cr_challenge_id = lease_challenge_id lease, cr_submissions = map fst ds\<rparr>"

text \<open>From the answers to the reveal.\<close>

definition commit_round :: "round_env \<Rightarrow> lease_response \<Rightarrow> dispatched list \<Rightarrow> round_stop + commit_reveal" where
  "commit_round env lease ds =
     (if int (length (remdups (map fst (signed_responses ds)))) < commit_min_signed_responses lease
        then Inl (Stop (ucs ''signed response quorum was not met'') QUORUM_NOT_MET S_DISPATCH)
      else if check_commit_request (commit_for lease ds) \<noteq> Inr () then Inl (Crash S_DISPATCH ''ValidationError'')
      else case en_commit env (commit_for lease ds) of
        None \<Rightarrow> Inl (Stop (ucs ''commit or verifier reveal failed'') COMMIT_FAILED S_COMMIT)
      | Some rv \<Rightarrow>
          if validate_commit_reveal lease (commit_for lease ds) rv \<noteq> Inr ()
            then Inl (Stop (ucs ''commit response did not match the lease'') REVEAL_MISMATCH S_COMMIT)
          else if grading_expires_at rv \<le> \<lfloor>en_time env 2\<rfloor>
            then Inl (Stop (ucs ''grading window expired'') GRADING_EXPIRED S_COMMIT)
          else Inr rv)"

section \<open>Verifier\<close>

definition obtain_verifier :: "round_env \<Rightarrow> round_policy \<Rightarrow> lease_response \<Rightarrow> commit_reveal \<Rightarrow> round_stop + node \<times> verifier_manifest" where
  "obtain_verifier env p lease rv =
     (let ref = rv_verifier rv;
          needed = compressed_size_bytes ref + 2 * expanded_size_bytes ref +
                   max_total_file_bytes (rp_tree p) * rp_grading_concurrency p in
      if en_free env 1 < needed
        then Inl (Stop (ucs ''insufficient verifier storage'') INSUFFICIENT_STORAGE S_VERIFIER_DOWNLOAD)
      else case download_artifact (en_origin env) (en_sha_bytes env) (en_http env) (rv_verifier_url rv) ref
                  (rp_verifier_archive p) False (set (rp_artifact_origins p)) of
        Inl _ \<Rightarrow> Inl (Crash S_VERIFIER_DOWNLOAD ''ArtifactDownloadError'')
      | Inr b \<Rightarrow>
          (case extract_archive (en_sha_bytes env) (en_zstd env) (en_tar env) False True (Some b) ref
                  (rp_verifier_archive p) of
             (Inr _, Some dir) \<Rightarrow>
               (case load_manifest (en_parse env) dir (task_type (lease_identity lease)) of
                  Inl _ \<Rightarrow> Inl (Crash S_VERIFIER_MANIFEST ''ManifestError'')
                | Inr man \<Rightarrow> Inr (dir, man))
           | _ \<Rightarrow> Inl (Crash S_VERIFIER_EXTRACTION ''ArchiveError'')))"

definition latency_of :: "dispatched list \<Rightarrow> int \<times> string \<Rightarrow> int option" where
  "latency_of ds r = map_option ms_latency_ms (map_of (map (\<lambda>(s, _). ((ms_uid s, ms_hotkey s), s)) ds) r)"

text \<open>Submissions the server refused at commit.\<close>

definition refused_evaluation :: "dispatched list \<Rightarrow> artifact_failure \<Rightarrow> miner_evaluation option" where
  "refused_evaluation ds f =
     map_option (\<lambda>latency.
       \<lparr>me_uid = fail_uid f, me_hotkey = fail_hotkey f, me_latency_ms = latency,
        me_result = rejected_evaluation (ucs (miner_reason_value (fail_reason f))) (fail_reason f) S_COMMIT,
        me_grading_duration_ms = 0, me_trajectory = None\<rparr>)
       (latency_of ds (fail_uid f, fail_hotkey f))"

definition refused_evaluations :: "dispatched list \<Rightarrow> commit_reveal \<Rightarrow> miner_evaluation list option" where
  "refused_evaluations ds rv =
     (let es = map (refused_evaluation ds) (artifact_failures rv) in
      if None \<in> set es then None else Some (map the es))"

fun expected_format :: "task_identity \<Rightarrow> upload_format" where
  "expected_format (RepositoryTask _) = UNIFIED_DIFF_V1"
| "expected_format (TerminalTask _) = BASH_SCRIPT_V1"

fun grant_guard ::
  "task_identity \<Rightarrow> ((int \<times> string) \<times> miner_task_response) list \<Rightarrow> artifact_grant list \<Rightarrow> round_stop option" where
  "grant_guard i signed [] = None"
| "grant_guard i signed (g # gs) =
     (if grant_format g \<noteq> expected_format i
        then Some (Stop (ucs ''submission format did not match the task'') SUBMISSION_FORMAT_MISMATCH S_COMMIT)
      else if \<not> grant_matches_signed_response g (map_of signed (grant_uid g, grant_hotkey g))
        then Some (Stop (ucs ''submission grant did not match the signed response'') SUBMISSION_GRANT_MISMATCH S_COMMIT)
      else grant_guard i signed gs)"

section \<open>Grading\<close>

text \<open>\<open>groups\<close>: grants by digest, in the order of their first occurrence.\<close>

function group_grants :: "artifact_grant list \<Rightarrow> artifact_grant list list" where
  "group_grants [] = []"
| "group_grants (g # gs) =
     (g # filter (\<lambda>x. grant_sha256 x = grant_sha256 g) gs) #
     group_grants (filter (\<lambda>x. grant_sha256 x \<noteq> grant_sha256 g) gs)"
  by pat_completeness auto
termination by (relation "measure length") (auto simp: le_imp_less_Suc)

datatype group_outcome =
    Graded "miner_evaluation list"
  | Faulted ustring round_reason stage "miner_evaluation list"
  | Crashed string
  | NotStarted

definition verdicts ::
  "dispatched list \<Rightarrow> artifact_grant list \<Rightarrow> evaluation_result \<Rightarrow> int \<Rightarrow> miner_evaluation list" where
  "verdicts ds grants result duration =
     map (\<lambda>g. \<lparr>me_uid = grant_uid g, me_hotkey = grant_hotkey g,
        me_latency_ms = the (latency_of ds (grant_uid g, grant_hotkey g)), me_result = result,
        me_grading_duration_ms = duration,
        me_trajectory = map_option mr_trajectory (map_of (signed_responses ds) (grant_uid g, grant_hotkey g))\<rparr>) grants"

definition run_prefix_for :: "round_env \<Rightarrow> lease_response \<Rightarrow> artifact_grant \<Rightarrow> string" where
  "run_prefix_for env lease g =
     ''v3-'' @ take 12 (en_sha_text env (ucs (lease_challenge_id lease))) @ ''-'' @ dec (grant_uid g)"

definition site_of_grant ::
  "round_env \<Rightarrow> round_policy \<Rightarrow> lease_response \<Rightarrow> node \<Rightarrow> artifact_grant \<Rightarrow> grading_site" where
  "site_of_grant env p lease ver g =
     \<lparr>gs_host = en_round_dir env @ ''/miner-'' @ dec (grant_uid g), gs_verifier_host = en_round_dir env @ ''/verifier'',
      gs_verifier = ver, gs_host_base = ''.'', gs_result_tree = ''.'', gs_work_base = ''/work'',
      gs_policy = rp_supervisor p, gs_limits = rp_tree p, gs_docker = rp_docker_binary p,
      gs_run_prefix = run_prefix_for env lease g\<rparr>"

definition with_class :: "string \<Rightarrow> string \<Rightarrow> ustring" where
  "with_class txt name = ucs (txt @ '' ('' @ name @ '')'')"

definition fault_code :: "evaluation_result \<Rightarrow> round_reason" where
  "fault_code e = (case ev_reason_code e of Some (RoundCode r) \<Rightarrow> r | _ \<Rightarrow> VALIDATOR_ERROR)"

text \<open>The part of \<open>grade_once\<close> after the copy of the workspace: grade, remove the copy, report.\<close>

definition grade_workspace ::
  "round_env \<Rightarrow> round_policy \<Rightarrow> lease_response \<Rightarrow> node \<Rightarrow> verifier_manifest \<Rightarrow> dispatched list \<Rightarrow> nat \<Rightarrow>
   artifact_grant list \<Rightarrow> bytes \<Rightarrow> node \<Rightarrow> group_outcome" where
  "grade_workspace env p lease ver man ds i grants submission ws =
     (let g = hd grants;
          v = fst (evaluate_submission (en_world env i) (site_of_grant env p lease ver g) (rp_patch p) (rp_script p)
                (en_submission_dir env i) ws submission (lease_identity lease) man);
          graded = (case v of Inl _ \<Rightarrow> []
                    | Inr e \<Rightarrow> verdicts ds grants e (min (2 ^ 53 - 1) (en_duration_ms env i)));
          copy = \<lparr>de_name = ''miner-'' @ dec (grant_uid g), de_is_dir = True, de_is_symlink = False,
                  de_removable = en_workspace_removed env i\<rparr> in
      case remove_tree (en_tools env) copy of
        Some name \<Rightarrow> Faulted (with_class ''validator failed during cleanup'' name) CLEANUP_FAILED S_CLEANUP graded
      | None \<Rightarrow>
          (case v of
             Inl name \<Rightarrow> Crashed name
           | Inr e \<Rightarrow>
               if ev_status e = EvalAbandoned
                 then Faulted (ev_reason e) (fault_code e) (case ev_stage e of None \<Rightarrow> S_GRADING | Some s \<Rightarrow> s) graded
               else Graded graded))"

definition grade_once ::
  "round_env \<Rightarrow> round_policy \<Rightarrow> lease_response \<Rightarrow> commit_reveal \<Rightarrow> node \<Rightarrow> node \<Rightarrow> verifier_manifest \<Rightarrow>
   dispatched list \<Rightarrow> nat \<Rightarrow> artifact_grant list \<Rightarrow> group_outcome" where
  "grade_once env p lease rv cached ver man ds i grants =
     (case fetch_submission (en_origin env) (en_sha_bytes env) (en_http env) (hd grants) (rp_submissions p) False
             (set (rp_artifact_origins p)) of
        Inl _ \<Rightarrow> Faulted (ucs ''submission download failed'') SUBMISSION_DOWNLOAD_FAILED S_SUBMISSION_DOWNLOAD []
      | Inr submission \<Rightarrow>
          if grading_expires_at rv \<le> \<lfloor>en_time env (3 + i)\<rfloor>
            then Faulted (ucs ''grading window expired'') GRADING_EXPIRED S_WORKSPACE_MATERIALIZATION []
          else if en_free env (2 + i) < max_total_file_bytes (rp_tree p)
            then Faulted (ucs ''insufficient grading storage'') INSUFFICIENT_STORAGE S_WORKSPACE_MATERIALIZATION []
          else case materialize_workspace (Some cached) True False of
            (Inr _, Some ws) \<Rightarrow> grade_workspace env p lease ver man ds i grants submission ws
          | _ \<Rightarrow> Faulted (with_class ''validator failed during workspace materialization'' ''WorkspaceError'')
                   WORKSPACE_MATERIALIZATION_FAILED S_WORKSPACE_MATERIALIZATION [])"

fun is_fault :: "group_outcome \<Rightarrow> bool" where
  "is_fault (Faulted _ _ _ _) = True"
| "is_fault (Crashed _) = True"
| "is_fault _ = False"

text \<open>\<open>gather\<close> over the groups: a group may be found not started only when one that did start
  failed.\<close>

definition schedule :: "(nat \<Rightarrow> bool) \<Rightarrow> group_outcome list \<Rightarrow> group_outcome list" where
  "schedule late outs =
     (if list_ex (\<lambda>(i, out). \<not> late i \<and> is_fault out) (enumerate 0 outs)
      then map (\<lambda>(i, out). if late i then NotStarted else out) (enumerate 0 outs)
      else outs)"

fun outcome_evaluations :: "group_outcome \<Rightarrow> miner_evaluation list" where
  "outcome_evaluations (Graded es) = es"
| "outcome_evaluations (Faulted _ _ _ es) = es"
| "outcome_evaluations _ = []"

fun first_fault :: "group_outcome list \<Rightarrow> round_stop option" where
  "first_fault [] = None"
| "first_fault (Faulted reason code stg _ # outs) = Some (Stop reason code stg)"
| "first_fault (Crashed name # outs) = Some (Crash S_GRADING name)"
| "first_fault (_ # outs) = first_fault outs"

definition grading_outcomes ::
  "round_env \<Rightarrow> round_policy \<Rightarrow> lease_response \<Rightarrow> commit_reveal \<Rightarrow> node \<Rightarrow> node \<Rightarrow> verifier_manifest \<Rightarrow>
   dispatched list \<Rightarrow> group_outcome list" where
  "grading_outcomes env p lease rv cached ver man ds =
     schedule (en_not_started env)
       (map (\<lambda>(i, grants). grade_once env p lease rv cached ver man ds i grants)
          (enumerate 0 (group_grants (submission_grants rv))))"

section \<open>The round\<close>

text \<open>From the reveal on: either a stop with what had been evaluated by then, or the evaluations.\<close>

definition grade_round ::
  "round_env \<Rightarrow> round_policy \<Rightarrow> lease_response \<Rightarrow> node \<Rightarrow> dispatched list \<Rightarrow> progress \<Rightarrow> commit_reveal \<Rightarrow>
   (round_stop \<times> progress) + progress" where
  "grade_round env p lease cached ds pg rv =
     (case obtain_verifier env p lease rv of
        Inl stop \<Rightarrow> Inl (stop, pg)
      | Inr (ver, man) \<Rightarrow>
          let pg1 = pg\<lparr>pg_checks := Some (length (man_checks man))\<rparr> in
          (case refused_evaluations ds rv of
             None \<Rightarrow> Inl (Crash S_VERIFIER_MANIFEST ''KeyError'', pg1)
           | Some refused \<Rightarrow>
               let pg2 = pg1\<lparr>pg_evaluations := refused\<rparr> in
               (case grant_guard (lease_identity lease) (signed_responses ds) (submission_grants rv) of
                  Some stop \<Rightarrow> Inl (stop, pg2)
                | None \<Rightarrow>
                    let outs = grading_outcomes env p lease rv cached ver man ds;
                        pg3 = pg2\<lparr>pg_evaluations := refused @ concat (map outcome_evaluations outs)\<rparr> in
                    (case first_fault outs of
                       Some stop \<Rightarrow> Inl (stop, pg3)
                     | None \<Rightarrow> Inr pg3))))"

definition run_leased ::
  "round_env \<Rightarrow> round_policy \<Rightarrow> (int \<times> string) list \<Rightarrow> lease_response \<Rightarrow> (round_stop \<times> progress) + commit_reveal \<times> progress" where
  "run_leased env p offered lease =
     (case lease_guard p offered lease (en_time env 0) of
        Some stop \<Rightarrow> Inl (stop, no_progress)
      | None \<Rightarrow>
        (case prepare_directories env lease of
           Some stop \<Rightarrow> Inl (stop, no_progress)
         | None \<Rightarrow>
           (case obtain_workspace env p lease of
              Inl stop \<Rightarrow> Inl (stop, no_progress)
            | Inr cached \<Rightarrow>
              if of_int (lease_expires_at lease) - en_time env 1 < of_int (rp_min_lease_s p)
                then Inl (Stop (ucs ''lease leaves miners less time than release policy requires'') LEASE_TOO_SHORT
                       S_DISPATCH, no_progress)
              else case rmap (dispatch env lease) (slot_pool lease) of
                Inl name \<Rightarrow> Inl (Crash S_DISPATCH name, no_progress\<lparr>pg_failures := not_serving_failures env lease\<rparr>)
              | Inr ds \<Rightarrow>
                  let pg = no_progress\<lparr>pg_failures := dispatch_failures lease ds\<rparr> in
                  (case commit_round env lease ds of
                     Inl stop \<Rightarrow> Inl (stop, pg)
                   | Inr rv \<Rightarrow>
                       (case grade_round env p lease cached ds pg rv of
                          Inl stop \<Rightarrow> Inl stop
                        | Inr pg' \<Rightarrow> Inr (rv, pg'))))))"

definition unavailable :: "ustring \<Rightarrow> int option \<Rightarrow> round_result" where
  "unavailable reason retry =
     \<lparr>rr_status = Unavailable, rr_reason = reason, rr_evaluations = [], rr_retry_after_s = retry,
      rr_reason_code = Some LEASE_UNAVAILABLE, rr_stage = Some S_LEASE, rr_challenge_id = None, rr_task_id = None,
      rr_assigned_miners = [], rr_diagnostic_evaluations = [], rr_dispatch_failures = [], rr_checks_total = None\<rparr>"

text \<open>The second component tells whether the diagnostic feedback was accepted, which the source
  only prints.\<close>

definition evaluate_round :: "round_env \<Rightarrow> round_policy \<Rightarrow> (int \<times> string) list \<Rightarrow> round_result \<times> bool" where
  "evaluate_round env p offered =
     (if offered = [] then (unavailable (ucs ''no eligible miners to offer'') None, True)
      else let outcome = en_lease env offered (rp_miners_per_task p) in
        (case lo_challenge outcome of
           None \<Rightarrow> (unavailable (take 200 (lo_reason outcome)) (lo_retry_after_s outcome), True)
         | Some lease \<Rightarrow>
             (case run_leased env p offered lease of
                Inl (stop, pg) \<Rightarrow> (stopped lease stop pg, True)
              | Inr (rv, pg) \<Rightarrow>
                  (finish lease Completed [] None S_GRADING pg,
                   send_diagnostic_feedback (en_feedback env) (lease_challenge_id lease) (lease_task_id lease)
                     (submission_grants rv) (sort_key me_uid (pg_evaluations pg))))))"

section \<open>Groups\<close>

lemma mset_group_grants: "mset (concat (group_grants gs)) = mset gs"
proof (induction gs rule: group_grants.induct)
  case (2 g gs)
  have "mset (filter (\<lambda>x. grant_sha256 x = grant_sha256 g) gs) + mset (filter (\<lambda>x. grant_sha256 x \<noteq> grant_sha256 g) gs) = mset gs"
    by (induction gs) auto
  with 2 show ?case by simp
qed simp

lemma group_grants_member:
  "grants \<in> set (group_grants gs) \<Longrightarrow> grants \<noteq> [] \<and> set grants \<subseteq> set gs"
  by (induction gs rule: group_grants.induct) auto

lemma group_grants_digest:
  "grants \<in> set (group_grants gs) \<Longrightarrow> g \<in> set grants \<Longrightarrow> grant_sha256 (hd grants) = grant_sha256 g"
  by (induction gs rule: group_grants.induct) auto

lemma group_grants_separate:
  "distinct (map (\<lambda>grants. grant_sha256 (hd grants)) (group_grants gs))"
proof (induction gs rule: group_grants.induct)
  case (2 g gs)
  let ?rest = "filter (\<lambda>x. grant_sha256 x \<noteq> grant_sha256 g) gs"
  have "hd grants \<in> set ?rest" if "grants \<in> set (group_grants ?rest)" for grants
    using group_grants_member [OF that] hd_in_set [of grants] by blast
  then have "(\<lambda>grants. grant_sha256 (hd grants)) ` set (group_grants ?rest) \<subseteq> grant_sha256 ` set ?rest" by blast
  moreover have "grant_sha256 g \<notin> grant_sha256 ` set ?rest" by auto
  ultimately have "grant_sha256 g \<notin> (\<lambda>grants. grant_sha256 (hd grants)) ` set (group_grants ?rest)" by blast
  with 2 show ?case by simp
qed simp

lemma same_digest_same_group:
  assumes "g \<in> set gs" "g' \<in> set gs" "grant_sha256 g = grant_sha256 g'"
  shows "\<exists>grants \<in> set (group_grants gs). g \<in> set grants \<and> g' \<in> set grants"
proof -
  have c: "set (concat (group_grants gs)) = set gs" using mset_group_grants mset_eq_setD by blast
  then obtain a b where a: "a \<in> set (group_grants gs)" "g \<in> set a" and b: "b \<in> set (group_grants gs)" "g' \<in> set b"
    using assms by (metis UN_E set_concat)
  have "grant_sha256 (hd a) = grant_sha256 (hd b)"
    using group_grants_digest [OF a] group_grants_digest [OF b] assms(3) by simp
  then have "a = b" using group_grants_separate [of gs] a(1) b(1)
    by (auto simp: distinct_map inj_on_def)
  then show ?thesis using a b by blast
qed

section \<open>Gradings\<close>

lemma grade_once_Graded:
  assumes "grade_once env p lease rv cached ver man ds i grants = Graded es"
  shows "\<exists>sub ws e t.
    fetch_submission (en_origin env) (en_sha_bytes env) (en_http env) (hd grants) (rp_submissions p) False
      (set (rp_artifact_origins p)) = Inr sub \<and>
    materialize_workspace (Some cached) True False = (Inr t, Some ws) \<and>
    fst (evaluate_submission (en_world env i) (site_of_grant env p lease ver (hd grants)) (rp_patch p) (rp_script p)
      (en_submission_dir env i) ws sub (lease_identity lease) man) = Inr e \<and>
    ev_status e \<noteq> EvalAbandoned \<and> es = verdicts ds grants e (min (2 ^ 53 - 1) (en_duration_ms env i))"
  using assms
  by (auto simp: grade_once_def grade_workspace_def Let_def split: sum.splits if_splits prod.splits option.splits)

lemma grade_once_started: "grade_once env p lease rv cached ver man ds i grants \<noteq> NotStarted"
  by (simp add: grade_once_def grade_workspace_def Let_def split: sum.splits prod.splits option.splits)

lemma first_fault_None: "first_fault outs = None \<longleftrightarrow> \<not> list_ex is_fault outs"
  by (induction outs rule: first_fault.induct) auto

lemma schedule_unfaulted:
  assumes "first_fault (schedule late outs) = None"
  shows "schedule late outs = outs \<and> \<not> list_ex is_fault outs"
proof -
  have "\<not> list_ex (\<lambda>(i, out). \<not> late i \<and> is_fault out) (enumerate 0 outs)"
  proof
    assume ex: "list_ex (\<lambda>(i, out). \<not> late i \<and> is_fault out) (enumerate 0 outs)"
    then have "list_ex is_fault (map (\<lambda>(i, out). if late i then NotStarted else out) (enumerate 0 outs))"
      by (force simp: list_ex_iff)
    then show False using assms ex by (simp add: schedule_def first_fault_None)
  qed
  then have "schedule late outs = outs" unfolding schedule_def by (rule if_not_P)
  then show ?thesis using assms by (simp add: first_fault_None)
qed

text \<open>The reference: what the round reports for a submission is a function of its group, graded on
  its own.\<close>

definition graded_as ::
  "round_env \<Rightarrow> round_policy \<Rightarrow> lease_response \<Rightarrow> node \<Rightarrow> node \<Rightarrow> verifier_manifest \<Rightarrow> nat \<Rightarrow> artifact_grant \<Rightarrow>
   evaluation_result \<Rightarrow> bool" where
  "graded_as env p lease cached ver man i g e \<longleftrightarrow>
     (case fetch_submission (en_origin env) (en_sha_bytes env) (en_http env) g (rp_submissions p) False
             (set (rp_artifact_origins p)) of
        Inl _ \<Rightarrow> False
      | Inr sub \<Rightarrow>
          (case materialize_workspace (Some cached) True False of
             (Inr _, Some ws) \<Rightarrow>
               fst (evaluate_submission (en_world env i) (site_of_grant env p lease ver g) (rp_patch p) (rp_script p)
                 (en_submission_dir env i) ws sub (lease_identity lease) man) = Inr e \<and> ev_status e \<noteq> EvalAbandoned
           | _ \<Rightarrow> False))"

lemma graded_as_status: "graded_as env p lease cached ver man i g e \<Longrightarrow> ev_status e \<noteq> EvalAbandoned"
  by (cases "fst (materialize_workspace (Some cached) True False)")
     (auto simp: graded_as_def split: sum.splits prod.splits option.splits)

lemma grading_outcomes_unfaulted:
  assumes "first_fault (grading_outcomes env p lease rv cached ver man ds) = None"
  defines "gs \<equiv> group_grants (submission_grants rv)"
  shows "\<exists>f. (\<forall>i < length gs. graded_as env p lease cached ver man i (hd (gs ! i)) (f i)) \<and>
    grading_outcomes env p lease rv cached ver man ds =
      map (\<lambda>i. Graded (verdicts ds (gs ! i) (f i) (min (2 ^ 53 - 1) (en_duration_ms env i)))) [0..<length gs]"
proof -
  let ?go = "\<lambda>i. grade_once env p lease rv cached ver man ds i (gs ! i)"
  have en: "map (\<lambda>(i, grants). grade_once env p lease rv cached ver man ds i grants) (enumerate 0 gs) = map ?go [0..<length gs]"
    by (rule nth_equalityI) (simp_all add: nth_enumerate_eq)
  have outs: "grading_outcomes env p lease rv cached ver man ds = map ?go [0..<length gs]"
    and nf: "\<not> list_ex is_fault (map ?go [0..<length gs])"
    using schedule_unfaulted assms(1) unfolding grading_outcomes_def gs_def [symmetric] en by auto
  have "\<exists>e. graded_as env p lease cached ver man i (hd (gs ! i)) e \<and>
      ?go i = Graded (verdicts ds (gs ! i) e (min (2 ^ 53 - 1) (en_duration_ms env i)))" if "i < length gs" for i
  proof -
    have "\<not> is_fault (?go i)" using nf that by (auto simp: list_ex_iff)
    then obtain es where es: "?go i = Graded es"
      using grade_once_started [of env p lease rv cached ver man ds i "gs ! i"] by (cases "?go i") auto
    show ?thesis using grade_once_Graded [OF es] es by (auto simp: graded_as_def)
  qed
  then obtain f where "\<And>i. i < length gs \<Longrightarrow> graded_as env p lease cached ver man i (hd (gs ! i)) (f i) \<and>
      ?go i = Graded (verdicts ds (gs ! i) (f i) (min (2 ^ 53 - 1) (en_duration_ms env i)))"
    by metis
  then show ?thesis using outs by (intro exI [of _ f]) auto
qed

section \<open>Completed rounds\<close>

lemma grant_guard_None:
  "grant_guard i signed gs = None \<longleftrightarrow>
   (\<forall>g \<in> set gs. grant_format g = expected_format i \<and>
      grant_matches_signed_response g (map_of signed (grant_uid g, grant_hotkey g)))"
  by (induction gs) auto

lemma refused_evaluations_Some:
  assumes "refused_evaluations ds rv = Some es"
  shows "map (\<lambda>e. (me_uid e, me_hotkey e)) es = failed rv"
    and "e \<in> set es \<Longrightarrow> ev_status (me_result e) = EvalRejected"
proof -
  have n0: "None \<notin> set (map (refused_evaluation ds) (artifact_failures rv))"
    and es0: "map the (map (refused_evaluation ds) (artifact_failures rv)) = es"
    using assms unfolding refused_evaluations_def Let_def by (metis option.distinct(1), metis option.distinct(1) option.inject)
  have n: "refused_evaluation ds f \<noteq> None" if "f \<in> set (artifact_failures rv)" for f
    using n0 that by (metis image_eqI list.set_map)
  have es: "es = map (\<lambda>f. the (refused_evaluation ds f)) (artifact_failures rv)" using es0 by (simp add: comp_def)
  have r: "fail_uid f = me_uid (the (refused_evaluation ds f)) \<and> fail_hotkey f = me_hotkey (the (refused_evaluation ds f)) \<and>
      ev_status (me_result (the (refused_evaluation ds f))) = EvalRejected"
    if "f \<in> set (artifact_failures rv)" for f
    using n [OF that] by (auto simp: refused_evaluation_def rejected_evaluation_def)
  show "map (\<lambda>e. (me_uid e, me_hotkey e)) es = failed rv" using r by (auto simp: es failed_def)
  show "e \<in> set es \<Longrightarrow> ev_status (me_result e) = EvalRejected" using r by (auto simp: es)
qed

lemma refused_registrations: "refused_evaluations ds rv = Some es \<Longrightarrow> map registration es = failed rv"
  using refused_evaluations_Some(1) by (simp only: registration_def [abs_def])

lemma grade_round_Inr:
  assumes "grade_round env p lease cached ds pg rv = Inr pg'"
  shows "\<exists>ver man refused.
    obtain_verifier env p lease rv = Inr (ver, man) \<and> refused_evaluations ds rv = Some refused \<and>
    grant_guard (lease_identity lease) (signed_responses ds) (submission_grants rv) = None \<and>
    first_fault (grading_outcomes env p lease rv cached ver man ds) = None \<and>
    pg_evaluations pg' = refused @ concat (map outcome_evaluations (grading_outcomes env p lease rv cached ver man ds))"
  using assms by (auto simp: grade_round_def Let_def split: sum.splits option.splits)

lemma run_leased_Inr:
  assumes "run_leased env p offered lease = Inr (rv, pg)"
  shows "\<exists>cached ds pg0.
    lease_guard p offered lease (en_time env 0) = None \<and> prepare_directories env lease = None \<and>
    obtain_workspace env p lease = Inr cached \<and>
    of_int (rp_min_lease_s p) \<le> of_int (lease_expires_at lease) - en_time env 1 \<and>
    rmap (dispatch env lease) (slot_pool lease) = Inr ds \<and> commit_round env lease ds = Inr rv \<and>
    grade_round env p lease cached ds pg0 rv = Inr pg"
  using assms unfolding run_leased_def Let_def
  by (auto simp: not_less split: option.splits sum.splits if_splits)

lemma commit_round_Inr:
  assumes "commit_round env lease ds = Inr rv"
  shows "commit_min_signed_responses lease \<le> int (length (remdups (map fst (signed_responses ds))))"
    and "check_commit_request (commit_for lease ds) = Inr ()" and "en_commit env (commit_for lease ds) = Some rv"
    and "validate_commit_reveal lease (commit_for lease ds) rv = Inr ()" and "\<lfloor>en_time env 2\<rfloor> < grading_expires_at rv"
  using assms by (auto simp: commit_round_def split: if_splits option.splits)

lemma stopped_abandoned: "rr_status (stopped lease stop pg) = Abandoned \<and> rr_evaluations (stopped lease stop pg) = [] \<and>
    rr_reason_code (stopped lease stop pg) \<noteq> None"
  by (cases stop) (simp_all add: finish_def Let_def)

lemma evaluate_round_Completed:
  assumes "evaluate_round env p offered = (r, fb)" "rr_status r = Completed"
  shows "\<exists>lease rv pg. lo_challenge (en_lease env offered (rp_miners_per_task p)) = Some lease \<and>
    run_leased env p offered lease = Inr (rv, pg) \<and> r = finish lease Completed [] None S_GRADING pg"
  using assms stopped_abandoned
  by (auto simp: evaluate_round_def unavailable_def Let_def split: if_splits option.splits sum.splits)

lemma dispatch_bound:
  assumes "dispatch env lease s = Inr d"
    and "\<And>reg t s resp. en_solve env reg t = Some (s, resp) \<Longrightarrow> (ms_uid s, ms_hotkey s) = reg"
  shows "(ms_uid (fst d), ms_hotkey (fst d)) = (slot_uid (sub_slot s), slot_hotkey (sub_slot s))"
proof -
  have b: "ms_uid a = u \<and> ms_hotkey a = h" if "en_solve env (u, h) t = Some (a, x)" for u h t a x
    using assms(2) [OF that] by simp
  show ?thesis
    using assms(1)
    by (auto simp: dispatch_def not_answered_def failed_submission_def Let_def split: if_splits option.splits dest!: b)
qed

lemma rmap_dispatch_bound:
  assumes "rmap (dispatch env lease) pool = Inr ds"
    and "\<And>reg t s resp. en_solve env reg t = Some (s, resp) \<Longrightarrow> (ms_uid s, ms_hotkey s) = reg"
  shows "map (\<lambda>(s, _). (ms_uid s, ms_hotkey s)) ds = map (\<lambda>s. (slot_uid (sub_slot s), slot_hotkey (sub_slot s))) pool"
proof (rule nth_equalityI)
  show "length (map (\<lambda>(s, _). (ms_uid s, ms_hotkey s)) ds) = length (map (\<lambda>s. (slot_uid (sub_slot s), slot_hotkey (sub_slot s))) pool)"
    using rmap_Inr_length [OF assms(1)] by simp
  fix i assume "i < length (map (\<lambda>(s, _). (ms_uid s, ms_hotkey s)) ds)"
  then have i: "i < length ds" "i < length pool" using rmap_Inr_length [OF assms(1)] by simp_all
  have "dispatch env lease (pool ! i) = Inr (ds ! i)" by (rule rmap_Inr_nth [OF assms(1) i(2)])
  then have "(\<lambda>(s, _). (ms_uid s, ms_hotkey s)) (ds ! i) = (slot_uid (sub_slot (pool ! i)), slot_hotkey (sub_slot (pool ! i)))"
    using dispatch_bound [OF _ assms(2)] by (simp add: case_prod_unfold)
  then show "map (\<lambda>(s, _). (ms_uid s, ms_hotkey s)) ds ! i = map (\<lambda>s. (slot_uid (sub_slot s), slot_hotkey (sub_slot s))) pool ! i"
    using i by simp
qed

lemma verdicts_registrations: "map registration (verdicts ds grants e dur) = map (\<lambda>g. (grant_uid g, grant_hotkey g)) grants"
  by (simp add: verdicts_def registration_def comp_def)

lemma graded_registrations:
  "mset (map registration (concat (map (\<lambda>i. verdicts ds (group_grants gs ! i) (f i) (t i)) [0..<length (group_grants gs)]))) =
   mset (map (\<lambda>g. (grant_uid g, grant_hotkey g)) gs)"
proof -
  let ?gs = "group_grants gs"
  have "map registration (concat (map (\<lambda>i. verdicts ds (?gs ! i) (f i) (t i)) [0..<length ?gs])) =
      concat (map (\<lambda>i. map (\<lambda>g. (grant_uid g, grant_hotkey g)) (?gs ! i)) [0..<length ?gs])"
    by (simp add: map_concat verdicts_registrations comp_def)
  also have "\<dots> = map (\<lambda>g. (grant_uid g, grant_hotkey g)) (concat (map (\<lambda>i. ?gs ! i) [0..<length ?gs]))"
    by (simp add: map_concat comp_def)
  also have "\<dots> = map (\<lambda>g. (grant_uid g, grant_hotkey g)) (concat ?gs)" by (simp add: map_nth)
  finally show ?thesis by (simp only: mset_map mset_group_grants)
qed

text \<open>What a completed round has established, in the terms of the steps it went through.\<close>

definition completed_round ::
  "round_env \<Rightarrow> round_policy \<Rightarrow> (int \<times> string) list \<Rightarrow> lease_response \<Rightarrow> node \<Rightarrow> dispatched list \<Rightarrow> commit_reveal \<Rightarrow>
   node \<Rightarrow> verifier_manifest \<Rightarrow> round_result \<Rightarrow> bool" where
  "completed_round env p offered lease cached ds rv ver man r \<longleftrightarrow>
     lo_challenge (en_lease env offered (rp_miners_per_task p)) = Some lease \<and>
     lease_guard p offered lease (en_time env 0) = None \<and> obtain_workspace env p lease = Inr cached \<and>
     of_int (rp_min_lease_s p) \<le> of_int (lease_expires_at lease) - en_time env 1 \<and>
     rmap (dispatch env lease) (slot_pool lease) = Inr ds \<and> commit_round env lease ds = Inr rv \<and>
     obtain_verifier env p lease rv = Inr (ver, man) \<and>
     grant_guard (lease_identity lease) (signed_responses ds) (submission_grants rv) = None \<and>
     rr_challenge_id r = Some (lease_challenge_id lease) \<and> rr_task_id r = Some (lease_task_id lease) \<and>
     rr_assigned_miners r = pool_registrations_of lease"

lemma round_completed:
  assumes "evaluate_round env p offered = (r, fb)" "rr_status r = Completed"
  shows "\<exists>lease cached ds rv ver man refused f. completed_round env p offered lease cached ds rv ver man r \<and>
    refused_evaluations ds rv = Some refused \<and>
    (\<forall>i < length (group_grants (submission_grants rv)).
       graded_as env p lease cached ver man i (hd (group_grants (submission_grants rv) ! i)) (f i)) \<and>
    rr_evaluations r = sort_key me_uid (refused @ concat (map (\<lambda>i.
      verdicts ds (group_grants (submission_grants rv) ! i) (f i) (min (2 ^ 53 - 1) (en_duration_ms env i)))
      [0..<length (group_grants (submission_grants rv))]))"
proof -
  obtain lease rv pg where l: "lo_challenge (en_lease env offered (rp_miners_per_task p)) = Some lease"
    and run: "run_leased env p offered lease = Inr (rv, pg)" and r: "r = finish lease Completed [] None S_GRADING pg"
    using evaluate_round_Completed [OF assms] by blast
  obtain cached ds pg0 where s: "lease_guard p offered lease (en_time env 0) = None" "obtain_workspace env p lease = Inr cached"
    "of_int (rp_min_lease_s p) \<le> of_int (lease_expires_at lease) - en_time env 1"
    "rmap (dispatch env lease) (slot_pool lease) = Inr ds" "commit_round env lease ds = Inr rv"
    "grade_round env p lease cached ds pg0 rv = Inr pg"
    using run_leased_Inr [OF run] by blast
  obtain ver man refused where g: "obtain_verifier env p lease rv = Inr (ver, man)" "refused_evaluations ds rv = Some refused"
    "grant_guard (lease_identity lease) (signed_responses ds) (submission_grants rv) = None"
    "first_fault (grading_outcomes env p lease rv cached ver man ds) = None"
    "pg_evaluations pg = refused @ concat (map outcome_evaluations (grading_outcomes env p lease rv cached ver man ds))"
    using grade_round_Inr [OF s(6)] by blast
  obtain f where f: "\<forall>i < length (group_grants (submission_grants rv)).
      graded_as env p lease cached ver man i (hd (group_grants (submission_grants rv) ! i)) (f i)"
    and outs: "grading_outcomes env p lease rv cached ver man ds = map (\<lambda>i. Graded (verdicts ds (group_grants (submission_grants rv) ! i)
      (f i) (min (2 ^ 53 - 1) (en_duration_ms env i)))) [0..<length (group_grants (submission_grants rv))]"
    using grading_outcomes_unfaulted [OF g(4)] by blast
  have "completed_round env p offered lease cached ds rv ver man r"
    unfolding completed_round_def using l s g r by (simp add: finish_def Let_def pool_registrations_of_def)
  moreover have "rr_evaluations r = sort_key me_uid (refused @ concat (map (\<lambda>i.
      verdicts ds (group_grants (submission_grants rv) ! i) (f i) (min (2 ^ 53 - 1) (en_duration_ms env i)))
      [0..<length (group_grants (submission_grants rv))]))"
    unfolding r finish_def Let_def g(5) outs by (simp add: comp_def)
  ultimately show ?thesis using g(2) f by blast
qed

lemma lease_guard_None:
  assumes "lease_guard p offered lease now = None"
  shows "set (pool_registrations_of lease) = set (take (nat (rp_miners_per_task p)) offered)"
    and "commit_min_signed_responses lease = rp_commit_quorum p"
    and "of_int (rp_min_lease_s p) \<le> of_int (lease_expires_at lease) - now"
    and "identity_profile (lease_identity lease) = rp_execution_profile_id p"
    and "identity_policy (lease_identity lease) = rp_verifier_policy p"
proof -
  have "take (nat (min (rp_miners_per_task p) (int (length offered)))) offered = take (nat (rp_miners_per_task p)) offered"
    by (auto simp: min_def)
  then show "set (pool_registrations_of lease) = set (take (nat (rp_miners_per_task p)) offered)"
    using assms by (auto simp: lease_guard_def Let_def split: if_splits)
qed (use assms in \<open>auto simp: lease_guard_def Let_def split: if_splits\<close>)

lemma grant_matchesD:
  "grant_matches_signed_response g response \<Longrightarrow> \<exists>m. response = Some m \<and> grant_sha256 g = art_sha256 (mr_submission m) \<and>
     grant_upload_id g = art_upload_id (mr_submission m) \<and> grant_size_bytes g = art_size_bytes (mr_submission m)"
  by (auto simp: grant_matches_signed_response_def split: option.splits)

text \<open>C1. A round completes only when everything the release policy asks for held: the slots were
  issued to exactly the first miners offered, the quorum was the policy's and was met by signed
  responses of distinct miners, the miners still had the minimum window when the tasks were sent,
  profile and verifier policy were the supported ones, the reveal was bound to the lease and the
  commit, its grading window was open, and every submission graded is the one its miner signed.\<close>

theorem completed_round_admitted:
  assumes "evaluate_round env p offered = (r, fb)" "rr_status r = Completed"
  shows "\<exists>lease ds rv. lo_challenge (en_lease env offered (rp_miners_per_task p)) = Some lease \<and>
    set (rr_assigned_miners r) = set (take (nat (rp_miners_per_task p)) offered) \<and>
    of_int (rp_min_lease_s p) \<le> of_int (lease_expires_at lease) - en_time env 1 \<and>
    identity_profile (lease_identity lease) = rp_execution_profile_id p \<and>
    identity_policy (lease_identity lease) = rp_verifier_policy p \<and>
    rmap (dispatch env lease) (slot_pool lease) = Inr ds \<and>
    rp_commit_quorum p \<le> int (card (fst ` set (signed_responses ds))) \<and>
    en_commit env (commit_for lease ds) = Some rv \<and> validate_commit_reveal lease (commit_for lease ds) rv = Inr () \<and>
    \<lfloor>en_time env 2\<rfloor> < grading_expires_at rv \<and>
    (\<forall>g \<in> set (submission_grants rv). \<exists>m. map_of (signed_responses ds) (grant_uid g, grant_hotkey g) = Some m \<and>
       grant_sha256 g = art_sha256 (mr_submission m) \<and> grant_upload_id g = art_upload_id (mr_submission m) \<and>
       grant_size_bytes g = art_size_bytes (mr_submission m))"
proof -
  obtain lease cached ds rv ver man where c: "completed_round env p offered lease cached ds rv ver man r"
    using round_completed [OF assms] by blast
  note d = c [unfolded completed_round_def]
  have guard: "lease_guard p offered lease (en_time env 0) = None" and commit: "commit_round env lease ds = Inr rv" using d by blast+
  note lg = lease_guard_None [OF guard] and cr = commit_round_Inr [OF commit]
  have "int (length (remdups (map fst (signed_responses ds)))) = int (card (fst ` set (signed_responses ds)))"
    by (simp add: length_remdups_card_conv)
  then have q: "rp_commit_quorum p \<le> int (card (fst ` set (signed_responses ds)))" using cr(1) lg(2) by simp
  have "grant_guard (lease_identity lease) (signed_responses ds) (submission_grants rv) = None" using d by blast
  then have m: "\<forall>g \<in> set (submission_grants rv). \<exists>m. map_of (signed_responses ds) (grant_uid g, grant_hotkey g) = Some m \<and>
       grant_sha256 g = art_sha256 (mr_submission m) \<and> grant_upload_id g = art_upload_id (mr_submission m) \<and>
       grant_size_bytes g = art_size_bytes (mr_submission m)"
    unfolding grant_guard_None by (blast dest: grant_matchesD)
  show ?thesis
    using d lg cr q m by (intro exI [of _ lease] exI [of _ ds] exI [of _ rv]) simp
qed

lemma round_judges_everyone:
  assumes round: "evaluate_round env p offered = (r, fb)" "rr_status r = Completed"
    and bound: "\<And>reg t s resp. en_solve env reg t = Some (s, resp) \<Longrightarrow> (ms_uid s, ms_hotkey s) = reg"
    and checked: "\<forall>c rv. en_commit env c = Some rv \<longrightarrow> check_commit_reveal rv = Inr ()"
  shows "mset (map registration (rr_evaluations r)) = mset (rr_assigned_miners r) \<and>
    sorted (map me_uid (rr_evaluations r)) \<and> distinct (map me_uid (rr_evaluations r)) \<and>
    (\<forall>e \<in> set (rr_evaluations r). ev_status (me_result e) \<noteq> EvalAbandoned)"
proof -
  obtain lease cached ds rv ver man refused f where c: "completed_round env p offered lease cached ds rv ver man r"
    and ref: "refused_evaluations ds rv = Some refused"
    and f: "\<forall>i < length (group_grants (submission_grants rv)).
       graded_as env p lease cached ver man i (hd (group_grants (submission_grants rv) ! i)) (f i)"
    and ev: "rr_evaluations r = sort_key me_uid (refused @ concat (map (\<lambda>i.
      verdicts ds (group_grants (submission_grants rv) ! i) (f i) (min (2 ^ 53 - 1) (en_duration_ms env i)))
      [0..<length (group_grants (submission_grants rv))]))"
    using round_completed [OF round] by blast
  note d = c [unfolded completed_round_def]
  have commit: "commit_round env lease ds = Inr rv" and disp: "rmap (dispatch env lease) (slot_pool lease) = Inr ds" using d by blast+
  note cr = commit_round_Inr [OF commit] and rfd = refused_evaluations_Some [OF ref]
  note part = commit_partition [OF cr(2) checked [rule_format, OF cr(3)] cr(4)]
  have sub: "submitted (commit_for lease ds) = rr_assigned_miners r"
    using rmap_dispatch_bound [OF disp bound] d
    by (simp add: submitted_def commit_for_def pool_registrations_of_def comp_def case_prod_unfold)
  have "mset (map registration refused) = mset (failed rv)" by (simp only: refused_registrations [OF ref])
  then have regs: "mset (map registration (rr_evaluations r)) = mset (granted rv @ failed rv)"
    using graded_registrations [of ds "submission_grants rv" f] unfolding ev
    by (simp add: granted_def del: map_concat)
  have dist: "distinct (map fst (granted rv @ failed rv))" and ms: "mset (granted rv @ failed rv) = mset (submitted (commit_for lease ds))"
    using part by blast+
  have fst_reg: "map me_uid es = map fst (map registration es)" for es by (simp add: registration_def)
  have "mset (map me_uid (rr_evaluations r)) = mset (map fst (granted rv @ failed rv))"
    unfolding fst_reg using regs by (simp only: mset_map)
  then have "distinct (map me_uid (rr_evaluations r))" using dist mset_eq_imp_distinct_iff by blast
  moreover have "ev_status (me_result e) \<noteq> EvalAbandoned" if "e \<in> set (rr_evaluations r)" for e
    using that f rfd(2) graded_as_status unfolding ev by (fastforce simp: verdicts_def)
  ultimately show ?thesis using regs ms sub unfolding ev by simp
qed

text \<open>C2. A completed round judges every assigned miner exactly once, in the order of their uids, and
  no verdict is the abandonment of a grading, provided that each answer carries the identity of the
  miner asked and that the reveal has passed its model validation.\<close>

theorem completed_round_judges_everyone:
  assumes round: "evaluate_round env p offered = (r, fb)" "rr_status r = Completed"
    and bound: "\<And>reg t s resp. en_solve env reg t = Some (s, resp) \<Longrightarrow> (ms_uid s, ms_hotkey s) = reg"
    and checked: "\<forall>c rv. en_commit env c = Some rv \<longrightarrow> check_commit_reveal rv = Inr ()"
  shows "mset (map registration (rr_evaluations r)) = mset (rr_assigned_miners r) \<and>
    sorted (map me_uid (rr_evaluations r)) \<and> distinct (map me_uid (rr_evaluations r)) \<and>
    (\<forall>e \<in> set (rr_evaluations r). ev_status (me_result e) \<noteq> EvalAbandoned)"
  by (rule round_judges_everyone [OF assms])

lemma group_index:
  assumes "g \<in> set gs"
  shows "\<exists>i < length (group_grants gs). g \<in> set (group_grants gs ! i)"
proof -
  have "g \<in> set (concat (group_grants gs))" using assms mset_group_grants mset_eq_setD by metis
  then obtain grants where "grants \<in> set (group_grants gs)" "g \<in> set grants" by auto
  then show ?thesis using in_set_conv_nth [of grants] by metis
qed

lemma group_unique:
  assumes "i < length (group_grants gs)" "g \<in> set (group_grants gs ! i)" "j < length (group_grants gs)"
    "g' \<in> set (group_grants gs ! j)" "grant_sha256 g = grant_sha256 g'"
  shows "i = j"
proof -
  have "grant_sha256 (hd (group_grants gs ! i)) = grant_sha256 (hd (group_grants gs ! j))"
    using group_grants_digest [OF nth_mem [OF assms(1)] assms(2)] group_grants_digest [OF nth_mem [OF assms(3)] assms(4)]
      assms(5) by simp
  then show ?thesis
    using group_grants_separate [of gs] assms(1,3) by (auto simp: distinct_conv_nth)
qed

text \<open>The evaluation of a granted miner is that of its group.\<close>

lemma graded_evaluation:
  assumes dist: "distinct (granted rv @ failed rv)" and ref: "refused_evaluations ds rv = Some refused"
    and e: "e \<in> set (refused @ concat (map (\<lambda>i. verdicts ds (group_grants (submission_grants rv) ! i) (f i) (t i))
      [0..<length (group_grants (submission_grants rv))]))"
    and reg: "registration e = (grant_uid g, grant_hotkey g)" and g: "g \<in> set (submission_grants rv)"
  shows "\<exists>j < length (group_grants (submission_grants rv)).
    g \<in> set (group_grants (submission_grants rv) ! j) \<and> me_result e = f j"
proof -
  let ?gs = "submission_grants rv"
  have "registration e \<notin> set (failed rv)" using dist g reg by (auto simp: granted_def)
  then have "e \<notin> set refused" using refused_registrations [OF ref] by (metis image_eqI set_map)
  then obtain j where j: "j < length (group_grants ?gs)" "e \<in> set (verdicts ds (group_grants ?gs ! j) (f j) (t j))"
    using e by auto
  then obtain g' where g': "g' \<in> set (group_grants ?gs ! j)" "registration e = (grant_uid g', grant_hotkey g')" "me_result e = f j"
    by (auto simp: verdicts_def registration_def)
  have "g' \<in> set ?gs" using g'(1) group_grants_member [OF nth_mem [OF j(1)]] by blast
  moreover have "inj_on (\<lambda>g. (grant_uid g, grant_hotkey g)) (set ?gs)" using dist by (simp add: granted_def distinct_map)
  ultimately have "g' = g" using g g'(2) reg by (simp add: inj_on_def)
  then show ?thesis using j(1) g' by blast
qed

text \<open>A value per group is a value per digest.\<close>

lemma value_per_digest:
  "\<exists>result. \<forall>i < length (group_grants gs). \<forall>g \<in> set (group_grants gs ! i). result (grant_sha256 g) = f i"
proof -
  let ?here = "\<lambda>d i. i < length (group_grants gs) \<and> (\<exists>g \<in> set (group_grants gs ! i). grant_sha256 g = d)"
  have "f (SOME j. ?here (grant_sha256 g) j) = f i"
    if "i < length (group_grants gs)" "g \<in> set (group_grants gs ! i)" for i g
  proof -
    define k where "k = (SOME j. ?here (grant_sha256 g) j)"
    have "?here (grant_sha256 g) k" unfolding k_def by (rule someI [of _ i]) (use that in blast)
    then obtain g' where "k < length (group_grants gs)" "g' \<in> set (group_grants gs ! k)" "grant_sha256 g' = grant_sha256 g" by blast
    then have "k = i" using that by (intro group_unique)
    then show ?thesis by (simp add: k_def)
  qed
  then show ?thesis by (intro exI [of _ "\<lambda>d. f (SOME j. ?here d j)"]) blast
qed

lemma granted_evaluated:
  assumes "g \<in> set gs"
  shows "\<exists>e \<in> set (concat (map (\<lambda>i. verdicts ds (group_grants gs ! i) (f i) (t i)) [0..<length (group_grants gs)])).
    registration e = (grant_uid g, grant_hotkey g)"
proof -
  have "(grant_uid g, grant_hotkey g) \<in> set (map (\<lambda>g. (grant_uid g, grant_hotkey g)) gs)" using assms by simp
  also have "\<dots> = set (map registration (concat (map (\<lambda>i. verdicts ds (group_grants gs ! i) (f i) (t i)) [0..<length (group_grants gs)])))"
    by (rule mset_eq_setD [OF graded_registrations, symmetric])
  finally show ?thesis by force
qed

text \<open>C3. Submissions with the same bytes are judged once and alike: in a completed round there is one
  result per digest, it is the result of grading a submission with that digest on its own, and it is
  the result every miner that sent it gets, provided that the reveal has passed its model
  validation.\<close>

theorem same_bytes_same_verdict:
  assumes round: "evaluate_round env p offered = (r, fb)" "rr_status r = Completed"
    and checked: "\<forall>c rv. en_commit env c = Some rv \<longrightarrow> check_commit_reveal rv = Inr ()"
  shows "\<exists>lease cached ds rv ver man result. completed_round env p offered lease cached ds rv ver man r \<and>
    (\<forall>g \<in> set (submission_grants rv).
       (\<exists>i. \<exists>g' \<in> set (submission_grants rv). grant_sha256 g' = grant_sha256 g \<and>
          graded_as env p lease cached ver man i g' (result (grant_sha256 g))) \<and>
       (\<exists>e \<in> set (rr_evaluations r). registration e = (grant_uid g, grant_hotkey g)) \<and>
       (\<forall>e \<in> set (rr_evaluations r). registration e = (grant_uid g, grant_hotkey g) \<longrightarrow>
          me_result e = result (grant_sha256 g)))"
proof -
  obtain lease cached ds rv ver man refused f where c: "completed_round env p offered lease cached ds rv ver man r"
    and ref: "refused_evaluations ds rv = Some refused"
    and f: "\<forall>i < length (group_grants (submission_grants rv)).
       graded_as env p lease cached ver man i (hd (group_grants (submission_grants rv) ! i)) (f i)"
    and ev: "rr_evaluations r = sort_key me_uid (refused @ concat (map (\<lambda>i.
      verdicts ds (group_grants (submission_grants rv) ! i) (f i) (min (2 ^ 53 - 1) (en_duration_ms env i)))
      [0..<length (group_grants (submission_grants rv))]))"
    using round_completed [OF round] by blast
  let ?gs = "submission_grants rv"
  obtain result where res: "\<forall>i < length (group_grants ?gs). \<forall>g \<in> set (group_grants ?gs ! i). result (grant_sha256 g) = f i"
    using value_per_digest by blast
  have commit: "commit_round env lease ds = Inr rv" using c unfolding completed_round_def by blast
  note cr = commit_round_Inr [OF commit]
  have dist: "distinct (granted rv @ failed rv)"
    using commit_partition [OF cr(2) checked [rule_format, OF cr(3)] cr(4)] by (metis distinct_map)
  have "(\<exists>i. \<exists>g' \<in> set ?gs. grant_sha256 g' = grant_sha256 g \<and> graded_as env p lease cached ver man i g' (result (grant_sha256 g))) \<and>
      (\<exists>e \<in> set (rr_evaluations r). registration e = (grant_uid g, grant_hotkey g)) \<and>
      (\<forall>e \<in> set (rr_evaluations r). registration e = (grant_uid g, grant_hotkey g) \<longrightarrow> me_result e = result (grant_sha256 g))"
    if g: "g \<in> set ?gs" for g
  proof (intro conjI ballI impI)
    obtain i where i: "i < length (group_grants ?gs)" "g \<in> set (group_grants ?gs ! i)" using group_index [OF g] by blast
    let ?h = "hd (group_grants ?gs ! i)"
    have "?h \<in> set ?gs" "grant_sha256 ?h = grant_sha256 g"
      using group_grants_member [OF nth_mem [OF i(1)]] group_grants_digest [OF nth_mem [OF i(1)] i(2)] hd_in_set by blast+
    then show "\<exists>i. \<exists>g' \<in> set ?gs. grant_sha256 g' = grant_sha256 g \<and> graded_as env p lease cached ver man i g' (result (grant_sha256 g))"
      using f res i by (intro exI [of _ i] bexI [of _ ?h]) auto
    show "\<exists>e \<in> set (rr_evaluations r). registration e = (grant_uid g, grant_hotkey g)"
      using granted_evaluated [OF g, of ds f "\<lambda>i. min (2 ^ 53 - 1) (en_duration_ms env i)"] unfolding ev set_sort set_append by blast
    fix e assume e: "e \<in> set (rr_evaluations r)" "registration e = (grant_uid g, grant_hotkey g)"
    show "me_result e = result (grant_sha256 g)"
      using graded_evaluation [OF dist ref e(1) [unfolded ev set_sort] e(2) g] res by fastforce
  qed
  then show ?thesis
    by - (rule exI [of _ lease], rule exI [of _ cached], rule exI [of _ ds], rule exI [of _ rv], rule exI [of _ ver],
        rule exI [of _ man], rule exI [of _ result], rule conjI [OF c], rule ballI)
qed

text \<open>C10. A round either completes, or it is given up as a whole: then it has a reason code, it
  carries no evaluation, and applying it to the score engine changes nothing.\<close>

theorem round_is_atomic:
  "let r = fst (evaluate_round env p offered) in
     if rr_status r = Completed
     then rr_reason_code r = None \<and> rr_stage r = Some S_GRADING \<and> rr_evaluations r = rr_diagnostic_evaluations r
     else rr_reason_code r \<noteq> None \<and> rr_evaluations r = [] \<and>
          apply_round_scores r active half_life flr now e = (Inr False, e)"
proof -
  obtain r fb where r: "evaluate_round env p offered = (r, fb)" by fastforce
  show ?thesis
  proof (cases "rr_status r = Completed")
    case True
    obtain lease pg where "r = finish lease Completed [] None S_GRADING pg" using evaluate_round_Completed [OF r True] by blast
    then show ?thesis using r by (simp add: finish_def Let_def)
  next
    case False
    then have "rr_reason_code r \<noteq> None \<and> rr_evaluations r = []"
      using r stopped_abandoned
      by (auto simp: evaluate_round_def unavailable_def finish_def Let_def split: if_splits option.splits sum.splits)
    then show ?thesis using r False by (simp add: apply_round_scores_def return_apply)
  qed
qed

section \<open>An example\<close>

text \<open>Two miners send the same bytes, which are not a script: both are rejected, after one grading.\<close>

definition script_identity :: terminal_identity where
  "script_identity = \<lparr>ter_instruction = ''do'', ter_environment_sha256 = digest_a, ter_verifier_sha256 = digest_a,
     ter_execution_profile_id = ''terminal-v1'', ter_result_tree_path = ''.'',
     ter_verifier_policy = ''command-gold-digest-v1'', ter_authoring_version = ''1''\<rparr>"

definition script_slots :: "int \<Rightarrow> string \<Rightarrow> string \<Rightarrow> string \<Rightarrow> miner_slot_set" where
  "script_slots uid hk u t = \<lparr>sub_slot = slot_example uid hk U_SCRIPT u, trj_slot = slot_example uid hk U_TRAJECTORY t\<rparr>"

definition script_lease :: lease_response where
  "script_lease = \<lparr>lease_challenge_id = ''ch'', lease_task_id = digest_a, lease_identity = TerminalTask script_identity,
     lease_workspace = ref_example R_TERMINAL_ENVIRONMENT digest_a, lease_workspace_url = ''https://w'',
     lease_verifier = ref_example R_VERIFIER digest_a, lease_issued_at = 1000, lease_expires_at = 2000,
     slot_pool = [script_slots 7 ''h7'' ''p7'' ''t7'', script_slots 3 ''h3'' ''p3'' ''t3''],
     commit_min_signed_responses = 1\<rparr>"

definition script_answer :: "int \<times> string \<Rightarrow> miner_submission \<times> miner_task_response option" where
  "script_answer reg = (submission_example (fst reg) (snd reg), Some
     \<lparr>mr_challenge_id = ''ch'', mr_task_id = digest_a, mr_response_type = ''terminal_script_v1'',
      mr_submission = \<lparr>art_role = U_SCRIPT, art_format = BASH_SCRIPT_V1,
        art_upload_id = (if fst reg = 7 then ''p7'' else ''p3''), art_sha256 = digest_a, art_size_bytes = 2\<rparr>,
      mr_trajectory = \<lparr>art_role = U_TRAJECTORY, art_format = upload_format_of U_TRAJECTORY,
        art_upload_id = (if fst reg = 7 then ''t7'' else ''t3''), art_sha256 = digest_b, art_size_bytes = 2\<rparr>\<rparr>)"

definition script_grant :: "int \<Rightarrow> string \<Rightarrow> string \<Rightarrow> artifact_grant" where
  "script_grant uid hk upl = \<lparr>grant_uid = uid, grant_hotkey = hk, grant_upload_id = upl, grant_sha256 = digest_a,
     grant_size_bytes = 2, grant_format = BASH_SCRIPT_V1, grant_read_url = ''https://g''\<rparr>"

definition script_reveal :: commit_reveal where
  "script_reveal = \<lparr>rv_challenge_id = ''ch'', rv_task_id = digest_a, rv_verifier = ref_example R_VERIFIER digest_a,
     rv_verifier_policy = ''command-gold-digest-v1'', rv_verifier_url = ''https://v'', grading_expires_at = 3000,
     submission_grants = [script_grant 7 ''h7'' ''p7'', script_grant 3 ''h3'' ''p3''], artifact_failures = []\<rparr>"

definition script_policy :: round_policy where
  "script_policy = \<lparr>rp_workspace_archive = archive_limits_example, rp_verifier_archive = archive_limits_example,
     rp_submissions = \<lparr>sl_max_patch_bytes = 100, sl_max_script_bytes = 100\<rparr>,
     rp_tree = \<lparr>max_entries = 9, max_file_bytes = 9, max_total_file_bytes = 9, max_path_bytes = 20\<rparr>,
     rp_patch = patch_limits_example, rp_script = \<lparr>scl_max_script_bytes = 100\<rparr>, rp_supervisor = policy_example,
     rp_docker_binary = ''/docker'', rp_artifact_origins = [''https://o''], rp_execution_profile_id = ''terminal-v1'',
     rp_verifier_policy = ''command-gold-digest-v1'', rp_dispatch_concurrency = 4, rp_grading_concurrency = 1,
     rp_miners_per_task = 2, rp_commit_quorum = 1, rp_min_lease_s = 60\<rparr>"

definition ok_response :: "bytes \<Rightarrow> http_outcome" where
  "ok_response b = Response \<lparr>status_code = 200, content_encoding = None, content_length = None, body_chunks = [b]\<rparr>"

definition script_env :: round_env where
  "script_env = \<lparr>en_lease = (\<lambda>_ _. \<lparr>lo_challenge = Some script_lease, lo_reason = [], lo_retry_after_s = None\<rparr>),
     en_time = (\<lambda>_. 1100), en_dirs_ok = True, en_work_entries = [], en_cache_entries = [], en_tools = True,
     en_temp_ok = True, en_cached = Some (Dir 493 []), en_cache_trusted = True, en_staged = True, en_raced = None,
     en_free = (\<lambda>_. 1000), en_origin = (\<lambda>_. Some ''https://o''), en_sha_bytes = (\<lambda>_. digest_a),
     en_sha_text = (\<lambda>_. digest_a),
     en_http = (\<lambda>url. if url = ''https://g'' then ok_response [CHR 0x00, CHR ''x''] else ok_response (replicate 10 CHR ''z'')),
     en_zstd = (\<lambda>_. \<lparr>window_size = 10, zs_steps = [(replicate 20 CHR ''t'', True)], zs_trailing = False, zs_final = []\<rparr>),
     en_tar = (\<lambda>_. Some [member_example ''manifest.json'' FileMember ''{}'', member_example ''gold/out'' FileMember ''ok'']),
     en_parse = (\<lambda>_. Some manifest_example), en_solvers = [(3, ''h3''), (7, ''h7'')],
     en_solve = (\<lambda>reg _. Some (script_answer reg)), en_commit = (\<lambda>_. Some script_reveal),
     en_world = (\<lambda>_. sandbox_world), en_round_dir = ''/round'', en_submission_dir = (\<lambda>_. Some ''/tmp/s''),
     en_duration_ms = (\<lambda>_. 40), en_workspace_removed = (\<lambda>_. True), en_not_started = (\<lambda>_. False),
     en_feedback = (\<lambda>_. Some True)\<rparr>"

lemma script_fields: "identity_fields (TerminalTask script_identity)"
  by (simp add: script_identity_def terminal_fields_def profile_token_def validate_relative_path_def bounded_identifier_def)

lemma script_slots_ok:
  "check_slot_set (script_slots 7 ''h7'' ''p7'' ''t7'') = Inr ()" "check_slot_set (script_slots 3 ''h3'' ''p3'' ''t3'') = Inr ()"
  by (simp_all add: check_slot_set_def check_upload_slot_def validate_upload_format_def script_slots_def slot_example_def field_defs)

lemma script_task_ok:
  assumes "s \<in> {script_slots 7 ''h7'' ''p7'' ''t7'', script_slots 3 ''h3'' ''p3'' ''t3''}"
  shows "check_miner_task_request (\<lambda>_. digest_a) (task_for script_lease s) = Inr ()"
proof -
  have id: "compute_task_id (\<lambda>_. digest_a) (TerminalTask script_identity) = Inr digest_a"
    using compute_task_id_total [OF script_fields, of "\<lambda>_. digest_a"] by auto
  show ?thesis
    using assms id script_fields script_slots_ok
    by (auto simp: check_miner_task_request_def task_for_def script_lease_def ref_example_def artifact_ref_fields_def
        field_defs script_slots_def slot_example_def script_identity_def)
qed

definition script_dispatched :: "dispatched list" where
  "script_dispatched = [(fst (script_answer (7, ''h7'')), snd (script_answer (7, ''h7'')), None),
     (fst (script_answer (3, ''h3'')), snd (script_answer (3, ''h3'')), None)]"

lemma script_dispatch: "rmap (dispatch script_env script_lease) (slot_pool script_lease) = Inr script_dispatched"
proof -
  have "dispatch script_env script_lease s =
      Inr (fst (script_answer (slot_uid (sub_slot s), slot_hotkey (sub_slot s))),
           snd (script_answer (slot_uid (sub_slot s), slot_hotkey (sub_slot s))), None)"
    if "s \<in> {script_slots 7 ''h7'' ''p7'' ''t7'', script_slots 3 ''h3'' ''p3'' ''t3''}" for s
    using script_task_ok [OF that] that
    by (auto simp: dispatch_def script_env_def script_slots_def slot_example_def script_answer_def)
  then show ?thesis
    by (simp add: script_lease_def script_dispatched_def) (simp add: script_slots_def slot_example_def)
qed

lemma script_commit:
  "check_commit_reveal script_reveal = Inr ()"
  "commit_round script_env script_lease script_dispatched = Inr script_reveal"
proof -
  show "check_commit_reveal script_reveal = Inr ()"
    by (simp add: check_commit_reveal_def script_reveal_def script_grant_def ref_example_def field_defs result_uids_def
        result_hotkeys_def artifact_ref_fields_def artifact_grant_fields_def)
  show "commit_round script_env script_lease script_dispatched = Inr script_reveal"
    by (simp add: commit_round_def signed_responses_def script_dispatched_def script_answer_def script_env_def
        script_lease_def commit_for_def submission_example_def check_commit_request_def check_miner_submission_def utf8_sized_def is_surrogate_def
        utf8_size_def utf8_len_def ucs_def field_defs validate_commit_reveal_def script_reveal_def script_grant_def ref_example_def
        granted_def failed_def submitted_def script_identity_def insert_commute)
qed

definition script_verifier :: node where
  "script_verifier = Dir 448 [(''manifest.json'', Reg ''{}'' 420 1), (''gold'', Dir 493 [(''out'', Reg ''ok'' 420 1)])]"

lemma script_obtain:
  "\<exists>man. obtain_verifier script_env script_policy script_lease script_reveal = Inr (script_verifier, man) \<and>
     man_task_type man = ''terminal_script_v1''"
proof -
  have b: "download_artifact (en_origin script_env) (en_sha_bytes script_env) (en_http script_env) (rv_verifier_url script_reveal)
      (rv_verifier script_reveal) (rp_verifier_archive script_policy) False (set (rp_artifact_origins script_policy)) =
      Inr (replicate 10 CHR ''z'')"
    by (simp add: download_artifact_def download_object_def script_env_def script_reveal_def script_policy_def
        archive_limits_example_def ref_example_def ok_response_def)
  have ins: "inspect_members archive_limits_example
      [member_example ''manifest.json'' FileMember ''{}'', member_example ''gold/out'' FileMember ''ok''] =
      Inr ([member_example ''manifest.json'' FileMember ''{}'', member_example ''gold/out'' FileMember ''ok''], 4)"
    by (simp add: inspect_members_def member_example_def archive_limits_example_def validate_name_def utf8_size_def file_parent_def)
  have ext: "extract_members [member_example ''manifest.json'' FileMember ''{}'', member_example ''gold/out'' FileMember ''ok'']
      (Dir 448 []) = Inr script_verifier"
    by (simp add: extract_member_def member_example_def file_node_def has_bit_def script_verifier_def)
  have x: "\<exists>res. extract_archive (en_sha_bytes script_env) (en_zstd script_env) (en_tar script_env) False True
      (Some (replicate 10 CHR ''z'')) (rv_verifier script_reveal) (rp_verifier_archive script_policy) = (Inr res, Some script_verifier)"
    using ins ext
    by (simp add: extract_archive_def script_env_def script_reveal_def script_policy_def verify_archive_file_def
        archive_limits_example_def ref_example_def decompress_archive_def)
  have m: "\<exists>man. load_manifest (\<lambda>_. Some manifest_example) script_verifier ''terminal_script_v1'' = Inr man \<and>
      man_task_type man = ''terminal_script_v1''"
    using parse_manifest_example
    by (simp add: load_manifest_def script_verifier_def layout_ok_def regular_file_def MAX_MANIFEST_def check_references_def)
  have f: "en_free script_env 1 = 1000" "en_parse script_env = (\<lambda>_. Some manifest_example)" by (simp_all add: script_env_def)
  have n: "compressed_size_bytes (rv_verifier script_reveal) = 10" "expanded_size_bytes (rv_verifier script_reveal) = 20"
    "max_total_file_bytes (rp_tree script_policy) = 9" "rp_grading_concurrency script_policy = 1"
    "task_type (lease_identity script_lease) = ''terminal_script_v1''"
    by (simp_all add: script_reveal_def ref_example_def script_policy_def script_lease_def)
  show ?thesis using x m unfolding obtain_verifier_def Let_def b f n by auto
qed

definition script_offer :: "(int \<times> string) list" where
  "script_offer = [(3, ''h3''), (7, ''h7''), (9, ''h9'')]"

lemma script_before_dispatch:
  "lease_guard script_policy script_offer script_lease 1100 = None"
  "prepare_directories script_env script_lease = None"
  "obtain_workspace script_env script_policy script_lease = Inr (Dir 493 [])"
proof -
  show "lease_guard script_policy script_offer script_lease 1100 = None"
    by (simp add: lease_guard_def pool_registrations_of_def script_policy_def script_offer_def script_lease_def
        script_slots_def slot_example_def script_identity_def insert_commute)
  show "prepare_directories script_env script_lease = None"
    by (simp add: prepare_directories_def script_env_def)
  show "obtain_workspace script_env script_policy script_lease = Inr (Dir 493 [])"
    by (simp add: obtain_workspace_def script_env_def ensure_cached_workspace_def)
qed

lemma script_groups:
  "group_grants (submission_grants script_reveal) = [[script_grant 7 ''h7'' ''p7'', script_grant 3 ''h3'' ''p3'']]"
  by (simp add: script_reveal_def script_grant_def)

lemma nat_digits_range: "nat_digits n \<noteq> [] \<and> set (nat_digits n) \<subseteq> {48..<58}"
proof (induction n rule: nat_digits.induct)
  case (1 n)
  then show ?case by (subst (1 2) nat_digits.simps) auto
qed

text \<open>The copy made for a miner is always one that \<open>_remove_tree\<close> agrees to remove.\<close>

lemma miner_directory_managed: "0 \<le> u \<Longrightarrow> managed_name (''miner-'' @ dec u)"
proof -
  assume "0 \<le> u"
  moreover have "is_digit (char_of c)" if "c \<in> {48..<58}" for c :: nat
  proof -
    have "48 \<le> c \<and> c < 58" using that by simp
    then have "c = 48 \<or> c = 49 \<or> c = 50 \<or> c = 51 \<or> c = 52 \<or> c = 53 \<or> c = 54 \<or> c = 55 \<or> c = 56 \<or> c = 57" by arith
    then show ?thesis by (elim disjE) (simp_all add: is_digit_def char_of_eq_iff take_bit_eq_mod)
  qed
  ultimately show ?thesis
    using nat_digits_range [of "nat u"]
    by (auto simp: managed_name_def miner_directory_name_def dec_def chars_def str_int_def list_all_iff)
qed

lemma script_graded:
  assumes "man_task_type man = ''terminal_script_v1''"
  shows "grading_outcomes script_env script_policy script_lease script_reveal (Dir 493 []) script_verifier man script_dispatched =
    [Graded (verdicts script_dispatched [script_grant 7 ''h7'' ''p7'', script_grant 3 ''h3'' ''p3'']
       (rejected_evaluation (ucs ''script contains a NUL byte'') SCRIPT_REJECTED S_SCRIPT) 40)]"
proof -
  have fetch: "fetch_submission (en_origin script_env) (en_sha_bytes script_env) (en_http script_env) (script_grant 7 ''h7'' ''p7'')
      (rp_submissions script_policy) False (set (rp_artifact_origins script_policy)) = Inr [CHR 0x00, CHR ''x'']"
    by (simp add: fetch_submission_def download_object_def script_env_def script_grant_def script_policy_def ok_response_def)
  have val: "validate_script [CHR 0x00, CHR ''x''] (rp_script script_policy) = ScriptRejected ''script contains a NUL byte''"
    by (simp add: validate_script_def script_policy_def)
  have mat: "materialize_workspace (Some (Dir 493 [])) True False = (Inr (), Some (Dir 493 []))"
    by (simp add: materialize_workspace_def)
  have id: "lease_identity script_lease = TerminalTask script_identity" by (simp add: script_lease_def)
  have env: "en_time script_env i = 1100" "en_free script_env i = 1000" "en_tools script_env" "en_workspace_removed script_env i"
    "en_duration_ms script_env i = 40" "en_not_started script_env = (\<lambda>_. False)" for i
    by (simp_all add: script_env_def)
  have rv: "grading_expires_at script_reveal = 3000" "max_total_file_bytes (rp_tree script_policy) = 9"
    by (simp_all add: script_reveal_def script_policy_def)
  have rm: "remove_tree True \<lparr>de_name = ''miner-'' @ dec 7, de_is_dir = True, de_is_symlink = False, de_removable = True\<rparr> = None"
    using miner_directory_managed [of 7] by (simp add: remove_tree_def)
  have uid: "grant_uid (script_grant 7 ''h7'' ''p7'') = 7" by (simp add: script_grant_def)
  show ?thesis
    using assms rm
    by (simp add: grading_outcomes_def script_groups grade_once_def fetch env rv mat grade_workspace_def
        evaluate_submission_def id evaluate_terminal_def val uid Let_def schedule_def rejected_evaluation_def)
qed

lemma script_round:
  "\<exists>r fb. evaluate_round script_env script_policy script_offer = (r, fb) \<and> rr_status r = Completed \<and>
     rr_assigned_miners r = [(7, ''h7''), (3, ''h3'')]"
proof -
  obtain man where man: "obtain_verifier script_env script_policy script_lease script_reveal = Inr (script_verifier, man)"
    "man_task_type man = ''terminal_script_v1''"
    using script_obtain by blast
  have guard: "grant_guard (lease_identity script_lease) (signed_responses script_dispatched) (submission_grants script_reveal) = None"
    by (simp add: script_lease_def script_reveal_def script_grant_def signed_responses_def script_dispatched_def
        script_answer_def submission_example_def grant_matches_signed_response_def)
  have ref: "refused_evaluations script_dispatched script_reveal = Some []"
    by (simp add: refused_evaluations_def script_reveal_def)
  have "\<exists>pg'. grade_round script_env script_policy script_lease (Dir 493 []) script_dispatched pg script_reveal = Inr pg'" for pg
    using guard ref by (simp add: grade_round_def man(1) script_graded [OF man(2)])
  then obtain pg where g: "grade_round script_env script_policy script_lease (Dir 493 []) script_dispatched
      (no_progress\<lparr>pg_failures := dispatch_failures script_lease script_dispatched\<rparr>) script_reveal = Inr pg"
    by blast
  have t: "en_time script_env i = 1100" "lease_expires_at script_lease = 2000" "rp_min_lease_s script_policy = 60" for i
    by (simp_all add: script_env_def script_lease_def script_policy_def)
  have "run_leased script_env script_policy script_offer script_lease = Inr (script_reveal, pg)"
    by (simp add: run_leased_def Let_def t script_before_dispatch script_dispatch script_commit(2) g)
  moreover have "lo_challenge (en_lease script_env script_offer n) = Some script_lease" for n by (simp add: script_env_def)
  moreover have "script_offer \<noteq> []" by (simp add: script_offer_def)
  ultimately show ?thesis
    by (simp add: evaluate_round_def Let_def finish_def script_lease_def script_slots_def slot_example_def)
qed

theorem completed_round_admitted_witness:
  "\<exists>r fb lease ds rv. evaluate_round script_env script_policy script_offer = (r, fb) \<and> rr_status r = Completed \<and>
     set (rr_assigned_miners r) = set (take (nat (rp_miners_per_task script_policy)) script_offer) \<and>
     en_commit script_env (commit_for lease ds) = Some rv \<and> validate_commit_reveal lease (commit_for lease ds) rv = Inr ()"
proof -
  obtain r fb where r: "evaluate_round script_env script_policy script_offer = (r, fb)" "rr_status r = Completed"
    using script_round by blast
  show ?thesis using completed_round_admitted [OF r] r by blast
qed

lemma script_env_commit: "\<forall>c rv. en_commit script_env c = Some rv \<longrightarrow> check_commit_reveal rv = Inr ()"
  using script_commit(1) by (simp add: script_env_def)

lemma script_env_solve: "en_solve script_env reg t = Some (s, resp) \<Longrightarrow> (ms_uid s, ms_hotkey s) = reg"
  by (auto simp: script_env_def script_answer_def submission_example_def)

theorem completed_round_judges_everyone_witness:
  "\<exists>r fb. evaluate_round script_env script_policy script_offer = (r, fb) \<and>
     map registration (rr_evaluations r) \<noteq> [] \<and> mset (map registration (rr_evaluations r)) = mset [(7, ''h7''), (3, ''h3'')]"
proof -
  obtain r fb where r: "evaluate_round script_env script_policy script_offer = (r, fb)" "rr_status r = Completed"
    "rr_assigned_miners r = [(7, ''h7''), (3, ''h3'')]"
    using script_round by blast
  have "mset (map registration (rr_evaluations r)) = mset [(7, ''h7''), (3, ''h3'')]"
    using completed_round_judges_everyone [OF r(1,2) script_env_solve script_env_commit] r(3) by simp
  moreover from this have "map registration (rr_evaluations r) \<noteq> []" by force
  ultimately show ?thesis using r(1) by blast
qed

theorem same_bytes_same_verdict_witness:
  "\<exists>r fb lease cached ds rv ver man result. evaluate_round script_env script_policy script_offer = (r, fb) \<and>
     completed_round script_env script_policy script_offer lease cached ds rv ver man r \<and>
     (\<forall>e \<in> set (rr_evaluations r). \<forall>g \<in> set (submission_grants rv).
        registration e = (grant_uid g, grant_hotkey g) \<longrightarrow> me_result e = result (grant_sha256 g))"
proof -
  obtain r fb where r: "evaluate_round script_env script_policy script_offer = (r, fb)" "rr_status r = Completed"
    using script_round by blast
  show ?thesis using same_bytes_same_verdict [OF r script_env_commit] r(1) by blast
qed

section \<open>Leftovers in the workspace cache\<close>

lemma first_some_Some: "None \<noteq> x \<Longrightarrow> x \<in> set xs \<Longrightarrow> first_some xs \<noteq> None"
  by (induction xs rule: first_some.induct) auto

lemma staging_not_managed:
  assumes "prefix ''.workspace-'' name"
  shows "\<not> managed_name name" and "\<not> hex_digest name"
  using assms by (auto simp: managed_name_def miner_directory_name_def hex_digest_def hex_char_def prefix_def)

text \<open>C39. \<open>ensure_cached_workspace\<close> extracts into a directory of the cache named
  \<open>.workspace-\<dots>\<close>.  When a validator is killed during the extraction that directory stays, and the
  cleanup at the start of a round, which hands every directory of the cache to \<open>_remove_tree\<close>, fails
  on it: no round completes any more, and every round whose lease is accepted is abandoned with
  \<open>cleanup_failed\<close>, until the directory is removed by hand.\<close>

theorem stale_staging_blocks_rounds:
  assumes lease: "lo_challenge (en_lease env offered (rp_miners_per_task p)) = Some lease"
    and ws: "hex_digest (ref_sha256 (lease_workspace lease))"
    and d: "d \<in> set (en_cache_entries env)" "de_is_dir d" "\<not> de_is_symlink d" "prefix ''.workspace-'' (de_name d)"
  shows "rr_status (fst (evaluate_round env p offered)) \<noteq> Completed \<and>
    (offered \<noteq> [] \<and> en_dirs_ok env \<and> lease_guard p offered lease (en_time env 0) = None \<longrightarrow>
       rr_status (fst (evaluate_round env p offered)) = Abandoned \<and>
       rr_reason_code (fst (evaluate_round env p offered)) = Some CLEANUP_FAILED)"
proof -
  have "de_name d \<noteq> ref_sha256 (lease_workspace lease)" using staging_not_managed(2) [OF d(4)] ws by metis
  then have "clean_cache_entry (en_tools env) (ref_sha256 (lease_workspace lease)) d \<noteq> None"
    using d staging_not_managed(1) [OF d(4)] by (simp add: clean_cache_entry_def remove_tree_def)
  then have "first_some (map (clean_work_entry (en_tools env)) (en_work_entries env) @
      map (clean_cache_entry (en_tools env) (ref_sha256 (lease_workspace lease))) (en_cache_entries env)) \<noteq> None"
    using d(1) by (intro first_some_Some [of "clean_cache_entry (en_tools env) (ref_sha256 (lease_workspace lease)) d"]) auto
  then have prep: "\<exists>stop. prepare_directories env lease = Some stop"
    and crash: "en_dirs_ok env \<Longrightarrow> \<exists>name. prepare_directories env lease = Some (Crash S_CLEANUP name)"
    by (auto simp: prepare_directories_def)
  have "\<exists>stop. run_leased env p offered lease = Inl (stop, no_progress)"
    using prep by (auto simp: run_leased_def split: option.splits)
  then have "rr_status (fst (evaluate_round env p offered)) \<noteq> Completed"
    using lease stopped_abandoned [of lease] by (auto simp: evaluate_round_def unavailable_def Let_def)
  moreover have "rr_status (fst (evaluate_round env p offered)) = Abandoned \<and>
      rr_reason_code (fst (evaluate_round env p offered)) = Some CLEANUP_FAILED"
    if h: "offered \<noteq> []" "en_dirs_ok env" "lease_guard p offered lease (en_time env 0) = None"
  proof -
    obtain name where "prepare_directories env lease = Some (Crash S_CLEANUP name)" using crash h(2) by blast
    then have "run_leased env p offered lease = Inl (Crash S_CLEANUP name, no_progress)" using h(3) by (simp add: run_leased_def)
    then show ?thesis using lease h(1) by (simp add: evaluate_round_def Let_def finish_def)
  qed
  ultimately show ?thesis by blast
qed

definition staged_env :: round_env where
  "staged_env = script_env\<lparr>en_cache_entries :=
     [\<lparr>de_name = ''.workspace-x1'', de_is_dir = True, de_is_symlink = False, de_removable = True\<rparr>]\<rparr>"

theorem stale_staging_blocks_rounds_witness:
  "rr_reason_code (fst (evaluate_round staged_env script_policy script_offer)) = Some CLEANUP_FAILED"
proof -
  let ?d = "\<lparr>de_name = ''.workspace-x1'', de_is_dir = True, de_is_symlink = False, de_removable = True\<rparr>"
  have l: "lo_challenge (en_lease staged_env script_offer (rp_miners_per_task script_policy)) = Some script_lease"
    "hex_digest (ref_sha256 (lease_workspace script_lease))" "?d \<in> set (en_cache_entries staged_env)"
    "en_time staged_env 0 = 1100" "en_dirs_ok staged_env" "script_offer \<noteq> []"
    by (simp_all add: staged_env_def script_env_def script_lease_def ref_example_def script_offer_def)
  show ?thesis
    using stale_staging_blocks_rounds [OF l(1-3)] l(4-6) script_before_dispatch(1) by simp
qed

end
