(* ===== verification/ProblemClient.thy ===== *)
theory ProblemClient
  imports RoundFlow
begin

text \<open>
  The client of the problem server: one POST with bounded retries and a bounded response
  (\<open>src/rlvr/problemserver/client.py\<close>), and the V3 calls built on it (\<open>src/rlvr/v3/client.py\<close>).
  What each attempt receives from the network, the JSON and model parsers and the Unicode table
  behind \<open>isprintable\<close> are parameters.  The lemmas bound the retries and show what a lease, a
  commit and a feedback call may return, which is what \<open>evaluate_round\<close> relies on.
\<close>

section \<open>Responses\<close>

record wire_reply =
  wr_status :: int
  wr_content_length :: "string option"
  wr_retry_after :: "string option"
  wr_chunks :: "bytes list"

text \<open>One attempt: a response, or the text of the exception it ended in.\<close>

datatype attempt = Answer wire_reply | NetworkFault ustring

text \<open>The response rebuilt in memory, without its framing headers.\<close>

record reply =
  rs_status :: int
  rs_retry_after :: "string option"
  rs_content :: bytes

datatype lease_category =
    LEASED | EMPTY | PACED | DENIED | REJECTED | UNAVAILABLE | TRANSPORT | MALFORMED

fun lease_category_value :: "lease_category \<Rightarrow> string" where
  "lease_category_value LEASED = ''leased''"
| "lease_category_value EMPTY = ''empty''"
| "lease_category_value PACED = ''paced''"
| "lease_category_value DENIED = ''denied''"
| "lease_category_value REJECTED = ''rejected''"
| "lease_category_value UNAVAILABLE = ''unavailable''"
| "lease_category_value TRANSPORT = ''transport''"
| "lease_category_value MALFORMED = ''malformed''"

definition MAX_DETAIL_CHARS :: nat where "MAX_DETAIL_CHARS = 200"

fun join_words :: "ustring list \<Rightarrow> ustring" where
  "join_words [] = []"
| "join_words [w] = w"
| "join_words (w # ws) = w @ [32] @ join_words ws"

definition bounded_detail :: "(nat \<Rightarrow> bool) \<Rightarrow> ustring \<Rightarrow> ustring" where
  "bounded_detail printable s =
     (let shown = filter printable (join_words (words_of s)) in
      if length shown > MAX_DETAIL_CHARS then take (MAX_DETAIL_CHARS - 3) shown @ ucs ''...'' else shown)"

text \<open>The first of three keys with a non-blank string.\<close>

fun first_text :: "(ustring, json) dict \<Rightarrow> ustring list \<Rightarrow> ustring option" where
  "first_text d [] = None"
| "first_text d (k # ks) =
     (case map_of d k of Some (JStr s) \<Rightarrow> if ustrip s \<noteq> [] then Some s else first_text d ks
      | _ \<Rightarrow> first_text d ks)"

definition response_detail :: "(nat \<Rightarrow> bool) \<Rightarrow> (bytes \<Rightarrow> json option) \<Rightarrow> reply \<Rightarrow> ustring" where
  "response_detail printable parse r =
     (let body = ustrip (utf8_replace (rs_content r));
          payload = (if take 1 body = [123] then parse (rs_content r) else None) in
      case payload of
        Some (JObj d) \<Rightarrow>
          (case first_text d [ucs ''detail'', ucs ''error'', ucs ''message''] of
             Some s \<Rightarrow> bounded_detail printable s | None \<Rightarrow> bounded_detail printable body)
      | _ \<Rightarrow> bounded_detail printable body)"

text \<open>\<open>int\<close> on a text of digits refuses more than 4300 of them.\<close>

definition INT_MAX_STR_DIGITS :: nat where "INT_MAX_STR_DIGITS = 4300"

definition digit_limit_message :: "nat \<Rightarrow> ustring" where
  "digit_limit_message n =
     ucs ''Exceeds the limit (4300 digits) for integer string conversion: value has '' @ str_int (int n) @
     ucs '' digits; use sys.set_int_max_str_digits() to increase the limit''"

definition blank :: "char \<Rightarrow> bool" where
  "blank c \<longleftrightarrow> c = CHR '' '' \<or> c = CHR 0x09"

text \<open>The left injection is the text of the exception.\<close>

definition parse_retry_after :: "string option \<Rightarrow> ustring + int option" where
  "parse_retry_after header =
     (case header of
        None \<Rightarrow> Inr None
      | Some raw \<Rightarrow>
          let c = rev (dropWhile blank (rev (dropWhile blank raw))) in
          if c = [] \<or> \<not> list_all is_digit c then Inr None
          else if length c > INT_MAX_STR_DIGITS then Inl (digit_limit_message (length c))
          else Inr (Some (decimal c)))"

definition next_lease_not_before :: "int \<Rightarrow> real \<Rightarrow> real" where
  "next_lease_not_before retry now = now + of_int retry + 1"

definition retryable :: "int \<Rightarrow> bool" where
  "retryable status \<longleftrightarrow> status \<ge> 500 \<or> status \<in> {408, 425}"

definition status_category :: "int \<Rightarrow> lease_category" where
  "status_category status =
     (if status = 204 then EMPTY
      else if status = 429 then PACED
      else if status \<in> {401, 403} then DENIED
      else if retryable status then UNAVAILABLE
      else REJECTED)"

section \<open>One POST\<close>

definition int_text :: "string \<Rightarrow> int option" where
  "int_text s =
     (let t = ustrip (ucs s) in
      if length (filter (\<lambda>c. 48 \<le> c \<and> c \<le> 57) t) > INT_MAX_STR_DIGITS then None else py_int t)"

fun read_chunks :: "int \<Rightarrow> bytes list \<Rightarrow> bytes \<Rightarrow> string + bytes" where
  "read_chunks limit [] body = Inr body"
| "read_chunks limit (c # cs) body =
     (if int (length (body @ c)) > limit then Inl ''problem-server response exceeds byte limit''
      else read_chunks limit cs (body @ c))"

definition read_bounded :: "int \<Rightarrow> wire_reply \<Rightarrow> string + bytes" where
  "read_bounded limit w =
     (case wr_content_length w of
        Some (d # ds) \<Rightarrow>
          (case int_text (d # ds) of
             None \<Rightarrow> Inl ''invalid problem-server content-length''
           | Some n \<Rightarrow> if n < 0 \<or> n > limit then Inl ''problem-server response exceeds byte limit''
                       else read_chunks limit (wr_chunks w) [])
      | _ \<Rightarrow> read_chunks limit (wr_chunks w) [])"

record post_state =
  ps_response :: "reply option"
  ps_protocol_error :: ustring
  ps_retry_after :: "int option"
  ps_retry_attempt :: "nat option"

record post_outcome =
  po_response :: "reply option"
  po_transport_error :: ustring
  po_protocol_error :: ustring
  po_retry_after_s :: "int option"
  po_from_prior :: bool
  po_exhausted :: bool

definition post_start :: post_state where
  "post_start = \<lparr>ps_response = None, ps_protocol_error = [], ps_retry_after = None, ps_retry_attempt = None\<rparr>"

definition answered :: "reply \<Rightarrow> post_outcome" where
  "answered r = \<lparr>po_response = Some r, po_transport_error = [], po_protocol_error = [], po_retry_after_s = None,
     po_from_prior = False, po_exhausted = False\<rparr>"

definition note_retry_after :: "int option \<Rightarrow> nat \<Rightarrow> post_state \<Rightarrow> post_state" where
  "note_retry_after retry attempt st =
     (case retry of None \<Rightarrow> st | Some n \<Rightarrow> st\<lparr>ps_retry_after := Some n, ps_retry_attempt := Some attempt\<rparr>)"

definition from_prior :: "nat \<Rightarrow> post_state \<Rightarrow> bool" where
  "from_prior attempt st = (case ps_retry_attempt st of None \<Rightarrow> False | Some a \<Rightarrow> a \<noteq> attempt)"

text \<open>The outer exception handler: the last attempt reports, the others go on.\<close>

definition attempt_failed :: "nat \<Rightarrow> nat \<Rightarrow> ustring \<Rightarrow> post_state \<Rightarrow> post_outcome + post_state" where
  "attempt_failed retries attempt msg st =
     (if attempt = retries
      then Inl \<lparr>po_response = ps_response st, po_transport_error = msg, po_protocol_error = ps_protocol_error st,
                po_retry_after_s = ps_retry_after st, po_from_prior = (ps_retry_attempt st \<noteq> None),
                po_exhausted = True\<rparr>
      else Inr st)"

text \<open>One attempt: the left injection returns, the right one sleeps and goes on.\<close>

definition post_attempt ::
  "(nat \<Rightarrow> bool) \<Rightarrow> int \<Rightarrow> nat \<Rightarrow> nat \<Rightarrow> attempt \<Rightarrow> post_state \<Rightarrow> post_outcome + post_state" where
  "post_attempt printable limit retries attempt a st =
     (case a of
        NetworkFault msg \<Rightarrow> attempt_failed retries attempt msg st
      | Answer w \<Rightarrow>
          (case read_bounded limit w of
             Inl err \<Rightarrow>
               let r = \<lparr>rs_status = wr_status w, rs_retry_after = wr_retry_after w, rs_content = []\<rparr>;
                   st1 = st\<lparr>ps_response := Some r, ps_protocol_error := bounded_detail printable (ucs err)\<rparr> in
               (case parse_retry_after (wr_retry_after w) of
                  Inl msg \<Rightarrow> attempt_failed retries attempt msg st1
                | Inr retry \<Rightarrow>
                    let st2 = note_retry_after retry attempt st1 in
                    if retryable (wr_status w) \<and> attempt < retries then Inr st2
                    else Inl \<lparr>po_response = Some r, po_transport_error = [], po_protocol_error = ps_protocol_error st2,
                              po_retry_after_s = ps_retry_after st2, po_from_prior = from_prior attempt st2,
                              po_exhausted = retryable (wr_status w)\<rparr>)
           | Inr content \<Rightarrow>
               let r = \<lparr>rs_status = wr_status w, rs_retry_after = wr_retry_after w, rs_content = content\<rparr>;
                   st1 = st\<lparr>ps_response := Some r\<rparr> in
               (case parse_retry_after (wr_retry_after w) of
                  Inl msg \<Rightarrow> attempt_failed retries attempt msg st1
                | Inr retry \<Rightarrow>
                    let st2 = note_retry_after retry attempt st1 in
                    if retryable (wr_status w)
                    then (if attempt = retries
                          then Inl \<lparr>po_response = Some r, po_transport_error = [], po_protocol_error = [],
                                    po_retry_after_s = ps_retry_after st2, po_from_prior = from_prior attempt st2,
                                    po_exhausted = True\<rparr>
                          else Inr st2)
                    else Inl (answered r))))"

definition no_attempts :: post_outcome where
  "no_attempts = \<lparr>po_response = None, po_transport_error = ucs ''retries exhausted'', po_protocol_error = [],
     po_retry_after_s = None, po_from_prior = False, po_exhausted = False\<rparr>"

text \<open>The loop over the attempts; \<open>answers n\<close> is what attempt \<open>n\<close> meets.  The second component
  counts the attempts made.\<close>

function post_loop ::
  "(nat \<Rightarrow> bool) \<Rightarrow> int \<Rightarrow> nat \<Rightarrow> (nat \<Rightarrow> attempt) \<Rightarrow> nat \<Rightarrow> post_state \<Rightarrow> post_outcome \<times> nat" where
  "post_loop printable limit retries answers attempt st =
     (if attempt > retries then (no_attempts, retries)
      else case post_attempt printable limit retries attempt (answers attempt) st of
        Inl out \<Rightarrow> (out, attempt)
      | Inr st' \<Rightarrow> post_loop printable limit retries answers (attempt + 1) st')"
  by pat_completeness auto
termination by (relation "measure (\<lambda>(_, _, retries, _, attempt, _). retries + 1 - attempt)") auto

declare post_loop.simps [simp del]

record transport =
  tr_printable :: "nat \<Rightarrow> bool"
  tr_max_response_bytes :: int
  tr_retries :: int
  tr_json :: "bytes \<Rightarrow> json option"

definition post_result :: "transport \<Rightarrow> (nat \<Rightarrow> attempt) \<Rightarrow> post_outcome \<times> nat" where
  "post_result tr answers =
     post_loop (tr_printable tr) (max 1 (tr_max_response_bytes tr)) (nat (max 1 (tr_retries tr))) answers 1 post_start"

definition post :: "transport \<Rightarrow> (nat \<Rightarrow> attempt) \<Rightarrow> reply option" where
  "post tr answers =
     (let out = fst (post_result tr answers) in
      if po_exhausted out \<or> po_protocol_error out \<noteq> [] then None else po_response out)"

section \<open>V3 calls\<close>

record v3_lease_outcome =
  vo_category :: lease_category
  vo_challenge :: "lease_response option"
  vo_status :: "int option"
  vo_detail :: ustring
  vo_retry_after_s :: "int option"
  vo_transport_error :: ustring

definition lease_request_for :: "string \<Rightarrow> (int \<times> string) list \<Rightarrow> int option \<Rightarrow> lease_request" where
  "lease_request_for uuid candidates per_task =
     \<lparr>lr_request_id = uuid, lr_candidates = map (\<lambda>(u, hk). \<lparr>cand_uid = u, cand_hotkey = hk\<rparr>) candidates,
      lr_miners_per_task = per_task\<rparr>"

text \<open>\<open>model_validate_json\<close>: \<open>read\<close> finds the fields of the model in the text, or the text of an
  error; the model's constraints are then checked.\<close>

definition validated :: "('a \<Rightarrow> unit result) \<Rightarrow> (bytes \<Rightarrow> ustring + 'a) \<Rightarrow> ustring \<Rightarrow> bytes \<Rightarrow> ustring + 'a" where
  "validated chk read refusal b =
     (case read b of Inl e \<Rightarrow> Inl e | Inr x \<Rightarrow> if chk x = Inr () then Inr x else Inl refusal)"

text \<open>\<open>V3ProblemServerClient.lease\<close> once a response and its pacing are known.\<close>

definition lease_from_reply ::
  "transport \<Rightarrow> (ustring \<Rightarrow> string) \<Rightarrow> (bytes \<Rightarrow> ustring + lease_response) \<Rightarrow> ustring \<Rightarrow> post_outcome \<Rightarrow> reply \<Rightarrow>
   int option \<Rightarrow> v3_lease_outcome" where
  "lease_from_reply tr sha256 read refusal out r retry =
     (let outcome = (\<lambda>cat challenge detail terr. \<lparr>vo_category = cat, vo_challenge = challenge,
            vo_status = Some (rs_status r), vo_detail = detail, vo_retry_after_s = retry, vo_transport_error = terr\<rparr>) in
      if po_transport_error out \<noteq> [] then
        outcome TRANSPORT None
          (if po_protocol_error out \<noteq> [] then po_protocol_error out
           else response_detail (tr_printable tr) (tr_json tr) r)
          (bounded_detail (tr_printable tr) (po_transport_error out))
      else if po_protocol_error out \<noteq> [] then
        outcome (if rs_status r = 200 then MALFORMED else status_category (rs_status r)) None (po_protocol_error out) []
      else if rs_status r \<noteq> 200 then
        outcome (status_category (rs_status r)) None (response_detail (tr_printable tr) (tr_json tr) r) []
      else case validated (check_lease_response sha256) read refusal (rs_content r) of
        Inl e \<Rightarrow> outcome MALFORMED None (bounded_detail (tr_printable tr) e) []
      | Inr lease \<Rightarrow> outcome LEASED (Some lease) [] [])"

text \<open>The whole call; the left injection is an exception that escapes.\<close>

definition v3_lease ::
  "transport \<Rightarrow> (ustring \<Rightarrow> string) \<Rightarrow> (bytes \<Rightarrow> ustring + lease_response) \<Rightarrow> ustring \<Rightarrow> string \<Rightarrow> (nat \<Rightarrow> attempt) \<Rightarrow>
   (int \<times> string) list \<Rightarrow> int option \<Rightarrow> ustring + v3_lease_outcome" where
  "v3_lease tr sha256 read refusal uuid answers candidates per_task =
     (if check_lease_request (lease_request_for uuid candidates per_task) \<noteq> Inr () then Inl refusal
      else let out = fst (post_result tr answers) in
        (case po_response out of
           None \<Rightarrow>
             let err = bounded_detail (tr_printable tr) (po_transport_error out) in
             Inr \<lparr>vo_category = TRANSPORT, vo_challenge = None, vo_status = None, vo_detail = err,
                  vo_retry_after_s = None, vo_transport_error = err\<rparr>
         | Some r \<Rightarrow>
             rbind (case po_retry_after_s out of Some n \<Rightarrow> Inr (Some n) | None \<Rightarrow> parse_retry_after (rs_retry_after r))
               (\<lambda>retry. Inr (lease_from_reply tr sha256 read refusal out r retry))))"

definition v3_commit ::
  "transport \<Rightarrow> (bytes \<Rightarrow> ustring + commit_reveal) \<Rightarrow> (nat \<Rightarrow> attempt) \<Rightarrow> commit_reveal option" where
  "v3_commit tr read answers =
     (case post tr answers of
        None \<Rightarrow> None
      | Some r \<Rightarrow> if rs_status r \<noteq> 200 then None
                  else case validated check_commit_reveal read [] (rs_content r) of Inl _ \<Rightarrow> None | Inr rv \<Rightarrow> Some rv)"

text \<open>The acknowledgement names the challenge and the task.\<close>

definition v3_feedback ::
  "transport \<Rightarrow> (bytes \<Rightarrow> (string \<times> string) option) \<Rightarrow> (nat \<Rightarrow> attempt) \<Rightarrow> feedback_request \<Rightarrow> bool" where
  "v3_feedback tr read answers request =
     (case post tr answers of
        None \<Rightarrow> False
      | Some r \<Rightarrow> if rs_status r \<noteq> 200 then False
                  else case read (rs_content r) of
                    None \<Rightarrow> False
                  | Some (challenge, task) \<Rightarrow>
                      bounded_identifier challenge \<and> hex_digest task \<and>
                      challenge = fb_challenge_id request \<and> task = fb_task_id request)"

text \<open>What \<open>evaluate_round\<close> takes from the outcome of a lease.\<close>

definition round_lease :: "v3_lease_outcome \<Rightarrow> lease_outcome" where
  "round_lease out =
     \<lparr>lo_challenge = vo_challenge out,
      lo_reason = (if vo_detail out \<noteq> [] then vo_detail out else ucs (lease_category_value (vo_category out))),
      lo_retry_after_s = vo_retry_after_s out\<rparr>"

section \<open>Decimal texts\<close>

lemma nat_digits_length: "n < 10 ^ Suc k \<Longrightarrow> length (nat_digits n) \<le> Suc k"
proof (induction k arbitrary: n)
  case (Suc k)
  show ?case
  proof (cases "n < 10")
    case False
    have "n div 10 < 10 ^ Suc k" using Suc.prems by auto
    then show ?thesis using Suc.IH [of "n div 10"] False by (subst nat_digits.simps) simp
  qed (subst nat_digits.simps, simp)
qed (subst nat_digits.simps, simp)

lemma foldl_nat_digits: "foldl (\<lambda>n c. 10 * n + (int c - 48)) 0 (nat_digits n) = int n"
proof (induction n rule: nat_digits.induct)
  case (1 n)
  show ?case
  proof (cases "n < 10")
    case False
    then show ?thesis using 1 by (subst nat_digits.simps) (simp add: zdiv_int zmod_int)
  qed (subst nat_digits.simps, simp)
qed

lemma split_on_absent: "c \<notin> set xs \<Longrightarrow> split_on c xs = [xs]"
  by (induction xs) auto

lemma dropWhile_none: "\<forall>x \<in> set xs. \<not> P x \<Longrightarrow> dropWhile P xs = xs"
  by (cases xs) auto

lemma int_text_decimal:
  assumes "0 \<le> u" "u < 10 ^ Suc k" "k < 4300"
  shows "int_text (dec u) = Some u"
proof -
  define ds where "ds = nat_digits (nat u)"
  have r: "ds \<noteq> []" "\<forall>c \<in> set ds. 48 \<le> c \<and> c < 58" using nat_digits_range [of "nat u"] by (auto simp: ds_def)
  have codes: "ucs (dec u) = ds"
    using assms(1) r(2) by (auto simp: ucs_def dec_def chars_def str_int_def ds_def [symmetric] comp_def intro!: map_idI)
  have "\<forall>c \<in> set ds. \<not> uspace c" using r(2) by (auto simp: uspace_def)
  then have strip: "ustrip ds = ds" by (simp add: ustrip_def dropWhile_none)
  have "int (nat u) < int (10 ^ Suc k)" using assms(1,2) by simp
  then have "nat u < 10 ^ Suc k" by (simp only: of_nat_less_iff)
  then have "length ds \<le> Suc k" unfolding ds_def by (rule nat_digits_length)
  then have len: "length (filter P ds) \<le> 4300" for P using length_filter_le [of P ds] assms(3) by linarith
  have abs: "95 \<notin> set ds" "43 \<notin> set ds" "45 \<notin> set ds" using r(2) by auto
  have t: "take 1 ds \<noteq> [43]" "take 1 ds \<noteq> [45]" using abs r(1) by (cases ds; auto)+
  have "list_all (\<lambda>c. 48 \<le> c \<and> c \<le> 57) ds" using r(2) by (auto simp: list_all_iff)
  moreover have "filter (\<lambda>c. c \<noteq> 95) ds = ds" using abs by (auto simp: filter_id_conv)
  moreover have "foldl (\<lambda>n c. 10 * n + (int c - 48)) 0 ds = u" using foldl_nat_digits [of "nat u"] assms(1) by (simp add: ds_def)
  ultimately have "py_int ds = Some u"
    using t abs r(1) by (simp add: py_int_def split_on_absent)
  then show ?thesis using len [of "\<lambda>c. 48 \<le> c \<and> c \<le> 57"] by (simp add: int_text_def codes strip INT_MAX_STR_DIGITS_def)
qed

lemma int_text_dec: "0 \<le> u \<Longrightarrow> u < 10 ^ 5 \<Longrightarrow> int_text (dec u) = Some u"
  by (rule int_text_decimal [of _ 4]) simp_all

section \<open>Bounds\<close>

lemma bounded_detail_length: "length (bounded_detail printable s) \<le> 200"
  by (simp add: bounded_detail_def Let_def MAX_DETAIL_CHARS_def ucs_def)

lemma response_detail_length: "length (response_detail printable parse r) \<le> 200"
  by (simp add: response_detail_def Let_def bounded_detail_length split: option.split pyjson.split)

lemma read_chunks_bound: "read_chunks limit cs body = Inr out \<Longrightarrow> int (length body) \<le> limit \<Longrightarrow> int (length out) \<le> limit"
  by (induction limit cs body rule: read_chunks.induct) (auto split: if_splits)

lemma read_bounded_bound: "0 \<le> limit \<Longrightarrow> read_bounded limit w = Inr out \<Longrightarrow> int (length out) \<le> limit"
  by (auto simp: read_bounded_def split: option.splits list.splits if_splits intro: read_chunks_bound)

lemma digit_value_nonneg: "is_digit d \<Longrightarrow> 0 \<le> digit_value d"
  unfolding is_digit_def by (simp, elim disjE) (simp_all add: digit_value_def)

lemma foldl_digits_nonneg:
  "list_all is_digit c \<Longrightarrow> 0 \<le> n \<Longrightarrow> 0 \<le> foldl (\<lambda>n c. 10 * n + digit_value c) n c"
  by (induction c arbitrary: n) (simp_all add: digit_value_nonneg)

lemma digits_nonneg: "list_all is_digit c \<Longrightarrow> 0 \<le> decimal c"
  unfolding decimal_def by (rule foldl_digits_nonneg) simp_all

lemma parse_retry_after_nonneg: "parse_retry_after h = Inr (Some n) \<Longrightarrow> 0 \<le> n"
  by (auto simp: parse_retry_after_def Let_def digits_nonneg split: option.splits if_splits)

text \<open>Invariant of the loop: the response kept is bounded, the detail too, the pacing is not
  negative.\<close>

definition post_state_ok :: "int \<Rightarrow> post_state \<Rightarrow> bool" where
  "post_state_ok limit st \<longleftrightarrow>
     (\<forall>r. ps_response st = Some r \<longrightarrow> int (length (rs_content r)) \<le> limit) \<and>
     length (ps_protocol_error st) \<le> 200 \<and> (\<forall>n. ps_retry_after st = Some n \<longrightarrow> 0 \<le> n)"

definition post_outcome_ok :: "int \<Rightarrow> post_outcome \<Rightarrow> bool" where
  "post_outcome_ok limit out \<longleftrightarrow>
     (\<forall>r. po_response out = Some r \<longrightarrow> int (length (rs_content r)) \<le> limit) \<and>
     length (po_protocol_error out) \<le> 200 \<and> (\<forall>n. po_retry_after_s out = Some n \<longrightarrow> 0 \<le> n) \<and>
     (po_response out = None \<longrightarrow> po_transport_error out \<noteq> [] \<or> po_exhausted out)"

lemma note_retry_after_ok:
  "post_state_ok limit st \<Longrightarrow> (\<forall>n. retry = Some n \<longrightarrow> 0 \<le> n) \<Longrightarrow> post_state_ok limit (note_retry_after retry attempt st)"
  by (auto simp: post_state_ok_def note_retry_after_def split: option.splits)

lemma note_retry_after_frame [simp]:
  "ps_protocol_error (note_retry_after retry attempt st) = ps_protocol_error st"
  "ps_response (note_retry_after retry attempt st) = ps_response st"
  by (simp_all add: note_retry_after_def split: option.splits)

lemma attempt_failed_ok:
  assumes "post_state_ok limit st"
  shows "attempt_failed retries attempt msg st = Inr st' \<Longrightarrow> post_state_ok limit st'"
    and "attempt_failed retries attempt msg st = Inl out \<Longrightarrow> post_outcome_ok limit out"
  using assms by (auto simp: attempt_failed_def post_state_ok_def post_outcome_ok_def split: if_splits)

lemma answered_ok: "int (length (rs_content r)) \<le> limit \<Longrightarrow> post_outcome_ok limit (answered r)"
  by (simp add: answered_def post_outcome_ok_def)

lemma post_attempt_ok:
  assumes st: "post_state_ok limit st" and limit: "0 \<le> limit"
  shows "case post_attempt printable limit retries attempt a st of
      Inl out \<Rightarrow> post_outcome_ok limit out | Inr st' \<Rightarrow> post_state_ok limit st'"
proof (cases a)
  case (NetworkFault msg)
  then show ?thesis using attempt_failed_ok [OF st] by (auto simp: post_attempt_def split: sum.splits)
next
  case (Answer w)
  have kept: "post_state_ok limit (st\<lparr>ps_response := Some \<lparr>rs_status = wr_status w, rs_retry_after = wr_retry_after w, rs_content = c\<rparr>,
      ps_protocol_error := e\<rparr>)" if "int (length c) \<le> limit" "length e \<le> 200" for c e
    using st that by (simp add: post_state_ok_def)
  have kept': "post_state_ok limit (st\<lparr>ps_response := Some \<lparr>rs_status = wr_status w, rs_retry_after = wr_retry_after w, rs_content = c\<rparr>\<rparr>)"
    if "int (length c) \<le> limit" for c
    using st that by (simp add: post_state_ok_def)
  have noted: "post_state_ok limit (note_retry_after retry attempt s)"
    if "post_state_ok limit s" "parse_retry_after (wr_retry_after w) = Inr retry" for s retry
    using note_retry_after_ok [OF that(1), of retry attempt] parse_retry_after_nonneg that(2) by blast
  have out: "post_outcome_ok limit \<lparr>po_response = Some r, po_transport_error = [], po_protocol_error = pe,
      po_retry_after_s = ps_retry_after s, po_from_prior = b, po_exhausted = x\<rparr>"
    if "post_state_ok limit s" "int (length (rs_content r)) \<le> limit" "length pe \<le> 200" for s r pe b x
    using that by (auto simp: post_outcome_ok_def post_state_ok_def)
  show ?thesis
  proof (cases "read_bounded limit w")
    case (Inl err)
    let ?s = "st\<lparr>ps_response := Some \<lparr>rs_status = wr_status w, rs_retry_after = wr_retry_after w, rs_content = []\<rparr>,
      ps_protocol_error := bounded_detail printable (ucs err)\<rparr>"
    have s: "post_state_ok limit ?s" using limit by (intro kept) (simp_all add: bounded_detail_length)
    show ?thesis
      using Answer Inl attempt_failed_ok [OF s] noted [OF s] out [OF noted [OF s]] limit bounded_detail_length
      by (auto simp: post_attempt_def Let_def split: sum.splits)
  next
    case (Inr content)
    let ?s = "st\<lparr>ps_response := Some \<lparr>rs_status = wr_status w, rs_retry_after = wr_retry_after w, rs_content = content\<rparr>\<rparr>"
    have b: "int (length content) \<le> limit" using read_bounded_bound [OF limit Inr] .
    have s: "post_state_ok limit ?s" using b by (rule kept')
    show ?thesis
      using Answer Inr attempt_failed_ok [OF s] noted [OF s] out [OF noted [OF s]] b answered_ok
      by (auto simp: post_attempt_def Let_def split: sum.splits)
  qed
qed

lemma post_loop_ok:
  assumes "post_state_ok limit st" "0 \<le> limit"
  shows "post_outcome_ok limit (fst (post_loop printable limit retries answers attempt st))"
  using assms
proof (induction printable limit retries answers attempt st rule: post_loop.induct)
  case (1 printable limit retries answers attempt st)
  show ?case
    using 1 post_attempt_ok [OF 1(2,3), of printable retries attempt "answers attempt"]
    by (subst post_loop.simps)
       (auto simp: no_attempts_def post_outcome_ok_def ucs_def split: sum.splits)
qed

lemma post_result_ok: "post_outcome_ok (max 1 (tr_max_response_bytes tr)) (fst (post_result tr answers))"
  unfolding post_result_def by (rule post_loop_ok) (simp_all add: post_state_ok_def post_start_def)

section \<open>Retries\<close>

text \<open>What makes the loop go on after an attempt.\<close>

definition worth_retrying :: "attempt \<Rightarrow> bool" where
  "worth_retrying a =
     (case a of NetworkFault _ \<Rightarrow> True
      | Answer w \<Rightarrow> retryable (wr_status w) \<or> (\<exists>msg. parse_retry_after (wr_retry_after w) = Inl msg))"

lemma post_attempt_continues:
  assumes "post_attempt printable limit retries attempt a st = Inr st'"
  shows "worth_retrying a"
  using assms
  by (auto simp: post_attempt_def worth_retrying_def Let_def split: attempt.splits sum.splits if_splits)

lemma post_attempt_last: "post_attempt printable limit retries retries a st = Inr st' \<Longrightarrow> False"
  by (auto simp: post_attempt_def attempt_failed_def Let_def split: attempt.splits sum.splits if_splits)

lemma post_loop_attempts:
  assumes "1 \<le> attempt" "attempt \<le> retries"
  shows "attempt \<le> snd (post_loop printable limit retries answers attempt st) \<and>
    snd (post_loop printable limit retries answers attempt st) \<le> retries \<and>
    (\<forall>i. attempt \<le> i \<and> i < snd (post_loop printable limit retries answers attempt st) \<longrightarrow> worth_retrying (answers i))"
  using assms
proof (induction printable limit retries answers attempt st rule: post_loop.induct)
  case (1 printable limit retries answers attempt st)
  note simps = post_loop.simps [of printable limit retries answers attempt st]
  show ?case
  proof (cases "post_attempt printable limit retries attempt (answers attempt) st")
    case (Inl out)
    then show ?thesis using simps 1(3) by auto
  next
    case (Inr st')
    then have "attempt \<noteq> retries" using post_attempt_last by metis
    then have lt: "attempt + 1 \<le> retries" using 1(3) by simp
    have eq: "post_loop printable limit retries answers attempt st = post_loop printable limit retries answers (attempt + 1) st'"
      using simps Inr 1(3) by simp
    have w: "worth_retrying (answers attempt)" using post_attempt_continues Inr by blast
    have ih: "attempt + 1 \<le> snd (post_loop printable limit retries answers (attempt + 1) st') \<and>
        snd (post_loop printable limit retries answers (attempt + 1) st') \<le> retries \<and>
        (\<forall>i. attempt + 1 \<le> i \<and> i < snd (post_loop printable limit retries answers (attempt + 1) st') \<longrightarrow> worth_retrying (answers i))"
      using "1.IH" [OF _ Inr] lt 1(2,3) by simp
    have "worth_retrying (answers i)" if "attempt \<le> i" "i < snd (post_loop printable limit retries answers (attempt + 1) st')" for i
      using ih w that by (cases "i = attempt") auto
    then show ?thesis unfolding eq using ih by auto
  qed
qed

text \<open>C28. A POST ends after at most the configured number of attempts, and it is repeated only after a
  network fault, a status that is worth retrying or a response whose \<open>Retry-After\<close> cannot be read: an
  answer that may have consumed a lease is never asked for twice.  What it returns is bounded: the
  body by the response limit, the local explanation by 200 characters.\<close>

theorem post_result_bounded:
  "1 \<le> snd (post_result tr answers) \<and> snd (post_result tr answers) \<le> nat (max 1 (tr_retries tr)) \<and>
   (\<forall>i w. 1 \<le> i \<and> i < snd (post_result tr answers) \<and> answers i = Answer w \<longrightarrow>
      retryable (wr_status w) \<or> (\<exists>msg. parse_retry_after (wr_retry_after w) = Inl msg)) \<and>
   (\<forall>r. po_response (fst (post_result tr answers)) = Some r \<longrightarrow>
      int (length (rs_content r)) \<le> max 1 (tr_max_response_bytes tr)) \<and>
   length (po_protocol_error (fst (post_result tr answers))) \<le> 200"
proof -
  have n: "1 \<le> snd (post_result tr answers)" "snd (post_result tr answers) \<le> nat (max 1 (tr_retries tr))"
    "\<And>i. 1 \<le> i \<Longrightarrow> i < snd (post_result tr answers) \<Longrightarrow> worth_retrying (answers i)"
    using post_loop_attempts [of 1 "nat (max 1 (tr_retries tr))" "tr_printable tr" "max 1 (tr_max_response_bytes tr)" answers post_start]
    unfolding post_result_def by simp_all
  have "retryable (wr_status w) \<or> (\<exists>msg. parse_retry_after (wr_retry_after w) = Inl msg)"
    if "1 \<le> i" "i < snd (post_result tr answers)" "answers i = Answer w" for i w
    using n(3) [OF that(1,2)] that(3) by (simp add: worth_retrying_def)
  then show ?thesis using n(1,2) post_result_ok [of tr answers] unfolding post_outcome_ok_def by blast
qed

section \<open>Calls\<close>

lemma validated_Inr: "validated chk read refusal b = Inr x \<Longrightarrow> chk x = Inr ()"
  by (auto simp: validated_def split: sum.splits if_splits)

lemma v3_commit_checked: "v3_commit tr read answers = Some rv \<Longrightarrow> check_commit_reveal rv = Inr ()"
  by (auto simp: v3_commit_def dest: validated_Inr split: option.splits if_splits sum.splits)

lemma status_category_not_leased: "status_category status \<noteq> LEASED"
  by (simp add: status_category_def)

lemma lease_from_reply_ok:
  assumes "post_outcome_ok limit out" "o' = lease_from_reply tr sha256 read refusal out r retry"
  shows "case vo_challenge o' of
      Some lease \<Rightarrow> vo_category o' = LEASED \<and> vo_status o' = Some 200 \<and> check_lease_response sha256 lease = Inr ()
    | None \<Rightarrow> vo_category o' \<noteq> LEASED"
    and "length (vo_detail o') \<le> 200" and "vo_retry_after_s o' = retry"
proof -
  have pe: "length (po_protocol_error out) \<le> 200" using assms(1) by (simp add: post_outcome_ok_def)
  show "case vo_challenge o' of
      Some lease \<Rightarrow> vo_category o' = LEASED \<and> vo_status o' = Some 200 \<and> check_lease_response sha256 lease = Inr ()
    | None \<Rightarrow> vo_category o' \<noteq> LEASED"
    unfolding assms(2) lease_from_reply_def Let_def
    by (simp add: status_category_not_leased validated_Inr split: sum.split)
  show "length (vo_detail o') \<le> 200" "vo_retry_after_s o' = retry"
    unfolding assms(2) lease_from_reply_def Let_def
    using pe by (simp_all add: bounded_detail_length response_detail_length split: sum.split)
qed

lemma v3_lease_Inr:
  assumes "v3_lease tr sha256 read refusal uuid answers candidates per_task = Inr out"
  shows "(vo_challenge out = None \<and> vo_category out = TRANSPORT \<and> length (vo_detail out) \<le> 200 \<and> vo_retry_after_s out = None) \<or>
    (\<exists>r retry. (\<forall>n. retry = Some n \<longrightarrow> 0 \<le> n) \<and>
       out = lease_from_reply tr sha256 read refusal (fst (post_result tr answers)) r retry)"
proof (cases "po_response (fst (post_result tr answers))")
  case None
  then show ?thesis using assms bounded_detail_length by (auto simp: v3_lease_def Let_def split: if_splits)
next
  case (Some r)
  have nn: "\<And>n. po_retry_after_s (fst (post_result tr answers)) = Some n \<Longrightarrow> 0 \<le> n"
    using post_result_ok [of tr answers] by (simp add: post_outcome_ok_def)
  obtain retry where retry: "(case po_retry_after_s (fst (post_result tr answers)) of Some n \<Rightarrow> Inr (Some n)
        | None \<Rightarrow> parse_retry_after (rs_retry_after r)) = Inr retry"
    and out: "out = lease_from_reply tr sha256 read refusal (fst (post_result tr answers)) r retry"
    using assms Some by (auto simp: v3_lease_def Let_def rbind_Inr split: if_splits)
  have "\<forall>n. retry = Some n \<longrightarrow> 0 \<le> n"
    using retry nn parse_retry_after_nonneg by (auto split: option.splits)
  then show ?thesis using out by blast
qed


text \<open>What a lease call returns can be relied on: a challenge only from a 200 answer whose model
  validates, and then under the category \<open>leased\<close>; in every other case another category and no
  challenge; the explanation has at most 200 characters and a pacing instruction is not negative.\<close>

theorem v3_lease_reliable:
  assumes "v3_lease tr sha256 read refusal uuid answers candidates per_task = Inr out"
  shows "(case vo_challenge out of
       Some lease \<Rightarrow> vo_category out = LEASED \<and> vo_status out = Some 200 \<and> check_lease_response sha256 lease = Inr ()
     | None \<Rightarrow> vo_category out \<noteq> LEASED) \<and>
    length (vo_detail out) \<le> 200 \<and> (\<forall>n. vo_retry_after_s out = Some n \<longrightarrow> 0 \<le> n)"
  using v3_lease_Inr [OF assms] lease_from_reply_ok [OF post_result_ok [of tr answers] refl]
  by fastforce




section \<open>Examples\<close>

definition transport_example :: transport where
  "transport_example = \<lparr>tr_printable = (\<lambda>_. True), tr_max_response_bytes = 100, tr_retries = 3, tr_json = (\<lambda>_. None)\<rparr>"

definition reply_example :: "int \<Rightarrow> string \<Rightarrow> attempt" where
  "reply_example status retry = Answer \<lparr>wr_status = status, wr_content_length = None, wr_retry_after = Some retry, wr_chunks = [''{}'']\<rparr>"

definition answers_example :: "nat \<Rightarrow> attempt" where
  "answers_example i = reply_example (if i = 1 then 503 else 200) ''7''"

lemma candidates_example: "check_lease_request (lease_request_for ''u'' [(3, ''h3'')] (Some 1)) = Inr ()"
  by (simp add: check_lease_request_def lease_request_for_def has_duplicates_def field_defs)

lemma post_example:
  "post_result transport_example answers_example =
     (answered \<lparr>rs_status = 200, rs_retry_after = Some ''7'', rs_content = ''{}''\<rparr>, 2)"
proof -
  have p: "parse_retry_after (Some ''7'') = Inr (Some 7)"
    by (simp add: parse_retry_after_def blank_def is_digit_def INT_MAX_STR_DIGITS_def decimal_def digit_value_def)
  have a1: "answers_example 1 = reply_example 503 ''7''" and a2: "answers_example (Suc 1) = reply_example 200 ''7''"
    by (simp_all add: answers_example_def)
  have s1: "\<exists>st. post_attempt pr 100 3 1 (reply_example 503 ''7'') post_start = Inr st" for pr
    by (simp add: post_attempt_def reply_example_def read_bounded_def p retryable_def)
  have s2: "post_attempt pr 100 3 (Suc 1) (reply_example 200 ''7'') st =
      Inl (answered \<lparr>rs_status = 200, rs_retry_after = Some ''7'', rs_content = ''{}''\<rparr>)" for pr st
    by (simp add: post_attempt_def reply_example_def read_bounded_def p retryable_def)
  obtain st where st: "post_attempt (tr_printable transport_example) 100 3 1 (answers_example 1) post_start = Inr st"
    using s1 a1 by auto
  have t: "tr_max_response_bytes transport_example = 100" "tr_retries transport_example = 3" by (simp_all add: transport_example_def)
  have "post_result transport_example answers_example =
      post_loop (tr_printable transport_example) 100 3 answers_example (1 + 1) st"
    unfolding post_result_def t using st by (subst post_loop.simps) simp
  then show ?thesis using s2 a2 by (subst (asm) post_loop.simps) simp
qed

lemma v3_lease_example:
  "v3_lease transport_example (\<lambda>_. digest_a) (\<lambda>_. Inr lease_example) [] ''u'' answers_example [(3, ''h3'')] (Some 1) =
   Inr \<lparr>vo_category = LEASED, vo_challenge = Some lease_example, vo_status = Some 200, vo_detail = [],
        vo_retry_after_s = Some 7, vo_transport_error = []\<rparr>"
proof -
  have p: "parse_retry_after (Some ''7'') = Inr (Some 7)"
    by (simp add: parse_retry_after_def blank_def is_digit_def INT_MAX_STR_DIGITS_def decimal_def digit_value_def)
  show ?thesis
    using lease_example_ok
    by (simp add: v3_lease_def candidates_example post_example answered_def p lease_from_reply_def validated_def)
qed

text \<open>An answer worth retrying, then a good one: two attempts of three.\<close>

theorem post_result_bounded_witness:
  "snd (post_result transport_example answers_example) = 2 \<and> answers_example 1 = reply_example 503 ''7'' \<and>
     (retryable 503 \<or> (\<exists>msg. parse_retry_after (Some ''7'') = Inl msg)) \<and> int (length ''{}'') \<le> 100 \<and> (2 :: nat) \<le> nat (max 1 3)"
proof -
  have a: "answers_example 1 = Answer \<lparr>wr_status = 503, wr_content_length = None, wr_retry_after = Some ''7'', wr_chunks = [''{}'']\<rparr>"
    by (simp add: answers_example_def reply_example_def)
  have t: "tr_max_response_bytes transport_example = 100" "tr_retries transport_example = 3" by (simp_all add: transport_example_def)
  note b = post_result_bounded [of transport_example answers_example, unfolded post_example t fst_conv snd_conv]
  have "\<forall>w. answers_example 1 = Answer w \<longrightarrow> retryable (wr_status w) \<or> (\<exists>msg. parse_retry_after (wr_retry_after w) = Inl msg)"
    using spec [OF b [THEN conjunct2, THEN conjunct2, THEN conjunct1], of 1] by simp
  then have "retryable 503 \<or> (\<exists>msg. parse_retry_after (Some ''7'') = Inl msg)" unfolding a by simp
  moreover have "answers_example 1 = reply_example 503 ''7''" by (simp add: answers_example_def)
  ultimately show ?thesis using b by (simp add: post_example)
qed

theorem v3_lease_reliable_witness:
  "\<exists>out. v3_lease transport_example (\<lambda>_. digest_a) (\<lambda>_. Inr lease_example) [] ''u'' answers_example [(3, ''h3'')] (Some 1) = Inr out \<and>
     vo_challenge out = Some lease_example \<and> check_lease_response (\<lambda>_. digest_a) lease_example = Inr ()"
  using v3_lease_reliable [OF v3_lease_example] v3_lease_example by simp


end
