(* ===== verification/ScoreState.thy ===== *)
theory ScoreState
  imports ProblemClient
begin

text \<open>
  The score file of the validator: \<open>_save_scores\<close> and \<open>_load_scores\<close> of
  \<open>src/rlvr/neurons/decentralized.py\<close>.  The file holds a JSON value (text and value correspond
  through the standard library).  What numpy makes of a stored vector, \<open>float\<close> of a text and
  \<open>str\<close> of a JSON value are parameters.  The lemmas show that what is saved can be restored.
\<close>

section \<open>Saving\<close>

definition observation_json :: "observation \<Rightarrow> jvalue" where
  "observation_json = (\<lambda>(t, r). JList [JFloat (Fin t), JFloat (Fin r)])"

definition score_state :: "engine \<Rightarrow> jvalue" where
  "score_state e = JObj
     [(''version'', JInt 2), (''num_uids'', JInt (int (length (scores e)))),
      (''window_seconds'', JFloat (Fin (window_seconds e))), (''max_samples'', JInt (int (max_samples e))),
      (''min_samples'', JInt (int (min_samples e))), (''scores'', JList (map JFloat (scores e))),
      (''histories'', JObj (map (\<lambda>(u, h). (dec u, JList (map observation_json h))) (sort_key fst (histories e)))),
      (''hotkeys'', JObj (map (\<lambda>(u, hk). (dec u, JStr hk)) (hotkeys e)))]"

text \<open>What the path holds: nothing, something that is no JSON text, or a JSON value.\<close>

datatype score_file = Missing | Garbled | Saved jvalue

text \<open>\<open>writable\<close>: no \<open>OSError\<close> occurs on the way to the final rename.\<close>

definition save_scores :: "bool \<Rightarrow> string \<Rightarrow> engine \<Rightarrow> score_file \<Rightarrow> bool \<times> score_file" where
  "save_scores writable path e file =
     (if path = [] then (False, file)
      else if \<not> writable then (False, file)
      else (True, Saved (score_state e)))"

section \<open>Loading\<close>

record json_reader =
  jr_vector :: "jvalue \<Rightarrow> pyfloat list option"
  jr_float :: "string \<Rightarrow> pyfloat option"
  jr_str :: "jvalue \<Rightarrow> string"
  jr_finite_int :: "int \<Rightarrow> bool"

text \<open>\<open>version not in (1, 2)\<close> compares by value.\<close>

fun version_of :: "jvalue option \<Rightarrow> nat option" where
  "version_of (Some (JInt n)) = (if n = 1 then Some 1 else if n = 2 then Some 2 else None)"
| "version_of (Some (JFloat (Fin x))) = (if x = 1 then Some 1 else if x = 2 then Some 2 else None)"
| "version_of (Some (JBool b)) = (if b then Some 1 else None)"
| "version_of _ = None"

fun to_float :: "json_reader \<Rightarrow> jvalue \<Rightarrow> pyfloat option" where
  "to_float jr (JInt n) = (if \<bar>n\<bar> < 2 ^ 1024 - 2 ^ 970 then Some (Fin (of_int n)) else None)"
| "to_float jr (JFloat x) = Some x"
| "to_float jr (JStr s) = jr_float jr s"
| "to_float jr _ = None"

fun load_hotkey :: "json_reader \<Rightarrow> string \<times> jvalue \<Rightarrow> (uid \<times> string) option" where
  "load_hotkey jr (k, v) = map_option (\<lambda>u. (u, case v of JStr s \<Rightarrow> s | _ \<Rightarrow> jr_str jr v)) (int_text k)"

fun traverse :: "('a \<Rightarrow> 'b option) \<Rightarrow> 'a list \<Rightarrow> 'b list option" where
  "traverse f [] = Some []"
| "traverse f (x # xs) =
     (case f x of None \<Rightarrow> None | Some y \<Rightarrow> map_option (\<lambda>ys. y # ys) (traverse f xs))"

definition dict_of :: "('k \<times> 'v) list \<Rightarrow> ('k, 'v) dict" where
  "dict_of ps = fold (\<lambda>(k, v). AList.update k v) ps []"

definition load_hotkeys :: "json_reader \<Rightarrow> int \<Rightarrow> jvalue option \<Rightarrow> (uid, string) dict option" where
  "load_hotkeys jr num_uids j =
     (case j of
        None \<Rightarrow> Some []
      | Some (JObj ps) \<Rightarrow>
          (case traverse (load_hotkey jr) ps of
             None \<Rightarrow> None
           | Some hs \<Rightarrow>
               let d = dict_of hs in
               if list_ex (\<lambda>(u, hk). u < 0 \<or> u \<ge> num_uids \<or> hk = []) d then None else Some d)
      | _ \<Rightarrow> None)"

fun load_observation :: "json_reader \<Rightarrow> jvalue \<Rightarrow> observation option" where
  "load_observation jr (JList [t, r]) =
     (case (t, r) of
        (JBool _, _) \<Rightarrow> None
      | (_, JBool _) \<Rightarrow> None
      | _ \<Rightarrow>
          (case (to_float jr t, to_float jr r) of
             (Some x, Some y) \<Rightarrow>
               if \<not> is_finite x \<or> fin_val x < 0 \<or> \<not> is_finite y \<or> fin_val y < 0 then None
               else Some (fin_val x, fin_val y)
           | _ \<Rightarrow> None))"
| "load_observation jr _ = None"

definition load_history :: "json_reader \<Rightarrow> int \<Rightarrow> jvalue \<Rightarrow> observation list option" where
  "load_history jr stored_max j =
     (case j of
        JList vs \<Rightarrow> if vs = [] \<or> int (length vs) > stored_max then None else traverse (load_observation jr) vs
      | _ \<Rightarrow> None)"

fun load_histories ::
  "json_reader \<Rightarrow> int \<Rightarrow> int \<Rightarrow> (string \<times> jvalue) list \<Rightarrow> (uid, observation list) dict \<Rightarrow>
   (uid, observation list) dict option" where
  "load_histories jr num_uids stored_max [] hs = Some hs"
| "load_histories jr num_uids stored_max ((k, v) # ps) hs =
     (case int_text k of
        None \<Rightarrow> None
      | Some u \<Rightarrow>
          if u \<in> set (keys hs) \<or> u < 0 \<or> u \<ge> num_uids then None
          else case load_history jr stored_max v of
            None \<Rightarrow> None
          | Some h \<Rightarrow> load_histories jr num_uids stored_max ps (hs @ [(u, h)]))"

fun positive_window :: "json_reader \<Rightarrow> jvalue option \<Rightarrow> bool" where
  "positive_window jr (Some (JInt n)) \<longleftrightarrow> jr_finite_int jr n \<and> n > 0"
| "positive_window jr (Some (JFloat x)) \<longleftrightarrow> is_finite x \<and> fin_val x > 0"
| "positive_window jr _ \<longleftrightarrow> False"

fun stored_bounds :: "jvalue option \<Rightarrow> jvalue option \<Rightarrow> int option" where
  "stored_bounds (Some (JInt mx)) (Some (JInt mn)) = (if mx < 1 \<or> \<not> (1 \<le> mn \<and> mn \<le> mx) then None else Some mx)"
| "stored_bounds _ _ = None"

text \<open>A score of a version 1 file becomes a full startup window of that payment.\<close>

definition migrated ::
  "engine \<Rightarrow> pyfloat list \<Rightarrow> real \<Rightarrow> (uid, string) dict \<Rightarrow> (uid, observation list) dict" where
  "migrated e sc at_time hks =
     map (\<lambda>u. (u, replicate (min_samples e) (at_time, fin_val (sc ! nat u))))
       (filter (\<lambda>u. fin_val (sc ! nat u) > 0) (keys hks))"

text \<open>The validated content: number of uids, histories and hotkeys; \<open>None\<close> stands for any
  exception of the body.\<close>

definition read_v1 ::
  "json_reader \<Rightarrow> pyfloat \<Rightarrow> (string, jvalue) dict \<Rightarrow> engine \<Rightarrow>
   (nat \<times> (uid, observation list) dict \<times> (uid, string) dict) option" where
  "read_v1 jr now d e =
     (case jr_vector jr (case map_of d ''scores'' of None \<Rightarrow> JList [] | Some j \<Rightarrow> j) of
        None \<Rightarrow> None
      | Some sc \<Rightarrow>
          if \<not> list_all (\<lambda>x. is_finite x \<and> fin_val x \<ge> 0) sc then None
          else case load_hotkeys jr (int (length sc)) (map_of d ''hotkeys'') of
            None \<Rightarrow> None
          | Some hks \<Rightarrow>
              if list_ex (\<lambda>i. fin_val (sc ! i) > 0 \<and> int i \<notin> set (keys hks)) [0..<length sc] then None
              else case timestamp_of None now of
                Inl _ \<Rightarrow> None
              | Inr t \<Rightarrow> Some (length sc, migrated e sc t hks, hks))"

definition read_v2 ::
  "json_reader \<Rightarrow> (string, jvalue) dict \<Rightarrow> engine \<Rightarrow>
   (nat \<times> (uid, observation list) dict \<times> (uid, string) dict) option" where
  "read_v2 jr d e =
     (case map_of d ''num_uids'' of
        Some (JInt n) \<Rightarrow>
          if n < 0 then None
          else (case load_hotkeys jr n (map_of d ''hotkeys'') of
            None \<Rightarrow> None
          | Some hks \<Rightarrow>
              if \<not> positive_window jr (map_of d ''window_seconds'') then None
              else (case (stored_bounds (map_of d ''max_samples'') (map_of d ''min_samples''), map_of d ''histories'') of
                (Some stored_max, Some (JObj ps)) \<Rightarrow>
                  (case load_histories jr n stored_max ps [] of
                     None \<Rightarrow> None
                   | Some hs \<Rightarrow>
                       let capped = map (\<lambda>(u, h). (u, last_n (max_samples e) h)) hs in
                       if list_ex (\<lambda>(u, h). sum_list (map snd h) > 0 \<and> u \<notin> set (keys hks)) capped then None
                       else Some (nat n, capped, hks))
              | _ \<Rightarrow> None))
      | _ \<Rightarrow> None)"

text \<open>The engine and the file afterwards.  Everything else the source does here is print.\<close>

definition load_scores ::
  "json_reader \<Rightarrow> pyfloat \<Rightarrow> bool \<Rightarrow> string \<Rightarrow> score_file \<Rightarrow> engine \<Rightarrow> engine \<times> score_file" where
  "load_scores jr now writable path file e =
     (case (if path = [] then Missing else file) of
        Saved (JObj d) \<Rightarrow>
          let version = version_of (map_of d ''version'') in
          (case (if version = Some 1 then read_v1 jr now d e else if version = Some 2 then read_v2 jr d e else None) of
             None \<Rightarrow> (e, file)
           | Some (n, hs, hks) \<Rightarrow>
               (case restore n hs hks e of
                  (Inl _, e') \<Rightarrow> (e', file)
                | (Inr _, e') \<Rightarrow> (e', if version = Some 1 then snd (save_scores writable path e' file) else file)))
      | _ \<Rightarrow> (e, file))"

section \<open>Restoring what was saved\<close>

text \<open>What the loader asks of the content beyond the invariant of the engine.\<close>

definition persistable :: "engine \<Rightarrow> bool" where
  "persistable e \<longleftrightarrow>
     0 < window_seconds e \<and> distinct (keys (hotkeys e)) \<and>
     (\<forall>(u, hk) \<in> set (hotkeys e). 0 \<le> u \<and> u < int (length (scores e)) \<and> hk \<noteq> []) \<and>
     (\<forall>(u, h) \<in> set (histories e). (\<forall>t \<in> fst ` set h. 0 \<le> t) \<and>
        (0 < sum_list (map snd h) \<longrightarrow> u \<in> set (keys (hotkeys e))))"

lemma traverse_map: "(\<And>x. x \<in> set xs \<Longrightarrow> f (g x) = Some (k x)) \<Longrightarrow> traverse f (map g xs) = Some (map k xs)"
  by (induction xs) auto

lemma dict_of_append: "distinct (map fst (acc @ ps)) \<Longrightarrow> fold (\<lambda>(k, v). AList.update k v) ps acc = acc @ ps"
proof (induction ps arbitrary: acc)
  case (Cons p ps)
  obtain k v where p: "p = (k, v)" by (cases p)
  have "k \<notin> set (map fst acc)" using Cons.prems p by auto
  then have "AList.update k v acc = acc @ [(k, v)]" by (induction acc) auto
  then show ?case using Cons.IH [of "acc @ [p]"] Cons.prems p by simp
qed simp

lemma dict_of_distinct: "distinct (keys ps) \<Longrightarrow> dict_of ps = ps"
  using dict_of_append [of "[]" ps] by (simp add: dict_of_def)

lemma load_observation_json: "0 \<le> t \<Longrightarrow> 0 \<le> r \<Longrightarrow> load_observation jr (observation_json (t, r)) = Some (t, r)"
  by (simp add: observation_json_def)

lemma load_history_json:
  assumes "h \<noteq> []" "int (length h) \<le> stored_max" "\<forall>(t, r) \<in> set h. 0 \<le> t \<and> 0 \<le> r"
  shows "load_history jr stored_max (JList (map observation_json h)) = Some h"
proof -
  have "traverse (load_observation jr) (map observation_json h) = Some (map (\<lambda>x. x) h)"
    using assms(3) load_observation_json by (intro traverse_map) fastforce
  then show ?thesis using assms by (simp add: load_history_def)
qed

lemma load_histories_json:
  assumes "distinct (keys (acc @ hs))"
    and "\<forall>(u, h) \<in> set hs. 0 \<le> u \<and> u < num_uids \<and> u < 10 ^ 5 \<and> h \<noteq> [] \<and> int (length h) \<le> stored_max \<and>
      (\<forall>(t, r) \<in> set h. 0 \<le> t \<and> 0 \<le> r)"
  shows "load_histories jr num_uids stored_max (map (\<lambda>(u, h). (dec u, JList (map observation_json h))) hs) acc = Some (acc @ hs)"
  using assms
proof (induction hs arbitrary: acc)
  case (Cons p hs)
  obtain u h where p: "p = (u, h)" by (cases p)
  have "load_history jr stored_max (JList (map observation_json h)) = Some h"
    using Cons.prems(2) p by (intro load_history_json) auto
  moreover have "int_text (dec u) = Some u" "u \<notin> set (keys acc)" "0 \<le> u" "u < num_uids"
    using Cons.prems p by (auto intro: int_text_dec)
  ultimately show ?case using Cons.IH [of "acc @ [p]"] Cons.prems p by simp
qed simp

lemma restore_one_frame: "keeps (\<lambda>e. length (scores e) = n \<and> min_samples e = m \<and> max_samples e = k) (restore_one p)"
  by (auto simp: keeps_def restore_one_def refresh_score_def set_score_def Let_def split: prod.splits)

lemma restore_frame:
  assumes "restore n hs hks e = (r, e')"
  shows "length (scores e') = n \<and> min_samples e' = min_samples e \<and> max_samples e' = max_samples e"
proof -
  let ?e = "e\<lparr>scores := replicate n (Fin 0), histories := []\<rparr>"
  let ?I = "\<lambda>x. length (scores x) = n \<and> min_samples x = min_samples e \<and> max_samples x = max_samples e"
  have "?I (snd (foreach restore_one hs ?e))"
    by (rule keepsD [OF keeps_foreach [OF restore_one_frame]]) simp
  then show ?thesis
    using assms by (auto simp: restore_def method_simps split: prod.splits sum.splits)
qed

lemma map_of_sort_key: "distinct (map fst ps) \<Longrightarrow> map_of (sort_key fst ps) = map_of ps"
  by (simp add: map_of_inject_set distinct_map distinct_sort)

lemma last_n_short: "length xs \<le> n \<Longrightarrow> last_n n xs = xs"
  by (simp add: last_n_def)

lemma engine_histories:
  assumes "engine_inv e" "(u, h) \<in> set (histories e)"
  shows "h = hist e u" "0 \<le> u" "u < int (length (scores e))" "h \<noteq> []" "length h \<le> max_samples e" "\<forall>r \<in> snd ` set h. 0 \<le> r"
proof -
  show h: "h = hist e u" using assms engine_invD(4) [OF assms(1)] by (simp add: hist_def dict_get_def)
  have "u \<in> set (keys (histories e))" using assms(2) by force
  then show "0 \<le> u" "u < int (length (scores e))" "h \<noteq> []" "length h \<le> max_samples e" "\<forall>r \<in> snd ` set h. 0 \<le> r"
    using engine_invD(5) [OF assms(1), of u] unfolding h by blast+
qed

lemma persistable_hotkey:
  "persistable e \<Longrightarrow> (u, hk) \<in> set (hotkeys e) \<Longrightarrow> 0 \<le> u \<and> u < int (length (scores e)) \<and> hk \<noteq> []"
  by (auto simp: persistable_def)

lemma persistable_history:
  "persistable e \<Longrightarrow> (u, h) \<in> set (histories e) \<Longrightarrow> (\<forall>t \<in> fst ` set h. 0 \<le> t) \<and>
     (0 < sum_list (map snd h) \<longrightarrow> u \<in> set (keys (hotkeys e)))"
  unfolding persistable_def by blast

text \<open>The content of a saved file, read back.\<close>

lemma read_saved:
  assumes inv: "engine_inv e" and p: "persistable e" and few: "length (scores e) \<le> 65536" and mx: "max_samples f = max_samples e"
  shows "read_v2 jr (case score_state e of JObj d \<Rightarrow> d | _ \<Rightarrow> []) f = Some (length (scores e), sort_key fst (histories e), hotkeys e)"
proof -
  let ?hs = "sort_key fst (histories e)"
  have hks: "load_hotkeys jr (int (length (scores e))) (Some (JObj (map (\<lambda>(u, hk). (dec u, JStr hk)) (hotkeys e)))) = Some (hotkeys e)"
  proof -
    have "traverse (load_hotkey jr) (map (\<lambda>(u, hk). (dec u, JStr hk)) (hotkeys e)) = Some (map (\<lambda>x. x) (hotkeys e))"
      using persistable_hotkey [OF p] few by (intro traverse_map) (force intro!: int_text_dec)
    moreover have "dict_of (hotkeys e) = hotkeys e" using p by (auto simp: persistable_def intro: dict_of_distinct)
    moreover have "\<not> list_ex (\<lambda>(u, hk). u < 0 \<or> u \<ge> int (length (scores e)) \<or> hk = []) (hotkeys e)"
      using persistable_hotkey [OF p] by (force simp: list_ex_iff)
    ultimately show ?thesis by (simp add: load_hotkeys_def)
  qed
  have "load_histories jr (int (length (scores e))) (int (max_samples e))
      (map (\<lambda>(u, h). (dec u, JList (map observation_json h))) ?hs) [] = Some ([] @ ?hs)"
  proof (rule load_histories_json)
    show "distinct (keys ([] @ ?hs))" using engine_invD(4) [OF inv] by (simp add: distinct_map distinct_sort)
    have "0 \<le> u \<and> u < int (length (scores e)) \<and> u < 10 ^ 5 \<and> h \<noteq> [] \<and> int (length h) \<le> int (max_samples e) \<and>
        (\<forall>(t, r) \<in> set h. 0 \<le> t \<and> 0 \<le> r)" if "(u, h) \<in> set (histories e)" for u h
      using engine_histories(2-6) [OF inv that] persistable_history [OF p that] few by force
    then show "\<forall>(u, h) \<in> set ?hs. 0 \<le> u \<and> u < int (length (scores e)) \<and> u < 10 ^ 5 \<and> h \<noteq> [] \<and>
        int (length h) \<le> int (max_samples e) \<and> (\<forall>(t, r) \<in> set h. 0 \<le> t \<and> 0 \<le> r)"
      unfolding set_sort by blast
  qed
  then have hs: "load_histories jr (int (length (scores e))) (int (max_samples e))
      (map (\<lambda>(u, h). (dec u, JList (map observation_json h))) ?hs) [] = Some ?hs" by simp
  have cap: "map (\<lambda>(u, h). (u, last_n (max_samples f) h)) ?hs = ?hs"
    using engine_histories(5) [OF inv] mx by (intro map_idI) (auto simp: last_n_short)
  have owned: "\<not> list_ex (\<lambda>(u, h). sum_list (map snd h) > 0 \<and> u \<notin> set (keys (hotkeys e))) ?hs"
    using persistable_history [OF p] by (force simp: list_ex_iff)
  have bounds: "stored_bounds (Some (JInt (int (max_samples e)))) (Some (JInt (int (min_samples e)))) = Some (int (max_samples e))"
    using engine_invD(1,2) [OF inv] by simp
  have w: "0 < window_seconds e" using p by (simp add: persistable_def)
  show ?thesis
    using w owned by (simp add: score_state_def read_v2_def hks hs bounds cap Let_def del: stored_bounds.simps)
qed

text \<open>Saving and loading: an engine that satisfies its invariant, and in which every positive
  history has an owner, comes back from the file it was saved to with the same scores, histories and
  hotkeys, whatever numpy and \<open>float\<close> would make of other files.\<close>

lemma scores_round_trip:
  assumes inv: "engine_inv e" "engine_inv f" and p: "persistable e" and few: "length (scores e) \<le> 65536"
    and same: "max_samples f = max_samples e" "min_samples f = min_samples e" and path: "path \<noteq> []"
    and saved: "save_scores writable path e file = (True, file')"
  shows "\<exists>f'. load_scores jr now writable' path file' f = (f', file') \<and> engine_inv f' \<and>
    scores f' = scores e \<and> (\<forall>u. hist f' u = hist e u) \<and> hotkeys f' = hotkeys e"
proof -
  let ?hs = "sort_key fst (histories e)"
  have file': "file' = Saved (score_state e)" using saved by (auto simp: save_scores_def split: if_splits)
  have valid: "valid_saved (length (scores e)) ?hs"
    using engine_invD(4) [OF inv(1)] engine_histories [OF inv(1)]
    by (fastforce simp: valid_saved_def distinct_map distinct_sort)
  obtain f' where f': "restore (length (scores e)) ?hs (hotkeys e) f = (Inr (), f')" "engine_inv f'" "hotkeys f' = hotkeys e"
    "\<forall>v. hist f' v = last_n (max_samples f) (dict_get ?hs v [])"
    using restore_ok [OF inv(2) valid, of "hotkeys e"] by blast
  have h: "hist f' u = hist e u" for u
  proof -
    have "dict_get ?hs u [] = hist e u"
      using map_of_sort_key [OF engine_invD(4) [OF inv(1)]] by (simp add: dict_get_def hist_def)
    moreover have "length (hist e u) \<le> max_samples e"
      using engine_invD(5) [OF inv(1), of u] hist_unknown [of u e] by fastforce
    ultimately show ?thesis using f'(4) same(1) by (simp add: last_n_short)
  qed
  have frame: "length (scores f') = length (scores e)" "min_samples f' = min_samples e"
    using restore_frame [OF f'(1)] same by simp_all
  have "scores f' = scores e"
  proof (rule nth_equalityI [OF frame(1)])
    fix i assume "i < length (scores f')"
    then show "scores f' ! i = scores e ! i"
      using engine_invD(6) [OF f'(2), of i] engine_invD(6) [OF inv(1), of i] frame h by (simp add: score_at_def)
  qed
  moreover have "load_scores jr now writable' path file' f = (f', file')"
    using read_saved [OF inv(1) p few same(1), of jr] f'(1) path
    by (simp add: load_scores_def file' score_state_def)
  ultimately show ?thesis using f' h by blast
qed

definition owned_example :: engine where
  "owned_example = engine_example\<lparr>hotkeys := [(0, ''a''), (1, ''b'')]\<rparr>"

definition fresh_example :: engine where
  "fresh_example = owned_example\<lparr>scores := [], histories := [], hotkeys := []\<rparr>"

lemma owned_example_ok:
  "engine_inv owned_example" "persistable owned_example" "engine_inv fresh_example"
proof -
  show "engine_inv owned_example" using engine_example_inv by (simp add: owned_example_def)
  show "persistable owned_example" by (simp add: persistable_def owned_example_def engine_example_def)
  show "engine_inv fresh_example" by (simp add: engine_inv_def fresh_example_def owned_example_def engine_example_def)
qed

lemma scores_round_trip_example:
  "\<exists>f'. load_scores \<lparr>jr_vector = (\<lambda>_. None), jr_float = (\<lambda>_. None), jr_str = (\<lambda>_. []), jr_finite_int = (\<lambda>_. True)\<rparr> (Fin 5) True
     ''/s'' (snd (save_scores True ''/s'' owned_example Missing)) fresh_example = (f', snd (save_scores True ''/s'' owned_example Missing)) \<and>
     scores f' = [Fin (1/2), Fin 1, Fin 0] \<and> hist f' 1 = [(2, 1)]"
proof -
  have s: "save_scores True ''/s'' owned_example Missing = (True, snd (save_scores True ''/s'' owned_example Missing))"
    by (simp add: save_scores_def)
  have e: "length (scores owned_example) \<le> 65536" "max_samples fresh_example = max_samples owned_example"
    "min_samples fresh_example = min_samples owned_example" "scores owned_example = [Fin (1/2), Fin 1, Fin 0]"
    "hist owned_example 1 = [(2, 1)]"
    by (simp_all add: owned_example_def fresh_example_def engine_example_def hist_def dict_get_def)
  show ?thesis
    using scores_round_trip [OF owned_example_ok(1,3,2) e(1-3) _ s] e(4,5) by force
qed

section \<open>Every method keeps the state restorable\<close>

text \<open>\<open>us\<close>: uids whose hotkey is known.\<close>

definition restorable :: "uid set \<Rightarrow> engine \<Rightarrow> bool" where
  "restorable us e \<longleftrightarrow> engine_inv e \<and> persistable e \<and> us \<subseteq> set (keys (hotkeys e))"

lemma restorableI:
  assumes "engine_inv e" "0 < window_seconds e" "distinct (keys (hotkeys e))" "us \<subseteq> set (keys (hotkeys e))"
    and "\<And>u hk. (u, hk) \<in> set (hotkeys e) \<Longrightarrow> 0 \<le> u \<and> u < int (length (scores e)) \<and> hk \<noteq> []"
    and "\<And>u. u \<in> set (keys (histories e)) \<Longrightarrow> (\<forall>t \<in> fst ` set (hist e u). 0 \<le> t) \<and>
      (0 < sum_list (map snd (hist e u)) \<longrightarrow> u \<in> set (keys (hotkeys e)))"
  shows "restorable us e"
proof -
  have "(\<forall>t \<in> fst ` set h. 0 \<le> t) \<and> (0 < sum_list (map snd h) \<longrightarrow> u \<in> set (keys (hotkeys e)))"
    if "(u, h) \<in> set (histories e)" for u h
    using assms(6) [of u] engine_histories(1) [OF assms(1) that] that by force
  then show ?thesis using assms unfolding restorable_def persistable_def by blast
qed

lemma restorableD:
  assumes "restorable us e"
  shows "engine_inv e" "0 < window_seconds e" "distinct (keys (hotkeys e))" "us \<subseteq> set (keys (hotkeys e))"
    and "(u, hk) \<in> set (hotkeys e) \<Longrightarrow> 0 \<le> u \<and> u < int (length (scores e)) \<and> hk \<noteq> []"
    and "\<forall>t \<in> fst ` set (hist e u). 0 \<le> t"
    and "0 < sum_list (map snd (hist e u)) \<Longrightarrow> u \<in> set (keys (hotkeys e))"
proof -
  show "engine_inv e" "0 < window_seconds e" "distinct (keys (hotkeys e))" "us \<subseteq> set (keys (hotkeys e))"
    "(u, hk) \<in> set (hotkeys e) \<Longrightarrow> 0 \<le> u \<and> u < int (length (scores e)) \<and> hk \<noteq> []"
    using assms by (auto simp: restorable_def persistable_def)
  have "(\<forall>t \<in> fst ` set (hist e u). 0 \<le> t) \<and> (0 < sum_list (map snd (hist e u)) \<longrightarrow> u \<in> set (keys (hotkeys e)))"
  proof (cases "map_of (histories e) u")
    case None
    then show ?thesis by (simp add: hist_def dict_get_def)
  next
    case (Some h)
    then have "(u, h) \<in> set (histories e)" "hist e u = h" by (simp_all add: map_of_SomeD hist_def dict_get_def)
    then show ?thesis using assms persistable_history by (metis restorable_def)
  qed
  then show "\<forall>t \<in> fst ` set (hist e u). 0 \<le> t" "0 < sum_list (map snd (hist e u)) \<Longrightarrow> u \<in> set (keys (hotkeys e))" by blast+
qed

lemma sum_list_last_n: "(\<forall>r \<in> set (map snd xs). 0 \<le> r) \<Longrightarrow> sum_list (map snd (last_n n xs)) \<le> sum_list (map snd (xs :: observation list))"
proof -
  assume a: "\<forall>r \<in> set (map snd xs). 0 \<le> r"
  have "sum_list (map snd xs) = sum_list (map snd (take (length xs - n) xs)) + sum_list (map snd (last_n n xs))"
    unfolding last_n_def by (metis append_take_drop_id map_append sum_list_append)
  moreover have "0 \<le> sum_list (map snd (take (length xs - n) xs))"
    using a by (intro sum_list_nonneg) (auto dest: in_set_takeD)
  ultimately show ?thesis by simp
qed

lemma restorable_recorded:
  assumes "restorable us e" "0 \<le> u" "0 \<le> ts" "clamp_reward r = 0 \<or> u \<in> us"
  shows "restorable us (recorded u r ts e)"
proof (rule restorableI)
  note d = restorableD [OF assms(1)]
  show "engine_inv (recorded u r ts e)" using keepsD [OF keeps_record_obs d(1), of u r ts] assms(2) by (simp add: record_obs_ok)
  show "0 < window_seconds (recorded u r ts e)" "distinct (keys (hotkeys (recorded u r ts e)))"
    "us \<subseteq> set (keys (hotkeys (recorded u r ts e)))"
    using d(2,3,4) by simp_all
  fix v hk assume "(v, hk) \<in> set (hotkeys (recorded u r ts e))"
  then show "0 \<le> v \<and> v < int (length (scores (recorded u r ts e))) \<and> hk \<noteq> []" using d(5) [of v hk] by auto
next
  note d = restorableD [OF assms(1)]
  fix v
  let ?h = "hist e u @ [(ts, clamp_reward r)]"
  have "0 \<le> clamp_reward r" by (simp add: clamp_reward_def)
  then have nn: "\<forall>x \<in> set (map snd ?h). 0 \<le> x" using hist_nonneg [OF d(1), of u] by auto
  have times: "\<forall>t \<in> fst ` set (last_n (max_samples e) ?h). 0 \<le> t"
    using d(6) [of u] assms(3) set_last_n [of "max_samples e" ?h] by auto
  have "u \<in> set (keys (hotkeys e))" if "0 < sum_list (map snd (last_n (max_samples e) ?h))"
  proof (cases "u \<in> us")
    case False
    then have "0 < sum_list (map snd (hist e u))" using that sum_list_last_n [OF nn, of "max_samples e"] assms(4) by simp
    then show ?thesis by (rule d(7))
  qed (use d(4) in blast)
  then show "(\<forall>t \<in> fst ` set (hist (recorded u r ts e) v). 0 \<le> t) \<and>
      (0 < sum_list (map snd (hist (recorded u r ts e) v)) \<longrightarrow> v \<in> set (keys (hotkeys (recorded u r ts e))))"
    using times d(6,7) [of v] by auto
qed

lemma restorable_record_obs:
  assumes "0 \<le> ts" "clamp_reward r = 0 \<or> u \<in> us"
  shows "keeps (restorable us) (record_obs u r ts)"
proof -
  have "restorable us (snd (record_obs u r ts e))" if "restorable us e" for e
    using that restorable_recorded [OF that, of u ts r] assms by (cases "0 \<le> u") (simp_all add: record_obs_ok record_obs_neg)
  then show ?thesis by (simp add: keeps_def)
qed

lemma restorable_record_zeros: "0 \<le> ts \<Longrightarrow> keeps (restorable us) (record_zeros xs ts)"
  unfolding record_zeros_def by (intro keeps_foreach restorable_record_obs) (simp_all add: clamp_reward_def)

lemma restorable_record_nonserving: "keeps (restorable us) (record_nonserving active ob now)"
  by (auto simp: keeps_def record_nonserving_def Let_def timestamp_of_def
      intro!: keepsD [OF restorable_record_zeros] split: sum.splits if_splits)

lemma restorable_hotkey:
  assumes "restorable us e" "0 \<le> u" "hk \<noteq> []" "engine_inv e'" "hotkeys e' = AList.update u hk (hotkeys e)"
    "window_seconds e' = window_seconds e" "length (scores e) \<le> length (scores e')" "u < int (length (scores e'))"
    "\<And>v. hist e' v = hist e v \<or> hist e' v = []"
  shows "restorable (insert u us) e'"
proof (rule restorableI)
  note d = restorableD [OF assms(1)]
  have k: "set (keys (AList.update u hk (hotkeys e))) = insert u (set (keys (hotkeys e)))" by (simp add: dom_update)
  show "engine_inv e'" "0 < window_seconds e'" using assms(4,6) d(2) by simp_all
  show "distinct (keys (hotkeys e'))" using d(3) assms(5) by (simp add: distinct_update)
  show "insert u us \<subseteq> set (keys (hotkeys e'))" using d(4) k assms(5) by auto
  show "(\<forall>t \<in> fst ` set (hist e' v). 0 \<le> t) \<and> (0 < sum_list (map snd (hist e' v)) \<longrightarrow> v \<in> set (keys (hotkeys e')))" for v
    using assms(9) [of v] d(6,7) [of v] k assms(5) by auto
  fix v hk' assume m: "(v, hk') \<in> set (hotkeys e')"
  have "(v, hk') = (u, hk) \<or> (v, hk') \<in> set (hotkeys e)"
    using m d(3) assms(5) by (metis distinct_update map_of_eq_Some_iff map_of_is_SomeI update_conv' fun_upd_apply option.inject)
  then show "0 \<le> v \<and> v < int (length (scores e')) \<and> hk' \<noteq> []" using d(5) [of v hk'] assms(2,3,7,8) by auto
qed

lemma restorable_mono: "restorable us e \<Longrightarrow> vs \<subseteq> us \<Longrightarrow> restorable vs e"
  by (auto simp: restorable_def)

lemma restorable_set_hotkey:
  assumes "hk \<noteq> []" "restorable us e" "set_hotkey (u, hk) e = (Inr (), e')"
  shows "restorable (insert u us) e'"
proof -
  have u: "0 \<le> u" and e': "e' = e\<lparr>scores := scores e @ replicate (nat u + 1 - length (scores e)) (Fin 0),
      hotkeys := AList.update u hk (hotkeys e)\<rparr>"
    using assms(3) by (auto simp: set_hotkey_def ensure_capacity_def method_simps split: if_splits)
  have inv: "engine_inv e'" using inv_grow [OF restorableD(1) [OF assms(2)]] by (simp add: e')
  show ?thesis by (rule restorable_hotkey [OF assms(2) u assms(1) inv]) (use u in \<open>auto simp: e'\<close>)
qed

lemma restorable_set_hotkeys:
  assumes "\<forall>(u, hk) \<in> set h. hk \<noteq> [] \<and> 0 \<le> u" "restorable us e"
  shows "\<exists>e'. set_hotkeys h e = (Inr (), e') \<and> restorable (us \<union> set (keys h)) e'"
  using assms
proof (induction h arbitrary: us e)
  case (Cons p h)
  obtain u hk where p: "p = (u, hk)" by (cases p)
  obtain e1 where e1: "set_hotkey (u, hk) e = (Inr (), e1)"
    using Cons.prems(1) p by (auto simp: set_hotkey_def ensure_capacity_def method_simps)
  have "restorable (insert u us) e1" using restorable_set_hotkey [OF _ Cons.prems(2) e1] Cons.prems(1) p by simp
  then show ?case using Cons.IH [of "insert u us" e1] Cons.prems(1) e1 p by (auto simp: set_hotkeys_def andthen_apply)
qed (simp add: set_hotkeys_def return_apply)

lemma restorable_update:
  assumes e: "restorable us e" and h: "\<forall>(u, hk) \<in> set h. hk \<noteq> [] \<and> 0 \<le> u" and r: "set (keys rewards) \<subseteq> set (keys h)"
  shows "restorable us (snd (update rewards (Some h) dispatched ob now e))"
proof -
  obtain e1 where e1: "set_hotkeys h e = (Inr (), e1)" "restorable (us \<union> set (keys h)) e1"
    using restorable_set_hotkeys [OF h e] by blast
  let ?us = "us \<union> set (keys h)"
  have body: "keeps (restorable ?us) (andthen (record_rewards rewards ts) (\<lambda>_. andthen (record_silent rewards dispatched ts) (\<lambda>_. return ts)))"
    if "0 \<le> ts" for ts
  proof -
    have "keeps (restorable ?us) (record_rewards rewards ts)"
      unfolding record_rewards_def using r that by (intro keeps_foreach) (force intro: restorable_record_obs)
    moreover have "keeps (restorable ?us) (record_silent rewards dispatched ts)"
      using restorable_record_zeros [OF that] by (simp add: record_silent_def keeps_def)
    ultimately show ?thesis by (intro keeps_andthen keeps_return)
  qed
  have "restorable ?us (snd (update rewards (Some h) dispatched ob now e))"
    using e1 keepsD [OF body e1(2)]
    by (auto simp: update_def andthen_apply raise_apply return_apply timestamp_of_def Let_def split: sum.splits if_splits)
  then show ?thesis by (rule restorable_mono) simp
qed

lemma restorable_sync_one:
  assumes "hk \<noteq> []" "0 \<le> u" "restorable us e"
  shows "\<exists>r e'. sync_one (u, hk) e = (Inr r, e') \<and> restorable (insert u us) e' \<and> length (scores e) \<le> length (scores e') \<and>
    length (scores e') \<le> max (length (scores e)) (nat u + 1)"
proof -
  have "\<exists>r e'. sync_one (u, hk) e = (Inr r, e')"
    using assms(2) by (simp add: sync_one_def ensure_capacity_def method_simps)
  then obtain r e' where s: "sync_one (u, hk) e = (Inr r, e')" by blast
  have inv: "engine_inv e'" using keepsD [OF keeps_sync_one restorableD(1) [OF assms(3)], of "(u, hk)"] s by simp
  have f: "hotkeys e' = AList.update u hk (hotkeys e)" "window_seconds e' = window_seconds e"
    "length (scores e') = max (length (scores e)) (nat u + 1)" "histories e' = histories e \<or> histories e' = AList.delete u (histories e)"
    using s assms(2) by (auto simp: sync_one_def ensure_capacity_def method_simps split: option.splits if_splits)
  have "hist e' v = hist e v \<or> hist e' v = []" for v
    using f(4) by (auto simp: hist_def dict_get_def delete_conv')
  then have "restorable (insert u us) e'"
    using assms(2) f by (intro restorable_hotkey [OF assms(3,2,1) inv]) auto
  then show ?thesis using s f(3) by auto
qed

lemma restorable_sync_loop:
  assumes "\<forall>(u, hk) \<in> set h. hk \<noteq> [] \<and> 0 \<le> u \<and> u < int n" "restorable us e" "length (scores e) = n"
  shows "\<exists>r e'. sync_loop h e = (Inr r, e') \<and> restorable (us \<union> set (keys h)) e' \<and> length (scores e') = n"
  using assms
proof (induction h arbitrary: us e)
  case (Cons p h)
  obtain u hk where p: "p = (u, hk)" by (cases p)
  obtain r1 e1 where e1: "sync_one (u, hk) e = (Inr r1, e1)" "restorable (insert u us) e1" "length (scores e1) = n"
    using restorable_sync_one [OF _ _ Cons.prems(2), of hk u] Cons.prems(1,3) p by auto
  obtain r2 e2 where "sync_loop h e1 = (Inr r2, e2)" "restorable (insert u us \<union> set (keys h)) e2" "length (scores e2) = n"
    using Cons.IH [OF _ e1(2,3)] Cons.prems(1) by auto
  then show ?case using e1 p by (auto simp: andthen_apply return_apply)
qed (simp add: return_apply)

lemma restorable_resize:
  assumes "restorable {} e" "0 \<le> n"
  shows "\<exists>e'. resize n e = (Inr (), e') \<and> restorable {} e' \<and> length (scores e') = nat n"
proof -
  note d = restorableD [OF assms(1)]
  have "\<exists>e'. resize n e = (Inr (), e')" using assms(2) by (simp add: resize_def)
  then obtain e' where r: "resize n e = (Inr (), e')" by blast
  have inv: "engine_inv e'" using keepsD [OF keeps_resize d(1), of n] r by simp
  have len: "length (scores e') = nat n" using r assms(2) by (auto simp: resize_def split: if_splits)
  have "restorable {} e'"
  proof (cases "nat n < length (scores e)")
    case False
    then have e': "histories e' = histories e" "hotkeys e' = hotkeys e" "window_seconds e' = window_seconds e"
      using r assms(2) by (auto simp: resize_def split: if_splits)
    have "hist e' v = hist e v" for v using e'(1) by (simp add: hist_def)
    moreover have "0 \<le> u \<and> u < int (nat n) \<and> hk \<noteq> []" if "(u, hk) \<in> set (hotkeys e)" for u hk
      using d(5) [OF that] False by linarith
    ultimately show ?thesis using len d(2-4,6,7) e' by (intro restorableI [OF inv]) auto
  next
    case True
    then have e': "histories e' = filter (\<lambda>(u, _). u < n) (histories e)" "hotkeys e' = filter (\<lambda>(u, _). u < n) (hotkeys e)"
      "window_seconds e' = window_seconds e"
      using r assms(2) by (auto simp: resize_def split: if_splits)
    have h: "hist e' v = (if v < n then hist e v else [])" for v
      using e'(1) hist_filter [of "\<lambda>u. u < n" e v] by (simp add: hist_def)
    show ?thesis
    proof (rule restorableI [OF inv])
      show "distinct (keys (hotkeys e'))" using d(3) e'(2) by (simp add: distinct_map_filter)
      show "(\<forall>t \<in> fst ` set (hist e' v). 0 \<le> t) \<and> (0 < sum_list (map snd (hist e' v)) \<longrightarrow> v \<in> set (keys (hotkeys e')))" for v
        using d(6,7) [of v] e'(2) by (force simp: h)
    qed (use d(2,5) e' len assms(2) in auto)
  qed
  then show ?thesis using r len by blast
qed

section \<open>Whatever the file holds\<close>

text \<open>What both readers promise of the content they accept.\<close>

definition acceptable :: "nat \<Rightarrow> (uid, observation list) dict \<Rightarrow> (uid, string) dict \<Rightarrow> bool" where
  "acceptable n hs hks \<longleftrightarrow> valid_saved n hs \<and> distinct (keys hks) \<and>
     (\<forall>(u, hk) \<in> set hks. 0 \<le> u \<and> u < int n \<and> hk \<noteq> []) \<and>
     (\<forall>(u, h) \<in> set hs. (\<forall>t \<in> fst ` set h. 0 \<le> t) \<and> (0 < sum_list (map snd h) \<longrightarrow> u \<in> set (keys hks)))"

lemma restore_window: "window_seconds (snd (restore n hs hks e)) = window_seconds e"
proof -
  let ?e = "e\<lparr>scores := replicate n (Fin 0), histories := []\<rparr>"
  have k: "keeps (\<lambda>x. window_seconds x = window_seconds e) (restore_one p)" for p
    by (auto simp: keeps_def restore_one_def refresh_score_def set_score_def Let_def split: prod.splits)
  have "window_seconds (snd (foreach restore_one hs ?e)) = window_seconds e"
    by (rule keepsD [OF keeps_foreach [OF k]]) simp
  then show ?thesis by (auto simp: restore_def method_simps split: prod.splits sum.splits)
qed

lemma restorable_restore:
  assumes e: "restorable {} e" and a: "acceptable n hs hks"
  shows "\<exists>e'. restore n hs hks e = (Inr (), e') \<and> restorable {} e'"
proof -
  note d = restorableD [OF e]
  have valid: "valid_saved n hs" using a by (simp add: acceptable_def)
  obtain e' where e': "restore n hs hks e = (Inr (), e')" "engine_inv e'" "hotkeys e' = hks"
    "\<forall>v. hist e' v = last_n (max_samples e) (dict_get hs v [])"
    using restore_ok [OF d(1) valid, of hks] by blast
  have "(\<forall>t \<in> fst ` set (hist e' v). 0 \<le> t) \<and> (0 < sum_list (map snd (hist e' v)) \<longrightarrow> v \<in> set (keys hks))" for v
  proof (cases "map_of hs v")
    case None
    then show ?thesis using e'(4) by (simp add: dict_get_def last_n_def)
  next
    case (Some h)
    then have m: "(v, h) \<in> set hs" and h: "hist e' v = last_n (max_samples e) h" using e'(4) by (simp_all add: dict_get_def map_of_SomeD)
    have "\<forall>r \<in> set (map snd h). 0 \<le> r" using valid m by (fastforce simp: valid_saved_def)
    then show ?thesis
      using sum_list_last_n [of h "max_samples e"] set_last_n [of "max_samples e" h] a m
      unfolding h acceptable_def by fastforce
  qed
  moreover have "length (scores e') = n" "0 < window_seconds e'"
    using restore_frame [OF e'(1)] restore_window [of n hs hks e] e'(1) d(2) by simp_all
  ultimately have "restorable {} e'"
    using e'(2,3) a by (intro restorableI) (auto simp: acceptable_def)
  then show ?thesis using e'(1) by blast
qed

lemma dict_of_keys: "distinct (keys (dict_of ps))"
proof -
  have "distinct (keys acc) \<Longrightarrow> distinct (keys (fold (\<lambda>(k, v). AList.update k v) ps acc))" for acc
    by (induction ps arbitrary: acc) (auto simp: distinct_update)
  then show ?thesis by (simp add: dict_of_def)
qed

lemma load_hotkeys_ok:
  assumes "load_hotkeys jr n j = Some hks"
  shows "distinct (keys hks)" "\<forall>(u, hk) \<in> set hks. 0 \<le> u \<and> u < n \<and> hk \<noteq> []"
  using assms dict_of_keys
  by (auto simp: load_hotkeys_def Let_def list_ex_iff not_le not_less split: option.splits pyjson.splits if_splits)

lemma load_observation_ok: "load_observation jr j = Some (t, r) \<Longrightarrow> 0 \<le> t \<and> 0 \<le> r"
  by (cases "(jr, j)" rule: load_observation.cases)
     (auto split: pyjson.splits option.splits if_splits)

lemma traverse_Some: "traverse f xs = Some ys \<Longrightarrow> y \<in> set ys \<Longrightarrow> \<exists>x \<in> set xs. f x = Some y"
  by (induction xs arbitrary: ys) (auto split: option.splits)

lemma load_history_ok: "load_history jr mx j = Some h \<Longrightarrow> \<forall>(t, r) \<in> set h. 0 \<le> t \<and> 0 \<le> r"
  by (auto simp: load_history_def split: pyjson.splits if_splits dest!: traverse_Some load_observation_ok)

lemma load_histories_ok:
  assumes "load_histories jr n mx ps acc = Some hs" "distinct (keys acc)"
    and "\<forall>(u, h) \<in> set acc. 0 \<le> u \<and> u < n \<and> (\<forall>(t, r) \<in> set h. 0 \<le> t \<and> 0 \<le> r)"
  shows "distinct (keys hs) \<and> (\<forall>(u, h) \<in> set hs. 0 \<le> u \<and> u < n \<and> (\<forall>(t, r) \<in> set h. 0 \<le> t \<and> 0 \<le> r))"
  using assms
proof (induction jr n mx ps acc rule: load_histories.induct)
  case (2 jr n mx k v ps acc)
  obtain u h where u: "int_text k = Some u" "\<not> (u \<in> set (keys acc) \<or> u < 0 \<or> u \<ge> n)" "load_history jr mx v = Some h"
    "load_histories jr n mx ps (acc @ [(u, h)]) = Some hs"
    using "2.prems"(1) by (auto split: option.splits if_splits)
  show ?case
    using "2.IH" [OF u(1,2,3,4)] "2.prems"(2,3) u(2) load_history_ok [OF u(3)] by auto
qed simp

lemma read_v2_ok:
  assumes "read_v2 jr d e = Some (n, hs, hks)"
  shows "acceptable n hs hks"
proof -
  obtain m mx ps raw where p: "map_of d ''num_uids'' = Some (JInt m)" "0 \<le> m" "load_hotkeys jr m (map_of d ''hotkeys'') = Some hks"
    "load_histories jr m mx ps [] = Some raw" "n = nat m" "hs = map (\<lambda>(u, h). (u, last_n (max_samples e) h)) raw"
    "\<not> list_ex (\<lambda>(u, h). sum_list (map snd h) > 0 \<and> u \<notin> set (keys hks)) hs"
    using assms by (auto simp: read_v2_def Let_def split: option.splits pyjson.splits if_splits)
  have r: "distinct (keys raw)" "\<forall>(u, h) \<in> set raw. 0 \<le> u \<and> u < m \<and> (\<forall>(t, r) \<in> set h. 0 \<le> t \<and> 0 \<le> r)"
    using load_histories_ok [OF p(4)] by simp_all
  have k: "keys hs = keys raw" unfolding p(6) by (simp add: comp_def case_prod_unfold)
  have h: "0 \<le> u \<and> u < m \<and> (\<forall>(t, r) \<in> set h. 0 \<le> t \<and> 0 \<le> r)" if "(u, h) \<in> set hs" for u h
    using that r(2) set_last_n unfolding p(6) by fastforce
  have o: "0 < sum_list (map snd h) \<longrightarrow> u \<in> set (keys hks)" if "(u, h) \<in> set hs" for u h
    using p(7) that by (auto simp: list_ex_iff)
  show ?thesis
    unfolding acceptable_def valid_saved_def
    using load_hotkeys_ok [OF p(3)] r(1) k h o p(2,5) by fastforce
qed

lemma read_v1_ok:
  assumes "read_v1 jr now d e = Some (n, hs, hks)"
  shows "acceptable n hs hks"
proof -
  obtain sc t where p: "list_all (\<lambda>x. is_finite x \<and> fin_val x \<ge> 0) sc" "load_hotkeys jr (int (length sc)) (map_of d ''hotkeys'') = Some hks"
    "timestamp_of None now = Inr t" "n = length sc" "hs = migrated e sc t hks"
    using assms by (auto simp: read_v1_def split: option.splits if_splits sum.splits)
  note hk = load_hotkeys_ok [OF p(2)]
  have t: "0 \<le> t" using p(3) by (auto simp: timestamp_of_def Let_def split: if_splits)
  have hs: "u \<in> set (keys hks) \<and> h = replicate (min_samples e) (t, fin_val (sc ! nat u)) \<and> 0 < fin_val (sc ! nat u)"
    if "(u, h) \<in> set hs" for u h
    using that by (auto simp: p(5) migrated_def)
  have k: "keys hs = filter (\<lambda>u. fin_val (sc ! nat u) > 0) (keys hks)" by (simp add: p(5) migrated_def comp_def)
  have r: "0 \<le> u \<and> u < int n" if "u \<in> set (keys hks)" for u using that hk(2) p(4) by auto
  have h: "(0 \<le> u \<and> u < int n \<and> (\<forall>x \<in> snd ` set h. 0 \<le> x)) \<and> (\<forall>x \<in> fst ` set h. 0 \<le> x) \<and> u \<in> set (keys hks)"
    if "(u, h) \<in> set hs" for u h
    using hs [OF that] r [of u] t by (auto split: if_splits)
  show ?thesis
    unfolding acceptable_def valid_saved_def using h hk p(4) k by (auto simp: distinct_map)
qed

lemma load_scores_restorable:
  assumes "restorable {} e"
  shows "restorable {} (fst (load_scores jr now writable path file e))"
proof -
  have ok: "restorable {} (fst (case restore n hs hks e of (Inl _, e') \<Rightarrow> (e', file) | (Inr _, e') \<Rightarrow> (e', F e')))"
    if "acceptable n hs hks" for n hs hks F
    using restorable_restore [OF assms that] by auto
  show ?thesis
    using assms ok read_v1_ok read_v2_ok
    by (auto simp: load_scores_def Let_def split: score_file.split pyjson.split option.split)
qed

end
