(* ===== verification/ValidatorLoop.thy ===== *)
theory ValidatorLoop
  imports ScoreState Selection
begin

text \<open>
  The validator process: the block-interval loop (\<open>src/rlvr/neurons/base.py\<close> and
  \<open>validator.py\<close>) and the callbacks it runs (\<open>src/rlvr/neurons/decentralized.py\<close>): one round, from
  the metagraph to the saved scores, and the submission of weights.  What the chain, the clocks and
  the outside world answer during one turn of the loop is the record \<open>turn\<close>.  The lemmas show that
  reachable states can always be saved and restored, that weights are submitted only on evidence and
  within the chain's rate limit, and that rounds keep being run.
\<close>

section \<open>Cadence\<close>

text \<open>\<open>should_run\<close>, with the block of the last firing before and after.\<close>

definition should_run :: "int \<Rightarrow> int \<Rightarrow> int option \<Rightarrow> bool \<times> int option" where
  "should_run block interval last_run =
     (if interval \<le> 0 then (True, last_run)
      else if (case last_run of None \<Rightarrow> True | Some b \<Rightarrow> block - b \<ge> interval) then (True, Some block)
      else (False, last_run))"

record neuron =
  nr_last_run_block :: "int option"
  nr_round_interval :: int
  nr_weights_interval :: int
  nr_chain_limit :: "int option"
  nr_deferred_until :: "real option"

definition defer_rounds_until :: "pyfloat \<Rightarrow> (neuron, py_error, unit) meth" where
  "defer_rounds_until deadline = (\<lambda>n.
     if \<not> is_finite deadline then (Inl (ValueError ''lease deferral deadline must be finite''), n)
     else if (case nr_deferred_until n of None \<Rightarrow> True | Some d \<Rightarrow> fin_val deadline > d)
       then (Inr (), n\<lparr>nr_deferred_until := Some (fin_val deadline)\<rparr>)
     else (Inr (), n))"

text \<open>Three attempts to read the block.\<close>

definition current_block_with_recovery :: "(nat \<Rightarrow> int option) \<Rightarrow> int option" where
  "current_block_with_recovery answers =
     (case answers 1 of Some b \<Rightarrow> Some b
      | None \<Rightarrow> (case answers 2 of Some b \<Rightarrow> Some b | None \<Rightarrow> answers 3))"

definition WEIGHTS_RATE_LIMIT_MARGIN :: int where "WEIGHTS_RATE_LIMIT_MARGIN = 20"

text \<open>What the chain returned: nothing, or an integer.\<close>

definition read_weights_rate_limit :: "int option \<Rightarrow> int option" where
  "read_weights_rate_limit v = (case v of Some n \<Rightarrow> if n \<le> 0 then None else Some n | None \<Rightarrow> None)"

definition effective_weights_interval :: "int \<Rightarrow> int option \<Rightarrow> int" where
  "effective_weights_interval configured chain_limit =
     (case chain_limit of
        Some n \<Rightarrow> if n \<le> 0 then configured else max configured (n + WEIGHTS_RATE_LIMIT_MARGIN)
      | None \<Rightarrow> configured)"

definition apply_weights_rate_limit :: "validator_policy \<Rightarrow> int option \<Rightarrow> neuron \<Rightarrow> neuron" where
  "apply_weights_rate_limit policy chain n =
     (let chain_limit = read_weights_rate_limit chain in
      n\<lparr>nr_chain_limit := chain_limit,
        nr_weights_interval := effective_weights_interval (weights_interval_blocks policy) chain_limit\<rparr>)"

definition new_neuron :: "validator_policy \<Rightarrow> neuron" where
  "new_neuron policy = \<lparr>nr_last_run_block = None, nr_round_interval = round_interval_blocks policy,
     nr_weights_interval = weights_interval_blocks policy, nr_chain_limit = None, nr_deferred_until = None\<rparr>"

definition MAX_LEASE_DEFERRAL_S :: int where "MAX_LEASE_DEFERRAL_S = 900"

definition lease_deferral_s :: "int option \<Rightarrow> int option" where
  "lease_deferral_s retry = map_option (\<lambda>n. max 0 (min n MAX_LEASE_DEFERRAL_S)) retry"

section \<open>A round\<close>

record axon =
  ax_ip :: "string option"
  ax_port :: int

record metagraph =
  mg_hotkeys :: "string list"
  mg_axons :: "axon list"
  mg_permits :: "bool list option"
  mg_trust :: "pyfloat list option"
  mg_owner :: "string option"

text \<open>\<open>_solver_clients\<close>, by the uid and hotkey of each client.\<close>

definition serving :: "axon \<Rightarrow> bool" where
  "serving a \<longleftrightarrow> ax_port a \<noteq> 0 \<and> ax_ip a \<noteq> Some ''0.0.0.0'' \<and> ax_ip a \<noteq> Some [] \<and> ax_ip a \<noteq> None"

fun solver_clients_from :: "nat \<Rightarrow> string list \<Rightarrow> axon list \<Rightarrow> py_error + miner list" where
  "solver_clients_from uid [] axons = Inr []"
| "solver_clients_from uid (hk # hks) axons =
     (if uid \<ge> length axons then Inl IndexError
      else rbind (solver_clients_from (Suc uid) hks axons) (\<lambda>cs.
        Inr (if serving (axons ! uid) then (int uid, hk) # cs else cs)))"

definition solver_clients :: "metagraph \<Rightarrow> py_error + miner list" where
  "solver_clients mg = solver_clients_from 0 (mg_hotkeys mg) (mg_axons mg)"

record round_inputs =
  ri_metagraph :: "metagraph option"
  ri_draws :: "nat \<Rightarrow> nat"
  ri_lease :: "miner list \<Rightarrow> ustring + v3_lease_outcome"
  ri_env :: round_env
  ri_clock :: pyfloat
  ri_monotonic :: real
  ri_writable :: bool

record validator_config =
  vc_policy :: validator_policy
  vc_round_policy :: round_policy
  vc_score_file :: string

record validator =
  va_neuron :: neuron
  va_engine :: engine
  va_uids :: nat
  va_order :: "miner list option"
  va_file :: score_file

text \<open>An exception that leaves the callback ends the process.\<close>

datatype crash = MetagraphSync | EngineError py_error | LeaseError ustring | SetWeights

definition synced_engine :: "metagraph \<Rightarrow> engine \<Rightarrow> (py_error + uid list) \<times> engine" where
  "synced_engine mg =
     andthen (resize (int (length (mg_hotkeys mg)))) (\<lambda>_.
     sync (map (\<lambda>(i, hk). (int i, hk)) (enumerate 0 (mg_hotkeys mg))) None)"

definition round_result_of :: "validator_config \<Rightarrow> round_inputs \<Rightarrow> miner list \<Rightarrow> miner list \<Rightarrow> v3_lease_outcome \<Rightarrow> round_result" where
  "round_result_of cfg i live offered out =
     fst (evaluate_round ((ri_env i)\<lparr>en_lease := (\<lambda>_ _. round_lease out),
            en_solvers := filter (\<lambda>s. s \<in> set offered) live\<rparr>) (vc_round_policy cfg) offered)"

definition next_order :: "round_result \<Rightarrow> miner list \<Rightarrow> miner list option" where
  "next_order r offered =
     (if rr_status r = Completed \<or> rr_reason_code r = Some QUORUM_NOT_MET then None else Some offered)"

text \<open>The part of the callback that follows \<open>evaluate_round\<close>.  Diagnostics, notices and trace checks
  cannot change the state or raise.\<close>

definition conclude_round ::
  "validator_config \<Rightarrow> round_inputs \<Rightarrow> miner list \<Rightarrow> round_result \<Rightarrow> (validator, crash, unit) meth" where
  "conclude_round cfg i live r = (\<lambda>v.
     let store = (\<lambda>v. (Inr (), v\<lparr>va_file := snd (save_scores (ri_writable i) (vc_score_file cfg) (va_engine v) (va_file v))\<rparr>)) in
     case rr_status r of
       Completed \<Rightarrow>
         (case apply_round_scores r (dict_of live) (Fin (payment_speed_half_life_ms (vc_policy cfg)))
                 (Fin (payment_speed_floor (vc_policy cfg))) (ri_clock i) (va_engine v) of
            (Inl e, eng) \<Rightarrow> (Inl (EngineError e), v\<lparr>va_engine := eng\<rparr>)
          | (Inr _, eng) \<Rightarrow> store (v\<lparr>va_engine := eng\<rparr>))
     | Unavailable \<Rightarrow>
         (case lease_deferral_s (rr_retry_after_s r) of
            None \<Rightarrow> store v
          | Some wait \<Rightarrow>
              (case defer_rounds_until (Fin (next_lease_not_before wait (ri_monotonic i))) (va_neuron v) of
                 (Inl e, n) \<Rightarrow> (Inl (EngineError e), v\<lparr>va_neuron := n\<rparr>)
               | (Inr _, n) \<Rightarrow> store (v\<lparr>va_neuron := n\<rparr>)))
     | Abandoned \<Rightarrow> store v)"

definition offer_and_grade ::
  "validator_config \<Rightarrow> round_inputs \<Rightarrow> miner list \<Rightarrow> miner list \<Rightarrow> (validator, crash, unit) meth" where
  "offer_and_grade cfg i live eligible = (\<lambda>v.
     let offered = next_offer (ri_draws i) (va_order v) eligible CANDIDATE_LIMIT;
         v' = v\<lparr>va_order := Some offered\<rparr> in
     if offered = [] then (Inr (), v')
     else (case ri_lease i offered of
       Inl e \<Rightarrow> (Inl (LeaseError e), v')
     | Inr out \<Rightarrow>
         let r = round_result_of cfg i live offered out in
         conclude_round cfg i live r (v'\<lparr>va_order := next_order r offered\<rparr>)))"

definition round_callback :: "validator_config \<Rightarrow> round_inputs \<Rightarrow> (validator, crash, unit) meth" where
  "round_callback cfg i = (\<lambda>v.
     case ri_metagraph i of
       None \<Rightarrow> (Inl MetagraphSync, v)
     | Some mg \<Rightarrow>
         let v0 = v\<lparr>va_uids := length (mg_hotkeys mg)\<rparr> in
         (case synced_engine mg (va_engine v) of
            (Inl e, eng) \<Rightarrow> (Inl (EngineError e), v0\<lparr>va_engine := eng\<rparr>)
          | (Inr _, eng) \<Rightarrow>
              let v1 = v0\<lparr>va_engine := eng\<rparr> in
              (case rbind (solver_clients mg) (\<lambda>live.
                      rbind (eligible_miners live (mg_permits mg) (mg_trust mg) (mg_owner mg)) (\<lambda>eligible. Inr (live, eligible))) of
                 Inl e \<Rightarrow> (Inl (EngineError e), v1)
               | Inr (live, eligible) \<Rightarrow> offer_and_grade cfg i live eligible v1)))"

section \<open>Weights\<close>

definition weight_observation_count :: "engine \<Rightarrow> nat" where
  "weight_observation_count e = Max (set (0 # map (\<lambda>(_, h). length h) (histories e)))"

text \<open>\<open>_submit_local_weights\<close> up to the call of \<open>set_weights\<close>: the vector it submits, if any.\<close>

definition submit_local_weights :: "validator_policy \<Rightarrow> nat \<Rightarrow> engine \<Rightarrow> py_error + real list option" where
  "submit_local_weights policy n e =
     (if int (weight_observation_count e) < min_weight_observations policy then Inr None
      else rbind (get_weights e (Some (int n))) (\<lambda>w.
        if sum_list w \<le> 0 then Inr None else Inr (Some w)))"

section \<open>The loop\<close>

record turn =
  tn_blocks :: "nat \<Rightarrow> int option"
  tn_now :: real
  tn_round :: round_inputs
  tn_set_weights :: bool

record loop_state =
  ls_validator :: validator
  ls_rounds_done :: nat
  ls_weights_gate :: "int option"

datatype event = RoundRun int | WeightsSent int "real list" | WeightsSkipped int

text \<open>Whether this turn runs a round, and the neuron as the round finds it.\<close>

definition round_due :: "real \<Rightarrow> int \<Rightarrow> neuron \<Rightarrow> bool \<times> neuron" where
  "round_due now block n =
     (case nr_deferred_until n of
        Some deadline \<Rightarrow>
          if now < deadline then (False, n)
          else (True, n\<lparr>nr_deferred_until := None, nr_last_run_block := Some block\<rparr>)
      | None \<Rightarrow>
          (case should_run block (nr_round_interval n) (nr_last_run_block n) of
             (fires, last_run) \<Rightarrow> (fires, n\<lparr>nr_last_run_block := last_run\<rparr>)))"

definition weights_turn :: "validator_config \<Rightarrow> turn \<Rightarrow> int \<Rightarrow> (loop_state, crash, event list) meth" where
  "weights_turn cfg t block = (\<lambda>s.
     if ls_rounds_done s = 0 then (Inr [], s)
     else (case should_run block (nr_weights_interval (va_neuron (ls_validator s))) (ls_weights_gate s) of
       (False, gate) \<Rightarrow> (Inr [], s)
     | (True, gate) \<Rightarrow>
         let s' = s\<lparr>ls_weights_gate := gate\<rparr> in
         (case submit_local_weights (vc_policy cfg) (va_uids (ls_validator s)) (va_engine (ls_validator s)) of
            Inl e \<Rightarrow> (Inl (EngineError e), s')
          | Inr None \<Rightarrow> (Inr [WeightsSkipped block], s')
          | Inr (Some w) \<Rightarrow> if tn_set_weights t then (Inr [WeightsSent block w], s') else (Inl SetWeights, s'))))"

definition loop_turn :: "validator_config \<Rightarrow> turn \<Rightarrow> (loop_state, crash, event list) meth" where
  "loop_turn cfg t = (\<lambda>s.
     case current_block_with_recovery (tn_blocks t) of
       None \<Rightarrow> (Inr [], s)
     | Some block \<Rightarrow>
         (case round_due (tn_now t) block (va_neuron (ls_validator s)) of
            (False, n) \<Rightarrow> weights_turn cfg t block (s\<lparr>ls_validator := (ls_validator s)\<lparr>va_neuron := n\<rparr>\<rparr>)
          | (True, n) \<Rightarrow>
              (case round_callback cfg (tn_round t) ((ls_validator s)\<lparr>va_neuron := n\<rparr>) of
                 (Inl c, v) \<Rightarrow> (Inl c, s\<lparr>ls_validator := v\<rparr>)
               | (Inr _, v) \<Rightarrow>
                   (case weights_turn cfg t block (s\<lparr>ls_validator := v, ls_rounds_done := ls_rounds_done s + 1\<rparr>) of
                      (Inl c, s') \<Rightarrow> (Inl c, s')
                    | (Inr es, s') \<Rightarrow> (Inr (RoundRun block # es), s')))))"

text \<open>Start of the process: a fresh engine, then whatever the score file holds.\<close>

definition LEGACY_SCORE_WINDOW_SECONDS :: real where "LEGACY_SCORE_WINDOW_SECONDS = 57600"

definition start_validator ::
  "validator_config \<Rightarrow> json_reader \<Rightarrow> pyfloat \<Rightarrow> bool \<Rightarrow> int option \<Rightarrow> nat \<Rightarrow> score_file \<Rightarrow> py_error + loop_state" where
  "start_validator cfg jr clock writable chain n file =
     (let p = vc_policy cfg in
      rbind (init_engine (int n) (Fin LEGACY_SCORE_WINDOW_SECONDS) (score_window_max_samples p) (score_window_min_samples p)
               (decay_nonresponders p) (Some (Fin (rank_decay_p p)))) (\<lambda>e.
      case load_scores jr clock writable (vc_score_file cfg) file e of
        (e', file') \<Rightarrow>
          Inr \<lparr>ls_validator = \<lparr>va_neuron = apply_weights_rate_limit p chain (new_neuron p), va_engine = e', va_uids = n, va_order = None,
                 va_file = file'\<rparr>, ls_rounds_done = 0, ls_weights_gate = None\<rparr>))"

section \<open>Rounds keep the state restorable\<close>

text \<open>What the chain promises: a bounded number of uids, each with a hotkey.\<close>

definition sound_inputs :: "round_inputs \<Rightarrow> bool" where
  "sound_inputs i \<longleftrightarrow>
     (\<forall>mg. ri_metagraph i = Some mg \<longrightarrow> length (mg_hotkeys mg) \<le> 65536 \<and> list_all (\<lambda>hk. hk \<noteq> []) (mg_hotkeys mg))"

lemma solver_clients_from_ok:
  "solver_clients_from k hks axons = Inr cs \<Longrightarrow> (u, hk) \<in> set cs \<Longrightarrow>
     int k \<le> u \<and> u < int k + int (length hks) \<and> hk = hks ! nat (u - int k) \<and> serving (axons ! nat u)"
proof (induction k hks axons arbitrary: cs rule: solver_clients_from.induct)
  case (2 k h hks axons)
  then obtain cs' where cs: "solver_clients_from (Suc k) hks axons = Inr cs'" "cs = (if serving (axons ! k) then (int k, h) # cs' else cs')"
    by (auto simp: rbind_Inr split: if_splits)
  show ?case
  proof (cases "(u, hk) \<in> set cs'")
    case True
    then have ih: "int (Suc k) \<le> u \<and> u < int (Suc k) + int (length hks) \<and> hk = hks ! nat (u - int (Suc k)) \<and> serving (axons ! nat u)"
      using "2.IH" [OF _ cs(1)] "2.prems"(1) by (auto split: if_splits)
    then have "nat (u - int k) = Suc (nat (u - int (Suc k)))" by auto
    then show ?thesis using ih by auto
  qed (use cs "2.prems" in \<open>auto split: if_splits\<close>)
qed simp

lemma solver_clients_ok:
  assumes "solver_clients mg = Inr cs" "(u, hk) \<in> set cs"
  shows "0 \<le> u" "u < int (length (mg_hotkeys mg))" "hk = mg_hotkeys mg ! nat u"
  using solver_clients_from_ok [of 0 "mg_hotkeys mg" "mg_axons mg" cs u hk] assms by (simp_all add: solver_clients_def)

lemma solver_clients_named:
  assumes "solver_clients mg = Inr cs" "list_all (\<lambda>hk. hk \<noteq> []) (mg_hotkeys mg)"
  shows "\<forall>(u, hk) \<in> set cs. 0 \<le> u \<and> u < int (length (mg_hotkeys mg)) \<and> hk \<noteq> []"
proof clarify
  fix u hk assume m: "(u, hk) \<in> set cs"
  then have u: "0 \<le> u" "u < int (length (mg_hotkeys mg))" "hk = mg_hotkeys mg ! nat u"
    using solver_clients_ok [OF assms(1) m] by blast+
  then have "hk \<in> set (mg_hotkeys mg)" by simp
  then show "0 \<le> u \<and> u < int (length (mg_hotkeys mg)) \<and> hk \<noteq> []" using u(1,2) assms(2) by (auto simp: list_all_iff)
qed

lemma restorable_synced:
  assumes "restorable {} e" "list_all (\<lambda>hk. hk \<noteq> []) (mg_hotkeys mg)"
  shows "\<exists>r e'. synced_engine mg e = (Inr r, e') \<and> restorable {} e' \<and> length (scores e') = length (mg_hotkeys mg)"
proof -
  let ?h = "map (\<lambda>(i, hk). (int i, hk)) (enumerate 0 (mg_hotkeys mg))"
  obtain e1 where e1: "resize (int (length (mg_hotkeys mg))) e = (Inr (), e1)" "restorable {} e1"
    "length (scores e1) = length (mg_hotkeys mg)"
    using restorable_resize [OF assms(1), of "int (length (mg_hotkeys mg))"] by auto
  have "\<forall>(u, hk) \<in> set ?h. hk \<noteq> [] \<and> 0 \<le> u \<and> u < int (length (mg_hotkeys mg))"
    using assms(2) by (auto simp: in_set_enumerate_eq list_all_length)
  then obtain r e2 where "sync_loop ?h e1 = (Inr r, e2)" "restorable ({} \<union> set (keys ?h)) e2" "length (scores e2) = length (mg_hotkeys mg)"
    using restorable_sync_loop [OF _ e1(2,3)] by blast
  then show ?thesis using e1(1) restorable_mono by (auto simp: synced_engine_def sync_def andthen_apply return_apply)
qed

lemma dict_of_values: "(k, v) \<in> set (dict_of ps) \<Longrightarrow> (k, v) \<in> set ps"
proof -
  have "(k, v) \<in> set (fold (\<lambda>(k, v). AList.update k v) ps acc) \<Longrightarrow> (k, v) \<in> set ps \<or> (k, v) \<in> set acc" for acc
  proof (induction ps arbitrary: acc)
    case (Cons p ps)
    obtain a b where p: "p = (a, b)" by (cases p)
    have "(k, v) \<in> set (AList.update a b acc) \<Longrightarrow> (k, v) = (a, b) \<or> (k, v) \<in> set acc"
      by (induction acc) (auto split: if_splits)
    then show ?case using Cons.IH [of "AList.update a b acc"] Cons.prems p by auto
  qed simp
  then show "(k, v) \<in> set (dict_of ps) \<Longrightarrow> (k, v) \<in> set ps" by (fastforce simp: dict_of_def)
qed

lemma fold_update_pairs:
  "(k, v) \<in> set (fold (\<lambda>x. AList.update (f x) (g x)) xs []) \<Longrightarrow> \<exists>x \<in> set xs. k = f x \<and> v = g x"
  "set (keys (fold (\<lambda>x. AList.update (f x) (g x)) xs [])) = f ` set xs"
proof -
  have eq: "fold (\<lambda>x. AList.update (f x) (g x)) xs acc = fold (\<lambda>(k, v). AList.update k v) (map (\<lambda>x. (f x, g x)) xs) acc" for acc
    by (induction xs arbitrary: acc) auto
  then show "(k, v) \<in> set (fold (\<lambda>x. AList.update (f x) (g x)) xs []) \<Longrightarrow> \<exists>x \<in> set xs. k = f x \<and> v = g x"
    using dict_of_values [of k v "map (\<lambda>x. (f x, g x)) xs"] by (auto simp: dict_of_def)
  have "set (keys (fold (\<lambda>x. AList.update (f x) (g x)) xs acc)) = set (keys acc) \<union> f ` set xs" for acc
    by (induction xs arbitrary: acc) (auto simp: dom_update)
  then show "set (keys (fold (\<lambda>x. AList.update (f x) (g x)) xs [])) = f ` set xs" by simp
qed

lemma payments_keys: "set (keys (map (\<lambda>(u, x). (u, Fin x)) (compute_round_payments r hl flr))) \<subseteq> me_uid ` set (rr_evaluations r)"
  by (auto simp: compute_round_payments_def fold_update_pairs(2) comp_def case_prod_unfold Let_def image_iff
      dest!: fold_update_pairs(1) split: if_splits)

text \<open>No method changes the settings, and the number of slots stays within the metagraph's.\<close>

definition fits :: "nat \<Rightarrow> nat \<Rightarrow> nat \<Rightarrow> engine \<Rightarrow> bool" where
  "fits n mx mn e \<longleftrightarrow> length (scores e) \<le> n \<and> max_samples e = mx \<and> min_samples e = mn"

lemma fits_record_obs: "u < int n \<Longrightarrow> keeps (fits n mx mn) (record_obs u r ts)"
  by (cases "0 \<le> u") (auto simp: keeps_def fits_def record_obs_ok record_obs_neg)

lemma fits_record_zeros: "\<forall>u \<in> set us. u < int n \<Longrightarrow> keeps (fits n mx mn) (record_zeros us ts)"
  unfolding record_zeros_def by (intro keeps_foreach fits_record_obs) simp

lemma fits_set_hotkeys: "\<forall>(u, hk) \<in> set h. u < int n \<Longrightarrow> keeps (fits n mx mn) (set_hotkeys h)"
  unfolding set_hotkeys_def
  by (intro keeps_foreach)
     (auto simp: keeps_def fits_def set_hotkey_def ensure_capacity_def method_simps split: if_splits prod.splits)

lemma fits_update:
  assumes "\<forall>(u, hk) \<in> set h. u < int n" "\<forall>u \<in> set (keys rewards). u < int n" "\<forall>u \<in> set ds. u < int n"
  shows "keeps (fits n mx mn) (update rewards (Some h) (Some ds) ob now)"
proof -
  have "keeps (fits n mx mn) (record_rewards rewards ts)" for ts
    unfolding record_rewards_def using assms(2) by (intro keeps_foreach) (force intro: fits_record_obs)
  moreover have "keeps (fits n mx mn) (record_silent rewards (Some ds) ts)" for ts
    using fits_record_zeros [of "filter (\<lambda>u. u \<notin> set (keys rewards)) (remdups ds)" n mx mn ts] assms(3)
    by (auto simp: record_silent_def keeps_def)
  ultimately show ?thesis
    unfolding update_def using assms(1)
    by (auto intro!: keeps_intro fits_set_hotkeys split: option.splits sum.splits)
qed

lemma fits_record_nonserving:
  assumes "engine_inv e" "fits n mx mn e"
  shows "fits n mx mn (snd (record_nonserving active ob now e))"
proof -
  have "\<forall>u \<in> set (keys (histories e)). u < int n"
    using engine_histories(3) [OF assms(1)] assms(2) by (fastforce simp: fits_def)
  then have "keeps (fits n mx mn) (record_zeros (filter P (keys (histories e))) ts)" for P ts
    by (intro fits_record_zeros) auto
  then show ?thesis using assms(2) by (auto simp: record_nonserving_def keeps_def Let_def split: sum.splits)
qed

lemma fits_synced:
  assumes "synced_engine mg e = (Inr r, e')" "fits m mx mn e" "length (scores e') = length (mg_hotkeys mg)"
  shows "fits (length (mg_hotkeys mg)) mx mn e'"
proof -
  let ?I = "\<lambda>x. max_samples x = mx \<and> min_samples x = mn"
  have "keeps ?I (sync_one p)" for p
    by (cases p) (simp add: keeps_def sync_one_def ensure_capacity_def method_simps)
  then have s: "keeps ?I (sync_loop h)" for h by (induction h) (simp_all add: keeps_intro)
  have "keeps ?I (resize k)" for k by (simp add: keeps_def resize_def)
  then have "keeps ?I (synced_engine mg)" by (simp add: synced_engine_def sync_def s keeps_intro)
  then show ?thesis using assms keepsD [of ?I "synced_engine mg" e] by (simp add: fits_def)
qed

text \<open>A round's scores, recorded: nothing but the clock can make it fail.\<close>

lemma payments_distinct: "distinct (keys (map (\<lambda>(u, x). (u, Fin x)) (compute_round_payments r hl flr)))"
proof -
  have "distinct (keys acc) \<Longrightarrow> distinct (keys (fold (\<lambda>x. AList.update (f x) (g x)) xs acc))"
    for f :: "'a \<Rightarrow> int" and g :: "'a \<Rightarrow> real" and xs acc
    by (induction xs arbitrary: acc) (auto simp: distinct_update)
  then have "distinct (keys (fold (\<lambda>e. AList.update (me_uid e) (g e)) es []))" for g :: "miner_evaluation \<Rightarrow> real" and es by force
  then show ?thesis unfolding keys_map_Fin compute_round_payments_def by simp
qed

lemma apply_round_scores_sound:
  assumes e: "restorable {} e" "fits n mx mn e" and active: "\<forall>(u, hk) \<in> set active. 0 \<le> u \<and> u < int n \<and> hk \<noteq> []"
    and res: "apply_round_scores r active hl flr now e = (res, e')"
  shows "restorable {} e'" "fits n mx mn e'" "timestamp_of None now = Inr ts \<Longrightarrow> \<exists>b. res = Inr b"
proof -
  define es where "es = eligible_evaluations active (rr_evaluations r)"
  define hks where "hks = fold (\<lambda>x. AList.update (me_uid x) (the (map_of active (me_uid x)))) es []"
  define pays where "pays = map (\<lambda>(u, x). (u, Fin x)) (compute_round_payments (filtered_round r es) hl flr)"
  have hks: "0 \<le> u \<and> u < int n \<and> hk \<noteq> []" if "(u, hk) \<in> set hks" for u hk
    using active fold_update_pairs(1) [OF that [unfolded hks_def]] by (auto simp: es_def eligible_evaluations_def dest!: map_of_SomeD)
  have ds: "0 \<le> u \<and> u < int n" if "u \<in> set (map me_uid es)" for u
    using active that by (auto simp: es_def eligible_evaluations_def dest!: map_of_SomeD)
  have sub: "set (keys pays) \<subseteq> set (map me_uid es)"
    using payments_keys [of "filtered_round r es" hl flr] unfolding pays_def by (simp add: filtered_round_def)
  have khks: "set (keys hks) = set (map me_uid es)" unfolding hks_def fold_update_pairs(2) by simp
  have h: "\<forall>(u, hk) \<in> set hks. hk \<noteq> [] \<and> 0 \<le> u" "\<forall>(u, hk) \<in> set hks. u < int n" "\<forall>u \<in> set (keys hks). 0 \<le> u"
    using hks by auto
  have p: "set (keys pays) \<subseteq> set (keys hks)" "\<forall>u \<in> set (keys pays). u < int n" "\<forall>u \<in> set (keys pays). 0 \<le> u"
    "\<forall>u \<in> set (map me_uid es). u < int n" "\<forall>u \<in> set (map me_uid es). 0 \<le> u"
    using sub khks ds by blast+
  obtain res1 e1 where e1: "update pays (Some hks) (Some (map me_uid es)) None now e = (res1, e1)" by fastforce
  have r1: "restorable {} e1"
    using restorable_update [OF e(1) h(1) p(1), of "Some (map me_uid es)" None now] e1 by simp
  have f1: "fits n mx mn e1"
    using keepsD [OF fits_update [OF h(2) p(2,4)] e(2), of None now] e1 by simp
  have ok1: "res1 = Inr t" if t: "timestamp_of None now = Inr t" for t
    using update_effect [OF restorableD(1) [OF e(1)] payments_distinct [of "filtered_round r es" hl flr, folded pays_def] p(3) _ _ t,
        of "Some (map me_uid es)" "Some hks"] p(5) h(3) e1 by simp
  define step where "step x = record_nonserving (keys active) (Some (Fin x)) now e1" for x
  define res2 e2 where "res2 x = fst (step x)" and "e2 x = snd (step x)" for x
  then have e2: "record_nonserving (keys active) (Some (Fin x)) now e1 = (res2 x, e2 x)" for x by (simp add: step_def)
  have r2: "restorable {} (e2 x)" for x using keepsD [OF restorable_record_nonserving r1] e2 by (metis snd_conv)
  have f2: "fits n mx mn (e2 x)" for x using fits_record_nonserving [OF restorableD(1) [OF r1] f1] e2 by (metis snd_conv)
  have ok2: "res2 x = Inr ()" if "0 \<le> x" for x
    using record_nonserving_effect [OF restorableD(1) [OF r1], of "Some (Fin x)" now x "keys active"] that e2 [of x]
    by (simp add: timestamp_of_def)
  have "apply_round_scores r active hl flr now e =
      (if rr_status r \<noteq> Completed then (Inr False, e)
       else case res1 of Inl err \<Rightarrow> (Inl err, e1)
         | Inr t \<Rightarrow> (case res2 t of Inl err \<Rightarrow> (Inl err, e2 t) | Inr _ \<Rightarrow> (Inr True, e2 t)))"
    using e1 e2 unfolding es_def hks_def pays_def
    by (cases res1) (simp_all add: apply_round_scores_def andthen_apply return_apply Let_def split: sum.split)
  moreover have "0 \<le> t" if "timestamp_of None now = Inr t" for t
    using that by (auto simp: timestamp_of_def Let_def split: if_splits)
  ultimately show "restorable {} e'" "fits n mx mn e'" "timestamp_of None now = Inr ts \<Longrightarrow> \<exists>b. res = Inr b"
    using res e r1 f1 r2 f2 ok1 ok2 by (auto split: if_splits sum.splits)
qed


section \<open>Turns keep the state sound\<close>

definition sound_engine :: "validator_config \<Rightarrow> nat \<Rightarrow> engine \<Rightarrow> bool" where
  "sound_engine cfg n e \<longleftrightarrow> restorable {} e \<and>
     fits n (nat (score_window_max_samples (vc_policy cfg))) (nat (score_window_min_samples (vc_policy cfg))) e"

text \<open>The state after a step: a sound engine, and a file that is unchanged or holds that engine.\<close>

definition consistent :: "validator_config \<Rightarrow> score_file \<Rightarrow> validator \<Rightarrow> bool" where
  "consistent cfg file v \<longleftrightarrow> (\<exists>n. sound_engine cfg n (va_engine v)) \<and>
     (va_file v = file \<or>
      vc_score_file cfg \<noteq> [] \<and> sound_engine cfg 65536 (va_engine v) \<and> va_file v = Saved (score_state (va_engine v)))"

lemma sound_engine_mono: "sound_engine cfg n e \<Longrightarrow> n \<le> m \<Longrightarrow> sound_engine cfg m e"
  by (auto simp: sound_engine_def fits_def)

lemma dict_of_bounds:
  "\<forall>(u, hk) \<in> set live. 0 \<le> u \<and> u < int n \<and> hk \<noteq> [] \<Longrightarrow> \<forall>(u, hk) \<in> set (dict_of live). 0 \<le> u \<and> u < int n \<and> hk \<noteq> []"
  by (auto dest: dict_of_values)

lemma conclude_round_consistent:
  assumes e: "sound_engine cfg n (va_engine v)" and n: "n \<le> 65536"
    and live: "\<forall>(u, hk) \<in> set live. 0 \<le> u \<and> u < int n \<and> hk \<noteq> []"
    and res: "conclude_round cfg i live r v = (out, v')"
  shows "consistent cfg (va_file v) v'"
proof -
  have store: "consistent cfg (va_file v) w"
    if "sound_engine cfg n (va_engine w)" "va_file w = snd (save_scores b (vc_score_file cfg) (va_engine w) (va_file v))" for w b
    using that sound_engine_mono [OF that(1) n] by (auto simp: consistent_def save_scores_def)
  have same: "consistent cfg (va_file v) w" if "sound_engine cfg n (va_engine w)" "va_file w = va_file v" for w
    using that by (auto simp: consistent_def)
  note simps = conclude_round_def Let_def
  show ?thesis
  proof (cases "rr_status r")
    case Completed
    obtain x eng where a: "apply_round_scores r (dict_of live) (Fin (payment_speed_half_life_ms (vc_policy cfg)))
        (Fin (payment_speed_floor (vc_policy cfg))) (ri_clock i) (va_engine v) = (x, eng)" by fastforce
    have s: "sound_engine cfg n eng"
      using apply_round_scores_sound(1,2) [OF _ _ dict_of_bounds [OF live] a] e by (auto simp: sound_engine_def)
    show ?thesis
      using res Completed a s by (cases x) (auto simp: simps intro: store same)
  next
    case Unavailable
    show ?thesis
      using res Unavailable e by (auto simp: simps intro: store same split: option.splits sum.splits prod.splits)
  next
    case Abandoned
    then show ?thesis using res e by (auto simp: simps intro: store)
  qed
qed

lemma offer_and_grade_consistent:
  assumes e: "sound_engine cfg n (va_engine v)" and n: "n \<le> 65536"
    and live: "\<forall>(u, hk) \<in> set live. 0 \<le> u \<and> u < int n \<and> hk \<noteq> []"
    and res: "offer_and_grade cfg i live eligible v = (out, v')"
  shows "consistent cfg (va_file v) v'"
proof -
  have same: "consistent cfg (va_file v) w" if "va_engine w = va_engine v" "va_file w = va_file v" for w
    using that e by (auto simp: consistent_def)
  have "consistent cfg (va_file w) v'" if "conclude_round cfg i live r w = (out, v')" "va_engine w = va_engine v" for r w
    using conclude_round_consistent [OF _ n live that(1)] e that(2) by simp
  then show ?thesis
    using res same by (fastforce simp: offer_and_grade_def Let_def split: if_splits sum.splits)
qed

lemma round_callback_consistent:
  assumes e: "sound_engine cfg m (va_engine v)" and i: "sound_inputs i" and res: "round_callback cfg i v = (out, v')"
  shows "consistent cfg (va_file v) v'"
proof (cases "ri_metagraph i")
  case None
  then show ?thesis using res e by (auto simp: round_callback_def consistent_def)
next
  case (Some mg)
  let ?n = "length (mg_hotkeys mg)"
  have mg: "?n \<le> 65536" "list_all (\<lambda>hk. hk \<noteq> []) (mg_hotkeys mg)" using i Some by (auto simp: sound_inputs_def)
  obtain rs eng where eng: "synced_engine mg (va_engine v) = (Inr rs, eng)" "restorable {} eng" "length (scores eng) = ?n"
    using restorable_synced [OF _ mg(2), of "va_engine v"] e by (auto simp: sound_engine_def)
  then have s: "sound_engine cfg ?n eng" using fits_synced [OF eng(1) _ eng(3)] e by (auto simp: sound_engine_def)
  have live: "\<forall>(u, hk) \<in> set live. 0 \<le> u \<and> u < int ?n \<and> hk \<noteq> []" if "solver_clients mg = Inr live" for live
    using solver_clients_named [OF that mg(2)] by blast
  let ?v = "v\<lparr>va_uids := ?n, va_engine := eng\<rparr>"
  have "consistent cfg (va_file v) v'" if "offer_and_grade cfg i live eligible ?v = (out, v')" "solver_clients mg = Inr live" for live eligible
    using offer_and_grade_consistent [OF _ mg(1) live [OF that(2)] that(1)] s by simp
  moreover have "consistent cfg (va_file v) ?v" using s by (auto simp: consistent_def)
  ultimately show ?thesis
    using res Some eng(1) by (auto simp: round_callback_def Let_def rbind_Inr split: sum.splits)
qed

lemma consistent_neuron [simp]: "consistent cfg file (v\<lparr>va_neuron := n\<rparr>) = consistent cfg file v"
  by (simp add: consistent_def)

lemma weights_turn_validator: "weights_turn cfg t block s = (x, s') \<Longrightarrow> ls_validator s' = ls_validator s"
  by (auto simp: weights_turn_def Let_def split: if_splits prod.splits bool.splits sum.splits option.splits)

text \<open>The validator after a turn: as before, or as the round left it.\<close>

lemma loop_turn_validator:
  assumes "loop_turn cfg t s = (out, s')"
  shows "ls_validator s' = ls_validator s \<or>
    (\<exists>block n. round_due (tn_now t) block (va_neuron (ls_validator s)) = (False, n) \<and> ls_validator s' = (ls_validator s)\<lparr>va_neuron := n\<rparr>) \<or>
    (\<exists>block n x. round_due (tn_now t) block (va_neuron (ls_validator s)) = (True, n) \<and>
       round_callback cfg (tn_round t) ((ls_validator s)\<lparr>va_neuron := n\<rparr>) = (x, ls_validator s'))"
proof (cases "current_block_with_recovery (tn_blocks t)")
  case None
  then show ?thesis using assms by (simp add: loop_turn_def)
next
  case (Some block)
  obtain due n where d: "round_due (tn_now t) block (va_neuron (ls_validator s)) = (due, n)" by fastforce
  obtain x v where c: "round_callback cfg (tn_round t) ((ls_validator s)\<lparr>va_neuron := n\<rparr>) = (x, v)" by fastforce
  obtain y s2 where w: "weights_turn cfg t block (s\<lparr>ls_validator := v, ls_rounds_done := ls_rounds_done s + 1\<rparr>) = (y, s2)" by fastforce
  have "due \<Longrightarrow> ls_validator s' = v"
    using assms Some d c w weights_turn_validator [OF w] by (cases x; cases y) (auto simp: loop_turn_def)
  moreover have "\<not> due \<Longrightarrow> ls_validator s' = (ls_validator s)\<lparr>va_neuron := n\<rparr>"
    using assms Some d by (auto simp: loop_turn_def dest: weights_turn_validator)
  ultimately show ?thesis using d c by (cases due) auto
qed

lemma loop_turn_consistent:
  assumes e: "sound_engine cfg m (va_engine (ls_validator s))" and i: "sound_inputs (tn_round t)"
    and res: "loop_turn cfg t s = (out, s')"
  shows "consistent cfg (va_file (ls_validator s)) (ls_validator s')"
proof -
  have same: "consistent cfg (va_file (ls_validator s)) (ls_validator s)" using e by (auto simp: consistent_def)
  have c: "consistent cfg (va_file (ls_validator s)) v'"
    if "round_callback cfg (tn_round t) ((ls_validator s)\<lparr>va_neuron := n\<rparr>) = (x, v')" for n x v'
    using round_callback_consistent [OF _ i that] e by simp
  show ?thesis using loop_turn_validator [OF res] same c by auto
qed

section \<open>Reachable states\<close>

lemma load_scores_engine:
  assumes "I e" "\<And>n hs hks. I (snd (restore n hs hks e))"
  shows "I (fst (load_scores jr now writable path file e))"
proof -
  have "fst (case restore n hs hks e of (Inl _, e') \<Rightarrow> (e', file) | (Inr _, e') \<Rightarrow> (e', F e')) = snd (restore n hs hks e)" for n hs hks F
    by (simp split: prod.split sum.split)
  then show ?thesis
    unfolding load_scores_def Let_def using assms by (auto split: score_file.split pyjson.split option.split)
qed

lemma load_scores_settings:
  "max_samples (fst (load_scores jr now writable path file e)) = max_samples e \<and>
   min_samples (fst (load_scores jr now writable path file e)) = min_samples e"
proof (rule load_scores_engine [where I = "\<lambda>x. max_samples x = max_samples e \<and> min_samples x = min_samples e"])
  show "max_samples (snd (restore n hs hks e)) = max_samples e \<and> min_samples (snd (restore n hs hks e)) = min_samples e" for n hs hks
    using restore_frame [OF prod.collapse [symmetric], of n hs hks e] by blast
qed simp

lemma init_engine_fits:
  assumes "init_engine n (Fin w) mx mn dc rank = Inr e"
  shows "restorable {} e" "fits (nat n) (nat mx) (nat mn) e"
proof -
  have e: "scores e = replicate (nat n) (Fin 0)" "histories e = []" "hotkeys e = []" "0 < window_seconds e"
    "max_samples e = nat mx" "min_samples e = nat mn"
    using assms by (auto simp: init_engine_def split: if_splits option.splits)
  show "restorable {} e" using e by (intro restorableI [OF init_engine_inv [OF assms]]) auto
  show "fits (nat n) (nat mx) (nat mn) e" using e by (simp add: fits_def)
qed

text \<open>What every turn keeps: a sound engine, and the cadence installed at the start.\<close>

definition loop_inv :: "validator_config \<Rightarrow> loop_state \<Rightarrow> bool" where
  "loop_inv cfg s \<longleftrightarrow> (\<exists>n. sound_engine cfg n (va_engine (ls_validator s))) \<and>
     (let n = va_neuron (ls_validator s) in
      nr_round_interval n = round_interval_blocks (vc_policy cfg) \<and>
      (\<forall>l. nr_chain_limit n = Some l \<longrightarrow> 0 < l) \<and>
      nr_weights_interval n = effective_weights_interval (weights_interval_blocks (vc_policy cfg)) (nr_chain_limit n))"

lemma start_validator_inv:
  assumes "start_validator cfg jr clock writable chain n file = Inr s"
  shows "loop_inv cfg s \<and> ls_rounds_done s = 0 \<and> ls_weights_gate s = None"
proof -
  obtain e where e: "init_engine (int n) (Fin LEGACY_SCORE_WINDOW_SECONDS) (score_window_max_samples (vc_policy cfg))
      (score_window_min_samples (vc_policy cfg)) (decay_nonresponders (vc_policy cfg)) (Some (Fin (rank_decay_p (vc_policy cfg)))) = Inr e"
    and s: "s = \<lparr>ls_validator = \<lparr>va_neuron = apply_weights_rate_limit (vc_policy cfg) chain (new_neuron (vc_policy cfg)),
      va_engine = fst (load_scores jr clock writable (vc_score_file cfg) file e), va_uids = n, va_order = None,
      va_file = snd (load_scores jr clock writable (vc_score_file cfg) file e)\<rparr>, ls_rounds_done = 0, ls_weights_gate = None\<rparr>"
    using assms by (auto simp: start_validator_def rbind_Inr Let_def case_prod_unfold)
  let ?e = "fst (load_scores jr clock writable (vc_score_file cfg) file e)"
  have "sound_engine cfg (length (scores ?e)) ?e"
    using load_scores_restorable [OF init_engine_fits(1) [OF e]] init_engine_fits(2) [OF e]
      load_scores_settings [of jr]
    by (simp add: sound_engine_def fits_def)
  moreover have "0 < l" if "read_weights_rate_limit chain = Some l" for l
    using that by (auto simp: read_weights_rate_limit_def split: option.splits if_splits)
  ultimately show ?thesis
    by (auto simp: loop_inv_def s apply_weights_rate_limit_def new_neuron_def Let_def)
qed

text \<open>No step changes the intervals of the neuron.\<close>

definition same_cadence :: "neuron \<Rightarrow> neuron \<Rightarrow> bool" where
  "same_cadence n n' \<longleftrightarrow> nr_round_interval n' = nr_round_interval n \<and> nr_weights_interval n' = nr_weights_interval n \<and>
     nr_chain_limit n' = nr_chain_limit n"

lemma round_due_cadence: "round_due now block n = (b, n') \<Longrightarrow> same_cadence n n'"
  by (auto simp: round_due_def same_cadence_def split: option.splits if_splits prod.splits)

lemma defer_cadence: "defer_rounds_until d n = (x, n') \<Longrightarrow> same_cadence n n'"
  by (auto simp: defer_rounds_until_def same_cadence_def split: if_splits)

lemma conclude_round_cadence:
  assumes "conclude_round cfg i live r v = (out, v')"
  shows "same_cadence (va_neuron v) (va_neuron v')"
  using assms
  by (cases "rr_status r")
     (auto simp: conclude_round_def Let_def same_cadence_def split: prod.splits sum.splits option.splits
       dest: defer_cadence [unfolded same_cadence_def])

lemma round_callback_cadence:
  assumes "round_callback cfg i v = (out, v')"
  shows "same_cadence (va_neuron v) (va_neuron v')"
proof -
  have "same_cadence (va_neuron w) (va_neuron v')" if "offer_and_grade cfg i live eligible w = (out, v')" for live eligible w
    using that conclude_round_cadence [of cfg i live _ _ out v']
    by (fastforce simp: offer_and_grade_def Let_def same_cadence_def split: if_splits sum.splits)
  then show ?thesis
    using assms by (fastforce simp: round_callback_def Let_def same_cadence_def split: option.splits prod.splits sum.splits)
qed

lemma loop_turn_cadence:
  assumes "loop_turn cfg t s = (out, s')"
  shows "same_cadence (va_neuron (ls_validator s)) (va_neuron (ls_validator s'))"
  using loop_turn_validator [OF assms]
proof (elim disjE exE conjE)
  fix block n x
  assume "round_due (tn_now t) block (va_neuron (ls_validator s)) = (True, n)"
    "round_callback cfg (tn_round t) ((ls_validator s)\<lparr>va_neuron := n\<rparr>) = (x, ls_validator s')"
  from round_due_cadence [OF this(1)] round_callback_cadence [OF this(2)] show ?thesis by (simp add: same_cadence_def)
qed (auto simp: same_cadence_def dest: round_due_cadence [unfolded same_cadence_def])

lemma loop_turn_inv:
  assumes "loop_inv cfg s" "sound_inputs (tn_round t)" "loop_turn cfg t s = (out, s')"
  shows "loop_inv cfg s'"
proof -
  obtain n where "sound_engine cfg n (va_engine (ls_validator s))" using assms(1) by (auto simp: loop_inv_def)
  then have "consistent cfg (va_file (ls_validator s)) (ls_validator s')"
    by (rule loop_turn_consistent [OF _ assms(2,3)])
  then show ?thesis
    using assms(1) loop_turn_cadence [OF assms(3)] by (auto simp: loop_inv_def consistent_def same_cadence_def Let_def)
qed

text \<open>Runs of the process with the events so far.\<close>

inductive run :: "validator_config \<Rightarrow> loop_state \<Rightarrow> event list \<Rightarrow> bool" for cfg where
  started: "start_validator cfg jr clock writable chain n file = Inr s \<Longrightarrow> run cfg s []"
| turned: "run cfg s es \<Longrightarrow> sound_inputs (tn_round t) \<Longrightarrow> loop_turn cfg t s = (Inr fs, s') \<Longrightarrow> run cfg s' (es @ fs)"

lemma run_inv: "run cfg s es \<Longrightarrow> loop_inv cfg s"
  by (induction rule: run.induct) (blast intro: loop_turn_inv dest: start_validator_inv)+

section \<open>Restarts\<close>

lemma init_engine_any:
  assumes "init_engine (int n) w mx mn dc rank = Inr e"
  shows "\<exists>e'. init_engine (int m) w mx mn dc rank = Inr e'"
  using assms by (auto simp: init_engine_def split: if_splits)

lemma run_startable: "run cfg s es \<Longrightarrow> \<exists>e. init_engine (int n) (Fin LEGACY_SCORE_WINDOW_SECONDS) (score_window_max_samples (vc_policy cfg))
      (score_window_min_samples (vc_policy cfg)) (decay_nonresponders (vc_policy cfg)) (Some (Fin (rank_decay_p (vc_policy cfg)))) = Inr e"
  by (induction rule: run.induct) (auto simp: start_validator_def rbind_Inr Let_def dest: init_engine_any)

text \<open>C13. Whatever a turn of the loop does, ends normally or by an exception: if it leaves another
  score file than it found, then a process started on that file, under any clock, metagraph size
  and chain answer, resumes with exactly the scores, histories and hotkeys the turn ended with.\<close>

theorem restart_resumes:
  assumes "run cfg s es" and "sound_inputs (tn_round t)" and "loop_turn cfg t s = (out, s')"
    and "va_file (ls_validator s') \<noteq> va_file (ls_validator s)"
  shows "\<exists>s2. start_validator cfg jr clock writable chain n (va_file (ls_validator s')) = Inr s2 \<and>
    scores (va_engine (ls_validator s2)) = scores (va_engine (ls_validator s')) \<and>
    (\<forall>u. hist (va_engine (ls_validator s2)) u = hist (va_engine (ls_validator s')) u) \<and>
    hotkeys (va_engine (ls_validator s2)) = hotkeys (va_engine (ls_validator s'))"
proof -
  let ?e = "va_engine (ls_validator s')"
  obtain m where "sound_engine cfg m (va_engine (ls_validator s))" using run_inv [OF assms(1)] by (auto simp: loop_inv_def)
  then have c: "vc_score_file cfg \<noteq> []" "sound_engine cfg 65536 ?e" "va_file (ls_validator s') = Saved (score_state ?e)"
    using loop_turn_consistent [OF _ assms(2,3), of m] assms(4) by (auto simp: consistent_def)
  obtain f where f: "init_engine (int n) (Fin LEGACY_SCORE_WINDOW_SECONDS) (score_window_max_samples (vc_policy cfg))
      (score_window_min_samples (vc_policy cfg)) (decay_nonresponders (vc_policy cfg)) (Some (Fin (rank_decay_p (vc_policy cfg)))) = Inr f"
    using run_startable [OF assms(1)] by blast
  have e: "engine_inv ?e" "persistable ?e" "length (scores ?e) \<le> 65536" "max_samples f = max_samples ?e" "min_samples f = min_samples ?e"
    using c(2) init_engine_fits(2) [OF f] by (auto simp: sound_engine_def fits_def restorable_def)
  have "save_scores True (vc_score_file cfg) ?e Missing = (True, Saved (score_state ?e))" using c(1) by (simp add: save_scores_def)
  from scores_round_trip [OF e(1) init_engine_inv [OF f] e(2-5) c(1) this, of jr clock writable]
  obtain f' where "load_scores jr clock writable (vc_score_file cfg) (Saved (score_state ?e)) f = (f', Saved (score_state ?e))"
    "scores f' = scores ?e" "\<forall>u. hist f' u = hist ?e u" "hotkeys f' = hotkeys ?e" by blast
  then show ?thesis using f c(3) by (auto simp: start_validator_def Let_def)
qed

section \<open>Weights\<close>

lemma submitted_weights:
  assumes "engine_inv e" "submit_local_weights p n e = Inr (Some w)"
  shows "min_weight_observations p \<le> int (weight_observation_count e)" "get_weights e (Some (int n)) = Inr w"
    "length w = n" "\<forall>x \<in> set w. 0 \<le> x" "sum_list w = 1"
proof -
  show c: "min_weight_observations p \<le> int (weight_observation_count e)" "get_weights e (Some (int n)) = Inr w"
    using assms(2) by (auto simp: submit_local_weights_def rbind_Inr split: if_splits)
  have pos: "\<not> sum_list w \<le> 0" using assms(2) by (auto simp: submit_local_weights_def rbind_Inr split: if_splits)
  let ?sc = "case rank_decay e of None \<Rightarrow> clean_scores e n | Some d \<Rightarrow> rank_weights (clean_scores e n) d"
  have w: "w = l1_normalize ?sc" using get_weights_eq [of "int n" e] c(2) unfolding nat_int by simp
  have "\<forall>x \<in> set ?sc. 0 \<le> x"
    using clean_scores_nonneg [of e n] rank_weights_nonneg engine_invD(3) [OF assms(1)] by (auto split: option.splits)
  then have "(\<forall>x \<in> set w. 0 \<le> x \<and> x \<le> 1) \<and> sum_list w = (if \<forall>x \<in> set ?sc. x = 0 then 0 else 1)"
    unfolding w using normalize_distribution by blast
  then show "\<forall>x \<in> set w. 0 \<le> x" "sum_list w = 1" using pos by (auto split: if_splits)
  show "length w = n" unfolding w by (simp split: option.split)
qed

fun weight_block :: "event \<Rightarrow> int option" where
  "weight_block (WeightsSent b w) = Some b"
| "weight_block (WeightsSkipped b) = Some b"
| "weight_block (RoundRun b) = None"

text \<open>The possible endings of the weights part of a turn.\<close>

lemma weights_turn_cases:
  assumes "weights_turn cfg t block s = (Inr fs, s')"
  shows "fs = [] \<and> s' = s \<or>
    (\<exists>x gate. fs = [x] \<and> weight_block x = Some block \<and> s' = s\<lparr>ls_weights_gate := gate\<rparr> \<and> ls_rounds_done s > 0 \<and>
       should_run block (nr_weights_interval (va_neuron (ls_validator s))) (ls_weights_gate s) = (True, gate) \<and>
       (\<forall>b w. x = WeightsSent b w \<longrightarrow> submit_local_weights (vc_policy cfg) (va_uids (ls_validator s)) (va_engine (ls_validator s)) = Inr (Some w)))"
  using assms by (auto simp: weights_turn_def Let_def split: if_splits prod.splits bool.splits sum.splits option.splits)

lemma loop_turn_cases:
  assumes "loop_turn cfg t s = (Inr fs, s')"
  obtains (blind) "current_block_with_recovery (tn_blocks t) = None" "fs = []" "s' = s"
  | (idle) block n where "current_block_with_recovery (tn_blocks t) = Some block"
      "round_due (tn_now t) block (va_neuron (ls_validator s)) = (False, n)"
      "weights_turn cfg t block (s\<lparr>ls_validator := (ls_validator s)\<lparr>va_neuron := n\<rparr>\<rparr>) = (Inr fs, s')"
  | (round) block n v ws where "current_block_with_recovery (tn_blocks t) = Some block"
      "round_due (tn_now t) block (va_neuron (ls_validator s)) = (True, n)"
      "round_callback cfg (tn_round t) ((ls_validator s)\<lparr>va_neuron := n\<rparr>) = (Inr (), v)"
      "weights_turn cfg t block (s\<lparr>ls_validator := v, ls_rounds_done := ls_rounds_done s + 1\<rparr>) = (Inr ws, s')"
      "fs = RoundRun block # ws"
proof (cases "current_block_with_recovery (tn_blocks t)")
  case None
  then show ?thesis using assms blind by (simp add: loop_turn_def)
next
  case (Some block)
  obtain due n where d: "round_due (tn_now t) block (va_neuron (ls_validator s)) = (due, n)" by fastforce
  show ?thesis
  proof (cases due)
    case False
    then show ?thesis using assms Some d idle by (simp add: loop_turn_def)
  next
    case True
    obtain x v where c: "round_callback cfg (tn_round t) ((ls_validator s)\<lparr>va_neuron := n\<rparr>) = (x, v)" by fastforce
    obtain y s2 where w: "weights_turn cfg t block (s\<lparr>ls_validator := v, ls_rounds_done := ls_rounds_done s + 1\<rparr>) = (y, s2)" by fastforce
    show ?thesis
      using assms Some d True c w by (cases x; cases y) (auto simp: loop_turn_def intro: round)
  qed
qed

text \<open>C16. Weights are sent on evidence.  When a turn submits a weight vector, some miner has at least the
  policy's number of observations, the vector is the engine's for the current metagraph, has one
  entry per uid, no negative entry and sum 1.\<close>

theorem weights_sent_on_evidence:
  assumes "run cfg s es" and "sound_inputs (tn_round t)" and "loop_turn cfg t s = (Inr fs, s')" and "WeightsSent b w \<in> set fs"
  shows "min_weight_observations (vc_policy cfg) \<le> int (weight_observation_count (va_engine (ls_validator s'))) \<and>
    get_weights (va_engine (ls_validator s')) (Some (int (va_uids (ls_validator s')))) = Inr w \<and>
    length w = va_uids (ls_validator s') \<and> (\<forall>x \<in> set w. 0 \<le> x) \<and> sum_list w = 1 \<and> ls_rounds_done s' > 0"
proof -
  obtain s1 block ws where w: "weights_turn cfg t block s1 = (Inr ws, s')" "WeightsSent b w \<in> set ws"
    using assms(4) by (cases rule: loop_turn_cases [OF assms(3)]) auto
  have s': "ls_validator s' = ls_validator s1" "ls_rounds_done s' > 0"
    "submit_local_weights (vc_policy cfg) (va_uids (ls_validator s')) (va_engine (ls_validator s')) = Inr (Some w)"
    using weights_turn_cases [OF w(1)] w(2) by auto
  have "engine_inv (va_engine (ls_validator s'))"
    using loop_turn_inv [OF run_inv [OF assms(1)] assms(2,3)] by (auto simp: loop_inv_def sound_engine_def restorable_def)
  from submitted_weights [OF this s'(3)] show ?thesis using s'(2) by blast
qed

text \<open>The blocks at which the gate of the weights fired.\<close>

definition gate_blocks :: "event list \<Rightarrow> int list" where
  "gate_blocks es = List.map_filter weight_block es"

lemma gate_blocks_append [simp]: "gate_blocks (es @ fs) = gate_blocks es @ gate_blocks fs"
  by (simp add: gate_blocks_def map_filter_def)

lemma gate_blocks_simps [simp]: "gate_blocks [] = []" "gate_blocks (RoundRun b # es) = gate_blocks es"
  by (simp_all add: gate_blocks_def map_filter_def)

lemma gate_blocks_turn:
  assumes "loop_turn cfg t s = (Inr fs, s')"
  shows "gate_blocks fs = [] \<and> ls_weights_gate s' = ls_weights_gate s \<or>
    (\<exists>block gate n. gate_blocks fs = [block] \<and> ls_weights_gate s' = gate \<and>
      should_run block (nr_weights_interval n) (ls_weights_gate s) = (True, gate) \<and> same_cadence (va_neuron (ls_validator s)) n)"
proof -
  have w: "gate_blocks ws = [] \<and> ls_weights_gate s2 = ls_weights_gate s1 \<or>
      (\<exists>gate. gate_blocks ws = [block] \<and> ls_weights_gate s2 = gate \<and>
        should_run block (nr_weights_interval (va_neuron (ls_validator s1))) (ls_weights_gate s1) = (True, gate))"
    if "weights_turn cfg t block s1 = (Inr ws, s2)" for block s1 ws s2
    using weights_turn_cases [OF that] by (auto simp: gate_blocks_def map_filter_def)
  show ?thesis
    using assms
  proof (cases rule: loop_turn_cases)
    case (idle block n)
    then show ?thesis using w [OF idle(3)] round_due_cadence [OF idle(2)] by auto
  next
    case (round block n v ws)
    have "same_cadence (va_neuron (ls_validator s)) (va_neuron v)"
      using round_due_cadence [OF round(2)] round_callback_cadence [OF round(3)] by (simp add: same_cadence_def)
    then show ?thesis using w [OF round(4)] round(5) by auto
  qed auto
qed

lemma run_gate:
  assumes "run cfg s es" "nr_weights_interval (va_neuron (ls_validator s)) = k" "0 < k"
  shows "sorted_wrt (\<lambda>a b. a + k \<le> b) (gate_blocks es) \<and>
    ls_weights_gate s = (if gate_blocks es = [] then None else Some (last (gate_blocks es)))"
  using assms
proof (induction arbitrary: k rule: run.induct)
  case started
  then show ?case using start_validator_inv by fastforce
next
  case (turned s es t fs s')
  have k: "nr_weights_interval (va_neuron (ls_validator s)) = k"
    using turned.prems(1) loop_turn_cadence [OF turned.hyps(3)] by (simp add: same_cadence_def)
  note ih = turned.IH [OF k turned.prems(2)]
  have le: "a \<le> last (gate_blocks es)" if "a \<in> set (gate_blocks es)" for a
  proof -
    have "sorted_wrt (\<lambda>a b. a + k \<le> b) (butlast (gate_blocks es) @ [last (gate_blocks es)])" using ih that by (cases "gate_blocks es" rule: rev_cases) auto
    then show ?thesis using that turned.prems(2) by (cases "gate_blocks es" rule: rev_cases) (auto simp: sorted_wrt_append)
  qed
  show ?case
    using gate_blocks_turn [OF turned.hyps(3)]
  proof (elim disjE exE conjE)
    fix block gate n
    assume g: "gate_blocks fs = [block]" "ls_weights_gate s' = gate" "same_cadence (va_neuron (ls_validator s)) n"
      "should_run block (nr_weights_interval n) (ls_weights_gate s) = (True, gate)"
    then have "gate = Some block" "gate_blocks es \<noteq> [] \<Longrightarrow> last (gate_blocks es) + k \<le> block"
      using turned.prems(2) k ih by (auto simp: should_run_def same_cadence_def split: if_splits)
    then show ?thesis using ih g(1,2) le by (force simp: sorted_wrt_append)
  qed (use ih in auto)
qed

text \<open>C14. The chain's rate limit is respected: in every run of a process that read the limit \<open>l\<close>
  from the chain, any two weight submissions are at least \<open>l + 20\<close> blocks apart, whatever blocks the
  chain reports and however the rounds end.\<close>

theorem weights_paced:
  assumes "run cfg s es" and "nr_chain_limit (va_neuron (ls_validator s)) = Some l"
  shows "sorted_wrt (\<lambda>a b. a + l + 20 \<le> b) (gate_blocks es)"
proof -
  let ?k = "nr_weights_interval (va_neuron (ls_validator s))"
  have "0 < l" "l + 20 \<le> ?k" "0 < ?k"
    using run_inv [OF assms(1)] assms(2)
    by (auto simp: loop_inv_def effective_weights_interval_def WEIGHTS_RATE_LIMIT_MARGIN_def Let_def)
  then show ?thesis using run_gate [OF assms(1) refl] by (auto elim!: sorted_wrt_mono_rel [rotated])
qed

section \<open>What can end the process\<close>

text \<open>The answers from outside that make a turn raise.\<close>

definition bad_clock :: "round_inputs \<Rightarrow> bool" where
  "bad_clock i \<longleftrightarrow> \<not> is_finite (ri_clock i) \<or> fin_val (ri_clock i) < 0"

definition missing_axons :: "round_inputs \<Rightarrow> bool" where
  "missing_axons i \<longleftrightarrow> (case ri_metagraph i of None \<Rightarrow> False | Some mg \<Rightarrow> length (mg_axons mg) < length (mg_hotkeys mg))"

definition explained :: "turn \<Rightarrow> crash \<Rightarrow> bool" where
  "explained t c \<longleftrightarrow>
     (case c of
        SetWeights \<Rightarrow> \<not> tn_set_weights t
      | MetagraphSync \<Rightarrow> ri_metagraph (tn_round t) = None
      | LeaseError e \<Rightarrow> \<exists>offered. offered \<noteq> [] \<and> ri_lease (tn_round t) offered = Inl e
      | EngineError e \<Rightarrow> bad_clock (tn_round t) \<or> missing_axons (tn_round t))"

lemma solver_clients_from_total: "k + length hks \<le> length axons \<Longrightarrow> \<exists>cs. solver_clients_from k hks axons = Inr cs"
  by (induction k hks axons rule: solver_clients_from.induct) auto

lemma conclude_round_crash:
  assumes "sound_engine cfg n (va_engine v)" "\<forall>(u, hk) \<in> set live. 0 \<le> u \<and> u < int n \<and> hk \<noteq> []"
    and "conclude_round cfg i live r v = (Inl c, v')"
  shows "bad_clock i \<and> (\<exists>e. c = EngineError e)"
proof (cases "rr_status r")
  case Completed
  obtain x eng where a: "apply_round_scores r (dict_of live) (Fin (payment_speed_half_life_ms (vc_policy cfg)))
      (Fin (payment_speed_floor (vc_policy cfg))) (ri_clock i) (va_engine v) = (x, eng)" by fastforce
  have "\<exists>b. x = Inr b" if "\<not> bad_clock i"
  proof -
    have "timestamp_of None (ri_clock i) = Inr (fin_val (ri_clock i))" using that by (simp add: timestamp_of_def bad_clock_def)
    from apply_round_scores_sound(3) [OF _ _ dict_of_bounds [OF assms(2)] a this] show ?thesis
      using assms(1) by (auto simp: sound_engine_def)
  qed
  then show ?thesis using assms(3) Completed a by (cases x) (auto simp: conclude_round_def Let_def)
next
  case Unavailable
  then show ?thesis using assms(3) by (auto simp: conclude_round_def defer_rounds_until_def Let_def split: option.splits if_splits)
next
  case Abandoned
  then show ?thesis using assms(3) by (simp add: conclude_round_def)
qed

lemma round_callback_crash:
  assumes e: "sound_engine cfg m (va_engine v)" and i: "sound_inputs (tn_round t)" and res: "round_callback cfg (tn_round t) v = (Inl c, v')"
  shows "explained t c"
proof (cases "ri_metagraph (tn_round t)")
  case None
  then show ?thesis using res by (auto simp: round_callback_def explained_def)
next
  case (Some mg)
  let ?n = "length (mg_hotkeys mg)"
  have mg: "list_all (\<lambda>hk. hk \<noteq> []) (mg_hotkeys mg)" using i Some by (auto simp: sound_inputs_def)
  obtain rs eng where eng: "synced_engine mg (va_engine v) = (Inr rs, eng)" "restorable {} eng" "length (scores eng) = ?n"
    using restorable_synced [OF _ mg, of "va_engine v"] e by (auto simp: sound_engine_def)
  then have s: "sound_engine cfg ?n eng" using fits_synced [OF eng(1) _ eng(3)] e by (auto simp: sound_engine_def)
  let ?v = "v\<lparr>va_uids := ?n, va_engine := eng\<rparr>"
  show ?thesis
  proof (cases "solver_clients mg")
    case (Inl err)
    then have "missing_axons (tn_round t)"
      using solver_clients_from_total [of 0 "mg_hotkeys mg" "mg_axons mg"] Some by (force simp: solver_clients_def missing_axons_def)
    then show ?thesis using res Some eng(1) Inl by (auto simp: round_callback_def explained_def)
  next
    case (Inr live)
    have live: "\<forall>(u, hk) \<in> set live. 0 \<le> u \<and> u < int ?n \<and> hk \<noteq> []" using solver_clients_named [OF Inr mg] .
    then have "\<forall>(u, _) \<in> set live. 0 \<le> u" by auto
    then obtain eligible where el: "eligible_miners live (mg_permits mg) (mg_trust mg) (mg_owner mg) = Inr eligible"
      using eligible_from_nonneg by (auto simp: eligible_miners_def)
    have o: "offer_and_grade cfg (tn_round t) live eligible ?v = (Inl c, v')"
      using res Some eng(1) Inr el by (simp add: round_callback_def)
    have c: "bad_clock (tn_round t) \<and> (\<exists>e. c = EngineError e)"
      if "conclude_round cfg (tn_round t) live r w = (Inl c, v')" "va_engine w = eng" for r w
      using conclude_round_crash [OF _ live that(1)] s that(2) by simp
    show ?thesis
      using o c by (fastforce simp: offer_and_grade_def explained_def Let_def split: if_splits sum.splits)
  qed
qed

lemma weights_turn_crash:
  assumes "weights_turn cfg t block s = (Inl c, s')"
  shows "explained t c"
proof -
  have "get_weights e (Some (int n)) \<noteq> Inl x" for e n x using get_weights_eq [of "int n" e] by simp
  then have "submit_local_weights p n e \<noteq> Inl x" for p n e x
    by (auto simp: submit_local_weights_def elim: rbind.elims split: if_splits)
  then show ?thesis
    using assms by (auto simp: weights_turn_def explained_def Let_def split: if_splits prod.splits bool.splits sum.splits option.splits)
qed

lemma loop_turn_crash:
  assumes "loop_inv cfg s" and "sound_inputs (tn_round t)" and "loop_turn cfg t s = (Inl c, s')"
  shows "explained t c"
proof -
  obtain m where m: "sound_engine cfg m (va_engine (ls_validator s))" using assms(1) by (auto simp: loop_inv_def)
  have cb: "explained t c" if "round_callback cfg (tn_round t) ((ls_validator s)\<lparr>va_neuron := n\<rparr>) = (Inl c, v')" for n v'
    using round_callback_crash [OF _ assms(2) that] m by simp
  show ?thesis
    using assms(3)
    by (auto simp: loop_turn_def split: option.splits prod.splits bool.splits sum.splits dest: weights_turn_crash cb)
qed

text \<open>C17. Nothing the validator computes itself can end the process: an exception leaves a turn
  only when the chain client fails (metagraph synchronisation or \<open>set_weights\<close>), when leasing raises, when the
  clock is not a finite non-negative number, or when the metagraph lacks an axon.  The content of the
  score file, a failed write of it, and the outcome of a round cannot.\<close>

theorem loop_crash_explained:
  assumes "run cfg s es" and "sound_inputs (tn_round t)" and "loop_turn cfg t s = (Inl c, s')"
  shows "explained t c"
  by (rule loop_turn_crash [OF run_inv [OF assms(1)] assms(2,3)])

section \<open>Rounds keep being run\<close>

text \<open>A turn without a round leaves the neuron as it is; a turn late enough has a round.\<close>

lemma round_not_due: "round_due now block n = (False, n') \<Longrightarrow> n' = n"
  by (cases n) (auto simp: round_due_def should_run_def split: option.splits if_splits)

lemma round_due_late:
  assumes "case nr_last_run_block n of None \<Rightarrow> True | Some b \<Rightarrow> b + nr_round_interval n \<le> block"
    and "case nr_deferred_until n of None \<Rightarrow> True | Some d \<Rightarrow> d \<le> now"
  shows "fst (round_due now block n)"
  using assms by (auto simp: round_due_def should_run_def split: option.splits)

lemma quiet_turn:
  assumes "loop_turn cfg t s = (Inr fs, s')" "\<forall>b. RoundRun b \<notin> set fs"
  shows "va_neuron (ls_validator s') = va_neuron (ls_validator s)"
    and "current_block_with_recovery (tn_blocks t) = Some block \<Longrightarrow> \<not> fst (round_due (tn_now t) block (va_neuron (ls_validator s)))"
proof -
  show "va_neuron (ls_validator s') = va_neuron (ls_validator s)"
    using assms by (cases rule: loop_turn_cases) (auto dest!: weights_turn_validator round_not_due)
  show "current_block_with_recovery (tn_blocks t) = Some block \<Longrightarrow> \<not> fst (round_due (tn_now t) block (va_neuron (ls_validator s)))"
    using assms by (cases rule: loop_turn_cases) auto
qed

text \<open>C15. Liveness of the loop: in an unending run in which the chain's block and the clock
  exceed every bound at some later turn (turns in between may fail to read the block), rounds are
  run infinitely often, whatever the problem server asks for.\<close>

theorem rounds_recur:
  assumes turns: "\<forall>i. loop_turn cfg (ts i) (ss i) = (Inr (es i), ss (Suc i))"
    and progress: "\<forall>x n. \<exists>i\<ge>n. \<exists>b. current_block_with_recovery (tn_blocks (ts i)) = Some b \<and> x \<le> b \<and> of_int x \<le> tn_now (ts i)"
  shows "\<exists>i\<ge>n. \<exists>b. RoundRun b \<in> set (es i)"
proof (rule ccontr)
  assume "\<not> ?thesis"
  then have quiet: "\<forall>b. RoundRun b \<notin> set (es i)" if "n \<le> i" for i using that by blast
  define N where "N = va_neuron (ls_validator (ss n))"
  have step: "va_neuron (ls_validator (ss (Suc i))) = va_neuron (ls_validator (ss i))" if "n \<le> i" for i
    using quiet_turn(1) [OF _ quiet [OF that]] turns by blast
  have N: "va_neuron (ls_validator (ss (n + k))) = N" for k
    by (induction k) (simp_all add: N_def step)
  define x where "x = max (case nr_last_run_block N of None \<Rightarrow> 0 | Some b \<Rightarrow> b + nr_round_interval N)
      (case nr_deferred_until N of None \<Rightarrow> 0 | Some d \<Rightarrow> \<lceil>d\<rceil>)"
  obtain i b where i: "n \<le> i" "current_block_with_recovery (tn_blocks (ts i)) = Some b" "x \<le> b" "of_int x \<le> tn_now (ts i)"
    using progress by blast
  have "fst (round_due (tn_now (ts i)) b N)"
  proof (rule round_due_late)
    show "case nr_last_run_block N of None \<Rightarrow> True | Some l \<Rightarrow> l + nr_round_interval N \<le> b"
      using i(3) by (auto simp: x_def split: option.splits)
    have "d \<le> tn_now (ts i)" if "nr_deferred_until N = Some d" for d
    proof -
      have "\<lceil>d\<rceil> \<le> x" using that by (simp add: x_def)
      then have "d \<le> of_int x" by (simp add: ceiling_le_iff)
      then show ?thesis using i(4) by linarith
    qed
    then show "case nr_deferred_until N of None \<Rightarrow> True | Some d \<Rightarrow> d \<le> tn_now (ts i)" by (auto split: option.split)
  qed
  moreover have "va_neuron (ls_validator (ss i)) = N" using N [of "i - n"] i(1) by simp
  ultimately show False using quiet_turn(2) [OF _ _ i(2)] turns quiet [OF i(1)] by blast
qed

text \<open>The pause a server can impose: a deadline that a turn installs lies at most 901 seconds after the
  moment the reply was handled.\<close>

lemma lease_deferral_bounds: "lease_deferral_s retry = Some w \<Longrightarrow> 0 \<le> w \<and> w \<le> 900"
  by (auto simp: lease_deferral_s_def MAX_LEASE_DEFERRAL_S_def)

lemma conclude_round_deferral:
  assumes "conclude_round cfg i live r v = (out, v')" "nr_deferred_until (va_neuron v') = Some d" "nr_deferred_until (va_neuron v) \<noteq> Some d"
  shows "ri_monotonic i + 1 \<le> d \<and> d \<le> ri_monotonic i + 901"
  using assms
  by (cases "rr_status r")
     (auto simp: conclude_round_def defer_rounds_until_def next_lease_not_before_def Let_def
       split: prod.splits sum.splits option.splits if_splits dest: lease_deferral_bounds)

lemma round_callback_deferral:
  assumes "round_callback cfg i v = (out, v')" "nr_deferred_until (va_neuron v') = Some d" "nr_deferred_until (va_neuron v) \<noteq> Some d"
  shows "ri_monotonic i + 1 \<le> d \<and> d \<le> ri_monotonic i + 901"
proof -
  have c: "ri_monotonic i + 1 \<le> d \<and> d \<le> ri_monotonic i + 901"
    if "conclude_round cfg i live r w = (out, v')" "va_neuron w = va_neuron v" for live r w
    using conclude_round_deferral [OF that(1) assms(2)] assms(3) that(2) by simp
  have "ri_monotonic i + 1 \<le> d \<and> d \<le> ri_monotonic i + 901"
    if "offer_and_grade cfg i live eligible w = (out, v')" "va_neuron w = va_neuron v" for live eligible w
    using that assms(2,3) c by (fastforce simp: offer_and_grade_def Let_def split: if_splits sum.splits)
  then show ?thesis
    using assms by (fastforce simp: round_callback_def Let_def split: option.splits prod.splits sum.splits)
qed

text \<open>The pause a problem server can impose is bounded: when a turn installs a new deadline before
  which no lease is asked for, the deadline lies between 1 and 901 seconds after the moment the reply
  was handled, however large the server's \<open>Retry-After\<close> is.\<close>

theorem server_pause_bounded:
  assumes "loop_turn cfg t s = (out, s')" and "nr_deferred_until (va_neuron (ls_validator s')) = Some d"
    and "nr_deferred_until (va_neuron (ls_validator s)) \<noteq> Some d"
  shows "ri_monotonic (tn_round t) + 1 \<le> d \<and> d \<le> ri_monotonic (tn_round t) + 901"
proof -
  have due: "nr_deferred_until n = None \<or> nr_deferred_until n = nr_deferred_until (va_neuron (ls_validator s))"
    if "round_due now block (va_neuron (ls_validator s)) = (b, n)" for now block b n
    using that by (auto simp: round_due_def split: option.splits if_splits prod.splits)
  have c: "ri_monotonic (tn_round t) + 1 \<le> d \<and> d \<le> ri_monotonic (tn_round t) + 901"
    if "round_callback cfg (tn_round t) ((ls_validator s)\<lparr>va_neuron := n\<rparr>) = (x, v)" "nr_deferred_until (va_neuron v) = Some d"
      "round_due now block (va_neuron (ls_validator s)) = (b, n)" for n x v now block b
    using round_callback_deferral [OF that(1,2)] due [OF that(3)] assms(3) by auto
  show ?thesis
    using loop_turn_validator [OF assms(1)] c assms(2,3) due by fastforce
qed

section \<open>An example run\<close>

definition example_config :: validator_config where
  "example_config = \<lparr>vc_policy = release_policy\<lparr>score_window_max_samples := 2, score_window_min_samples := 1, rank_decay_p := 1/2,
     min_weight_observations := 2, decay_nonresponders := True\<rparr>, vc_round_policy = script_policy, vc_score_file = ''/s''\<rparr>"

definition example_reader :: json_reader where
  "example_reader = \<lparr>jr_vector = (\<lambda>_. None), jr_float = (\<lambda>_. None), jr_str = (\<lambda>_. []), jr_finite_int = (\<lambda>_. True)\<rparr>"

text \<open>Three uids of which one serves, and a server that asks for a long pause.\<close>

definition example_metagraph :: metagraph where
  "example_metagraph = \<lparr>mg_hotkeys = [''a'', ''b'', ''c''],
     mg_axons = [\<lparr>ax_ip = None, ax_port = 0\<rparr>, \<lparr>ax_ip = Some ''0.0.0.0'', ax_port = 1\<rparr>, \<lparr>ax_ip = Some ''h'', ax_port = 9\<rparr>],
     mg_permits = None, mg_trust = None, mg_owner = None\<rparr>"

definition example_outcome :: v3_lease_outcome where
  "example_outcome = \<lparr>vo_category = PACED, vo_challenge = None, vo_status = Some 429, vo_detail = [], vo_retry_after_s = Some 5000,
     vo_transport_error = []\<rparr>"

definition example_inputs :: "real \<Rightarrow> round_inputs" where
  "example_inputs now = \<lparr>ri_metagraph = Some example_metagraph, ri_draws = (\<lambda>_. 0), ri_lease = (\<lambda>_. Inr example_outcome),
     ri_env = script_env, ri_clock = Fin 9, ri_monotonic = now, ri_writable = True\<rparr>"

definition example_turn :: "int \<Rightarrow> real \<Rightarrow> turn" where
  "example_turn block now = \<lparr>tn_blocks = (\<lambda>_. Some block), tn_now = now, tn_round = example_inputs now, tn_set_weights = True\<rparr>"

definition example_state :: loop_state where
  "example_state = \<lparr>ls_validator = \<lparr>va_neuron = \<lparr>nr_last_run_block = None, nr_round_interval = round_interval_blocks release_policy,
       nr_weights_interval = effective_weights_interval (weights_interval_blocks release_policy) (Some 100), nr_chain_limit = Some 100,
       nr_deferred_until = None\<rparr>, va_engine = owned_example, va_uids = 3, va_order = None,
     va_file = Saved (score_state owned_example)\<rparr>, ls_rounds_done = 0, ls_weights_gate = None\<rparr>"

lemma example_start:
  "start_validator example_config example_reader (Fin 5) True (Some 100) 3 (Saved (score_state owned_example)) = Inr example_state"
proof -
  let ?f = "owned_example\<lparr>scores := [Fin 0, Fin 0, Fin 0], histories := [], hotkeys := []\<rparr>"
  have i: "init_engine 3 (Fin LEGACY_SCORE_WINDOW_SECONDS) 2 1 True (Some (Fin (1/2))) = Inr ?f"
    by (simp add: init_engine_def LEGACY_SCORE_WINDOW_SECONDS_def owned_example_def engine_example_def numeral_3_eq_3)
  obtain d where d: "score_state owned_example = JObj d" "map_of d ''version'' = Some (JInt 2)" by (simp add: score_state_def)
  have "read_v2 example_reader d ?f = Some (3, sort_key fst (histories owned_example), hotkeys owned_example)"
    using read_saved [OF owned_example_ok(1,2), of ?f example_reader] d(1) by (simp add: owned_example_def engine_example_def)
  moreover have "restore 3 (sort_key fst (histories owned_example)) (hotkeys owned_example) ?f = (Inr (), owned_example)"
    by (simp add: owned_example_def engine_example_def restore_def restore_one_def refresh_score_def set_score_def method_simps
        score_of_def last_n_def dict_get_def numeral_3_eq_3 Let_def)
  ultimately have l: "load_scores example_reader (Fin 5) True ''/s'' (Saved (score_state owned_example)) ?f = (owned_example, Saved (score_state owned_example))"
    using d by (simp add: load_scores_def)
  show ?thesis
    using i l by (simp add: start_validator_def example_config_def example_state_def apply_weights_rate_limit_def
        new_neuron_def read_weights_rate_limit_def Let_def)
qed

definition example_synced :: engine where
  "example_synced = owned_example\<lparr>hotkeys := [(0, ''a''), (1, ''b''), (2, ''c'')]\<rparr>"

definition example_next :: "int \<Rightarrow> real \<Rightarrow> loop_state" where
  "example_next block now = example_state\<lparr>ls_validator := (ls_validator example_state)\<lparr>
       va_neuron := (va_neuron (ls_validator example_state))\<lparr>nr_last_run_block := Some block, nr_deferred_until := Some (now + 901)\<rparr>,
       va_engine := example_synced, va_order := Some [(2, ''c'')], va_file := Saved (score_state example_synced)\<rparr>,
     ls_rounds_done := 1, ls_weights_gate := Some block\<rparr>"

lemma example_sound: "sound_inputs (example_inputs now)"
  by (simp add: sound_inputs_def example_inputs_def example_metagraph_def)

lemma example_round:
  fixes now :: real
  defines "r \<equiv> round_result_of example_config (example_inputs now) [(2, ''c'')] [(2, ''c'')] example_outcome"
  shows "rr_status r = Unavailable" "rr_retry_after_s r = Some 5000" "next_order r offered = Some offered"
  by (simp_all add: r_def round_result_of_def evaluate_round_def round_lease_def unavailable_def example_outcome_def next_order_def)

lemma example_parts:
  "synced_engine example_metagraph owned_example = (Inr [], example_synced)"
  "solver_clients example_metagraph = Inr [(2, ''c'')]"
  "eligible_miners [(2, ''c'')] (mg_permits example_metagraph) (mg_trust example_metagraph) (mg_owner example_metagraph) = Inr [(2, ''c'')]"
  "next_offer (\<lambda>_. 0) None [(2, ''c'')] CANDIDATE_LIMIT = [(2, ''c'')]"
  "length (mg_hotkeys example_metagraph) = 3" "vc_score_file example_config \<noteq> []"
  by (simp_all add: synced_engine_def sync_def sync_one_def resize_def ensure_capacity_def method_simps example_metagraph_def example_synced_def
      owned_example_def engine_example_def solver_clients_def serving_def eligible_miners_def validating_def next_offer_def fresh_miners_def
      shuffle_def CANDIDATE_LIMIT_def example_config_def)

lemma example_callback:
  assumes "nr_deferred_until n = None"
  shows "round_callback example_config (example_inputs now) ((ls_validator example_state)\<lparr>va_neuron := n\<rparr>) =
    (Inr (), (ls_validator (example_next block now))\<lparr>va_neuron := n\<lparr>nr_deferred_until := Some (now + 901)\<rparr>\<rparr>)"
proof -
  have i: "ri_metagraph (example_inputs now) = Some example_metagraph" "ri_draws (example_inputs now) = (\<lambda>_. 0)"
    "ri_lease (example_inputs now) = (\<lambda>_. Inr example_outcome)" "ri_monotonic (example_inputs now) = now" "ri_writable (example_inputs now)"
    by (simp_all add: example_inputs_def)
  have v: "va_engine (ls_validator example_state) = owned_example" "va_order (ls_validator example_state) = None"
    "va_uids (ls_validator example_state) = 3"
    by (simp_all add: example_state_def)
  have d: "lease_deferral_s (Some 5000) = Some 900" by (simp add: lease_deferral_s_def MAX_LEASE_DEFERRAL_S_def)
  let ?v = "(ls_validator example_state)\<lparr>va_neuron := n, va_uids := 3, va_engine := example_synced, va_order := Some [(2, ''c'')]\<rparr>"
  have "conclude_round example_config (example_inputs now) [(2, ''c'')]
      (round_result_of example_config (example_inputs now) [(2, ''c'')] [(2, ''c'')] example_outcome) ?v =
    (Inr (), ?v\<lparr>va_neuron := n\<lparr>nr_deferred_until := Some (now + 901)\<rparr>, va_file := Saved (score_state example_synced)\<rparr>)"
    using assms by (simp add: conclude_round_def example_round d i defer_rounds_until_def next_lease_not_before_def save_scores_def example_parts)
  then show ?thesis
    by (simp add: round_callback_def offer_and_grade_def i v example_parts example_round example_next_def example_state_def)
qed

definition example_weights :: "real list" where
  "example_weights = l1_normalize (rank_weights [1/2, 1, 0] (1/2))"

lemma example_submit: "submit_local_weights (vc_policy example_config) 3 example_synced = Inr (Some example_weights)"
proof -
  have sc: "clean_scores example_synced 3 = [1/2, 1, 0]"
    by (simp add: clean_scores_def example_synced_def owned_example_def engine_example_def upt_rec)
  have "\<forall>x \<in> set (rank_weights [1/2, 1, 0] (1/2 :: real)). 0 \<le> x" by (rule rank_weights_nonneg) simp
  moreover have "\<not> (\<forall>x \<in> set (rank_weights [1/2, 1, 0] (1/2 :: real)). x = 0)" by (subst rank_weights_zero_iff) simp_all
  ultimately have "sum_list example_weights = 1" unfolding example_weights_def by (simp add: normalize_distribution)
  moreover have "get_weights example_synced (Some 3) = Inr example_weights"
    using get_weights_eq [of 3 example_synced] sc
    by (simp add: example_weights_def example_synced_def owned_example_def engine_example_def)
  moreover have "weight_observation_count example_synced = 2"
    by (simp add: weight_observation_count_def example_synced_def owned_example_def engine_example_def)
  ultimately show ?thesis by (simp add: submit_local_weights_def example_config_def)
qed

lemma example_turn_effect:
  "loop_turn example_config (example_turn block now) example_state = (Inr [RoundRun block, WeightsSent block example_weights], example_next block now)"
proof -
  let ?n = "(va_neuron (ls_validator example_state))\<lparr>nr_last_run_block := Some block\<rparr>"
  have d: "round_due now block (va_neuron (ls_validator example_state)) = (True, ?n)"
    by (simp add: round_due_def should_run_def example_state_def release_policy_def)
  have c: "round_callback example_config (example_inputs now) ((ls_validator example_state)\<lparr>va_neuron := ?n\<rparr>) = (Inr (), ls_validator (example_next block now))"
    by (subst example_callback [of _ now block]) (simp_all add: example_state_def example_next_def)
  have v: "va_uids (ls_validator (example_next block now)) = 3" "va_engine (ls_validator (example_next block now)) = example_synced"
    by (simp_all add: example_next_def example_state_def)
  let ?s = "example_state\<lparr>ls_validator := ls_validator (example_next block now), ls_rounds_done := 1\<rparr>"
  have "should_run block (nr_weights_interval (va_neuron (ls_validator (example_next block now)))) None = (True, Some block)"
    by (simp add: should_run_def example_next_def example_state_def effective_weights_interval_def release_policy_def WEIGHTS_RATE_LIMIT_MARGIN_def)
  then have "weights_turn example_config (example_turn block now) block ?s = (Inr [WeightsSent block example_weights], example_next block now)"
    by (simp add: weights_turn_def example_turn_def example_next_def example_state_def example_submit Let_def)
  then show ?thesis
    using d c by (simp add: loop_turn_def current_block_with_recovery_def example_turn_def) (simp add: example_state_def)
qed

lemma example_run: "run example_config example_state []" "run example_config (example_next block now) [RoundRun block, WeightsSent block example_weights]"
proof -
  show r: "run example_config example_state []" by (rule run.started [OF example_start])
  show "run example_config (example_next block now) [RoundRun block, WeightsSent block example_weights]"
    using run.turned [OF r _ example_turn_effect [of block now]] example_sound by (simp add: example_turn_def)
qed

section \<open>Witnesses\<close>

theorem restart_resumes_witness:
  "\<exists>s2. start_validator example_config example_reader (Fin 8) True None 7 (Saved (score_state example_synced)) = Inr s2 \<and>
     scores (va_engine (ls_validator s2)) = [Fin (1/2), Fin 1, Fin 0] \<and> hotkeys (va_engine (ls_validator s2)) = [(0, ''a''), (1, ''b''), (2, ''c'')]"
proof -
  have n: "va_engine (ls_validator (example_next 0 0)) = example_synced" "va_file (ls_validator (example_next 0 0)) = Saved (score_state example_synced)"
    by (simp_all add: example_next_def)
  have d: "va_file (ls_validator (example_next 0 0)) \<noteq> va_file (ls_validator example_state)"
    by (simp add: example_next_def example_state_def score_state_def example_synced_def owned_example_def engine_example_def)
  have s: "sound_inputs (tn_round (example_turn 0 0))" using example_sound by (simp add: example_turn_def)
  show ?thesis
    using restart_resumes [OF example_run(1) s example_turn_effect d, of example_reader "Fin 8" True None 7]
    unfolding n by (simp add: example_synced_def owned_example_def engine_example_def) blast
qed

theorem weights_sent_on_evidence_witness:
  "2 \<le> weight_observation_count example_synced \<and> get_weights example_synced (Some 3) = Inr example_weights \<and> length example_weights = 3 \<and>
     list_all (\<lambda>x. 0 \<le> x) example_weights \<and> sum_list example_weights = 1"
proof -
  have s: "sound_inputs (tn_round (example_turn 0 0))" using example_sound by (simp add: example_turn_def)
  have n: "va_engine (ls_validator (example_next 0 0)) = example_synced" "va_uids (ls_validator (example_next 0 0)) = 3"
    "min_weight_observations (vc_policy example_config) = 2"
    by (simp_all add: example_next_def example_state_def example_config_def)
  show ?thesis
    using weights_sent_on_evidence [OF example_run(1) s example_turn_effect, of 0 example_weights] unfolding n by (simp add: list_all_iff)
qed

theorem weights_paced_witness:
  "sorted_wrt (\<lambda>a b. a + 100 + 20 \<le> b) (gate_blocks [RoundRun 7, WeightsSent 7 example_weights]) \<and>
     gate_blocks [RoundRun 7, WeightsSent 7 example_weights] = [7]"
  using weights_paced [OF example_run(2) [of 7 0], of 100]
  by (simp add: example_next_def example_state_def) (simp add: gate_blocks_def map_filter_def)

theorem server_pause_bounded_witness:
  "nr_deferred_until (va_neuron (ls_validator (example_next 7 3))) = Some 904 \<and> (3 :: real) + 1 \<le> 904 \<and> (904 :: real) \<le> 3 + 901"
proof -
  have "nr_deferred_until (va_neuron (ls_validator (example_next 7 3))) = Some 904"
    "nr_deferred_until (va_neuron (ls_validator example_state)) \<noteq> Some 904" "ri_monotonic (tn_round (example_turn 7 3)) = 3"
    by (simp_all add: example_next_def example_state_def example_turn_def example_inputs_def)
  then show ?thesis using server_pause_bounded [OF example_turn_effect, of 7 3 904] by simp
qed

text \<open>The same turn with a chain that cannot be reached.\<close>

theorem loop_crash_explained_witness:
  "\<exists>s'. loop_turn example_config ((example_turn 7 3)\<lparr>tn_round := (example_inputs 3)\<lparr>ri_metagraph := None\<rparr>\<rparr>) example_state = (Inl MetagraphSync, s') \<and>
     explained ((example_turn 7 3)\<lparr>tn_round := (example_inputs 3)\<lparr>ri_metagraph := None\<rparr>\<rparr>) MetagraphSync"
proof -
  let ?t = "(example_turn 7 3)\<lparr>tn_round := (example_inputs 3)\<lparr>ri_metagraph := None\<rparr>\<rparr>"
  have "\<exists>s'. loop_turn example_config ?t example_state = (Inl MetagraphSync, s')"
    by (simp add: loop_turn_def current_block_with_recovery_def example_turn_def round_due_def should_run_def example_state_def
        release_policy_def round_callback_def)
  then obtain s' where t: "loop_turn example_config ?t example_state = (Inl MetagraphSync, s')" by blast
  moreover have "sound_inputs (tn_round ?t)" by (simp add: sound_inputs_def)
  ultimately show ?thesis using loop_crash_explained [OF example_run(1) _ t] by blast
qed

text \<open>An unending run: the same answers, with the block and the clock advancing.\<close>

fun example_states :: "nat \<Rightarrow> loop_state" where
  "example_states 0 = example_state"
| "example_states (Suc i) = snd (loop_turn example_config (example_turn (int i) (real i)) (example_states i))"

definition example_events :: "nat \<Rightarrow> event list" where
  "example_events i = (case fst (loop_turn example_config (example_turn (int i) (real i)) (example_states i)) of Inl _ \<Rightarrow> [] | Inr es \<Rightarrow> es)"

lemma example_unexplained: "\<not> explained (example_turn block now) c"
  by (cases c) (simp_all add: explained_def example_turn_def example_inputs_def bad_clock_def missing_axons_def example_metagraph_def)

lemma example_forever:
  "loop_turn example_config (example_turn (int i) (real i)) (example_states i) = (Inr (example_events i), example_states (Suc i))"
proof -
  have s: "sound_inputs (tn_round (example_turn b t))" for b t using example_sound by (simp add: example_turn_def)
  have inv: "loop_inv example_config (example_states i)"
  proof (induction i)
    case (Suc i)
    from loop_turn_inv [OF Suc s prod.collapse [symmetric]] show ?case by simp
  qed (simp add: run_inv [OF example_run(1)])
  show ?thesis
    using loop_turn_crash [OF inv s] example_unexplained
    by (cases "loop_turn example_config (example_turn (int i) (real i)) (example_states i)"; cases "fst (loop_turn example_config (example_turn (int i) (real i)) (example_states i))")
       (auto simp: example_events_def)
qed

theorem rounds_recur_witness: "\<exists>i\<ge>1000. \<exists>b. RoundRun b \<in> set (example_events i)"
proof (rule rounds_recur [where ts = "\<lambda>i. example_turn (int i) (real i)" and ss = example_states and cfg = example_config])
  show "\<forall>x n. \<exists>i\<ge>n. \<exists>b. current_block_with_recovery (tn_blocks (example_turn (int i) (real i))) = Some b \<and> x \<le> b \<and>
      of_int x \<le> tn_now (example_turn (int i) (real i))"
  proof (intro allI)
    fix x :: int and n :: nat
    show "\<exists>i\<ge>n. \<exists>b. current_block_with_recovery (tn_blocks (example_turn (int i) (real i))) = Some b \<and> x \<le> b \<and>
      of_int x \<le> tn_now (example_turn (int i) (real i))"
      by (intro exI [of _ "max n (nat x)"]) (auto simp: example_turn_def current_block_with_recovery_def)
  qed
qed (use example_forever in blast)

end
