(* ===== verification/Protocol.thy ===== *)
theory Protocol
  imports ProblemClient
begin

text \<open>
  Signed requests (\<open>src/rlvr/protocol.py\<close>): signing, verification and the cache of nonces.  The
  key pairs of the chain, SHA-256 and HMAC are the parameter \<open>crypto\<close>; times are milliseconds.  The
  lemmas show what an accepted signature rests on, that a signed request is accepted, and how far
  the nonce cache keeps a request from being accepted twice.
\<close>

section \<open>Signing\<close>

definition EPISTULA_VERSION :: string where "EPISTULA_VERSION = ''2''"

record crypto =
  cr_have :: bool
  cr_sha256 :: "bytes \<Rightarrow> string"
  cr_hmac :: "string \<Rightarrow> string \<Rightarrow> string"
  cr_sign :: "string \<Rightarrow> string \<Rightarrow> bytes option"
  cr_verify :: "string \<Rightarrow> string \<Rightarrow> bytes \<Rightarrow> bool option"

definition signing_message :: "string \<Rightarrow> string \<Rightarrow> int \<Rightarrow> string \<Rightarrow> string" where
  "signing_message body_hash uuid timestamp signed_for =
     body_hash @ ''.'' @ uuid @ ''.'' @ dec timestamp @ ''.'' @ signed_for"

definition hmac_sign :: "crypto \<Rightarrow> string \<Rightarrow> string \<Rightarrow> string" where
  "hmac_sign cr signed_by message = ''0x'' @ cr_hmac cr signed_by message"

text \<open>What \<open>sign_message\<close> accepts as a signer; \<open>Keypair\<close> carries its address and its \<open>str\<close>.\<close>

datatype key_object = NoKey | Opaque string | Keypair string string | Wallet key_object

fun keypair_address :: "key_object \<Rightarrow> string" where
  "keypair_address NoKey = []"
| "keypair_address (Opaque s) = s"
| "keypair_address (Wallet k) = keypair_address k"
| "keypair_address (Keypair address repr) = (if address \<noteq> [] then address else repr)"

fun signer_of :: "key_object \<Rightarrow> key_object" where
  "signer_of (Wallet (Keypair a r)) = Keypair a r"
| "signer_of k = k"

text \<open>\<open>bytes.hex\<close> and \<open>bytes.fromhex\<close>, which skips blanks between bytes.\<close>

definition hex_of_byte :: "char \<Rightarrow> string" where
  "hex_of_byte c = [char_of (hex_digit (of_char c div 16)), char_of (hex_digit (of_char c mod 16))]"

definition to_hex :: "bytes \<Rightarrow> string" where
  "to_hex bs = concat (map hex_of_byte bs)"

definition hex_value :: "char \<Rightarrow> nat option" where
  "hex_value c =
     (let n = (of_char c :: nat) in
      if 48 \<le> n \<and> n \<le> 57 then Some (n - 48)
      else if 97 \<le> n \<and> n \<le> 102 then Some (n - 87)
      else if 65 \<le> n \<and> n \<le> 70 then Some (n - 55)
      else None)"

definition ascii_blank :: "char \<Rightarrow> bool" where
  "ascii_blank c \<longleftrightarrow> c \<in> {CHR 0x20, CHR 0x09, CHR 0x0A, CHR 0x0B, CHR 0x0C, CHR 0x0D}"

fun from_hex :: "string \<Rightarrow> bytes option" where
  "from_hex [] = Some []"
| "from_hex (c # cs) =
     (if ascii_blank c then from_hex cs
      else case cs of
        [] \<Rightarrow> None
      | d # ds \<Rightarrow>
          (case (hex_value c, hex_value d) of
             (Some x, Some y) \<Rightarrow> map_option (\<lambda>bs. char_of (16 * x + y) # bs) (from_hex ds)
           | _ \<Rightarrow> None))"

record epistula =
  ep_version :: string
  ep_timestamp :: string
  ep_uuid :: string
  ep_signed_by :: string
  ep_signed_for :: string
  ep_signature :: string

text \<open>\<open>None\<close>: the key pair refused to sign.\<close>

definition sign_message :: "crypto \<Rightarrow> key_object \<Rightarrow> bytes \<Rightarrow> string option \<Rightarrow> int \<Rightarrow> string \<Rightarrow> epistula option" where
  "sign_message cr hotkey body signed_for now_ms uuid =
     (let recipient = (case signed_for of None \<Rightarrow> [] | Some r \<Rightarrow> r);
          signed_by = keypair_address hotkey;
          message = signing_message (cr_sha256 cr body) uuid now_ms recipient in
      map_option (\<lambda>signature. \<lparr>ep_version = EPISTULA_VERSION, ep_timestamp = dec now_ms, ep_uuid = uuid, ep_signed_by = signed_by,
          ep_signed_for = recipient, ep_signature = signature\<rparr>)
        (case signer_of hotkey of
           Keypair a r \<Rightarrow> if cr_have cr then map_option (\<lambda>s. ''0x'' @ to_hex s) (cr_sign cr a message)
                          else Some (hmac_sign cr signed_by message)
         | _ \<Rightarrow> Some (hmac_sign cr signed_by message)))"

section \<open>Verification\<close>

type_synonym headers = "string \<Rightarrow> string option"

definition headers_of :: "epistula \<Rightarrow> headers" where
  "headers_of e = map_of
     [(''Epistula-Version'', ep_version e), (''Epistula-Timestamp'', ep_timestamp e), (''Epistula-Uuid'', ep_uuid e),
      (''Epistula-Signed-By'', ep_signed_by e), (''Epistula-Signed-For'', ep_signed_for e),
      (''Epistula-Request-Signature'', ep_signature e)]"

definition looks_like_ss58 :: "string \<Rightarrow> bool" where
  "looks_like_ss58 s \<longleftrightarrow> 46 \<le> length s \<and> length s \<le> 49 \<and> take 2 s \<noteq> ''0x'' \<and>
     list_all (\<lambda>c. c \<in> set ''123456789ABCDEFGHJKLMNPQRSTUVWXYZabcdefghijkmnopqrstuvwxyz'') s"

text \<open>The five headers that must be present, the timestamp parsed.\<close>

definition required_headers :: "headers \<Rightarrow> (string \<times> string \<times> int \<times> string \<times> string) option" where
  "required_headers h =
     (case (h ''Epistula-Version'', h ''Epistula-Request-Signature'', h ''Epistula-Timestamp'', h ''Epistula-Uuid'',
            h ''Epistula-Signed-By'') of
        (Some ver, Some signature, Some ts, Some uuid, Some signed_by) \<Rightarrow>
          map_option (\<lambda>t. (ver, signature, t, uuid, signed_by)) (int_text ts)
      | _ \<Rightarrow> None)"

definition signature_holds :: "crypto \<Rightarrow> string \<Rightarrow> string \<Rightarrow> string \<Rightarrow> bool" where
  "signature_holds cr signed_by message signature =
     (if looks_like_ss58 signed_by
      then (if \<not> (cr_have cr \<and> take 2 signature = ''0x'') then False
            else case from_hex (drop 2 signature) of
              None \<Rightarrow> False
            | Some s \<Rightarrow> cr_verify cr signed_by message s = Some True)
      else if cr_have cr then False
      else hmac_sign cr signed_by message = signature)"

definition verify_signature :: "crypto \<Rightarrow> headers \<Rightarrow> bytes \<Rightarrow> int \<Rightarrow> int \<Rightarrow> string option \<Rightarrow> bool" where
  "verify_signature cr h body allowed_delta_ms now expected_signed_for =
     (case required_headers h of
        None \<Rightarrow> False
      | Some (ver, signature, timestamp, uuid, signed_by) \<Rightarrow>
          let signed_for = (case h ''Epistula-Signed-For'' of None \<Rightarrow> [] | Some r \<Rightarrow> r) in
          if ver \<noteq> EPISTULA_VERSION \<or> signed_by = [] \<or> uuid = [] \<or> allowed_delta_ms < 0 then False
          else if (case expected_signed_for of None \<Rightarrow> False | Some r \<Rightarrow> r \<noteq> [] \<and> signed_for \<noteq> r) then False
          else if timestamp + allowed_delta_ms < now then False
          else if timestamp - allowed_delta_ms > now then False
          else signature_holds cr signed_by (signing_message (cr_sha256 cr body) uuid timestamp signed_for) signature)"

definition ALLOWED_DELTA_MS :: int where "ALLOWED_DELTA_MS = 8000"

section \<open>Nonces\<close>

record nonce_cache =
  nc_window_ms :: int
  nc_max_entries :: int
  nc_seen :: "(string, int) dict"

definition new_nonce_cache :: "int \<Rightarrow> int \<Rightarrow> nonce_cache" where
  "new_nonce_cache window_ms capacity =
     \<lparr>nc_window_ms = max 0 window_ms, nc_max_entries = max 1 capacity, nc_seen = []\<rparr>"

definition prune :: "int \<Rightarrow> nonce_cache \<Rightarrow> nonce_cache" where
  "prune now c = c\<lparr>nc_seen := dropWhile (\<lambda>(_, ts). ts < now - nc_window_ms c) (nc_seen c)\<rparr>"

definition check_and_add :: "string \<Rightarrow> int \<Rightarrow> nonce_cache \<Rightarrow> bool \<times> nonce_cache" where
  "check_and_add uuid now c =
     (if uuid = [] then (False, c)
      else let c' = prune now c in
        if uuid \<in> set (keys (nc_seen c')) then (False, c')
        else if int (length (nc_seen c')) \<ge> nc_max_entries c' then (False, c')
        else (True, c'\<lparr>nc_seen := nc_seen c' @ [(uuid, now)]\<rparr>))"

text \<open>The first two guards of every handler of the miner: the clock is read once for the signature
  and once for the nonce.\<close>

definition admit :: "crypto \<Rightarrow> string option \<Rightarrow> headers \<times> bytes \<times> int \<times> int \<Rightarrow> nonce_cache \<Rightarrow> bool \<times> nonce_cache" where
  "admit cr me = (\<lambda>(h, body, verified_at, seen_at) c.
     if \<not> verify_signature cr h body ALLOWED_DELTA_MS verified_at me then (False, c)
     else check_and_add (case h ''Epistula-Uuid'' of None \<Rightarrow> [] | Some u \<Rightarrow> u) seen_at c)"

fun admissions :: "crypto \<Rightarrow> string option \<Rightarrow> (headers \<times> bytes \<times> int \<times> int) list \<Rightarrow> nonce_cache \<Rightarrow> bool list" where
  "admissions cr me [] c = []"
| "admissions cr me (r # rs) c = (case admit cr me r c of (ok, c') \<Rightarrow> ok # admissions cr me rs c')"

section \<open>What an accepted signature rests on\<close>

text \<open>C18. A signature is accepted exactly when: all required headers are present and not empty, the version
  is 2, the timestamp is within the allowed distance of the clock, the recipient is the expected one
  if one is expected, and the signature holds over the digest of this very body.  With a crypto
  stack the signer must be a chain address and the key pair must confirm the signature, without one a
  chain address is never accepted: the HMAC of the simulation cannot be forced on a real key.\<close>

theorem verify_signature_exact:
  "verify_signature cr h body delta now me \<longleftrightarrow>
     (\<exists>signature ts timestamp uuid signed_by signed_for.
        h ''Epistula-Version'' = Some ''2'' \<and> h ''Epistula-Request-Signature'' = Some signature \<and>
        h ''Epistula-Timestamp'' = Some ts \<and> int_text ts = Some timestamp \<and>
        h ''Epistula-Uuid'' = Some uuid \<and> uuid \<noteq> [] \<and> h ''Epistula-Signed-By'' = Some signed_by \<and> signed_by \<noteq> [] \<and>
        signed_for = (case h ''Epistula-Signed-For'' of None \<Rightarrow> [] | Some r \<Rightarrow> r) \<and>
        me \<in> {None, Some [], Some signed_for} \<and> \<bar>now - timestamp\<bar> \<le> delta \<and>
        (let message = cr_sha256 cr body @ ''.'' @ uuid @ ''.'' @ dec timestamp @ ''.'' @ signed_for in
         if cr_have cr
         then looks_like_ss58 signed_by \<and> take 2 signature = ''0x'' \<and>
           (\<exists>s. from_hex (drop 2 signature) = Some s \<and> cr_verify cr signed_by message s = Some True)
         else \<not> looks_like_ss58 signed_by \<and> signature = ''0x'' @ cr_hmac cr signed_by message))"
  (is "_ \<longleftrightarrow> (\<exists>signature ts timestamp uuid signed_by signed_for. ?ok signature ts timestamp uuid signed_by signed_for)")
proof
  assume v: "verify_signature cr h body delta now me"
  obtain signature ts timestamp uuid signed_by where r: "h ''Epistula-Version'' = Some ''2''" "h ''Epistula-Request-Signature'' = Some signature"
    "h ''Epistula-Timestamp'' = Some ts" "int_text ts = Some timestamp" "h ''Epistula-Uuid'' = Some uuid" "uuid \<noteq> []"
    "h ''Epistula-Signed-By'' = Some signed_by" "signed_by \<noteq> []"
    using v by (auto simp: verify_signature_def required_headers_def EPISTULA_VERSION_def Let_def split: option.splits if_splits)
  let ?for = "case h ''Epistula-Signed-For'' of None \<Rightarrow> [] | Some r \<Rightarrow> r"
  have "me \<in> {None, Some [], Some ?for}" "\<bar>now - timestamp\<bar> \<le> delta"
    "signature_holds cr signed_by (signing_message (cr_sha256 cr body) uuid timestamp ?for) signature"
    using v r by (auto simp: verify_signature_def required_headers_def Let_def split: option.splits if_splits)
  then have "?ok signature ts timestamp uuid signed_by ?for"
    using r by (auto simp: signature_holds_def signing_message_def hmac_sign_def Let_def split: option.splits if_splits)
  then show "\<exists>signature ts timestamp uuid signed_by signed_for. ?ok signature ts timestamp uuid signed_by signed_for" by blast
next
  assume "\<exists>signature ts timestamp uuid signed_by signed_for. ?ok signature ts timestamp uuid signed_by signed_for"
  then obtain signature ts timestamp uuid signed_by signed_for where ok: "?ok signature ts timestamp uuid signed_by signed_for" by blast
  then have "signature_holds cr signed_by (signing_message (cr_sha256 cr body) uuid timestamp signed_for) signature"
    by (auto simp: signature_holds_def signing_message_def hmac_sign_def Let_def split: if_splits)
  then show "verify_signature cr h body delta now me"
    using ok by (auto simp: verify_signature_def required_headers_def EPISTULA_VERSION_def Let_def split: option.splits)
qed

section \<open>Signing and verifying\<close>

lemma hex_digit_value: "n < 16 \<Longrightarrow> hex_value (char_of (hex_digit n)) = Some n"
  by (auto simp: hex_value_def hex_digit_def Let_def)

lemma blank_no_digit: "ascii_blank c \<Longrightarrow> hex_value c = None"
  by (auto simp: ascii_blank_def hex_value_def)

lemma from_hex_byte: "from_hex (hex_of_byte c @ s) = map_option (\<lambda>bs. c # bs) (from_hex s)"
proof -
  have n: "(of_char c :: nat) < 256" by simp
  then have d: "(of_char c :: nat) div 16 < 16" by (simp add: less_mult_imp_div_less)
  have h: "hex_value (char_of (hex_digit (of_char c div 16))) = Some (of_char c div 16)"
    "hex_value (char_of (hex_digit (of_char c mod 16))) = Some (of_char c mod 16)"
    using d by (simp_all add: hex_digit_value)
  have "\<not> ascii_blank (char_of (hex_digit (of_char c div 16)))"
    using h(1) blank_no_digit by (metis option.distinct(1))
  moreover have "char_of (16 * (of_char c div 16) + of_char c mod 16) = c" by simp
  ultimately show ?thesis using h by (simp add: hex_of_byte_def)
qed

lemma from_hex_to_hex: "from_hex (to_hex bs) = Some bs"
  unfolding to_hex_def by (induction bs) (simp_all add: from_hex_byte)

lemma signed_accepted:
  assumes scheme: "\<forall>a m s. cr_sign cr a m = Some s \<longrightarrow> cr_verify cr a m s = Some True"
    and key: "if cr_have cr then key \<in> {Keypair a x, Wallet (Keypair a x)} \<and> looks_like_ss58 a
              else keypair_address key \<noteq> [] \<and> \<not> looks_like_ss58 (keypair_address key)"
    and signed: "sign_message cr key body signed_for t uuid = Some e" and uuid: "uuid \<noteq> []"
    and time: "0 \<le> t" "t < 10 ^ 15" "\<bar>now - t\<bar> \<le> delta"
    and me: "me = None \<or> me = signed_for"
  shows "verify_signature cr (headers_of e) body delta now me"
proof -
  let ?r = "case signed_for of None \<Rightarrow> [] | Some r \<Rightarrow> r"
  let ?m = "signing_message (cr_sha256 cr body) uuid t ?r"
  have e: "ep_version e = EPISTULA_VERSION" "ep_timestamp e = dec t" "ep_uuid e = uuid" "ep_signed_by e = keypair_address key" "ep_signed_for e = ?r"
    using signed by (auto simp: sign_message_def Let_def)
  have ts: "int_text (dec t) = Some t" using time(1,2) by (intro int_text_decimal [of _ 14]) simp_all
  have h: "required_headers (headers_of e) = Some (EPISTULA_VERSION, ep_signature e, t, uuid, keypair_address key)"
    "headers_of e ''Epistula-Signed-For'' = Some ?r"
    using ts by (simp_all add: required_headers_def headers_of_def e)
  have "keypair_address key \<noteq> [] \<and> signature_holds cr (keypair_address key) ?m (ep_signature e)"
  proof (cases "cr_have cr")
    case True
    then have k: "signer_of key = Keypair a x" "keypair_address key = a" "looks_like_ss58 a" using key by (auto simp: looks_like_ss58_def)
    then obtain s where s: "cr_sign cr a ?m = Some s" "ep_signature e = ''0x'' @ to_hex s"
      using signed True by (auto simp: sign_message_def Let_def)
    have "a \<noteq> []" using k(3) by (auto simp: looks_like_ss58_def)
    then show ?thesis using True k s scheme from_hex_to_hex by (simp add: signature_holds_def)
  next
    case False
    then have "ep_signature e = hmac_sign cr (keypair_address key) ?m"
      using signed by (auto simp: sign_message_def Let_def split: key_object.splits)
    then show ?thesis using False key by (simp add: signature_holds_def)
  qed
  then show ?thesis using time uuid me by (auto simp: verify_signature_def h Let_def split: option.splits)
qed

text \<open>Round trip of a signed request: with a key pair whose signatures its own verification confirms,
  or in a simulation without a crypto stack, the headers that \<open>sign_message\<close> builds are accepted by
  the recipient they were made for, within the allowed clock distance.\<close>

theorem signed_request_accepted:
  assumes scheme: "\<forall>a m s. cr_sign cr a m = Some s \<longrightarrow> cr_verify cr a m s = Some True"
    and key: "if cr_have cr then key \<in> {Keypair a x, Wallet (Keypair a x)} \<and> looks_like_ss58 a
              else keypair_address key \<noteq> [] \<and> \<not> looks_like_ss58 (keypair_address key)"
    and signed: "sign_message cr key body signed_for t uuid = Some e" and uuid: "uuid \<noteq> []"
    and time: "0 \<le> t" "t < 10 ^ 15" "\<bar>now - t\<bar> \<le> delta"
    and me: "me = None \<or> me = signed_for"
  shows "verify_signature cr (headers_of e) body delta now me"
  by (rule signed_accepted [OF assms])

section \<open>Replays\<close>

text \<open>Entries are dropped only when their time is older than the window.\<close>

lemma prune_keeps:
  assumes "(u, t) \<in> set (nc_seen c)" "now - nc_window_ms c \<le> t"
  shows "(u, t) \<in> set (nc_seen (prune now c))"
proof -
  have "(u, t) \<in> set (takeWhile (\<lambda>(_, ts). ts < now - nc_window_ms c) (nc_seen c)) \<or>
      (u, t) \<in> set (dropWhile (\<lambda>(_, ts). ts < now - nc_window_ms c) (nc_seen c))"
    using assms(1) by (metis Un_iff set_append takeWhile_dropWhile_id)
  then show ?thesis using assms(2) by (auto simp: prune_def dest: set_takeWhileD)
qed

lemma nonce_seen_step:
  assumes "(u, t) \<in> set (nc_seen c)" "check_and_add v now c = (ok, c')" "now - nc_window_ms c \<le> t"
  shows "(u, t) \<in> set (nc_seen c')"
  using assms(1,2) prune_keeps [OF assms(1,3)] by (auto simp: check_and_add_def Let_def split: if_splits)

lemma nonce_known_refused:
  assumes "(u, t) \<in> set (nc_seen c)" "now - nc_window_ms c \<le> t"
  shows "\<not> fst (check_and_add u now c)"
proof -
  have "u \<in> set (keys (nc_seen (prune now c)))" using prune_keeps [OF assms] by force
  then show ?thesis by (simp add: check_and_add_def Let_def)
qed

lemma check_and_add_window: "check_and_add v now c = (ok, c') \<Longrightarrow> nc_window_ms c' = nc_window_ms c"
  by (auto simp: check_and_add_def prune_def Let_def split: if_splits)

definition uuid_of :: "headers \<Rightarrow> string" where
  "uuid_of h = (case h ''Epistula-Uuid'' of None \<Rightarrow> [] | Some u \<Rightarrow> u)"

definition seen_at :: "headers \<times> bytes \<times> int \<times> int \<Rightarrow> int" where
  "seen_at = (\<lambda>(_, _, _, n). n)"

lemma admit_cases:
  assumes "admit cr me r c = (ok, c')"
  shows "\<not> ok \<and> c' = c \<or> check_and_add (uuid_of (fst r)) (seen_at r) c = (ok, c')"
  using assms by (auto simp: admit_def uuid_of_def seen_at_def split: prod.splits if_splits)

lemma admit_accepts:
  assumes "admit cr me r c = (True, c')"
  shows "(uuid_of (fst r), seen_at r) \<in> set (nc_seen c') \<and> nc_window_ms c' = nc_window_ms c"
  using admit_cases [OF assms] by (auto simp: check_and_add_def prune_def Let_def split: if_splits)

lemma admissions_refused:
  assumes "(u, t) \<in> set (nc_seen c)" "\<forall>k \<le> j. seen_at (rs ! k) - nc_window_ms c \<le> t" "j < length rs" "uuid_of (fst (rs ! j)) = u"
  shows "\<not> admissions cr me rs c ! j"
  using assms
proof (induction rs arbitrary: c j)
  case (Cons r rs)
  obtain ok c' where s: "admit cr me r c = (ok, c')" by fastforce
  have t: "seen_at r - nc_window_ms c \<le> t" using Cons.prems(2) by fastforce
  have seen: "(u, t) \<in> set (nc_seen c') \<and> nc_window_ms c' = nc_window_ms c"
    using admit_cases [OF s] nonce_seen_step [OF Cons.prems(1) _ t] check_and_add_window Cons.prems(1) by blast
  show ?case
  proof (cases j)
    case 0
    then show ?thesis using s Cons.prems(4) admit_cases [OF s] nonce_known_refused [OF Cons.prems(1) t] by auto
  next
    case (Suc i)
    have "seen_at (rs ! k) - nc_window_ms c' \<le> t" if "k \<le> i" for k
      using Cons.prems(2) [rule_format, of "Suc k"] that Suc seen by simp
    then show ?thesis using Cons.IH [of c' i] Cons.prems(3,4) s seen Suc by simp
  qed
qed simp

lemma reuse_after_window:
  assumes "i < j" "j < length rs" "admissions cr me rs c ! i" "admissions cr me rs c ! j" "uuid_of (fst (rs ! i)) = uuid_of (fst (rs ! j))"
  shows "\<exists>k. i < k \<and> k \<le> j \<and> seen_at (rs ! i) < seen_at (rs ! k) - nc_window_ms c"
  using assms
proof (induction rs arbitrary: c i j)
  case (Cons r rs)
  obtain ok c' where s: "admit cr me r c = (ok, c')" by fastforce
  obtain j' where j: "j = Suc j'" using Cons.prems(1) by (cases j) auto
  have w: "nc_window_ms c' = nc_window_ms c" using admit_cases [OF s] check_and_add_window by blast
  show ?case
  proof (cases i)
    case 0
    then have "admit cr me r c = (True, c')" using Cons.prems(3) s by simp
    note a = admit_accepts [OF this]
    have "\<not> (\<forall>k \<le> j'. seen_at (rs ! k) - nc_window_ms c' \<le> seen_at r)"
      using admissions_refused [OF conjunct1 [OF a], of j' rs] Cons.prems(2,4,5) 0 j s by auto
    then obtain k where "k \<le> j'" "seen_at r < seen_at (rs ! k) - nc_window_ms c" using w by force
    then show ?thesis using 0 j by (intro exI [of _ "Suc k"]) simp
  next
    case (Suc i')
    then obtain k where "i' < k" "k \<le> j'" "seen_at (rs ! i') < seen_at (rs ! k) - nc_window_ms c'"
      using Cons.IH [of i' j' c'] Cons.prems j s by auto
    then show ?thesis using Suc j w by (intro exI [of _ "Suc k"]) simp
  qed
qed simp

lemma admitted_fresh:
  assumes "j < length rs" "admissions cr me rs c ! j" "rs ! j = (h, body, v, n)" "h ''Epistula-Timestamp'' = Some x" "int_text x = Some ts"
  shows "\<bar>v - ts\<bar> \<le> 8000"
  using assms
proof (induction rs arbitrary: c j)
  case (Cons r rs)
  show ?case
  proof (cases j)
    case 0
    then have "verify_signature cr h body ALLOWED_DELTA_MS v me"
      using Cons.prems(2,3) by (auto simp: admit_def split: prod.splits if_splits)
    then show ?thesis
      using Cons.prems(4,5) by (auto simp: verify_signature_def required_headers_def ALLOWED_DELTA_MS_def Let_def split: option.splits if_splits)
  qed (use Cons.IH Cons.prems in \<open>auto split: prod.splits\<close>)
qed simp

text \<open>C19. What protects a receiver from replays.  Let its clock never go back, and let the same headers be
  admitted twice.  Then the second admission is recorded more than 8 seconds after the first, and
  when the second copy was verified its timestamp was at most 8 seconds away; so the timestamp lies
  after the first admission less the time the receiver took, at the second one, between verifying
  and recording it.  A request is admitted once when it was stamped early enough before it arrived
  for that time: in particular, when the two readings coincide, one stamped when or before it arrived.\<close>

theorem replay_needs_late_stamp:
  assumes cache: "nc_window_ms c = 8000" and ij: "i < j" "j < length rs"
    and both: "admissions cr me rs c ! i" "admissions cr me rs c ! j"
    and req: "fst (rs ! i) = h" "rs ! j = (h, body, v, n)" "h ''Epistula-Timestamp'' = Some x" "int_text x = Some ts"
    and clock: "\<forall>k \<le> j. seen_at (rs ! k) \<le> n"
  shows "seen_at (rs ! i) + 8000 < n \<and> \<bar>v - ts\<bar> \<le> 8000 \<and> seen_at (rs ! i) - (n - v) < ts"
proof -
  have "uuid_of (fst (rs ! i)) = uuid_of (fst (rs ! j))" using req(1,2) by simp
  from reuse_after_window [OF ij both this]
  obtain k where k: "k \<le> j" "seen_at (rs ! i) < seen_at (rs ! k) - 8000" using cache by auto
  have "seen_at (rs ! k) \<le> n" using clock k(1) by blast
  moreover have "\<bar>v - ts\<bar> \<le> 8000" by (rule admitted_fresh [OF ij(2) both(2) req(2-4)])
  ultimately show ?thesis using k(2) by linarith
qed

lemma early_admitted_twice:
  assumes valid: "verify_signature cr h body 8000 v me" and ts: "h ''Epistula-Timestamp'' = Some x" "int_text x = Some ts"
    and early: "v < ts" and cap: "1 \<le> cap"
  shows "admissions cr me [(h, body, v, v), (h, body, v + 8001, v + 8001)] (new_nonce_cache 8000 cap) = [True, True]"
proof -
  have u: "h ''Epistula-Uuid'' = Some (uuid_of h) \<and> uuid_of h \<noteq> [] \<and> ts \<le> v + 8000"
    using valid ts by (auto simp: verify_signature_def required_headers_def uuid_of_def Let_def split: option.splits if_splits)
  have later: "verify_signature cr h body 8000 (v + 8001) me"
    using valid ts early by (auto simp: verify_signature_def required_headers_def Let_def split: option.splits if_splits)
  have "uuid_of h \<noteq> []" using u by blast
  moreover have "(case h ''Epistula-Uuid'' of None \<Rightarrow> [] | Some u \<Rightarrow> u) = uuid_of h" by (simp add: uuid_of_def)
  ultimately show ?thesis
    using valid later cap
    by (simp add: admit_def ALLOWED_DELTA_MS_def check_and_add_def prune_def new_nonce_cache_def Let_def)
qed

text \<open>C40. The cache does not cover the whole validity of a signature.  The class promises that a replayed
  request with a still fresh timestamp is rejected; the window of the cache starts at the arrival,
  but a signature stamped ahead of the receiver's clock stays valid for up to twice as long: every
  such request is admitted a second time.\<close>

theorem early_request_replayed:
  assumes valid: "verify_signature cr h body 8000 v me" and ts: "h ''Epistula-Timestamp'' = Some x" "int_text x = Some ts"
    and early: "v < ts" and cap: "1 \<le> cap"
  shows "admissions cr me [(h, body, v, v), (h, body, v + 8001, v + 8001)] (new_nonce_cache 8000 cap) = [True, True]"
  by (rule early_admitted_twice [OF assms])

section \<open>Witnesses\<close>

definition sim_crypto :: crypto where
  "sim_crypto = \<lparr>cr_have = False, cr_sha256 = (\<lambda>b. b), cr_hmac = (\<lambda>k m. k @ m), cr_sign = (\<lambda>_ _. None), cr_verify = (\<lambda>_ _ _. None)\<rparr>"

definition live_crypto :: crypto where
  "live_crypto = \<lparr>cr_have = True, cr_sha256 = (\<lambda>b. b), cr_hmac = (\<lambda>k m. k @ m), cr_sign = (\<lambda>a m. Some (a @ m)),
     cr_verify = (\<lambda>a m s. Some (s = a @ m))\<rparr>"

definition address_example :: string where "address_example = replicate 48 CHR ''5''"

lemma address_example_ok: "looks_like_ss58 address_example"
  by (simp add: looks_like_ss58_def address_example_def list_all_iff eval_nat_numeral)

definition signed_example :: epistula where
  "signed_example = the (sign_message live_crypto (Wallet (Keypair address_example [])) ''body'' (Some ''miner'') 5000 ''u1'')"

theorem signed_request_accepted_witness: "verify_signature live_crypto (headers_of signed_example) ''body'' 8000 1000 (Some ''miner'')"
proof (rule signed_request_accepted [where t = 5000 and uuid = "''u1''" and a = address_example and x = "[]" and signed_for = "Some ''miner''"])
  show "sign_message live_crypto (Wallet (Keypair address_example [])) ''body'' (Some ''miner'') 5000 ''u1'' = Some signed_example"
    by (simp add: signed_example_def sign_message_def live_crypto_def Let_def)
qed (use address_example_ok in \<open>simp_all add: live_crypto_def\<close>)

definition sim_headers :: headers where
  "sim_headers = headers_of (the (sign_message sim_crypto (Opaque ''val'') ''body'' (Some ''miner'') 5000 ''u1''))"

lemma sim_headers_ok:
  "sim_headers ''Epistula-Timestamp'' = Some (dec 5000)" "int_text (dec 5000) = Some 5000" "verify_signature sim_crypto sim_headers ''body'' 8000 1000 (Some ''miner'')"
proof -
  show i: "int_text (dec 5000) = Some 5000" by (rule int_text_dec) simp_all
  show "sim_headers ''Epistula-Timestamp'' = Some (dec 5000)"
    by (simp add: sim_headers_def headers_of_def sign_message_def sim_crypto_def Let_def)
  show "verify_signature sim_crypto sim_headers ''body'' 8000 1000 (Some ''miner'')"
    by (simp add: verify_signature_def required_headers_def sim_headers_def headers_of_def sign_message_def sim_crypto_def i signature_holds_def
        looks_like_ss58_def EPISTULA_VERSION_def Let_def)
qed

theorem early_request_replayed_witness:
  "admissions sim_crypto (Some ''miner'') [(sim_headers, ''body'', 1000, 1000), (sim_headers, ''body'', 9001, 9001)] (new_nonce_cache 8000 100000) = [True, True]"
  using early_request_replayed [OF sim_headers_ok(3,1,2), of 100000] by simp

theorem replay_needs_late_stamp_witness:
  "admissions sim_crypto (Some ''miner'') [(sim_headers, ''body'', 1000, 1000), (sim_headers, ''body'', 9001, 9001)] (new_nonce_cache 8000 100000) = [True, True] \<and>
     (1000 :: int) + 8000 < 9001 \<and> (1000 :: int) - (9001 - 9001) < 5000"
proof -
  let ?rs = "[(sim_headers, ''body'', 1000, 1000), (sim_headers, ''body'', 9001, 9001)]"
  have a: "admissions sim_crypto (Some ''miner'') ?rs (new_nonce_cache 8000 100000) = [True, True]"
    using early_admitted_twice [OF sim_headers_ok(3,1,2), of 100000] by simp
  have k: "\<forall>k \<le> 1. seen_at (?rs ! k) \<le> 9001" by (auto simp: seen_at_def le_Suc_eq)
  have "seen_at (?rs ! 0) + 8000 < 9001 \<and> \<bar>9001 - 5000 :: int\<bar> \<le> 8000 \<and> seen_at (?rs ! 0) - (9001 - 9001) < 5000"
    by (rule replay_needs_late_stamp [where c = "new_nonce_cache 8000 100000" and j = 1 and rs = ?rs and h = sim_headers and body = "''body''"
          and v = 9001 and n = 9001 and cr = sim_crypto and me = "Some ''miner''", OF _ _ _ _ _ _ _ sim_headers_ok(1,2) k])
       (use a in \<open>simp_all add: new_nonce_cache_def\<close>)
  then show ?thesis using a by (simp add: seen_at_def)
qed

end
