(* ===== verification/LiveClient.thy ===== *)
theory LiveClient
  imports Protocol RoundFlow
begin

text \<open>
  The validator's client for one miner (\<open>src/rlvr/neurons/live.py\<close>): \<open>solve_v3\<close>, from the signed
  request to the authenticated answer.  What happens on the wire and on the clock during one call is
  the record \<open>call\<close>; the JSON encoding of the
  request and the JSON reading of the answer are parameters.  The lemmas show that a call
  always ends in a well-formed submission of the miner it was meant for, that an answer is kept
  only when the miner signed it, and that this is what a round relies on.
\<close>

section \<open>Bounded texts\<close>

text \<open>\<open>str.encode("utf-8", "replace")\<close>.\<close>

definition utf8_bytes :: "nat \<Rightarrow> nat list" where
  "utf8_bytes c =
     (if c < 0x80 then [c]
      else if c < 0x800 then [0xC0 + c div 64, 0x80 + c mod 64]
      else if 0xD800 \<le> c \<and> c \<le> 0xDFFF then [63]
      else if c < 0x10000 then [0xE0 + c div 4096, 0x80 + c div 64 mod 64, 0x80 + c mod 64]
      else [0xF0 + c div 262144, 0x80 + c div 4096 mod 64, 0x80 + c div 64 mod 64, 0x80 + c mod 64])"

definition utf8_encode :: "ustring \<Rightarrow> bytes" where
  "utf8_encode u = map char_of (concat (map utf8_bytes u))"

text \<open>Drop bytes from the end until the rest decodes.\<close>

function decodable_prefix :: "bytes \<Rightarrow> ustring" where
  "decodable_prefix raw =
     (if raw = [] then ucs ''miner request failed''
      else case utf8_decode raw of Some u \<Rightarrow> u | None \<Rightarrow> decodable_prefix (butlast raw))"
  by pat_completeness auto
termination by (relation "measure length") auto

declare decodable_prefix.simps [simp del]

definition bounded_error :: "ustring \<Rightarrow> ustring" where
  "bounded_error v = decodable_prefix (take 4096 (utf8_encode v))"

section \<open>One call\<close>

fun read_within :: "int \<Rightarrow> bytes list \<Rightarrow> bytes \<Rightarrow> bytes option" where
  "read_within limit [] body = Some body"
| "read_within limit (c # cs) body =
     (if int (length (body @ c)) > limit then None else read_within limit cs (body @ c))"

definition read_bounded_response :: "string option \<Rightarrow> bytes list \<Rightarrow> int \<Rightarrow> bytes option" where
  "read_bounded_response declared chunks limit =
     (case declared of
        Some (d # ds) \<Rightarrow>
          (case int_text (d # ds) of
             None \<Rightarrow> None
           | Some n \<Rightarrow> if n < 0 \<or> n > limit then None else read_within limit chunks [])
      | _ \<Rightarrow> read_within limit chunks [])"

record miner_reply =
  mp_status :: int
  mp_content_length :: "string option"
  mp_chunks :: "bytes list"
  mp_headers :: headers

datatype exchange = Broken ustring | Replied miner_reply

text \<open>
  The outside of one call: the nonce and clock used for signing, the wall clock before the exchange,
  whether the request started in time and the exchange ended in time, the wall clock when the answer
  is verified, the texts of a signing and of a validation error, and the milliseconds the call took.
\<close>

record call =
  ca_uuid :: string
  ca_signed_ms :: int
  ca_now :: real
  ca_started :: bool
  ca_ended :: bool
  ca_exchange :: exchange
  ca_verified_ms :: int
  ca_signing_error :: ustring
  ca_validation_error :: ustring
  ca_elapsed_ms :: int

record client =
  cl_uid :: int
  cl_hotkey :: string
  cl_key :: key_object
  cl_crypto :: crypto
  cl_sha256 :: "ustring \<Rightarrow> string"
  cl_encode :: "miner_task_request \<Rightarrow> bytes"
  cl_read :: "bytes \<Rightarrow> miner_task_response option"

definition SOLVE_DEADLINE_GRACE_S :: real where "SOLVE_DEADLINE_GRACE_S = 10"
definition COMMIT_RESERVE_S :: real where "COMMIT_RESERVE_S = 30"

definition lease_budget :: "miner_task_request \<Rightarrow> call \<Rightarrow> real" where
  "lease_budget task ca = of_int (mt_expires_at task) - ca_now ca - SOLVE_DEADLINE_GRACE_S - COMMIT_RESERVE_S"

definition request_id_of :: "client \<Rightarrow> miner_task_request \<Rightarrow> string" where
  "request_id_of cl task = derive_miner_request_id (cl_sha256 cl) (mt_challenge_id task) (cl_uid cl) (cl_hotkey cl)"

definition latency_ms_of :: "call \<Rightarrow> int" where
  "latency_ms_of ca = min (2 ^ 53 - 1) (max 0 (ca_elapsed_ms ca))"

text \<open>Building a submission validates it.\<close>

definition call_failed :: "client \<Rightarrow> miner_task_request \<Rightarrow> call \<Rightarrow> ustring \<Rightarrow> (miner_submission \<times> miner_task_response option) result" where
  "call_failed cl task ca message =
     (let err = bounded_error message;
          s = \<lparr>ms_uid = cl_uid cl, ms_hotkey = cl_hotkey cl, ms_request_id = request_id_of cl task, response_body = [],
               response_headers = [], ms_error = (if err = [] then ucs ''miner request failed'' else err), ms_latency_ms = latency_ms_of ca\<rparr> in
      rbind (check_miner_submission s) (\<lambda>_. Inr (s, None)))"

definition kept_headers :: "headers \<Rightarrow> (string, string) dict" where
  "kept_headers h = map (\<lambda>name. (name, case h name of None \<Rightarrow> [] | Some v \<Rightarrow> v)) EPISTULA_HEADERS"

definition authentic :: "client \<Rightarrow> call \<Rightarrow> headers \<Rightarrow> bytes \<Rightarrow> bool" where
  "authentic cl ca h body \<longleftrightarrow>
     map_of (kept_headers h) ''Epistula-Signed-By'' = Some (cl_hotkey cl) \<and>
     verify_signature (cl_crypto cl) (map_of (kept_headers h)) body ALLOWED_DELTA_MS (ca_verified_ms ca)
       (Some (keypair_address (cl_key cl)))"

definition validated_answer :: "client \<Rightarrow> miner_task_request \<Rightarrow> bytes \<Rightarrow> (ustring \<times> miner_task_response) option" where
  "validated_answer cl task body =
     (case utf8_decode body of
        None \<Rightarrow> None
      | Some decoded \<Rightarrow>
          (case cl_read cl body of
             None \<Rightarrow> None
           | Some r \<Rightarrow> if validate_miner_response task r \<noteq> Inr () then None else Some (decoded, r)))"

text \<open>The body of \<open>exchange\<close>, for the reply that arrived.\<close>

definition handle_reply :: "client \<Rightarrow> miner_task_request \<Rightarrow> call \<Rightarrow> miner_reply \<Rightarrow> (miner_submission \<times> miner_task_response option) result" where
  "handle_reply cl task ca r =
     (if mp_status r < 200 \<or> mp_status r \<ge> 300
      then call_failed cl task ca (ucs (''HTTP '' @ dec (mp_status r) @ '': '') @
             (case read_bounded_response (mp_content_length r) (mp_chunks r) 512 of None \<Rightarrow> [] | Some b \<Rightarrow> utf8_replace b))
      else case read_bounded_response (mp_content_length r) (mp_chunks r) 16384 of
        None \<Rightarrow> call_failed cl task ca (ucs ''miner response exceeds byte limit'')
      | Some body \<Rightarrow>
          if \<not> authentic cl ca (mp_headers r) body
          then call_failed cl task ca (ucs ''invalid or unauthenticated miner response'')
          else case validated_answer cl task body of
            None \<Rightarrow> call_failed cl task ca (ucs ''invalid V3 miner response'')
          | Some (decoded, parsed) \<Rightarrow>
              let s = \<lparr>ms_uid = cl_uid cl, ms_hotkey = cl_hotkey cl, ms_request_id = request_id_of cl task, response_body = decoded,
                       response_headers = kept_headers (mp_headers r), ms_error = [], ms_latency_ms = latency_ms_of ca\<rparr> in
              rbind (check_miner_submission s) (\<lambda>_. Inr (s, Some parsed)))"

definition run_exchange :: "client \<Rightarrow> miner_task_request \<Rightarrow> call \<Rightarrow> (miner_submission \<times> miner_task_response option) result" where
  "run_exchange cl task ca =
     (case ca_exchange ca of
        Broken err \<Rightarrow> call_failed cl task ca (ucs ''dispatch failed: '' @ err)
      | Replied r \<Rightarrow>
          (case handle_reply cl task ca r of
             Inl _ \<Rightarrow> call_failed cl task ca (ucs ''dispatch failed: '' @ ca_validation_error ca)
           | Inr x \<Rightarrow> Inr x))"

definition solve_v3 :: "client \<Rightarrow> miner_task_request \<Rightarrow> call \<Rightarrow> (miner_submission \<times> miner_task_response option) result" where
  "solve_v3 cl task ca =
     (let slot = sub_slot (mt_slots task) in
      if slot_uid slot \<noteq> cl_uid cl \<or> slot_hotkey slot \<noteq> cl_hotkey cl
        then Inl (ValueError ''V3 task slots do not match the target miner'')
      else case sign_message (cl_crypto cl) (cl_key cl) (cl_encode cl task) (Some (cl_hotkey cl)) (ca_signed_ms ca) (ca_uuid ca) of
        None \<Rightarrow> call_failed cl task ca (ucs ''dispatch signing failed: '' @ ca_signing_error ca)
      | Some _ \<Rightarrow>
          if lease_budget task ca \<le> 0 then call_failed cl task ca (ucs ''lease too short to dispatch'')
          else if \<not> ca_started ca
            then call_failed cl task ca (ucs ''request body did not reach transport before signature deadline'')
          else if \<not> ca_ended ca then call_failed cl task ca (ucs ''miner response exceeded the solve deadline'')
          else run_exchange cl task ca)"

section \<open>Bounds of the error text\<close>

abbreviation char_len :: "nat \<Rightarrow> nat" where
  "char_len c \<equiv> (if c < 0x80 then 1 else if c < 0x800 then 2 else if c < 0x10000 then 3 else 4)"

lemma continuation_props: "length (continuation k low high bs) \<le> k \<and> length (continuation k low high bs) \<le> length bs \<and>
    (high \<le> 0xBF \<longrightarrow> (\<forall>c \<in> set (continuation k low high bs). c \<le> 0xBF))"
  by (induction k low high bs rule: continuation.induct) auto

lemma foldl_continuation:
  fixes a m :: nat
  assumes "\<forall>c \<in> set cs. c \<le> 0xBF" "a < m"
  shows "foldl (\<lambda>a c. a * 64 + (c - 0x80)) a cs < m * 64 ^ length cs"
  using assms
proof (induction cs arbitrary: a m)
  case (Cons c cs)
  have c: "c \<le> 0xBF" using Cons.prems(1) by simp
  have "a * 64 + 64 \<le> m * 64" using Cons.prems(2) by simp
  then have "a * 64 + (c - 0x80) < m * 64" using c by linarith
  then show ?case using Cons.IH [of "a * 64 + (c - 0x80)" "m * 64"] Cons.prems(1) by (simp add: mult.assoc)
qed simp

lemma utf8_lead_props: "utf8_lead b = Some (k, low, high) \<Longrightarrow> (k = 1 \<or> k = 2 \<or> k = 3) \<and> high \<le> 0xBF"
  by (auto simp: utf8_lead_def split: if_splits)

lemma utf8_step_len:
  assumes "utf8_step b bs = (Some c, n)"
  shows "char_len c \<le> Suc n \<and> n \<le> length bs"
proof (cases "b < 0x80")
  case True
  then show ?thesis using assms by (auto simp: utf8_step_def)
next
  case False
  then obtain k low high where l: "utf8_lead b = Some (k, low, high)" "length (continuation k low high bs) = k" "n = k"
    "c = foldl (\<lambda>a c. a * 64 + (c - 0x80)) (b mod 2 ^ (6 - k)) (continuation k low high bs)"
    using assms by (auto simp: utf8_step_def Let_def split: option.splits if_splits)
  have p: "k = 1 \<or> k = 2 \<or> k = 3" "high \<le> 0xBF" using utf8_lead_props [OF l(1)] by auto
  have "c < 2 ^ (6 - k) * 64 ^ k"
    unfolding l(4) using foldl_continuation [of "continuation k low high bs" "b mod 2 ^ (6 - k)" "2 ^ (6 - k)"] continuation_props [of k low high bs] p(2) l(2)
    by simp
  then show ?thesis using p(1) continuation_props [of k low high bs] l(2,3) by auto
qed

lemma utf8_scan_len: "None \<notin> set (utf8_scan bs) \<Longrightarrow> utf8_len (map the (utf8_scan bs)) \<le> length bs"
proof (induction bs rule: utf8_scan.induct)
  case (2 b bs)
  obtain r n where s: "utf8_step b bs = (r, n)" by fastforce
  then obtain c where c: "r = Some c" using "2.prems" by (cases r) auto
  have "utf8_len (map the (utf8_scan (drop n bs))) \<le> length bs - n" using "2.IH" [OF s [symmetric]] "2.prems" s by simp
  moreover have "char_len c \<le> Suc n" "n \<le> length bs" using utf8_step_len s c by auto
  ultimately show ?case using s c by (simp add: utf8_len_def)
qed (simp add: utf8_len_def)

lemma utf8_decode_len: "utf8_decode bs = Some u \<Longrightarrow> utf8_len u \<le> length bs"
  using utf8_scan_len [of "ucs bs"] by (auto simp: utf8_decode_def Let_def ucs_def split: if_splits)

lemma continuation_two:
  assumes "length (continuation 2 low high bs) = 2"
  obtains c d where "continuation 2 low high bs = [c, d]" "low \<le> c" "c \<le> high" "0x80 \<le> d" "d \<le> 0xBF"
proof (cases bs)
  case (Cons c cs)
  then show ?thesis using assms that by (cases cs) (auto simp: numeral_2_eq_2 split: if_splits)
qed (use assms in \<open>simp add: numeral_2_eq_2\<close>)

lemma foldl_continuation_least:
  fixes a :: nat
  shows "a * 64 ^ length cs \<le> foldl (\<lambda>a c. a * 64 + (c - 0x80)) a cs"
proof (induction cs arbitrary: a)
  case (Cons c cs)
  have "a * 64 ^ length (c # cs) \<le> (a * 64 + (c - 0x80)) * 64 ^ length cs" by (simp add: algebra_simps)
  also have "\<dots> \<le> foldl (\<lambda>a c. a * 64 + (c - 0x80)) (a * 64 + (c - 0x80)) cs" by (rule Cons.IH)
  finally show ?case by simp
qed simp

text \<open>Only the first continuation byte after a lead byte \<open>0xF0\<close> keeps a code point above \<open>0xFFFF\<close>.\<close>

lemma utf8_step_scalar:
  assumes "utf8_step b bs = (Some c, n)"
  shows "\<not> is_surrogate c"
proof (cases "b < 0x80")
  case True
  then show ?thesis using assms by (auto simp: utf8_step_def is_surrogate_def)
next
  case False
  then obtain k low high where l: "utf8_lead b = Some (k, low, high)" "length (continuation k low high bs) = k"
    "c = foldl (\<lambda>a c. a * 64 + (c - 0x80)) (b mod 2 ^ (6 - k)) (continuation k low high bs)"
    using assms by (auto simp: utf8_step_def Let_def split: option.splits if_splits)
  consider "k = 1" | "k = 2" | "k = 3" using utf8_lead_props [OF l(1)] by auto
  then show ?thesis
  proof cases
    case 1
    have "c < 2 ^ 5 * 64 ^ 1"
      unfolding l(3) using foldl_continuation [of "continuation k low high bs" "b mod 2 ^ (6 - k)" "2 ^ 5"] continuation_props [of k low high bs]
        utf8_lead_props [OF l(1)] l(2) 1 by simp
    then show ?thesis by (simp add: is_surrogate_def)
  next
    case 2
    then obtain x y where xy: "continuation 2 low high bs = [x, y]" "low \<le> x" "x \<le> high" "0x80 \<le> y" "y \<le> 0xBF"
      using l(2) continuation_two by blast
    have c: "c = (b mod 16 * 64 + (x - 0x80)) * 64 + (y - 0x80)" using l(3) xy(1) 2 by simp
    have "b = 0xED \<and> x \<le> 0x9F \<or> b \<noteq> 0xED \<and> 0xE0 \<le> b \<and> b \<le> 0xEF \<and> x \<le> 0xBF"
      using l(1) 2 xy(3) by (auto simp: utf8_lead_def split: if_splits)
    moreover have "b mod 16 = b - 0xE0" if "0xE0 \<le> b" "b \<le> 0xEF" using that by presburger
    ultimately show ?thesis using c xy(4,5) by (auto simp: is_surrogate_def)
  next
    case 3
    obtain x cs where xs: "continuation k low high bs = x # cs" "low \<le> x" "length cs = 2"
      using l(2) 3 by (cases bs) (auto simp: numeral_3_eq_3 split: if_splits)
    have "b = 0xF0 \<and> 0x90 \<le> x \<or> 0xF1 \<le> b \<and> b \<le> 0xF4" using l(1) 3 xs(2) by (auto simp: utf8_lead_def split: if_splits)
    moreover have "1 \<le> b mod 8" if "0xF1 \<le> b" "b \<le> 0xF4" using that by presburger
    ultimately have "16 \<le> b mod 8 * 64 + (x - 0x80)" by fastforce
    then have "16 * 64 ^ 2 \<le> (b mod 8 * 64 + (x - 0x80)) * 64 ^ 2" by simp
    moreover have "(b mod 8 * 64 + (x - 0x80)) * 64 ^ 2 \<le> c"
      using foldl_continuation_least [where a = "b mod 8 * 64 + (x - 0x80)" and cs = cs] l(3) xs 3 by simp
    ultimately show ?thesis by (simp add: is_surrogate_def)
  qed
qed

lemma utf8_scan_scalar: "Some c \<in> set (utf8_scan bs) \<Longrightarrow> \<not> is_surrogate c"
  by (induction bs rule: utf8_scan.induct) (auto split: prod.splits dest: utf8_step_scalar [OF sym])

lemma utf8_decode_scalar:
  assumes "utf8_decode bs = Some u"
  shows "\<not> list_ex is_surrogate u"
proof -
  have u: "u = map the (utf8_scan (ucs bs))" "None \<notin> set (utf8_scan (ucs bs))"
    using assms by (auto simp: utf8_decode_def Let_def split: if_splits)
  have "\<not> is_surrogate (the r)" if "r \<in> set (utf8_scan (ucs bs))" for r
  proof -
    have "r \<noteq> None" using that u(2) by metis
    then have "Some (the r) \<in> set (utf8_scan (ucs bs))" using that by simp
    then show ?thesis by (rule utf8_scan_scalar)
  qed
  then show ?thesis using u(1) by (auto simp: list_ex_iff)
qed

lemma utf8_decode_nonempty: "utf8_decode bs = Some u \<Longrightarrow> bs \<noteq> [] \<Longrightarrow> u \<noteq> []"
  by (cases bs) (auto simp: utf8_decode_def ucs_def Let_def split: prod.splits if_splits)

lemma decodable_prefix_bounds: "decodable_prefix raw \<noteq> [] \<and> utf8_sized (decodable_prefix raw) (max 20 (length raw))"
proof (induction raw rule: decodable_prefix.induct)
  case (1 raw)
  show ?case
  proof (cases "raw = []")
    case True
    then have "decodable_prefix raw = ucs ''miner request failed''" by (simp add: decodable_prefix.simps)
    then show ?thesis by (simp add: utf8_sized_def) (simp add: ucs_def utf8_len_def)
  next
    case False
    show ?thesis
    proof (cases "utf8_decode raw")
      case None
      then show ?thesis using 1 [OF False None] False by (subst (1 2) decodable_prefix.simps) (auto simp: utf8_sized_def)
    next
      case (Some u)
      then show ?thesis using utf8_decode_len [OF Some] utf8_decode_nonempty [OF Some False] utf8_decode_scalar [OF Some] False
        by (simp add: decodable_prefix.simps utf8_sized_def)
    qed
  qed
qed

lemma bounded_error_bounds: "bounded_error v \<noteq> []" "utf8_sized (bounded_error v) 4096"
  using decodable_prefix_bounds [of "take 4096 (utf8_encode v)"] by (auto simp: bounded_error_def utf8_sized_def)

section \<open>What a call returns\<close>

lemma call_failed_ok:
  assumes "wire_uid (cl_uid cl)" "bounded_identifier (cl_hotkey cl)" "bounded_identifier (request_id_of cl task)"
  shows "\<exists>s. call_failed cl task ca message = Inr (s, None)"
  using assms bounded_error_bounds(1) [of message] bounded_error_bounds(2) [of message]
  by (simp add: not_less call_failed_def check_miner_submission_def latency_ms_of_def SAFE_INTEGER_MAX_def utf8_sized_def [of "[]"] utf8_len_def [of "[]"] Let_def)

lemma call_failed_Inr:
  assumes "call_failed cl task ca message = Inr (s, resp)"
  shows "resp = None \<and> check_miner_submission s = Inr () \<and> ms_uid s = cl_uid cl \<and> ms_hotkey s = cl_hotkey cl \<and>
    ms_request_id s = request_id_of cl task \<and> response_body s = [] \<and> ms_error s \<noteq> []"
  using assms bounded_error_bounds by (auto simp: call_failed_def Let_def rbind_Inr)

lemma read_within_Some: "read_within limit cs body = Some b \<Longrightarrow> int (length body) \<le> limit \<Longrightarrow> b = body @ concat cs \<and> int (length b) \<le> limit"
  by (induction limit cs body rule: read_within.induct) (auto split: if_splits)

lemma read_bounded_response_Some:
  assumes "read_bounded_response declared cs limit = Some b" "0 \<le> limit"
  shows "b = concat cs \<and> int (length b) \<le> limit"
  using assms by (auto simp: read_bounded_response_def dest!: read_within_Some split: option.splits list.splits if_splits)

text \<open>The two ways a call ends, as far as the submission tells: a failure of this miner, or the answer
  it signed.\<close>

definition failure_of :: "client \<Rightarrow> miner_task_request \<Rightarrow> miner_submission \<Rightarrow> bool" where
  "failure_of cl task s \<longleftrightarrow> check_miner_submission s = Inr () \<and> ms_uid s = cl_uid cl \<and> ms_hotkey s = cl_hotkey cl \<and>
     ms_request_id s = request_id_of cl task \<and> response_body s = [] \<and> ms_error s \<noteq> []"

definition answer_of :: "client \<Rightarrow> miner_task_request \<Rightarrow> call \<Rightarrow> miner_submission \<Rightarrow> miner_task_response \<Rightarrow> bool" where
  "answer_of cl task ca s m \<longleftrightarrow> check_miner_submission s = Inr () \<and> ms_uid s = cl_uid cl \<and> ms_hotkey s = cl_hotkey cl \<and>
     ms_request_id s = request_id_of cl task \<and> ms_error s = [] \<and>
     (\<exists>r body. ca_exchange ca = Replied r \<and> 200 \<le> mp_status r \<and> mp_status r < 300 \<and> body = concat (mp_chunks r) \<and> length body \<le> 16384 \<and>
        authentic cl ca (mp_headers r) body \<and> response_headers s = kept_headers (mp_headers r) \<and>
        utf8_decode body = Some (response_body s) \<and> cl_read cl body = Some m \<and> validate_miner_response task m = Inr ())"

lemma call_failed_failure: "call_failed cl task ca message = Inr (s, resp) \<Longrightarrow> resp = None \<and> failure_of cl task s"
  unfolding failure_of_def using call_failed_Inr by blast

lemma validated_answer_Some:
  "validated_answer cl task body = Some (decoded, m) \<longleftrightarrow>
     utf8_decode body = Some decoded \<and> cl_read cl body = Some m \<and> validate_miner_response task m = Inr ()"
  by (auto simp: validated_answer_def split: option.splits)

lemma handle_reply_Inr:
  assumes h: "handle_reply cl task ca r = Inr (s, resp)" and x: "ca_exchange ca = Replied r"
  shows "resp = None \<and> failure_of cl task s \<or> (\<exists>m. resp = Some m \<and> answer_of cl task ca s m)"
proof (cases "\<exists>message. call_failed cl task ca message = Inr (s, resp)")
  case True
  then show ?thesis using call_failed_failure by blast
next
  case False
  then have "200 \<le> mp_status r \<and> mp_status r < 300" using h by (auto simp: handle_reply_def split: if_splits)
  moreover obtain body where body: "read_bounded_response (mp_content_length r) (mp_chunks r) 16384 = Some body" "authentic cl ca (mp_headers r) body"
    using h False by (auto simp: handle_reply_def split: if_splits option.splits)
  moreover obtain decoded m where m: "validated_answer cl task body = Some (decoded, m)"
    using h False body by (auto simp: handle_reply_def split: if_splits option.splits)
  ultimately have "resp = Some m \<and> check_miner_submission s = Inr () \<and> s = \<lparr>ms_uid = cl_uid cl, ms_hotkey = cl_hotkey cl,
      ms_request_id = request_id_of cl task, response_body = decoded, response_headers = kept_headers (mp_headers r), ms_error = [],
      ms_latency_ms = latency_ms_of ca\<rparr>"
    using h by (auto simp: handle_reply_def Let_def rbind_Inr)
  moreover have "body = concat (mp_chunks r) \<and> length body \<le> 16384" using read_bounded_response_Some [OF body(1)] by (auto simp del: length_concat)
  ultimately show ?thesis
    using x body(2) m \<open>200 \<le> mp_status r \<and> mp_status r < 300\<close> by (auto simp: answer_of_def validated_answer_Some)
qed

lemma run_exchange_Inr:
  assumes "run_exchange cl task ca = Inr (s, resp)"
  shows "resp = None \<and> failure_of cl task s \<or> (\<exists>m. resp = Some m \<and> answer_of cl task ca s m)"
proof (cases "ca_exchange ca")
  case (Replied r)
  then show ?thesis
    using assms handle_reply_Inr [of cl task ca r] call_failed_failure by (cases "handle_reply cl task ca r") (auto simp: run_exchange_def)
qed (use assms call_failed_failure in \<open>auto simp: run_exchange_def\<close>)

lemma solve_v3_Inr:
  assumes "solve_v3 cl task ca = Inr (s, resp)"
  shows "resp = None \<and> failure_of cl task s \<or> (\<exists>m. resp = Some m \<and> answer_of cl task ca s m \<and> ca_ended ca \<and> 0 < lease_budget task ca)"
proof (cases "\<exists>message. call_failed cl task ca message = Inr (s, resp)")
  case True
  then show ?thesis using call_failed_failure by blast
next
  case False
  then have "run_exchange cl task ca = Inr (s, resp)" "ca_ended ca" "0 < lease_budget task ca"
    using assms by (auto simp: solve_v3_def Let_def split: if_splits option.splits)
  then show ?thesis using run_exchange_Inr by blast
qed

lemma run_exchange_total:
  assumes "wire_uid (cl_uid cl)" "bounded_identifier (cl_hotkey cl)" "bounded_identifier (request_id_of cl task)"
  shows "\<exists>x. run_exchange cl task ca = Inr x"
  using call_failed_ok [OF assms] by (fastforce simp: run_exchange_def split: exchange.split sum.split)

text \<open>C12. Every call of a miner returns, whatever the network and the miner do, a submission that passes its
  own validation and carries the identity of that miner and the request id derived for it.  It is
  either a failure with a bounded, non-empty error text, or an answer: then the whole reply was
  read within 16384 bytes, before the deadline, the miner's hotkey signed these very bytes for this
  validator at most eight seconds away, the text is their decoding, and the parsed response
  fits the task.\<close>

theorem live_call_sound:
  assumes "slot_uid (sub_slot (mt_slots task)) = cl_uid cl" "slot_hotkey (sub_slot (mt_slots task)) = cl_hotkey cl"
    and fields: "wire_uid (cl_uid cl)" "bounded_identifier (cl_hotkey cl)" "bounded_identifier (request_id_of cl task)"
  shows "\<exists>s resp. solve_v3 cl task ca = Inr (s, resp) \<and>
    (case resp of None \<Rightarrow> failure_of cl task s
     | Some m \<Rightarrow> answer_of cl task ca s m \<and> ca_ended ca \<and> 0 < lease_budget task ca)"
proof -
  have "\<not> isl (call_failed cl task ca message)" for message using call_failed_ok [OF fields, of ca message] by auto
  moreover have "\<not> isl (run_exchange cl task ca)" using run_exchange_total [OF fields, of ca] by auto
  ultimately have "\<not> isl (solve_v3 cl task ca)" using assms(1,2) by (simp add: solve_v3_def Let_def split: option.split)
  then obtain x where "solve_v3 cl task ca = Inr x" by (cases "solve_v3 cl task ca") auto
  then obtain s resp where r: "solve_v3 cl task ca = Inr (s, resp)" by (cases x) auto
  then show ?thesis using solve_v3_Inr [OF r] by auto
qed

lemma kept_headers_of: "kept_headers (headers_of e) =
    [(''Epistula-Version'', ep_version e), (''Epistula-Timestamp'', ep_timestamp e), (''Epistula-Uuid'', ep_uuid e),
     (''Epistula-Signed-By'', ep_signed_by e), (''Epistula-Signed-For'', ep_signed_for e), (''Epistula-Request-Signature'', ep_signature e)]"
  by (simp add: kept_headers_def headers_of_def EPISTULA_HEADERS_def)

lemma read_within_fits: "int (length (body @ concat cs)) \<le> limit \<Longrightarrow> read_within limit cs body = Some (body @ concat cs)"
  by (induction limit cs body rule: read_within.induct) auto

lemma read_bounded_response_fits:
  "int (length (concat cs)) \<le> limit \<Longrightarrow> declared = None \<or> (\<exists>d. declared = Some d \<and> int_text d = Some (int (length (concat cs)))) \<Longrightarrow>
   read_bounded_response declared cs limit = Some (concat cs)"
  using read_within_fits [of "[]" cs limit] by (auto simp: read_bounded_response_def split: list.split option.split)

section \<open>An honest miner is heard\<close>

text \<open>A call in which the miner answers in time with the bytes \<open>body\<close> and the headers \<open>e\<close>.\<close>

definition answered_with :: "client \<Rightarrow> miner_task_request \<Rightarrow> call \<Rightarrow> epistula \<Rightarrow> bytes \<Rightarrow> bool" where
  "answered_with cl task ca e body \<longleftrightarrow>
     (\<exists>r. ca_exchange ca = Replied r \<and> 200 \<le> mp_status r \<and> mp_status r < 300 \<and> concat (mp_chunks r) = body \<and> mp_headers r = headers_of e \<and>
        (mp_content_length r = None \<or> (\<exists>d. mp_content_length r = Some d \<and> int_text d = Some (int (length body))))) \<and>
     ca_started ca \<and> ca_ended ca \<and> 0 < lease_budget task ca \<and>
     sign_message (cl_crypto cl) (cl_key cl) (cl_encode cl task) (Some (cl_hotkey cl)) (ca_signed_ms ca) (ca_uuid ca) \<noteq> None"

lemma honest_submission_ok:
  assumes fields: "wire_uid (cl_uid cl)" "bounded_identifier (cl_hotkey cl)" "bounded_identifier (request_id_of cl task)"
    and body: "utf8_decode body = Some u" "body \<noteq> []" "length body \<le> 16384"
    and small: "list_all (\<lambda>(_, v). utf8_size v \<le> 512) (kept_headers (headers_of e))"
  shows "check_miner_submission \<lparr>ms_uid = cl_uid cl, ms_hotkey = cl_hotkey cl, ms_request_id = request_id_of cl task, response_body = u,
     response_headers = kept_headers (headers_of e), ms_error = [], ms_latency_ms = latency_ms_of ca\<rparr> = Inr ()"
proof -
  have "u \<noteq> []" "utf8_sized u 16384"
    using utf8_decode_nonempty [OF body(1,2)] utf8_decode_len [OF body(1)] utf8_decode_scalar [OF body(1)] body(3) by (simp_all add: utf8_sized_def)
  moreover have "\<not> list_ex (\<lambda>(_, v). utf8_size v > 512) (kept_headers (headers_of e))"
    using small by (auto simp: list_all_iff list_ex_iff)
  moreover have "set (keys (kept_headers (headers_of e))) = set EPISTULA_HEADERS" by (simp add: kept_headers_def comp_def)
  moreover have "utf8_sized [] 4096" "0 \<le> latency_ms_of ca" "latency_ms_of ca \<le> SAFE_INTEGER_MAX"
    by (simp_all add: utf8_sized_def utf8_len_def latency_ms_of_def SAFE_INTEGER_MAX_def)
  ultimately show ?thesis using fields by (simp only: check_miner_submission_def miner_submission.simps) simp
qed

lemma honest_kept:
  assumes slot: "slot_uid (sub_slot (mt_slots task)) = cl_uid cl" "slot_hotkey (sub_slot (mt_slots task)) = cl_hotkey cl"
    and fields: "wire_uid (cl_uid cl)" "bounded_identifier (cl_hotkey cl)" "bounded_identifier (request_id_of cl task)"
    and scheme: "\<forall>a m s. cr_sign (cl_crypto cl) a m = Some s \<longrightarrow> cr_verify (cl_crypto cl) a m s = Some True"
    and stack: "cr_have (cl_crypto cl)" "looks_like_ss58 (cl_hotkey cl)"
    and signed: "sign_message (cl_crypto cl) (Keypair (cl_hotkey cl) x) body (Some (keypair_address (cl_key cl))) t uuid = Some e" "uuid \<noteq> []"
    and time: "0 \<le> t" "t < 10 ^ 15" "\<bar>ca_verified_ms ca - t\<bar> \<le> ALLOWED_DELTA_MS"
    and wire: "answered_with cl task ca e body" "body \<noteq> []" "length body \<le> 16384"
      "list_all (\<lambda>(_, v). utf8_size v \<le> 512) (kept_headers (headers_of e))"
    and resp: "utf8_decode body = Some u" "cl_read cl body = Some m" "validate_miner_response task m = Inr ()"
  shows "\<exists>s. solve_v3 cl task ca = Inr (s, Some m) \<and> response_body s = u \<and> response_headers s = kept_headers (headers_of e) \<and> ms_error s = []"
proof -
  let ?s = "\<lparr>ms_uid = cl_uid cl, ms_hotkey = cl_hotkey cl, ms_request_id = request_id_of cl task, response_body = u,
     response_headers = kept_headers (headers_of e), ms_error = [], ms_latency_ms = latency_ms_of ca\<rparr>"
  obtain r where r: "ca_exchange ca = Replied r" "200 \<le> mp_status r" "mp_status r < 300" "concat (mp_chunks r) = body" "mp_headers r = headers_of e"
    "read_bounded_response (mp_content_length r) (mp_chunks r) 16384 = Some body"
    using wire(1,3) read_bounded_response_fits [where limit = 16384] by (fastforce simp: answered_with_def simp del: length_concat)
  have "cl_hotkey cl \<noteq> []" using stack(2) by (auto simp: looks_like_ss58_def)
  then have signer: "ep_signed_by e = cl_hotkey cl" using signed(1) by (auto simp: sign_message_def Let_def)
  have "verify_signature (cl_crypto cl) (headers_of e) body ALLOWED_DELTA_MS (ca_verified_ms ca) (Some (keypair_address (cl_key cl)))"
    by (rule signed_accepted [OF scheme _ signed time]) (use stack in simp_all)
  moreover have "map_of (kept_headers (headers_of e)) = headers_of e" unfolding kept_headers_of by (simp add: headers_of_def)
  ultimately have "authentic cl ca (mp_headers r) body" using r(5) signer by (simp add: authentic_def headers_of_def)
  moreover have "validated_answer cl task body = Some (u, m)" using resp by (simp add: validated_answer_Some)
  moreover note ok = honest_submission_ok [OF fields resp(1) wire(2,3,4), of ca]
  ultimately have "handle_reply cl task ca r = Inr (?s, Some m)" using r by (simp add: handle_reply_def Let_def)
  then have "solve_v3 cl task ca = Inr (?s, Some m)"
    using slot wire(1) r(1) by (auto simp: solve_v3_def answered_with_def run_exchange_def Let_def)
  then show ?thesis by simp
qed

text \<open>The counterpart for a miner that does its part: when the miner signs its answer with the key of its
  registration for the address that called it, within eight seconds of the check, and the answer is
  a response that fits the task, then the answer is in the submission and returned, and its text is
  the decoding of the bytes the miner signed.\<close>

theorem honest_answer_kept:
  assumes slot: "slot_uid (sub_slot (mt_slots task)) = cl_uid cl" "slot_hotkey (sub_slot (mt_slots task)) = cl_hotkey cl"
    and fields: "wire_uid (cl_uid cl)" "bounded_identifier (cl_hotkey cl)" "bounded_identifier (request_id_of cl task)"
    and scheme: "\<forall>a m s. cr_sign (cl_crypto cl) a m = Some s \<longrightarrow> cr_verify (cl_crypto cl) a m s = Some True"
    and stack: "cr_have (cl_crypto cl)" "looks_like_ss58 (cl_hotkey cl)"
    and signed: "sign_message (cl_crypto cl) (Keypair (cl_hotkey cl) x) body (Some (keypair_address (cl_key cl))) t uuid = Some e" "uuid \<noteq> []"
    and time: "0 \<le> t" "t < 10 ^ 15" "\<bar>ca_verified_ms ca - t\<bar> \<le> ALLOWED_DELTA_MS"
    and wire: "answered_with cl task ca e body" "body \<noteq> []" "length body \<le> 16384"
      "list_all (\<lambda>(_, v). utf8_size v \<le> 512) (kept_headers (headers_of e))"
    and resp: "utf8_decode body = Some u" "cl_read cl body = Some m" "validate_miner_response task m = Inr ()"
  shows "\<exists>s. solve_v3 cl task ca = Inr (s, Some m) \<and> response_body s = u \<and> response_headers s = kept_headers (headers_of e) \<and> ms_error s = []"
  by (rule honest_kept [OF assms])

section \<open>What a round relies on\<close>

text \<open>The contract between a round and the clients of its miners.\<close>

locale solver =
  fixes solve :: "int \<times> string \<Rightarrow> miner_task_request \<Rightarrow> (miner_submission \<times> miner_task_response option) option"
  assumes identity: "solve reg t = Some (s, resp) \<Longrightarrow> (ms_uid s, ms_hotkey s) = reg"
    and checked: "solve reg t = Some (s, resp) \<Longrightarrow> check_miner_submission s = Inr ()"
begin

lemma dispatch_total:
  assumes env: "en_solve env = solve" and lease: "check_lease_response (en_sha_text env) lease = Inr ()" and slot: "s \<in> set (slot_pool lease)"
    and ids: "\<And>u. bounded_identifier (en_sha_text env u)"
  shows "\<exists>d. dispatch env lease s = Inr d \<and> check_miner_submission (fst d) = Inr ()"
proof -
  have l: "check_slot_set s = Inr ()" "compute_task_id (en_sha_text env) (lease_identity lease) = Inr (lease_task_id lease)"
    "check_slot_pool lease (slot_pool lease) [] [] [] = Inr ()"
    using lease slot by (auto simp: check_lease_response_def list_all_iff split: if_splits)
  have "slot_challenge_id (sub_slot s) = lease_challenge_id lease \<and> slot_task_id (sub_slot s) = lease_task_id lease \<and>
      slot_role (sub_slot s) = expected_submission_role (lease_identity lease)"
    using l(3) slot unfolding check_slot_pool_Inr by blast
  then have task: "check_miner_task_request (en_sha_text env) (task_for lease s) = Inr ()"
    using lease l(1) by (auto simp: check_miner_task_request_def task_for_def check_lease_response_def split: if_splits)
  have reg: "wire_uid (slot_uid (sub_slot s))" "bounded_identifier (slot_hotkey (sub_slot s))"
    using l(1) by (auto simp: check_slot_set_def check_upload_slot_def rbind_Inr split: if_splits)
  have failed: "check_miner_submission (failed_submission (en_sha_text env) (lease_challenge_id lease) (slot_uid (sub_slot s)) (slot_hotkey (sub_slot s)) err) = Inr ()"
    if "err \<in> {''miner is not serving'', ''miner dispatch failed''}" for err
    using reg ids that
    by (auto simp: failed_submission_def check_miner_submission_def derive_miner_request_id_def utf8_sized_def utf8_len_def ucs_def is_surrogate_def SAFE_INTEGER_MAX_def)
  have fail: "\<exists>d. not_answered env lease (slot_uid (sub_slot s), slot_hotkey (sub_slot s)) err code = Inr d \<and> check_miner_submission (fst d) = Inr ()"
    if "err \<in> {''miner is not serving'', ''miner dispatch failed''}" for err code
    using failed [OF that] by (simp add: not_answered_def)
  show ?thesis
    using fail task checked by (auto simp: dispatch_def env Let_def split: option.split)
qed

lemma pool_dispatched:
  assumes env: "en_solve env = solve" and lease: "check_lease_response (en_sha_text env) lease = Inr ()"
    and ids: "\<And>u. bounded_identifier (en_sha_text env u)"
  shows "\<exists>ds. rmap (dispatch env lease) (slot_pool lease) = Inr ds \<and> submitted (commit_for lease ds) = pool_registrations_of lease \<and>
    check_commit_request (commit_for lease ds) = Inr ()"
proof -
  have "\<exists>ds. rmap (dispatch env lease) pool = Inr ds \<and> list_all (\<lambda>d. check_miner_submission (fst d) = Inr ()) ds"
    if "set pool \<subseteq> set (slot_pool lease)" for pool
    using that
  proof (induction pool)
    case (Cons s pool)
    then obtain d ds where "dispatch env lease s = Inr d" "check_miner_submission (fst d) = Inr ()"
      "rmap (dispatch env lease) pool = Inr ds" "list_all (\<lambda>d. check_miner_submission (fst d) = Inr ()) ds"
      using dispatch_total [OF env lease _ ids, of s] by auto
    then show ?case by simp
  qed simp
  then obtain ds where ds: "rmap (dispatch env lease) (slot_pool lease) = Inr ds" "list_all (\<lambda>d. check_miner_submission (fst d) = Inr ()) ds" by blast
  have sub: "submitted (commit_for lease ds) = pool_registrations_of lease"
    using rmap_dispatch_bound [OF ds(1)] identity env
    by (simp add: submitted_def commit_for_def pool_registrations_of_def comp_def case_prod_unfold)
  have l: "bounded_identifier (lease_challenge_id lease)" "length (slot_pool lease) \<le> 1024" "check_slot_pool lease (slot_pool lease) [] [] [] = Inr ()"
    using lease by (auto simp: check_lease_response_def split: if_splits)
  have "map ms_uid (map fst ds) = map fst (submitted (commit_for lease ds))" "map ms_hotkey (map fst ds) = map snd (submitted (commit_for lease ds))"
    by (simp_all add: submitted_def commit_for_def comp_def case_prod_unfold)
  then have "distinct (map ms_uid (map fst ds))" "distinct (map ms_hotkey (map fst ds))"
    using l(3) unfolding check_slot_pool_Inr sub by (simp_all add: pool_registrations_of_def comp_def)
  moreover have "length ds \<le> 1024" using rmap_Inr_length [OF ds(1)] l(2) by simp
  ultimately have "check_commit_request (commit_for lease ds) = Inr ()"
    using ds(2) l(1) by (simp add: check_commit_request_def commit_for_def list_all_iff)
  then show ?thesis using ds(1) sub by blast
qed

lemma round_judges:
  assumes "en_solve env = solve" "evaluate_round env p offered = (r, fb)" "rr_status r = Completed"
    and "\<forall>c rv. en_commit env c = Some rv \<longrightarrow> check_commit_reveal rv = Inr ()"
  shows "mset (map registration (rr_evaluations r)) = mset (rr_assigned_miners r)"
  using round_judges_everyone [OF assms(2,3) _ assms(4)] identity assms(1) by blast

end

text \<open>The clients of a round: one per registration, on one wallet.\<close>

definition live_client :: "client \<Rightarrow> int \<times> string \<Rightarrow> client" where
  "live_client base reg = base\<lparr>cl_uid := fst reg, cl_hotkey := snd reg\<rparr>"

definition live_solve :: "client \<Rightarrow> (int \<times> string \<Rightarrow> call) \<Rightarrow> int \<times> string \<Rightarrow> miner_task_request \<Rightarrow> (miner_submission \<times> miner_task_response option) option" where
  "live_solve base calls reg t = (case solve_v3 (live_client base reg) t (calls reg) of Inl _ \<Rightarrow> None | Inr x \<Rightarrow> Some x)"

interpretation live: solver "live_solve base calls" for base calls
proof
  fix reg t s resp
  assume "live_solve base calls reg t = Some (s, resp)"
  then have "solve_v3 (live_client base reg) t (calls reg) = Inr (s, resp)" by (auto simp: live_solve_def split: sum.splits)
  from solve_v3_Inr [OF this] show "(ms_uid s, ms_hotkey s) = reg" "check_miner_submission s = Inr ()"
    by (auto simp: failure_of_def answer_of_def live_client_def)
qed

text \<open>C11. Lease, dispatch and commit fit together: for every lease that passed its validation, whatever the
  network and the miners do, asking the miners of the pool through their live clients gives a
  commit request that passes its own validation and names exactly the registrations of the pool, in
  order.  No miner can make the round crash between the lease and the commit.\<close>

theorem live_dispatch_commits:
  assumes "en_solve env = live_solve base calls" "check_lease_response (en_sha_text env) lease = Inr ()"
    and "\<And>u. bounded_identifier (en_sha_text env u)"
  shows "\<exists>ds. rmap (dispatch env lease) (slot_pool lease) = Inr ds \<and> submitted (commit_for lease ds) = pool_registrations_of lease \<and>
    check_commit_request (commit_for lease ds) = Inr ()"
  by (rule live.pool_dispatched [OF assms])

section \<open>Witnesses\<close>

definition live_slots :: miner_slot_set where "live_slots = slots_example 7 address_example ''p7'' ''t7''"

definition live_task :: miner_task_request where "live_task = task_for lease_example live_slots"

definition live_answer :: miner_task_response where
  "live_answer = \<lparr>mr_challenge_id = ''ch'', mr_task_id = digest_a, mr_response_type = task_type identity_example,
     mr_submission = \<lparr>art_role = U_PATCH, art_format = upload_format_of U_PATCH, art_upload_id = ''p7'', art_sha256 = digest_a, art_size_bytes = 12\<rparr>,
     mr_trajectory = \<lparr>art_role = U_TRAJECTORY, art_format = upload_format_of U_TRAJECTORY, art_upload_id = ''t7'', art_sha256 = digest_b, art_size_bytes = 2\<rparr>\<rparr>"

definition live_base :: client where
  "live_base = \<lparr>cl_uid = 7, cl_hotkey = address_example, cl_key = Wallet (Keypair address_example []), cl_crypto = live_crypto,
     cl_sha256 = (\<lambda>_. digest_a), cl_encode = (\<lambda>_. ''task''), cl_read = (\<lambda>_. Some live_answer)\<rparr>"

definition live_epistula :: epistula where
  "live_epistula = the (sign_message live_crypto (Keypair address_example []) ''ok'' (Some address_example) 5000 ''u2'')"

definition live_call :: call where
  "live_call = \<lparr>ca_uuid = ''u1'', ca_signed_ms = 4000, ca_now = 1000, ca_started = True, ca_ended = True,
     ca_exchange = Replied \<lparr>mp_status = 200, mp_content_length = None, mp_chunks = [''o'', ''k''], mp_headers = headers_of live_epistula\<rparr>,
     ca_verified_ms = 6000, ca_signing_error = [], ca_validation_error = [], ca_elapsed_ms = 1500\<rparr>"

lemma live_example_fields:
  "slot_uid (sub_slot (mt_slots live_task)) = cl_uid live_base" "slot_hotkey (sub_slot (mt_slots live_task)) = cl_hotkey live_base"
  "wire_uid (cl_uid live_base)" "bounded_identifier (cl_hotkey live_base)" "bounded_identifier (request_id_of live_base live_task)"
  by (simp_all add: live_task_def live_slots_def task_for_def slots_example_def slot_example_def live_base_def field_defs address_example_def
      request_id_of_def derive_miner_request_id_def digest_a_def)

theorem live_call_sound_witness:
  "\<exists>s resp. solve_v3 live_base live_task live_call = Inr (s, resp) \<and>
    (case resp of None \<Rightarrow> failure_of live_base live_task s
     | Some m \<Rightarrow> answer_of live_base live_task live_call s m \<and> ca_ended live_call \<and> 0 < lease_budget live_task live_call)"
  by (rule live_call_sound [OF live_example_fields])

lemma utf8_size_le: "utf8_size v \<le> 2 * length v"
  unfolding utf8_size_def by (induction v) auto

lemma length_to_hex: "length (to_hex s) = 2 * length s"
  unfolding to_hex_def by (induction s) (simp_all add: hex_of_byte_def)

lemma live_epistula_fields:
  "sign_message live_crypto (Keypair address_example []) ''ok'' (Some address_example) 5000 ''u2'' = Some live_epistula"
  "list_all (\<lambda>(_, v). utf8_size v \<le> 512) (kept_headers (headers_of live_epistula))"
proof -
  show s: "sign_message live_crypto (Keypair address_example []) ''ok'' (Some address_example) 5000 ''u2'' = Some live_epistula"
    by (simp add: live_epistula_def sign_message_def live_crypto_def Let_def)
  show "list_all (\<lambda>(_, v). utf8_size v \<le> 512) (kept_headers (headers_of live_epistula))"
  proof -
    have d: "length (dec 5000) \<le> 10" using nat_digits_length [of 5000 9] by (simp add: dec_def str_int_def chars_def)
    have "\<forall>v \<in> set (map snd (kept_headers (headers_of live_epistula))). length v \<le> 256"
      using d by (simp add: kept_headers_of live_epistula_def sign_message_def live_crypto_def signing_message_def EPISTULA_VERSION_def address_example_def
          length_to_hex Let_def)
    moreover have "utf8_size v \<le> 512" if "length v \<le> 256" for v using utf8_size_le [of v] that by linarith
    ultimately show ?thesis unfolding list_all_iff case_prod_unfold set_map ball_simps by blast
  qed
qed

theorem honest_answer_kept_witness:
  "\<exists>s. solve_v3 live_base live_task live_call = Inr (s, Some live_answer) \<and> response_body s = ucs ''ok'' \<and>
     response_headers s = kept_headers (headers_of live_epistula) \<and> ms_error s = []"
proof (rule honest_answer_kept [where x = "[]" and t = 5000 and uuid = "''u2''" and body = "''ok''", OF live_example_fields])
  have "address_example \<noteq> []" by (simp add: address_example_def)
  then show "sign_message (cl_crypto live_base) (Keypair (cl_hotkey live_base) []) ''ok'' (Some (keypair_address (cl_key live_base))) 5000 ''u2'' = Some live_epistula"
    using live_epistula_fields(1) by (simp add: live_base_def)
  show "answered_with live_base live_task live_call live_epistula ''ok''"
    by (simp add: answered_with_def live_call_def lease_budget_def live_task_def task_for_def lease_example_def SOLVE_DEADLINE_GRACE_S_def
        COMMIT_RESERVE_S_def live_base_def sign_message_def live_crypto_def Let_def)
  show "validate_miner_response live_task live_answer = Inr ()"
    by (simp add: validate_miner_response_def artifact_fits_slot_def live_task_def task_for_def live_slots_def live_answer_def lease_example_def
        slots_example_def slot_example_def)
  show "utf8_decode ''ok'' = Some (ucs ''ok'')" by (rule utf8_decode_ascii) simp
qed (use live_epistula_fields(2) address_example_ok in \<open>simp_all add: live_base_def live_crypto_def live_call_def ALLOWED_DELTA_MS_def\<close>)

theorem live_dispatch_commits_witness:
  "\<exists>ds. rmap (dispatch (script_env\<lparr>en_solve := live_solve live_base (\<lambda>_. live_call)\<rparr>) lease_example) (slot_pool lease_example) = Inr ds \<and>
     submitted (commit_for lease_example ds) = [(3, ''h3''), (7, ''h7'')] \<and> check_commit_request (commit_for lease_example ds) = Inr ()"
proof -
  let ?env = "script_env\<lparr>en_solve := live_solve live_base (\<lambda>_. live_call)\<rparr>"
  have "en_sha_text ?env = (\<lambda>_. digest_a)" by (simp add: script_env_def)
  then have "\<exists>ds. rmap (dispatch ?env lease_example) (slot_pool lease_example) = Inr ds \<and>
      submitted (commit_for lease_example ds) = pool_registrations_of lease_example \<and> check_commit_request (commit_for lease_example ds) = Inr ()"
    using live_dispatch_commits [of ?env live_base "\<lambda>_. live_call" lease_example] lease_example_ok
    by (simp add: bounded_identifier_def digest_a_def)
  then show ?thesis by (simp add: pool_registrations_of_def lease_example_def slots_example_def slot_example_def)
qed

end
