(* ===== verification/MinerServer.thy ===== *)
theory MinerServer
  imports LiveClient
begin

text \<open>
  The request handlers of the reference miner (\<open>src/rlvr/neurons/demo_miner.py\<close>): which validators
  it works for, which tasks it remembers, which notices it prints, and the HTTP endpoints around the
  handlers.  How a task is solved is a parameter here.  The lemmas show that a task is
  solved only for an authorised signer and this miner's hotkey, and that the miner prints a notice
  only about an answer it gave to the sender, at most once per answer.
\<close>

section \<open>Tasks the miner has answered\<close>

definition SERVED_TASK_LIMIT :: nat where "SERVED_TASK_LIMIT = 256"
definition SERVED_TASK_TTL_S :: real where "SERVED_TASK_TTL_S = 7200"

text \<open>Validator, challenge, task.\<close>

type_synonym task_key = "string \<times> string \<times> string"

record served_tasks =
  st_limit :: nat
  st_ttl_s :: real
  st_served :: "(task_key, real \<times> int \<times> string) dict"
  st_answered :: "task_key set"

definition new_served_tasks :: served_tasks where
  "new_served_tasks = \<lparr>st_limit = SERVED_TASK_LIMIT, st_ttl_s = SERVED_TASK_TTL_S, st_served = [], st_answered = {}\<rparr>"

definition expired :: "real \<Rightarrow> served_tasks \<Rightarrow> task_key \<times> real \<times> int \<times> string \<Rightarrow> bool" where
  "expired now st = (\<lambda>(_, served_at, _). now - served_at \<ge> st_ttl_s st)"

definition drop_expired :: "real \<Rightarrow> served_tasks \<Rightarrow> served_tasks" where
  "drop_expired now st = st\<lparr>st_served := filter (\<lambda>e. \<not> expired now st e) (st_served st),
     st_answered := st_answered st - set (keys (filter (expired now st) (st_served st)))\<rparr>"

definition dict_pop :: "'k \<Rightarrow> ('k, 'v) dict \<Rightarrow> ('k, 'v) dict" where
  "dict_pop k d = filter (\<lambda>(k', _). k' \<noteq> k) d"

fun evict :: "nat \<Rightarrow> (task_key, real \<times> int \<times> string) dict \<Rightarrow> task_key set \<Rightarrow> (task_key, real \<times> int \<times> string) dict \<times> task_key set" where
  "evict limit [] ans = ([], ans)"
| "evict limit ((k, v) # d) ans =
     (if length ((k, v) # d) > limit then evict limit d (ans - {k}) else ((k, v) # d, ans))"

definition add_served :: "task_key \<Rightarrow> int \<Rightarrow> string \<Rightarrow> real \<Rightarrow> served_tasks \<Rightarrow> served_tasks" where
  "add_served key uid hotkey now st =
     (let st = drop_expired now st;
          (entries, noticed) = evict (st_limit st) (dict_pop key (st_served st) @ [(key, now, uid, hotkey)]) (st_answered st) in
      st\<lparr>st_served := entries, st_answered := noticed\<rparr>)"

datatype notice_class = Unknown | Duplicate | New

definition classify :: "task_key \<Rightarrow> int \<Rightarrow> string \<Rightarrow> real \<Rightarrow> served_tasks \<Rightarrow> notice_class \<times> served_tasks" where
  "classify key uid hotkey now st =
     (let st = drop_expired now st in
      case map_of (st_served st) key of
        None \<Rightarrow> (Unknown, st)
      | Some (served_at, u, h) \<Rightarrow>
          if (u, h) \<noteq> (uid, hotkey) then (Unknown, st)
          else let st = st\<lparr>st_served := dict_pop key (st_served st) @ [(key, served_at, u, h)]\<rparr> in
            if key \<in> st_answered st then (Duplicate, st)
            else (New, st\<lparr>st_answered := insert key (st_answered st)\<rparr>))"

section \<open>What is printed\<close>

fun hex_fixed :: "nat \<Rightarrow> nat \<Rightarrow> ustring" where
  "hex_fixed 0 n = []"
| "hex_fixed (Suc w) n = hex_fixed w (n div 16) @ [hex_digit (n mod 16)]"

definition printable_char :: "nat \<Rightarrow> ustring" where
  "printable_char c =
     (if 32 \<le> c \<and> c \<le> 126 then [c]
      else if c < 256 then [92, 120] @ hex_fixed 2 c
      else if c \<le> 0xFFFF then [92, 117] @ hex_fixed 4 c
      else [92, 85] @ hex_fixed 8 c)"

definition printable :: "ustring \<Rightarrow> ustring" where
  "printable t = concat (map printable_char t)"

definition FEEDBACK_PRINT_HEADER_CHARS :: nat where "FEEDBACK_PRINT_HEADER_CHARS = 120"

definition feedback_prefix :: ustring where "feedback_prefix = ucs ''[demo-miner] feedback: ''"

definition feedback_lines :: "ustring \<Rightarrow> ustring option \<Rightarrow> ustring list" where
  "feedback_lines header display =
     (let lines = [feedback_prefix @ take FEEDBACK_PRINT_HEADER_CHARS (printable header)] in
      case display of
        None \<Rightarrow> lines
      | Some d \<Rightarrow>
          if d = [] then lines
          else if \<not> is_bounded_display d then lines @ [feedback_prefix @ ucs ''  display omitted: larger than a validator may send'']
          else lines @ map (\<lambda>line. feedback_prefix @ ucs ''  '' @ printable line) (split_on 10 d))"

section \<open>Who may ask\<close>

text \<open>The miner's view of the chain; a stake is \<open>None\<close> where it cannot be read as a float.\<close>

record chain_view =
  cv_hotkeys :: "string list option"
  cv_stakes :: "pyfloat option list option"
  cv_permits :: "bool list option"

fun index_of :: "'a \<Rightarrow> 'a list \<Rightarrow> nat option" where
  "index_of x [] = None"
| "index_of x (y # ys) = (if x = y then Some 0 else map_option Suc (index_of x ys))"

fun float_below :: "pyfloat \<Rightarrow> real \<Rightarrow> bool" where
  "float_below (Fin x) m \<longleftrightarrow> x < m"
| "float_below NInf m \<longleftrightarrow> True"
| "float_below _ m \<longleftrightarrow> False"

definition nth_option :: "'a list \<Rightarrow> nat \<Rightarrow> 'a option" where
  "nth_option xs i = (if i < length xs then Some (xs ! i) else None)"

definition stake_ok :: "real \<Rightarrow> pyfloat option list option \<Rightarrow> nat \<Rightarrow> bool" where
  "stake_ok minimum stakes uid =
     (case stakes of
        None \<Rightarrow> False
      | Some ss \<Rightarrow>
          (case nth_option ss uid of
             Some (Some s) \<Rightarrow> \<not> float_below s minimum
           | _ \<Rightarrow> False))"

definition permit_ok :: "bool list option \<Rightarrow> nat \<Rightarrow> bool" where
  "permit_ok permits uid =
     (case permits of
        None \<Rightarrow> False
      | Some ps \<Rightarrow> (case nth_option ps uid of None \<Rightarrow> False | Some p \<Rightarrow> p))"

record miner_settings =
  se_min_stake :: real
  se_require_permit :: bool
  se_request_timeout_s :: real
  se_max_request_bytes :: int
  se_metagraph_sync_s :: real

definition authorize :: "miner_settings \<Rightarrow> chain_view option \<Rightarrow> string \<Rightarrow> bool" where
  "authorize se view signed_by =
     (case view of
        None \<Rightarrow> False
      | Some cv \<Rightarrow>
          (case cv_hotkeys cv of
             None \<Rightarrow> False
           | Some hks \<Rightarrow>
               (case index_of signed_by hks of
                  None \<Rightarrow> False
                | Some uid \<Rightarrow>
                    if se_min_stake se > 0 \<and> \<not> stake_ok (se_min_stake se) (cv_stakes cv) uid then False
                    else if se_require_permit se \<and> \<not> permit_ok (cv_permits cv) uid then False
                    else True)))"

section \<open>The handlers\<close>

definition NOTICE_PRINT_SLOTS :: int where "NOTICE_PRINT_SLOTS = 4"
definition FAILURE_NOTICE_MAX_BYTES :: nat where "FAILURE_NOTICE_MAX_BYTES = 320 * 1024"

text \<open>
  What does not change while the miner runs: its address (empty if it has no wallet), settings,
  cryptography and the readers of its two messages.
\<close>

record miner_site =
  mi_address :: string
  mi_settings :: miner_settings
  mi_crypto :: crypto
  mi_read_request :: "bytes \<Rightarrow> miner_task_request option"
  mi_read_notice :: "bytes \<Rightarrow> failure_notice option"

record miner_state =
  mn_view :: "chain_view option"
  mn_nonces :: nonce_cache
  mn_served :: served_tasks
  mn_printing :: int

text \<open>The clocks one request reads: milliseconds for the signature and the nonce, seconds for the rest.\<close>

record clocks =
  ck_verified_ms :: int
  ck_seen_ms :: int
  ck_wall_s :: real
  ck_monotonic_s :: real

definition header_or_empty :: "headers \<Rightarrow> string \<Rightarrow> string" where
  "header_or_empty h name = (case h name of None \<Rightarrow> [] | Some v \<Rightarrow> v)"

fun reason_text :: "explanation_reason \<Rightarrow> string" where
  "reason_text (Miner r) = miner_reason_value r"
| "reason_text EVALUATION_FAILED = ''evaluation_failed''"
| "reason_text PASSED = ''passed''"

definition notice_header :: "failure_notice \<Rightarrow> ustring" where
  "notice_header n = ucs (reason_text (fe_reason_code (fn_failure n)) @ '' challenge '' @ take 32 (fn_challenge_id n) @
     '' task '' @ take 16 (fn_task_id n))"

text \<open>A handler answers with a status and, for a refusal, the text of the error.\<close>

datatype 'a handled = Refused int string | Done 'a

text \<open>The lines to print, if any; the slot is taken.\<close>

definition handle_failure_notice ::
  "miner_site \<Rightarrow> headers \<Rightarrow> bytes \<Rightarrow> clocks \<Rightarrow> miner_state \<Rightarrow> ustring list option handled \<times> miner_state" where
  "handle_failure_notice site h body ck m =
     (if length body > FAILURE_NOTICE_MAX_BYTES then (Refused 413 ''notice too large'', m)
      else if mn_view m = None \<or> mi_address site = [] then (Refused 403 ''receiver is not configured'', m)
      else if \<not> verify_signature (mi_crypto site) h body ALLOWED_DELTA_MS (ck_verified_ms ck) (Some (mi_address site))
        then (Refused 401 ''invalid signature'', m)
      else case check_and_add (header_or_empty h ''Epistula-Uuid'') (ck_seen_ms ck) (mn_nonces m) of (fresh, nonces) \<Rightarrow>
        let m = m\<lparr>mn_nonces := nonces\<rparr>; signed_by = header_or_empty h ''Epistula-Signed-By'' in
        if \<not> fresh then (Refused 409 ''replayed request'', m)
        else if \<not> authorize (mi_settings site) (mn_view m) signed_by then (Refused 403 ''unauthorized signer'', m)
        else case mi_read_notice site body of
          None \<Rightarrow> (Refused 400 ''invalid failure notice'', m)
        | Some n \<Rightarrow>
            if fn_hotkey n \<noteq> mi_address site then (Refused 403 ''notice is for another miner'', m)
            else if mn_printing m \<ge> NOTICE_PRINT_SLOTS then (Refused 503 ''busy'', m)
            else case classify (signed_by, fn_challenge_id n, fn_task_id n) (fn_uid n) (fn_hotkey n) (ck_monotonic_s ck) (mn_served m) of
              (Unknown, served) \<Rightarrow> (Refused 404 ''no such task from this validator'', m\<lparr>mn_served := served\<rparr>)
            | (Duplicate, served) \<Rightarrow> (Done None, m\<lparr>mn_served := served\<rparr>)
            | (New, served) \<Rightarrow>
                (Done (Some (feedback_lines (notice_header n) (fe_failed_check (fn_failure n)))),
                 m\<lparr>mn_served := served, mn_printing := mn_printing m + 1\<rparr>))"

definition finished_printing :: "miner_state \<Rightarrow> miner_state" where
  "finished_printing m = m\<lparr>mn_printing := max 0 (mn_printing m - 1)\<rparr>"

text \<open>
  \<open>handle_request\<close> up to its first \<open>await\<close>: the validator, the task and the seconds to solve it.
\<close>

definition accept_request ::
  "miner_site \<Rightarrow> headers \<Rightarrow> bytes \<Rightarrow> clocks \<Rightarrow> miner_state \<Rightarrow> (string \<times> miner_task_request \<times> real) handled \<times> miner_state" where
  "accept_request site h body ck m =
     (if \<not> verify_signature (mi_crypto site) h body ALLOWED_DELTA_MS (ck_verified_ms ck) (if mi_address site = [] then None else Some (mi_address site))
        then (Refused 401 ''invalid signature'', m)
      else case check_and_add (header_or_empty h ''Epistula-Uuid'') (ck_seen_ms ck) (mn_nonces m) of (fresh, nonces) \<Rightarrow>
        let m = m\<lparr>mn_nonces := nonces\<rparr>; signed_by = header_or_empty h ''Epistula-Signed-By'' in
        if \<not> fresh then (Refused 409 ''replayed request'', m)
        else if mn_view m \<noteq> None \<and> \<not> authorize (mi_settings site) (mn_view m) signed_by then (Refused 403 ''unauthorized signer'', m)
        else case mi_read_request site body of
          None \<Rightarrow> (Refused 400 ''invalid task request'', m)
        | Some t \<Rightarrow>
            if slot_hotkey (sub_slot (mt_slots t)) \<noteq> mi_address site then (Refused 403 ''task is assigned to another miner'', m)
            else if identity_profile (mt_identity t) \<noteq> v3_execution_profile_id release_policy \<or>
                    identity_policy (mt_identity t) \<noteq> ''command-gold-digest-v1''
              then (Refused 422 ''unsupported task policy'', m)
            else let timeout_s = min (max 0 (of_int (mt_expires_at t) - ck_wall_s ck)) (se_request_timeout_s (mi_settings site)) in
              if timeout_s \<le> 0 then (Refused 410 ''task expired'', m)
              else (Done (signed_by, t, timeout_s), m))"

text \<open>The rest of \<open>handle_request\<close>, with how the solving ended.\<close>

datatype solve_outcome = Solved miner_task_response | DeadlineExceeded | UpstreamFailed | SolveFailed

definition conclude_request ::
  "string \<Rightarrow> miner_task_request \<Rightarrow> solve_outcome \<Rightarrow> real \<Rightarrow> miner_state \<Rightarrow> miner_task_response handled \<times> miner_state" where
  "conclude_request signed_by t outcome now m =
     (case outcome of
        DeadlineExceeded \<Rightarrow> (Refused 504 ''solve deadline exceeded'', m)
      | UpstreamFailed \<Rightarrow> (Refused 502 ''upstream request failed'', m)
      | SolveFailed \<Rightarrow> (Refused 500 ''solve failed'', m)
      | Solved payload \<Rightarrow>
          (Done payload, m\<lparr>mn_served := add_served (signed_by, mt_challenge_id t, mt_task_id t)
             (slot_uid (sub_slot (mt_slots t))) (slot_hotkey (sub_slot (mt_slots t))) now (mn_served m)\<rparr>))"

text \<open>The whole handler, for a call that nothing interrupts.\<close>

definition handle_request ::
  "miner_site \<Rightarrow> headers \<Rightarrow> bytes \<Rightarrow> clocks \<Rightarrow> (miner_task_request \<Rightarrow> real \<Rightarrow> solve_outcome) \<Rightarrow> real \<Rightarrow> miner_state \<Rightarrow> miner_task_response handled \<times> miner_state" where
  "handle_request site h body ck solve end_s m =
     (case accept_request site h body ck m of
        (Refused status err, m) \<Rightarrow> (Refused status err, m)
      | (Done (signed_by, t, timeout_s), m) \<Rightarrow> conclude_request signed_by t (solve t timeout_s) end_s m)"

section \<open>The endpoints\<close>

text \<open>\<open>maybe_sync_metagraph\<close>: \<open>refreshed\<close> is the view the chain gives, \<open>None\<close> if the refresh fails.\<close>

definition maybe_sync_metagraph ::
  "miner_site \<Rightarrow> bool \<Rightarrow> real \<Rightarrow> chain_view option \<Rightarrow> real \<Rightarrow> miner_state \<times> real \<Rightarrow> miner_state \<times> real" where
  "maybe_sync_metagraph site subtensor now refreshed after = (\<lambda>(m, last_s).
     if mn_view m = None \<or> \<not> subtensor then (m, last_s)
     else if now - last_s < se_metagraph_sync_s (mi_settings site) then (m, last_s)
     else (case refreshed of None \<Rightarrow> m | Some v \<Rightarrow> m\<lparr>mn_view := Some v\<rparr>, after))"

definition read_request_body :: "string option \<Rightarrow> bytes list \<Rightarrow> int \<Rightarrow> bytes option" where
  "read_request_body clen chunks limit =
     (case (case clen of None \<Rightarrow> Some 0 | Some [] \<Rightarrow> Some 0 | Some d \<Rightarrow> int_text d) of
        None \<Rightarrow> None
      | Some declared \<Rightarrow> if declared < 0 \<or> declared > limit then None else read_within limit chunks [])"

record http_reply =
  hr_status :: int
  hr_body :: bytes
  hr_signed :: "epistula option"

definition quote_mark :: string where "quote_mark = [CHR 0x22]"

definition error_body :: "string \<Rightarrow> bytes" where
  "error_body err = ''{'' @ quote_mark @ ''error'' @ quote_mark @ '':'' @ quote_mark @ err @ quote_mark @ ''}''"

text \<open>The reply of \<open>/solve\<close>; \<open>None\<close>: signing raised.\<close>

definition solve_reply ::
  "miner_site \<Rightarrow> key_object \<Rightarrow> (miner_task_response \<Rightarrow> bytes) \<Rightarrow> headers \<Rightarrow> miner_task_response handled \<Rightarrow> int \<Rightarrow> string \<Rightarrow> http_reply option" where
  "solve_reply site wallet dump h result now_ms uuid =
     (case result of
        Refused status err \<Rightarrow> Some \<lparr>hr_status = status, hr_body = error_body err, hr_signed = None\<rparr>
      | Done payload \<Rightarrow>
          if wallet = NoKey then Some \<lparr>hr_status = 200, hr_body = dump payload, hr_signed = None\<rparr>
          else map_option (\<lambda>e. \<lparr>hr_status = 200, hr_body = dump payload, hr_signed = Some e\<rparr>)
            (sign_message (mi_crypto site) wallet (dump payload) (Some (header_or_empty h ''Epistula-Signed-By'')) now_ms uuid))"

definition serve_solve ::
  "miner_site \<Rightarrow> key_object \<Rightarrow> (miner_task_response \<Rightarrow> bytes) \<Rightarrow> headers \<Rightarrow> string option \<Rightarrow> bytes list \<Rightarrow> clocks \<Rightarrow>
   (miner_task_request \<Rightarrow> real \<Rightarrow> solve_outcome) \<Rightarrow> real \<Rightarrow> int \<Rightarrow> string \<Rightarrow> miner_state \<Rightarrow> http_reply option \<times> miner_state" where
  "serve_solve site wallet dump h clen chunks ck solve end_s now_ms uuid m =
     (case read_request_body clen chunks (se_max_request_bytes (mi_settings site)) of
        None \<Rightarrow> (Some \<lparr>hr_status = 413, hr_body = error_body ''request body too large'', hr_signed = None\<rparr>, m)
      | Some body \<Rightarrow>
          (case handle_request site h body ck solve end_s m of
             (result, m) \<Rightarrow> (solve_reply site wallet dump h result now_ms uuid, m)))"

definition accepted_body :: bytes where
  "accepted_body = ''{'' @ quote_mark @ ''accepted'' @ quote_mark @ '':true}''"

definition serve_failure ::
  "miner_site \<Rightarrow> headers \<Rightarrow> string option \<Rightarrow> bytes list \<Rightarrow> clocks \<Rightarrow> miner_state \<Rightarrow> http_reply \<times> ustring list option \<times> miner_state" where
  "serve_failure site h clen chunks ck m =
     (case read_request_body clen chunks (min (se_max_request_bytes (mi_settings site)) (int FAILURE_NOTICE_MAX_BYTES)) of
        None \<Rightarrow> (\<lparr>hr_status = 413, hr_body = error_body ''request body too large'', hr_signed = None\<rparr>, None, m)
      | Some body \<Rightarrow>
          (case handle_failure_notice site h body ck m of
             (Refused status err, m) \<Rightarrow> (\<lparr>hr_status = status, hr_body = error_body err, hr_signed = None\<rparr>, None, m)
           | (Done lines, m) \<Rightarrow> (\<lparr>hr_status = 200, hr_body = accepted_body, hr_signed = None\<rparr>, lines, m)))"

text \<open>
  The endpoints: refresh the view of the chain when it is due, then serve.  The state is the miner
  and the time of the last refresh.
\<close>

record refresh =
  rf_subtensor :: bool
  rf_now_s :: real
  rf_view :: "chain_view option"
  rf_after_s :: real

definition solve_endpoint ::
  "miner_site \<Rightarrow> key_object \<Rightarrow> (miner_task_response \<Rightarrow> bytes) \<Rightarrow> refresh \<Rightarrow> headers \<Rightarrow> string option \<Rightarrow> bytes list \<Rightarrow> clocks \<Rightarrow>
   (miner_task_request \<Rightarrow> real \<Rightarrow> solve_outcome) \<Rightarrow> real \<Rightarrow> int \<Rightarrow> string \<Rightarrow> miner_state \<times> real \<Rightarrow> http_reply option \<times> miner_state \<times> real" where
  "solve_endpoint site wallet dump rf h clen chunks ck solve end_s now_ms uuid state =
     (case maybe_sync_metagraph site (rf_subtensor rf) (rf_now_s rf) (rf_view rf) (rf_after_s rf) state of (m, last_s) \<Rightarrow>
      case serve_solve site wallet dump h clen chunks ck solve end_s now_ms uuid m of (reply, m) \<Rightarrow> (reply, m, last_s))"

definition failure_endpoint ::
  "miner_site \<Rightarrow> refresh \<Rightarrow> headers \<Rightarrow> string option \<Rightarrow> bytes list \<Rightarrow> clocks \<Rightarrow> miner_state \<times> real \<Rightarrow> http_reply \<times> ustring list option \<times> miner_state \<times> real" where
  "failure_endpoint site rf h clen chunks ck state =
     (case maybe_sync_metagraph site (rf_subtensor rf) (rf_now_s rf) (rf_view rf) (rf_after_s rf) state of (m, last_s) \<Rightarrow>
      case serve_failure site h clen chunks ck m of (reply, lines, m) \<Rightarrow> (reply, lines, m, last_s))"

section \<open>The server\<close>

text \<open>
  Between two awaits a handler runs alone, so the server is a machine whose steps are: a request arrives and
  is refused or put to work, the solving of one of the pending tasks ends, a notice arrives, a
  print ends, the view of the chain is refreshed.
\<close>

record server =
  sv_miner :: miner_state
  sv_pending :: "(string \<times> miner_task_request) list"

datatype input =
    RequestIn headers bytes clocks
  | SolveEnd nat solve_outcome real
  | NoticeIn headers bytes clocks
  | PrintEnd
  | Refresh chain_view

datatype effect = Answered task_key int string real | Printed task_key int string real | Quiet

fun server_step :: "miner_site \<Rightarrow> input \<Rightarrow> server \<Rightarrow> effect \<times> server" where
  "server_step site (RequestIn h body ck) s =
     (case accept_request site h body ck (sv_miner s) of
        (Refused _ _, m) \<Rightarrow> (Quiet, s\<lparr>sv_miner := m\<rparr>)
      | (Done (signed_by, t, _), m) \<Rightarrow> (Quiet, s\<lparr>sv_miner := m, sv_pending := sv_pending s @ [(signed_by, t)]\<rparr>))"
| "server_step site (SolveEnd i outcome now) s =
     (if i \<ge> length (sv_pending s) then (Quiet, s)
      else case sv_pending s ! i of (signed_by, t) \<Rightarrow>
        (case conclude_request signed_by t outcome now (sv_miner s) of
           (Refused _ _, m) \<Rightarrow> (Quiet, s\<lparr>sv_miner := m, sv_pending := take i (sv_pending s) @ drop (Suc i) (sv_pending s)\<rparr>)
         | (Done _, m) \<Rightarrow>
             (Answered (signed_by, mt_challenge_id t, mt_task_id t) (slot_uid (sub_slot (mt_slots t))) (slot_hotkey (sub_slot (mt_slots t))) now,
              s\<lparr>sv_miner := m, sv_pending := take i (sv_pending s) @ drop (Suc i) (sv_pending s)\<rparr>)))"
| "server_step site (NoticeIn h body ck) s =
     (case handle_failure_notice site h body ck (sv_miner s) of
        (Done (Some _), m) \<Rightarrow>
          (case the (mi_read_notice site body) of n \<Rightarrow>
             Printed (header_or_empty h ''Epistula-Signed-By'', fn_challenge_id n, fn_task_id n) (fn_uid n) (fn_hotkey n) (ck_monotonic_s ck),
           s\<lparr>sv_miner := m\<rparr>)
      | (_, m) \<Rightarrow> (Quiet, s\<lparr>sv_miner := m\<rparr>))"
| "server_step site PrintEnd s = (Quiet, s\<lparr>sv_miner := finished_printing (sv_miner s)\<rparr>)"
| "server_step site (Refresh v) s = (Quiet, s\<lparr>sv_miner := (sv_miner s)\<lparr>mn_view := Some v\<rparr>\<rparr>)"

definition server_start :: "chain_view option \<Rightarrow> server" where
  "server_start v = \<lparr>sv_miner = \<lparr>mn_view = v, mn_nonces = new_nonce_cache 8000 100000, mn_served = new_served_tasks, mn_printing = 0\<rparr>, sv_pending = []\<rparr>"

inductive reaches :: "miner_site \<Rightarrow> effect list \<Rightarrow> server \<Rightarrow> bool" for site where
  start: "reaches site [] (server_start v)"
| step: "reaches site outs s \<Longrightarrow> server_step site i s = (out, s') \<Longrightarrow> reaches site (outs @ [out]) s'"

subsection \<open>Served tasks\<close>

definition answered_before :: "effect list \<Rightarrow> task_key \<Rightarrow> real \<Rightarrow> int \<Rightarrow> string \<Rightarrow> bool" where
  "answered_before outs k t u hk \<longleftrightarrow> Answered k u hk t \<in> set outs"

fun is_answer :: "task_key \<Rightarrow> effect \<Rightarrow> bool" where
  "is_answer k (Answered k' _ _ _) \<longleftrightarrow> k' = k"
| "is_answer k _ \<longleftrightarrow> False"

fun is_print :: "task_key \<Rightarrow> effect \<Rightarrow> bool" where
  "is_print k (Printed k' _ _ _) \<longleftrightarrow> k' = k"
| "is_print k _ \<longleftrightarrow> False"

text \<open>The table is bounded, has no key twice, and a key without a served task is not noticed.\<close>

definition table_ok :: "served_tasks \<Rightarrow> bool" where
  "table_ok st \<longleftrightarrow> distinct (keys (st_served st)) \<and> length (st_served st) \<le> st_limit st \<and> 0 < st_limit st \<and>
     st_answered st \<subseteq> set (keys (st_served st))"

lemma distinct_keys_filter: "distinct (keys d) \<Longrightarrow> distinct (keys (filter P d))"
  by (auto simp: distinct_map inj_on_def)

lemma keys_unique: "distinct (keys d) \<Longrightarrow> (k, v) \<in> set d \<Longrightarrow> (k, w) \<in> set d \<Longrightarrow> v = w"
  by (metis map_of_is_SomeI option.inject)

lemma keys_filter_complement:
  "distinct (keys d) \<Longrightarrow> k \<in> set (keys d) \<Longrightarrow> k \<notin> set (keys (filter P d)) \<longleftrightarrow> k \<in> set (keys (filter (\<lambda>e. \<not> P e) d))"
proof (induction d)
  case (Cons e d)
  have "set (keys (filter Q d)) \<subseteq> set (keys d)" for Q by auto
  then show ?case using Cons by (cases "k = fst e") auto
qed simp

lemma drop_expired_ok:
  assumes "table_ok st"
  shows "table_ok (drop_expired now st)" "set (st_served (drop_expired now st)) \<subseteq> set (st_served st)"
    "st_answered (drop_expired now st) = st_answered st \<inter> set (keys (st_served (drop_expired now st)))"
proof -
  have d: "distinct (keys (st_served st))" "st_answered st \<subseteq> set (keys (st_served st))" using assms by (simp_all add: table_ok_def)
  show sub: "set (st_served (drop_expired now st)) \<subseteq> set (st_served st)" by (auto simp: drop_expired_def)
  have "k \<notin> set (keys (filter (expired now st) (st_served st))) \<longleftrightarrow> k \<in> set (keys (filter (\<lambda>e. \<not> expired now st e) (st_served st)))"
    if "k \<in> set (keys (st_served st))" for k
    by (rule keys_filter_complement [OF d(1) that])
  then show an: "st_answered (drop_expired now st) = st_answered st \<inter> set (keys (st_served (drop_expired now st)))"
    using d(2) unfolding drop_expired_def by (simp del: set_map) blast
  have "distinct (keys (st_served (drop_expired now st)))" using distinct_keys_filter [OF d(1)] by (simp add: drop_expired_def)
  moreover have "length (st_served (drop_expired now st)) \<le> length (st_served st)" by (simp add: drop_expired_def)
  moreover have "st_limit (drop_expired now st) = st_limit st" by (simp add: drop_expired_def)
  ultimately show "table_ok (drop_expired now st)" using assms an unfolding table_ok_def by auto
qed

lemma keys_dict_pop: "set (keys (dict_pop k d)) = set (keys d) - {k}"
  by (auto simp: dict_pop_def image_iff)

lemma set_dict_pop: "set (dict_pop k d) = {e \<in> set d. fst e \<noteq> k}"
  by (auto simp: dict_pop_def)

lemma distinct_dict_pop: "distinct (keys d) \<Longrightarrow> distinct (keys (dict_pop k d))"
  unfolding dict_pop_def by (rule distinct_keys_filter)

lemma evict_subset: "evict limit d ans = (d', ans') \<Longrightarrow> set d' \<subseteq> set d"
  by (induction limit d ans rule: evict.induct) (auto split: if_splits)

lemma evict_ok:
  assumes "evict limit d ans = (d', ans')" "distinct (keys d)" "ans \<subseteq> set (keys d)"
  shows "length d' \<le> limit \<and> set d' \<subseteq> set d \<and> distinct (keys d') \<and> ans' = ans \<inter> set (keys d') \<and>
    (0 < limit \<and> d \<noteq> [] \<longrightarrow> last d \<in> set d')"
  using assms
proof (induction limit d ans rule: evict.induct)
  case (2 limit k v d ans)
  show ?case
  proof (cases "length ((k, v) # d) > limit")
    case True
    then have IH: "length d' \<le> limit" "set d' \<subseteq> set d" "distinct (keys d')" "ans' = (ans - {k}) \<inter> set (keys d')" "0 < limit \<and> d \<noteq> [] \<longrightarrow> last d \<in> set d'"
      using 2 by auto
    have "k \<notin> set (keys d')" using IH(2) "2.prems"(2) by auto
    then show ?thesis using IH True by auto
  qed (use "2.prems" in auto)
qed auto

lemma add_served_ok:
  assumes "table_ok st"
  shows "table_ok (add_served k u hk now st)" "set (st_served (add_served k u hk now st)) \<subseteq> insert (k, now, u, hk) (set (st_served st))"
    "st_answered (add_served k u hk now st) \<subseteq> st_answered st"
    "j \<in> set (keys (st_served (add_served k u hk now st))) \<Longrightarrow> j \<in> st_answered st \<Longrightarrow> j \<in> set (keys (st_served (drop_expired now st))) \<Longrightarrow>
       j \<in> st_answered (add_served k u hk now st)"
proof -
  let ?st = "drop_expired now st" and ?d = "dict_pop k (st_served (drop_expired now st)) @ [(k, now, u, hk)]"
  note ok = drop_expired_ok [OF assms, of now]
  obtain d' ans' where e: "evict (st_limit ?st) ?d (st_answered ?st) = (d', ans')" by fastforce
  have st: "add_served k u hk now st = ?st\<lparr>st_served := d', st_answered := ans'\<rparr>" by (simp add: add_served_def Let_def e)
  have "distinct (keys ?d)" using ok(1) distinct_dict_pop [of "st_served ?st" k] keys_dict_pop [of k "st_served ?st"] by (auto simp: table_ok_def)
  moreover have "st_answered ?st \<subseteq> set (keys ?d)" using ok(1) keys_dict_pop [of k "st_served ?st"] by (auto simp: table_ok_def)
  ultimately have d': "length d' \<le> st_limit ?st" "set d' \<subseteq> set ?d" "distinct (keys d')" "ans' = st_answered ?st \<inter> set (keys d')"
    using evict_ok [OF e] by blast+
  show "table_ok (add_served k u hk now st)" using ok(1) d' by (auto simp: st table_ok_def)
  show "set (st_served (add_served k u hk now st)) \<subseteq> insert (k, now, u, hk) (set (st_served st))"
    using d'(2) ok(2) by (auto simp: st set_dict_pop)
  show "st_answered (add_served k u hk now st) \<subseteq> st_answered st" using d'(4) ok(3) by (auto simp: st)
  show "j \<in> set (keys (st_served (add_served k u hk now st))) \<Longrightarrow> j \<in> st_answered st \<Longrightarrow> j \<in> set (keys (st_served ?st)) \<Longrightarrow>
      j \<in> st_answered (add_served k u hk now st)"
    using d'(4) ok(3) by (simp add: st)
qed

lemma add_served_keys:
  assumes "table_ok st" "j \<in> set (keys (st_served (add_served k u hk now st)))" "j \<noteq> k"
  shows "j \<in> set (keys (st_served st)) \<and> (j \<in> st_answered st \<longrightarrow> j \<in> st_answered (add_served k u hk now st))"
proof -
  let ?st = "drop_expired now st"
  obtain d' ans' where e: "evict (st_limit ?st) (dict_pop k (st_served ?st) @ [(k, now, u, hk)]) (st_answered ?st) = (d', ans')" by fastforce
  then have "add_served k u hk now st = ?st\<lparr>st_served := d', st_answered := ans'\<rparr>" by (simp add: add_served_def Let_def)
  moreover have "set d' \<subseteq> set (dict_pop k (st_served ?st) @ [(k, now, u, hk)])"
    by (rule evict_subset [OF e])
  ultimately have "j \<in> set (keys (st_served ?st))" using assms(2,3) by (auto simp: set_dict_pop)
  moreover have "set (st_served ?st) \<subseteq> set (st_served st)" by (rule drop_expired_ok(2) [OF assms(1)])
  ultimately show ?thesis using add_served_ok(4) [OF assms(1,2)] by auto
qed

text \<open>Moving an entry to the end.\<close>

lemma dict_move:
  assumes dk: "distinct (keys d)" and e: "(k, v) \<in> set d"
  shows "set (dict_pop k d @ [(k, v)]) = set d \<and> set (keys (dict_pop k d @ [(k, v)])) = set (keys d) \<and>
    distinct (keys (dict_pop k d @ [(k, v)])) \<and> length (dict_pop k d @ [(k, v)]) \<le> length d"
proof -
  let ?d = "dict_pop k d @ [(k, v)]"
  have dist: "distinct (keys ?d)" using distinct_dict_pop [OF dk, of k] keys_dict_pop [of k d] by auto
  have "p \<in> set ?d \<longleftrightarrow> p \<in> set d" for p
  proof (cases "fst p = k")
    case True
    then have "p \<in> set d \<longleftrightarrow> p = (k, v)" using keys_unique [OF dk, of k "snd p" v] e by (cases p) auto
    then show ?thesis using True by (auto simp: set_dict_pop)
  qed (auto simp: set_dict_pop)
  then have s: "set ?d = set d" by blast
  have "distinct ?d" "distinct d" using dist dk distinct_map by blast+
  then have "length ?d = length d" using s by (simp only: distinct_card [symmetric])
  moreover have "set (keys ?d) = set (keys d)" unfolding set_map s ..
  ultimately show ?thesis using s dist by simp
qed

lemma classify_cases:
  assumes "classify k u hk now st = (c, st')" "table_ok st"
  shows "table_ok st'" "set (st_served st') \<subseteq> set (st_served st)"
    and "c \<noteq> New \<Longrightarrow> st_answered st' = st_answered st \<inter> set (keys (st_served st'))"
    and "c = New \<Longrightarrow> k \<notin> st_answered st \<and> st_answered st' = insert k (st_answered st \<inter> set (keys (st_served st'))) \<and>
      (\<exists>t. (k, t, u, hk) \<in> set (st_served st) \<and> now - t < st_ttl_s st)"
proof -
  let ?st = "drop_expired now st"
  note ok = drop_expired_ok [OF assms(2), of now]
  have t: "st' = ?st \<and> c = Unknown \<or>
    (\<exists>t. (k, t, u, hk) \<in> set (st_served ?st) \<and>
      ((c = Duplicate \<and> k \<in> st_answered ?st \<and> st' = ?st\<lparr>st_served := dict_pop k (st_served ?st) @ [(k, t, u, hk)]\<rparr>) \<or>
       (c = New \<and> k \<notin> st_answered ?st \<and>
        st' = ?st\<lparr>st_served := dict_pop k (st_served ?st) @ [(k, t, u, hk)], st_answered := insert k (st_answered ?st)\<rparr>)))"
    using assms(1) by (auto simp: classify_def Let_def dest!: map_of_SomeD split: option.splits if_splits)
  have same: "set (dict_pop k (st_served ?st) @ [(k, t, u, hk)]) = set (st_served ?st) \<and>
      set (keys (dict_pop k (st_served ?st) @ [(k, t, u, hk)])) = set (keys (st_served ?st)) \<and>
      distinct (keys (dict_pop k (st_served ?st) @ [(k, t, u, hk)])) \<and>
      length (dict_pop k (st_served ?st) @ [(k, t, u, hk)]) \<le> length (st_served ?st)"
    if "(k, t, u, hk) \<in> set (st_served ?st)" for t
    by (rule dict_move [OF _ that]) (use ok(1) in \<open>simp add: table_ok_def\<close>)
  have served: "set (st_served st') = set (st_served ?st) \<and> set (keys (st_served st')) = set (keys (st_served ?st)) \<and>
      distinct (keys (st_served st')) \<and> length (st_served st') \<le> length (st_served ?st) \<and> st_limit st' = st_limit ?st"
  proof -
    have lim: "st_limit st' = st_limit ?st" using t by auto
    have "st_served st' = st_served ?st \<or>
        (\<exists>t. (k, t, u, hk) \<in> set (st_served ?st) \<and> st_served st' = dict_pop k (st_served ?st) @ [(k, t, u, hk)])"
      using t by auto
    then show ?thesis
    proof
      assume "st_served st' = st_served ?st"
      then show ?thesis using lim ok(1) by (simp add: table_ok_def)
    next
      assume "\<exists>t. (k, t, u, hk) \<in> set (st_served ?st) \<and> st_served st' = dict_pop k (st_served ?st) @ [(k, t, u, hk)]"
      then show ?thesis using lim same by metis
    qed
  qed
  have ans: "c \<noteq> New \<Longrightarrow> st_answered st' = st_answered ?st"
    "c = New \<Longrightarrow> st_answered st' = insert k (st_answered ?st) \<and> k \<notin> st_answered ?st \<and> (\<exists>t. (k, t, u, hk) \<in> set (st_served ?st))"
    using t by auto
  have old: "k \<in> set (keys (st_served ?st))" if "c = New" using ans(2) [OF that] by force
  show tab: "table_ok st'"
    using served ok(1) ans old unfolding table_ok_def by (cases "c = New") auto
  show "set (st_served st') \<subseteq> set (st_served st)" using served ok(2) by blast
  show "c \<noteq> New \<Longrightarrow> st_answered st' = st_answered st \<inter> set (keys (st_served st'))"
    using ans(1) served ok(3) by blast
  show "c = New \<Longrightarrow> k \<notin> st_answered st \<and> st_answered st' = insert k (st_answered st \<inter> set (keys (st_served st'))) \<and>
      (\<exists>t. (k, t, u, hk) \<in> set (st_served st) \<and> now - t < st_ttl_s st)"
  proof -
    assume c: "c = New"
    then obtain x where x: "(k, x, u, hk) \<in> set (st_served ?st)" using ans(2) by blast
    then have "(k, x, u, hk) \<in> set (st_served st) \<and> now - x < st_ttl_s st" by (auto simp: drop_expired_def expired_def)
    moreover have "k \<notin> st_answered st" using ans(2) [OF c] old [OF c] ok(3) by blast
    ultimately show ?thesis using ans(2) [OF c] served ok(3) by blast
  qed
qed

subsection \<open>Notices and answers\<close>

lemma notice_cases:
  assumes "handle_failure_notice site h body ck m = (r, m')"
  shows "(\<exists>n c st'. mi_read_notice site body = Some n \<and> fn_hotkey n = mi_address site \<and> mn_printing m < NOTICE_PRINT_SLOTS \<and>
      classify (header_or_empty h ''Epistula-Signed-By'', fn_challenge_id n, fn_task_id n) (fn_uid n) (fn_hotkey n) (ck_monotonic_s ck) (mn_served m) = (c, st') \<and>
      mn_served m' = st' \<and> mn_printing m' = mn_printing m + (if c = New then 1 else 0) \<and>
      ((\<exists>l. r = Done (Some l)) \<longleftrightarrow> c = New) \<and>
      verify_signature (mi_crypto site) h body ALLOWED_DELTA_MS (ck_verified_ms ck) (Some (mi_address site)) \<and>
      authorize (mi_settings site) (mn_view m) (header_or_empty h ''Epistula-Signed-By'')) \<or>
    (mn_served m' = mn_served m \<and> mn_printing m' = mn_printing m \<and> (\<exists>code err. r = Refused code err))"
proof (cases "\<exists>code err. r = Refused code err \<and> mn_served m' = mn_served m \<and> mn_printing m' = mn_printing m")
  case False
  obtain fresh nonces where nc: "check_and_add (header_or_empty h ''Epistula-Uuid'') (ck_seen_ms ck) (mn_nonces m) = (fresh, nonces)" by fastforce
  note h = assms [unfolded handle_failure_notice_def nc prod.case Let_def]
  have g: "fresh" "verify_signature (mi_crypto site) h body ALLOWED_DELTA_MS (ck_verified_ms ck) (Some (mi_address site))"
    "authorize (mi_settings site) (mn_view m) (header_or_empty h ''Epistula-Signed-By'')"
    using h False by (auto split: if_splits)
  then obtain n where n: "mi_read_notice site body = Some n" "fn_hotkey n = mi_address site" "mn_printing m < NOTICE_PRINT_SLOTS"
    using h False by (auto split: if_splits option.splits)
  obtain c st' where c: "classify (header_or_empty h ''Epistula-Signed-By'', fn_challenge_id n, fn_task_id n) (fn_uid n) (fn_hotkey n)
      (ck_monotonic_s ck) (mn_served m) = (c, st')" by fastforce
  have "mn_served m' = st' \<and> mn_printing m' = mn_printing m + (if c = New then 1 else 0) \<and> ((\<exists>l. r = Done (Some l)) \<longleftrightarrow> c = New)"
    using h g n c False by (cases c) (auto split: if_splits)
  then show ?thesis using n c g by blast
qed blast

lemma accept_request_keeps:
  assumes "accept_request site h body ck m = (r, m')"
  shows "mn_served m' = mn_served m \<and> mn_printing m' = mn_printing m \<and> mn_view m' = mn_view m"
  using assms by (auto simp: accept_request_def Let_def split: if_splits prod.splits option.splits)

text \<open>The relation between what the server has done so far and its table.\<close>

definition history_ok :: "effect list \<Rightarrow> server \<Rightarrow> bool" where
  "history_ok outs s \<longleftrightarrow>
     (let st = mn_served (sv_miner s) in
      table_ok st \<and> st_limit st = SERVED_TASK_LIMIT \<and> st_ttl_s st = SERVED_TASK_TTL_S \<and>
      0 \<le> mn_printing (sv_miner s) \<and> mn_printing (sv_miner s) \<le> NOTICE_PRINT_SLOTS \<and>
      (\<forall>(k, t, u, hk) \<in> set (st_served st). Answered k u hk t \<in> set outs) \<and>
      (\<forall>k. length (filter (is_print k) outs) \<le> length (filter (is_answer k) outs)) \<and>
      (\<forall>k \<in> set (keys (st_served st)) - st_answered st. length (filter (is_print k) outs) < length (filter (is_answer k) outs)) \<and>
      (\<forall>pre k u hk now rest. outs = pre @ Printed k u hk now # rest \<longrightarrow>
         (\<exists>t. Answered k u hk t \<in> set pre \<and> now - t < SERVED_TASK_TTL_S)))"

lemma served_limits [simp]:
  "st_limit (add_served k u hk now st) = st_limit st" "st_ttl_s (add_served k u hk now st) = st_ttl_s st"
  by (simp_all add: add_served_def drop_expired_def Let_def split: prod.split)

lemma classify_limits: "classify k u hk now st = (c, st') \<Longrightarrow> st_limit st' = st_limit st \<and> st_ttl_s st' = st_ttl_s st"
  by (auto simp: classify_def drop_expired_def Let_def split: option.splits if_splits)

lemma append_split:
  assumes "outs @ [x] = pre @ y # rest"
  shows "(\<exists>rest'. outs = pre @ y # rest') \<or> (pre = outs \<and> x = y)"
  using assms by (cases rest rule: rev_cases) (auto simp flip: append_Cons append_assoc)

text \<open>A step that neither answers nor prints, and leaves the table alone or drops entries from it.\<close>

lemma history_quiet:
  assumes "history_ok outs s" "mn_served (sv_miner s') = st'" "table_ok st'" "st_limit st' = st_limit (mn_served (sv_miner s))"
    "st_ttl_s st' = st_ttl_s (mn_served (sv_miner s))" "set (st_served st') \<subseteq> set (st_served (mn_served (sv_miner s)))"
    "st_answered st' = st_answered (mn_served (sv_miner s)) \<inter> set (keys (st_served st'))"
    "0 \<le> mn_printing (sv_miner s')" "mn_printing (sv_miner s') \<le> NOTICE_PRINT_SLOTS"
  shows "history_ok (outs @ [Quiet]) s'"
proof -
  let ?st = "mn_served (sv_miner s)"
  note h = assms(1) [unfolded history_ok_def Let_def]
  have "set (keys (st_served st')) - st_answered st' \<subseteq> set (keys (st_served ?st)) - st_answered ?st"
    using assms(6,7) by auto
  moreover have "\<exists>t. Answered k u hk t \<in> set pre \<and> now - t < SERVED_TASK_TTL_S" if "outs @ [Quiet] = pre @ Printed k u hk now # rest" for pre k u hk now rest
    using append_split [OF that] h by blast
  ultimately show ?thesis unfolding history_ok_def Let_def using h assms(2-6,8,9) by (simp del: set_map) blast
qed

lemma history_answer:
  assumes h: "history_ok outs s" and m: "mn_served (sv_miner s') = add_served k u hk now (mn_served (sv_miner s))" "mn_printing (sv_miner s') = mn_printing (sv_miner s)"
  shows "history_ok (outs @ [Answered k u hk now]) s'"
proof -
  let ?st = "mn_served (sv_miner s)" and ?st' = "add_served k u hk now (mn_served (sv_miner s))" and ?outs = "outs @ [Answered k u hk now]"
  note h = h [unfolded history_ok_def Let_def]
  have ok: "table_ok ?st" using h by blast
  note a = add_served_ok [OF ok, where k = k and u = u and hk = hk and now = now]
  have served: "\<forall>(j, t, v, hj) \<in> set (st_served ?st'). Answered j v hj t \<in> set ?outs"
    using a(2) h by fastforce
  have old: "length (filter (is_print j) outs) \<le> length (filter (is_answer j) outs)" for j using h by blast
  have le: "length (filter (is_print j) ?outs) \<le> length (filter (is_answer j) ?outs)" for j
    using old [of j] by simp
  have less: "length (filter (is_print j) ?outs) < length (filter (is_answer j) ?outs)" if j: "j \<in> set (keys (st_served ?st')) - st_answered ?st'" for j
  proof (cases "j = k")
    case True
    then show ?thesis using old [of k] by (simp add: le_imp_less_Suc)
  next
    case False
    then have "j \<in> set (keys (st_served ?st)) - st_answered ?st" using add_served_keys [OF ok, of j k u hk now] j by blast
    then have "length (filter (is_print j) outs) < length (filter (is_answer j) outs)" using h by blast
    then show ?thesis by simp
  qed
  have prints: "\<exists>t. Answered j v hj t \<in> set pre \<and> x - t < SERVED_TASK_TTL_S" if "?outs = pre @ Printed j v hj x # rest" for pre j v hj x rest
    using append_split [OF that] h by blast
  show ?thesis
    unfolding history_ok_def Let_def m using h a(1) served le less prints by (simp del: set_map add: served_limits)
qed

lemma history_print:
  assumes h: "history_ok outs s" and c: "classify k u hk now (mn_served (sv_miner s)) = (New, st')" and m: "mn_served (sv_miner s') = st'"
    "mn_printing (sv_miner s') = mn_printing (sv_miner s) + 1" "mn_printing (sv_miner s) < NOTICE_PRINT_SLOTS"
  shows "history_ok (outs @ [Printed k u hk now]) s'"
proof -
  let ?st = "mn_served (sv_miner s)" and ?outs = "outs @ [Printed k u hk now]"
  note h = h [unfolded history_ok_def Let_def]
  note cc = classify_cases [OF c] classify_limits [OF c]
  have ok: "table_ok ?st" using h by blast
  obtain t where t: "(k, t, u, hk) \<in> set (st_served ?st)" "now - t < st_ttl_s ?st" "k \<notin> st_answered ?st"
    "st_answered st' = insert k (st_answered ?st \<inter> set (keys (st_served st')))"
    using cc(4) [OF ok] by blast
  have key: "k \<in> set (keys (st_served ?st))" using t(1) by force
  have served: "\<forall>(j, x, v, hj) \<in> set (st_served st'). Answered j v hj x \<in> set ?outs" using cc(2) [OF ok] h by fastforce
  have k: "length (filter (is_print k) outs) < length (filter (is_answer k) outs)" using h key t(3) by blast
  have old: "length (filter (is_print j) outs) \<le> length (filter (is_answer j) outs)" for j using h by blast
  have le: "length (filter (is_print j) ?outs) \<le> length (filter (is_answer j) ?outs)" for j
    using old [of j] k by (cases "j = k") (auto simp: Suc_le_eq)
  have less: "length (filter (is_print j) ?outs) < length (filter (is_answer j) ?outs)" if j: "j \<in> set (keys (st_served st')) - st_answered st'" for j
  proof -
    have "j \<noteq> k" "j \<in> set (keys (st_served ?st)) - st_answered ?st" using j t(4) cc(2) [OF ok] by auto
    then have "length (filter (is_print j) outs) < length (filter (is_answer j) outs)" using h by blast
    then show ?thesis using \<open>j \<noteq> k\<close> by simp
  qed
  have prints: "\<exists>y. Answered j v hj y \<in> set pre \<and> x - y < SERVED_TASK_TTL_S" if "?outs = pre @ Printed j v hj x # rest" for pre j v hj x rest
    using append_split [OF that]
  proof
    assume "pre = outs \<and> Printed k u hk now = Printed j v hj x"
    moreover have "Answered k u hk t \<in> set outs" using t(1) h by fast
    ultimately show ?thesis using t(2) h by auto
  qed (use h in blast)
  show ?thesis
    unfolding history_ok_def Let_def m using h m(3) cc(1) [OF ok] cc(5) served le less prints by (simp del: set_map)
qed

lemma history_step:
  assumes h: "history_ok outs s" and step: "server_step site i s = (out, s')"
  shows "history_ok (outs @ [out]) s'"
proof -
  let ?st = "mn_served (sv_miner s)"
  have ok: "table_ok ?st" "0 \<le> mn_printing (sv_miner s)" "mn_printing (sv_miner s) \<le> NOTICE_PRINT_SLOTS"
    using h by (auto simp: history_ok_def Let_def)
  have stay: "history_ok (outs @ [Quiet]) s''" if "mn_served (sv_miner s'') = ?st" "0 \<le> mn_printing (sv_miner s'')"
    "mn_printing (sv_miner s'') \<le> NOTICE_PRINT_SLOTS" for s''
    by (rule history_quiet [OF h that(1)]) (use ok that in \<open>auto simp: table_ok_def\<close>)
  show ?thesis
  proof (cases i)
    case (RequestIn hd body ck)
    obtain r m where a: "accept_request site hd body ck (sv_miner s) = (r, m)" by fastforce
    then have "out = Quiet \<and> sv_miner s' = m" using step RequestIn by (auto split: handled.splits prod.splits)
    then show ?thesis using stay [of s'] accept_request_keeps [OF a] ok by simp
  next
    case (SolveEnd j outcome now)
    show ?thesis
    proof (cases "j < length (sv_pending s) \<and> (\<exists>p. outcome = Solved p)")
      case True
      obtain sb t where "sv_pending s ! j = (sb, t)" by fastforce
      then show ?thesis using step SolveEnd True history_answer [OF h] by (auto simp: conclude_request_def)
    next
      case False
      then have "out = Quiet \<and> mn_served (sv_miner s') = ?st \<and> mn_printing (sv_miner s') = mn_printing (sv_miner s)"
        using step SolveEnd by (cases outcome) (auto simp: conclude_request_def split: if_splits prod.splits)
      then show ?thesis using stay [of s'] ok by auto
    qed
  next
    case (NoticeIn hd body ck)
    obtain r m where a: "handle_failure_notice site hd body ck (sv_miner s) = (r, m)" by fastforce
    have m: "sv_miner s' = m" using step NoticeIn a by (auto split: handled.splits option.splits)
    from notice_cases [OF a] show ?thesis
    proof (elim disjE exE conjE)
      fix n c st'
      assume n: "mi_read_notice site body = Some n" "mn_printing (sv_miner s) < NOTICE_PRINT_SLOTS"
        "classify (header_or_empty hd ''Epistula-Signed-By'', fn_challenge_id n, fn_task_id n) (fn_uid n) (fn_hotkey n) (ck_monotonic_s ck) ?st = (c, st')"
        "mn_served m = st'" "mn_printing m = mn_printing (sv_miner s) + (if c = New then 1 else 0)" "(\<exists>l. r = Done (Some l)) \<longleftrightarrow> c = New"
      show ?thesis
      proof (cases "c = New")
        case True
        then have "out = Printed (header_or_empty hd ''Epistula-Signed-By'', fn_challenge_id n, fn_task_id n) (fn_uid n) (fn_hotkey n) (ck_monotonic_s ck)"
          using n(1,6) step NoticeIn a by auto
        then show ?thesis using history_print [OF h, of _ _ _ _ st' s'] n m True by simp
      next
        case False
        then have "out = Quiet" using n(6) step NoticeIn a by (auto split: handled.splits option.splits)
        then show ?thesis
          using history_quiet [OF h, of s' st'] n m False classify_cases [OF n(3) ok(1)] classify_limits [OF n(3)] ok by auto
      qed
    next
      fix code err
      assume "mn_served m = ?st" "mn_printing m = mn_printing (sv_miner s)" "r = Refused code err"
      then show ?thesis using stay [of s'] m ok step NoticeIn a by auto
    qed
  next
    case PrintEnd
    then show ?thesis using step stay [of s'] ok by (auto simp: finished_printing_def)
  next
    case (Refresh v)
    then show ?thesis using step stay [of s'] ok by auto
  qed
qed

lemma history_start: "history_ok [] (server_start v)"
  by (simp add: history_ok_def server_start_def new_served_tasks_def table_ok_def SERVED_TASK_LIMIT_def NOTICE_PRINT_SLOTS_def)

lemma history_reached: "reaches site outs s \<Longrightarrow> history_ok outs s"
  by (induction rule: reaches.induct) (auto intro: history_start history_step)

text \<open>C5. In every run of the server, whatever arrives and however the solving, printing and notices
  interleave: each printed notice is about a task that this miner answered before, for the same
  validator, challenge, task, uid and hotkey, less than 7200 seconds ago; for each task of a
  validator no more notices are printed than answers were given; at most 256 tasks are remembered and
  at most four notices are being printed.\<close>

theorem notices_match_answers:
  assumes "reaches site outs s"
  shows "(\<forall>pre k u hk now rest. outs = pre @ Printed k u hk now # rest \<longrightarrow> (\<exists>t. Answered k u hk t \<in> set pre \<and> now - t < 7200)) \<and>
    (\<forall>k. length (filter (is_print k) outs) \<le> length (filter (is_answer k) outs)) \<and>
    length (st_served (mn_served (sv_miner s))) \<le> 256 \<and> 0 \<le> mn_printing (sv_miner s) \<and> mn_printing (sv_miner s) \<le> 4"
  using history_reached [OF assms] unfolding history_ok_def table_ok_def Let_def SERVED_TASK_TTL_S_def SERVED_TASK_LIMIT_def NOTICE_PRINT_SLOTS_def
  by simp

section \<open>Whose tasks are solved\<close>

lemma index_of_Some: "index_of x xs = Some i \<longleftrightarrow> i < length xs \<and> xs ! i = x \<and> x \<notin> set (take i xs)"
proof (induction xs arbitrary: i)
  case (Cons y ys)
  then show ?case by (cases i) auto
qed simp

lemma authorize_exact:
  "authorize se view signed_by \<longleftrightarrow>
     (\<exists>cv hks uid. view = Some cv \<and> cv_hotkeys cv = Some hks \<and> index_of signed_by hks = Some uid \<and>
        (se_min_stake se > 0 \<longrightarrow> (\<exists>ss s. cv_stakes cv = Some ss \<and> uid < length ss \<and> ss ! uid = Some s \<and> \<not> float_below s (se_min_stake se))) \<and>
        (se_require_permit se \<longrightarrow> (\<exists>ps. cv_permits cv = Some ps \<and> uid < length ps \<and> ps ! uid)))"
  by (auto simp: authorize_def stake_ok_def permit_ok_def nth_option_def split: option.splits if_splits)

text \<open>C6. A task is put to work only if its request is signed for this miner, was not seen within the window
  of the nonce cache, comes from a registered hotkey that satisfies the stake and permit rules (when the
  miner has a view of the chain), is assigned to this miner's hotkey under the released profile,
  and has time left; the time to solve it is bounded by the lease and by the settings.\<close>

theorem accepted_task_trusted:
  assumes "accept_request site h body ck m = (Done (signed_by, t, timeout_s), m')"
  shows "verify_signature (mi_crypto site) h body ALLOWED_DELTA_MS (ck_verified_ms ck) (if mi_address site = [] then None else Some (mi_address site)) \<and>
    h ''Epistula-Signed-By'' = Some signed_by \<and>
    fst (check_and_add (header_or_empty h ''Epistula-Uuid'') (ck_seen_ms ck) (mn_nonces m)) \<and>
    (\<forall>cv. mn_view m = Some cv \<longrightarrow> (\<exists>hks uid. cv_hotkeys cv = Some hks \<and> uid < length hks \<and> hks ! uid = signed_by \<and>
       (se_require_permit (mi_settings site) \<longrightarrow> (\<exists>ps. cv_permits cv = Some ps \<and> uid < length ps \<and> ps ! uid)) \<and>
       (se_min_stake (mi_settings site) > 0 \<longrightarrow>
          (\<exists>ss s. cv_stakes cv = Some ss \<and> uid < length ss \<and> ss ! uid = Some s \<and> \<not> float_below s (se_min_stake (mi_settings site)))))) \<and>
    mi_read_request site body = Some t \<and> slot_hotkey (sub_slot (mt_slots t)) = mi_address site \<and>
    identity_profile (mt_identity t) = v3_execution_profile_id release_policy \<and>
    0 < timeout_s \<and> timeout_s \<le> of_int (mt_expires_at t) - ck_wall_s ck \<and> timeout_s \<le> se_request_timeout_s (mi_settings site)"
proof -
  obtain fresh nonces where nc: "check_and_add (header_or_empty h ''Epistula-Uuid'') (ck_seen_ms ck) (mn_nonces m) = (fresh, nonces)" by fastforce
  note a = assms [unfolded accept_request_def nc prod.case Let_def]
  have v: "verify_signature (mi_crypto site) h body ALLOWED_DELTA_MS (ck_verified_ms ck) (if mi_address site = [] then None else Some (mi_address site))" "fresh"
    using a by (auto split: if_splits)
  have sb: "signed_by = header_or_empty h ''Epistula-Signed-By''" and t: "mi_read_request site body = Some t"
    and task: "slot_hotkey (sub_slot (mt_slots t)) = mi_address site" "identity_profile (mt_identity t) = v3_execution_profile_id release_policy"
    and au: "mn_view m \<noteq> None \<Longrightarrow> authorize (mi_settings site) (mn_view m) signed_by"
    and ti: "timeout_s = min (max 0 (of_int (mt_expires_at t) - ck_wall_s ck)) (se_request_timeout_s (mi_settings site))" "0 < timeout_s"
    using a v by (auto split: if_splits option.splits)
  have "h ''Epistula-Signed-By'' \<noteq> None"
    using v(1) by (auto simp: verify_signature_def required_headers_def split: option.splits)
  then have h: "h ''Epistula-Signed-By'' = Some signed_by" using sb by (auto simp: header_or_empty_def)
  have chain: "\<exists>hks uid. cv_hotkeys cv = Some hks \<and> uid < length hks \<and> hks ! uid = signed_by \<and>
       (se_require_permit (mi_settings site) \<longrightarrow> (\<exists>ps. cv_permits cv = Some ps \<and> uid < length ps \<and> ps ! uid)) \<and>
       (se_min_stake (mi_settings site) > 0 \<longrightarrow>
          (\<exists>ss s. cv_stakes cv = Some ss \<and> uid < length ss \<and> ss ! uid = Some s \<and> \<not> float_below s (se_min_stake (mi_settings site))))"
    if "mn_view m = Some cv" for cv
    using au that unfolding authorize_exact index_of_Some by auto
  show ?thesis using v h t task ti chain nc by auto
qed

section \<open>What a notice can do to the terminal\<close>

lemma length_hex_fixed [simp]: "length (hex_fixed w n) = w"
  by (induction w arbitrary: n) simp_all

lemma hex_digit_inj: "a < 16 \<Longrightarrow> b < 16 \<Longrightarrow> hex_digit a = hex_digit b \<Longrightarrow> a = b"
  by (auto simp: hex_digit_def split: if_splits)

lemma hex_fixed_inj: "n < 16 ^ w \<Longrightarrow> m < 16 ^ w \<Longrightarrow> hex_fixed w n = hex_fixed w m \<Longrightarrow> n = m"
proof (induction w arbitrary: n m)
  case (Suc w)
  then have "n div 16 = m div 16" by (intro Suc.IH) (auto simp: less_mult_imp_div_less mult.commute)
  moreover have "n mod 16 = m mod 16" using Suc.prems(3) hex_digit_inj [of "n mod 16" "m mod 16"] by simp
  ultimately show ?case by (metis div_mult_mod_eq)
qed simp

lemma hex_fixed_plain: "c \<in> set (hex_fixed w n) \<Longrightarrow> 48 \<le> c \<and> c \<le> 102"
proof (induction w arbitrary: n)
  case (Suc w)
  have "48 \<le> hex_digit (n mod 16) \<and> hex_digit (n mod 16) \<le> 102"
    using mod_less_divisor [of 16 n] by (auto simp: hex_digit_def)
  then show ?case using Suc by auto
qed simp

lemma printable_char_plain: "c \<in> set (printable_char x) \<Longrightarrow> 32 \<le> c \<and> c \<le> 126"
proof -
  assume c: "c \<in> set (printable_char x)"
  then consider "c = x" "32 \<le> x" "x \<le> 126" | "c \<in> {92, 120, 117, 85}" | w where "c \<in> set (hex_fixed w x)"
    unfolding printable_char_def by (simp only: set_append list.set split: if_splits) blast+
  then show ?thesis
  proof cases
    case (3 w)
    then show ?thesis using hex_fixed_plain [OF 3] by linarith
  qed auto
qed

lemma printable_plain: "c \<in> set (printable t) \<Longrightarrow> 32 \<le> c \<and> c \<le> 126"
  unfolding printable_def set_concat set_map using printable_char_plain by blast

text \<open>Escapes of two characters other than the backslash never start alike.\<close>

lemma hex_fixed_append_inj:
  "hex_fixed w c @ x = hex_fixed w d @ y \<Longrightarrow> c < 16 ^ w \<Longrightarrow> d < 16 ^ w \<Longrightarrow> c = d \<and> x = y"
  using hex_fixed_inj [of c w d] by (simp add: append_eq_append_conv)

definition escape_class :: "nat \<Rightarrow> nat" where
  "escape_class c = (if c < 256 then 2 else if c \<le> 0xFFFF then 4 else 8)"

lemma printable_char_escape:
  assumes "\<not> (32 \<le> c \<and> c \<le> 126)"
  shows "printable_char c = [92, (if escape_class c = 2 then 120 else if escape_class c = 4 then 117 else 85)] @ hex_fixed (escape_class c) c"
  using assms by (simp only: printable_char_def escape_class_def if_False append.simps split: if_split) simp

lemma printable_char_inj:
  assumes eq: "printable_char c @ x = printable_char d @ y" and "c \<noteq> 92" "d \<noteq> 92" "c < 0x110000" "d < 0x110000"
  shows "c = d \<and> x = y"
proof -
  let ?plain = "\<lambda>c. 32 \<le> c \<and> c \<le> (126 :: nat)"
  have plain: "printable_char a = [a]" if "?plain a" for a unfolding printable_char_def using that by (rule if_P)
  have size: "a < 16 ^ escape_class a" if "a < 0x110000" for a using that by (simp add: escape_class_def)
  show ?thesis
  proof (cases "?plain c"; cases "?plain d")
    assume "?plain c" "?plain d"
    then show ?thesis using eq plain by simp
  next
    assume c: "\<not> ?plain c" and d: "\<not> ?plain d"
    have "escape_class c \<in> {2, 4, 8}" "escape_class d \<in> {2, 4, 8}" by (simp_all add: escape_class_def)
    then have k: "escape_class c = escape_class d"
      using eq unfolding printable_char_escape [OF c] printable_char_escape [OF d] append.simps list.inject
      by (auto split: if_splits)
    have "hex_fixed (escape_class c) c @ x = hex_fixed (escape_class c) d @ y"
      using eq unfolding printable_char_escape [OF c] printable_char_escape [OF d] append.simps list.inject k by blast
    then show ?thesis by (rule hex_fixed_append_inj) (use size assms k in metis)+
  qed (use eq assms plain printable_char_escape in auto)
qed

lemma printable_inj:
  assumes "printable s = printable t" "92 \<notin> set s" "92 \<notin> set t" "\<forall>c \<in> set (s @ t). c < 0x110000"
  shows "s = t"
proof -
  have ne: "printable_char c \<noteq> []" for c by (simp add: printable_char_def)
  show ?thesis
    using assms
  proof (induction s arbitrary: t)
    case Nil
    then show ?case using ne by (cases t) (auto simp: printable_def)
  next
    case (Cons c s)
    then obtain d t' where t: "t = d # t'" using ne by (cases t) (auto simp: printable_def)
    have "c = d \<and> printable s = printable t'"
      using Cons.prems t printable_char_inj [of c "printable s" d "printable t'"] by (simp add: printable_def)
    then show ?case using Cons.IH [of t'] Cons.prems t by simp
  qed
qed

lemma join_split_on: "join_with c (split_on c xs) = xs"
proof (induction xs)
  case (Cons x xs)
  obtain s ss where "split_on c xs = s # ss" by (cases "split_on c xs") (use split_on_ne in auto)
  then show ?case using Cons.IH by (cases ss) auto
qed simp

lemma split_on_members: "s \<in> set (split_on c xs) \<Longrightarrow> set s \<subseteq> set xs"
  by (induction xs arbitrary: s) (auto split: list.splits if_splits, fastforce+)

lemma escape_printed_like_text:
  "is_bounded_display [27]" "is_bounded_display [92, 120, 49, 98]"
  "feedback_lines header (Some [27]) = feedback_lines header (Some [92, 120, 49, 98])"
proof -
  show b: "is_bounded_display [27]" "is_bounded_display [92, 120, 49, 98]"
    by (simp_all add: is_bounded_display_def escaped_bytes_def quote_def ascii_escape_def u_escape_def FAILED_CHECK_MAX_BYTES_def)
  have "printable [27] = printable [92, 120, 49, 98]"
    by (simp add: printable_def printable_char_def hex_digit_def numeral_2_eq_2)
  then show "feedback_lines header (Some [27]) = feedback_lines header (Some [92, 120, 49, 98])"
    using b by (simp add: feedback_lines_def)
qed

text \<open>C29. What is printed for a notice consists of printable ASCII only, whatever the validator sent: it cannot
  reach the terminal with control characters.  A display that a validator may send and that has no
  backslash is printed recoverably: two such displays that give the same lines are the same.  With
  backslashes it is not, against the promise of \<open>printable\<close> that no byte can be hidden: the backslash is
  printed as it is, so the escape character and the four characters \<open>x1b\<close> after a backslash print alike.\<close>

theorem feedback_lines_safe:
  "(\<forall>line \<in> set (feedback_lines header display). \<forall>c \<in> set line. 32 \<le> c \<and> c \<le> 126) \<and>
   (is_bounded_display d \<and> is_bounded_display e \<and> 92 \<notin> set d \<and> 92 \<notin> set e \<and> (\<forall>c \<in> set (d @ e). c < 0x110000) \<and>
      feedback_lines header (Some d) = feedback_lines header (Some e) \<longrightarrow> d = e) \<and>
   (\<exists>d e. is_bounded_display d \<and> is_bounded_display e \<and> d \<noteq> e \<and>
      feedback_lines header (Some d) = feedback_lines header (Some e))"
proof (intro conjI)
  have prefix: "\<forall>c \<in> set feedback_prefix. 32 \<le> c \<and> c \<le> 126" by (simp add: feedback_prefix_def ucs_def)
  have head: "\<forall>c \<in> set (take n (printable t)). 32 \<le> c \<and> c \<le> 126" for n t using printable_plain by (meson in_set_takeD)
  have omitted: "\<forall>c \<in> set (ucs ''  display omitted: larger than a validator may send''). 32 \<le> c \<and> c \<le> 126"
    "\<forall>c \<in> set (ucs ''  ''). 32 \<le> c \<and> c \<le> 126" by (simp_all add: ucs_def)
  show "\<forall>line \<in> set (feedback_lines header display). \<forall>c \<in> set line. 32 \<le> c \<and> c \<le> 126"
  proof
    fix line assume "line \<in> set (feedback_lines header display)"
    then consider "line = feedback_prefix @ take FEEDBACK_PRINT_HEADER_CHARS (printable header)"
      | "line = feedback_prefix @ ucs ''  display omitted: larger than a validator may send''"
      | l where "line = feedback_prefix @ ucs ''  '' @ printable l"
      by (auto simp: feedback_lines_def Let_def split: option.splits if_splits)
    then show "\<forall>c \<in> set line. 32 \<le> c \<and> c \<le> 126"
    proof cases
      case 1
      show ?thesis unfolding 1 set_append using prefix head by blast
    next
      case (3 l)
      show ?thesis using prefix omitted(2) printable_plain [where t = l] unfolding 3 set_append by blast
    qed (use prefix head omitted(1) in \<open>simp_all only: set_append ball_Un simp_thms\<close>)
  qed
  show "is_bounded_display d \<and> is_bounded_display e \<and> 92 \<notin> set d \<and> 92 \<notin> set e \<and> (\<forall>c \<in> set (d @ e). c < 0x110000) \<and>
      feedback_lines header (Some d) = feedback_lines header (Some e) \<longrightarrow> d = e"
  proof (intro impI, elim conjE)
    assume b: "is_bounded_display d" "is_bounded_display e" "92 \<notin> set d" "92 \<notin> set e" "\<forall>c \<in> set (d @ e). c < 0x110000"
      and eq: "feedback_lines header (Some d) = feedback_lines header (Some e)"
    have "d \<noteq> []" "e \<noteq> []" using b(1,2) by (auto simp: is_bounded_display_def)
    then have m: "map printable (split_on 10 d) = map printable (split_on 10 e)"
    proof -
      have "map (\<lambda>line. feedback_prefix @ ucs ''  '' @ printable line) (split_on 10 d) = map (\<lambda>line. feedback_prefix @ ucs ''  '' @ printable line) (split_on 10 e)"
        using eq b(1,2) \<open>d \<noteq> []\<close> \<open>e \<noteq> []\<close> by (simp add: feedback_lines_def)
      from arg_cong [OF this, of "map (drop (length (feedback_prefix @ ucs ''  '')))"] show ?thesis by (simp add: comp_def)
    qed
    have inj: "x = y" if "x \<in> set (split_on 10 d)" "y \<in> set (split_on 10 e)" "printable x = printable y" for x y
      using printable_inj [OF that(3)] split_on_members [OF that(1)] split_on_members [OF that(2)] b(3-5) by (auto simp: subset_iff)
    have "split_on 10 d = split_on 10 e" by (rule list.inj_map_strong [OF inj m])
    then show "d = e" using join_split_on [of 10] by metis
  qed
  show "\<exists>d e. is_bounded_display d \<and> is_bounded_display e \<and> d \<noteq> e \<and>
      feedback_lines header (Some d) = feedback_lines header (Some e)"
    using escape_printed_like_text by (intro exI [of _ "[27]"] exI [of _ "[92, 120, 49, 98]"]) simp
qed

section \<open>Witnesses\<close>

definition val_headers :: "string \<Rightarrow> headers" where
  "val_headers u = headers_of (the (sign_message sim_crypto (Opaque ''val'') ''body'' (Some ''miner'') 5000 u))"

definition demo_task :: miner_task_request where
  "demo_task = task_for lease_example (slots_example 7 ''miner'' ''p7'' ''t7'')"

definition demo_notice :: failure_notice where
  "demo_notice = \<lparr>fn_challenge_id = ''ch'', fn_task_id = digest_a, fn_uid = 7, fn_hotkey = ''miner'',
     fn_failure = \<lparr>fe_reason_code = PASSED, fe_failed_check = None\<rparr>\<rparr>"

definition demo_site :: miner_site where
  "demo_site = \<lparr>mi_address = ''miner'', mi_settings = \<lparr>se_min_stake = 10, se_require_permit = True, se_request_timeout_s = 280,
       se_max_request_bytes = 1000000, se_metagraph_sync_s = 300\<rparr>,
     mi_crypto = sim_crypto, mi_read_request = (\<lambda>_. Some demo_task), mi_read_notice = (\<lambda>_. Some demo_notice)\<rparr>"

definition demo_view :: chain_view where
  "demo_view = \<lparr>cv_hotkeys = Some [''miner'', ''val''], cv_stakes = Some [Some (Fin 0), Some (Fin 50)], cv_permits = Some [False, True]\<rparr>"

definition demo_clocks :: "real \<Rightarrow> clocks" where
  "demo_clocks t = \<lparr>ck_verified_ms = 1000, ck_seen_ms = 1000, ck_wall_s = 1990, ck_monotonic_s = t\<rparr>"

lemma val_headers_ok:
  assumes "u \<noteq> []"
  shows "verify_signature sim_crypto (val_headers u) ''body'' ALLOWED_DELTA_MS 1000 (Some ''miner'')"
    "header_or_empty (val_headers u) ''Epistula-Uuid'' = u" "header_or_empty (val_headers u) ''Epistula-Signed-By'' = ''val''"
proof -
  show "header_or_empty (val_headers u) ''Epistula-Uuid'' = u" "header_or_empty (val_headers u) ''Epistula-Signed-By'' = ''val''"
    by (simp_all add: header_or_empty_def val_headers_def headers_of_def sign_message_def sim_crypto_def Let_def)
  have "sign_message sim_crypto (Opaque ''val'') ''body'' (Some ''miner'') 5000 u =
      Some (the (sign_message sim_crypto (Opaque ''val'') ''body'' (Some ''miner'') 5000 u))"
    by (simp add: sign_message_def sim_crypto_def Let_def)
  from signed_accepted [OF _ _ this assms, where now = 1000 and delta = ALLOWED_DELTA_MS and me = "Some ''miner''"]
  show "verify_signature sim_crypto (val_headers u) ''body'' ALLOWED_DELTA_MS 1000 (Some ''miner'')"
    unfolding val_headers_def by (simp add: sim_crypto_def looks_like_ss58_def ALLOWED_DELTA_MS_def)
qed

lemma demo_authorized: "authorize (mi_settings demo_site) (Some demo_view) ''val''"
  by (simp add: authorize_def stake_ok_def permit_ok_def nth_option_def demo_site_def demo_view_def)

lemma demo_task_fields:
  "slot_hotkey (sub_slot (mt_slots demo_task)) = ''miner''" "slot_uid (sub_slot (mt_slots demo_task)) = 7" "mt_challenge_id demo_task = ''ch''"
  "mt_task_id demo_task = digest_a" "mt_expires_at demo_task = 2000" "identity_profile (mt_identity demo_task) = v3_execution_profile_id release_policy"
  "identity_policy (mt_identity demo_task) = ''command-gold-digest-v1''"
  by (simp_all add: demo_task_def task_for_def lease_example_def slots_example_def slot_example_def identity_example_def release_policy_def)

lemma demo_accept:
  assumes "mn_view m = Some demo_view" "check_and_add ''u1'' 1000 (mn_nonces m) = (True, nc)"
  shows "accept_request demo_site (val_headers ''u1'') ''body'' (demo_clocks t) m = (Done (''val'', demo_task, 10), m\<lparr>mn_nonces := nc\<rparr>)"
  using val_headers_ok [of "''u1''"] demo_authorized demo_task_fields assms
  by (simp add: accept_request_def demo_site_def demo_clocks_def Let_def)

theorem accepted_task_trusted_witness:
  "\<exists>m. accept_request demo_site (val_headers ''u1'') ''body'' (demo_clocks 5) (sv_miner (server_start (Some demo_view))) = (Done (''val'', demo_task, 10), m) \<and>
     mi_read_request demo_site ''body'' = Some demo_task \<and> slot_hotkey (sub_slot (mt_slots demo_task)) = mi_address demo_site \<and> (0 :: real) < 10"
proof -
  have "check_and_add ''u1'' 1000 (mn_nonces (sv_miner (server_start (Some demo_view)))) =
      (True, (new_nonce_cache 8000 100000)\<lparr>nc_seen := [(''u1'', 1000)]\<rparr>)"
    by (simp add: server_start_def check_and_add_def prune_def new_nonce_cache_def Let_def)
  from demo_accept [OF _ this] obtain m where
    "accept_request demo_site (val_headers ''u1'') ''body'' (demo_clocks 5) (sv_miner (server_start (Some demo_view))) = (Done (''val'', demo_task, 10), m)"
    by (simp add: server_start_def)
  from this accepted_task_trusted [OF this] show ?thesis by blast
qed

theorem feedback_lines_safe_witness:
  "list_all (list_all (\<lambda>c. 32 \<le> c \<and> c \<le> 126)) (feedback_lines [27] (Some [27, 10, 0x1F600]))"
  using feedback_lines_safe [of "[27]" "Some [27, 10, 0x1F600]"] by (simp add: list_all_iff)

definition demo_key :: task_key where "demo_key = (''val'', ''ch'', digest_a)"

definition demo_answered :: served_tasks where
  "demo_answered = \<lparr>st_limit = 256, st_ttl_s = 7200, st_served = [(demo_key, 10, 7, ''miner'')], st_answered = {}\<rparr>"

definition demo_nonces :: "string list \<Rightarrow> nonce_cache" where
  "demo_nonces us = \<lparr>nc_window_ms = 8000, nc_max_entries = 100000, nc_seen = map (\<lambda>u. (u, 1000)) us\<rparr>"

definition demo_server :: "string list \<Rightarrow> served_tasks \<Rightarrow> (string \<times> miner_task_request) list \<Rightarrow> server" where
  "demo_server us st pending = \<lparr>sv_miner = \<lparr>mn_view = Some demo_view, mn_nonces = demo_nonces us, mn_served = st, mn_printing = 0\<rparr>, sv_pending = pending\<rparr>"

lemma demo_start: "server_start (Some demo_view) = demo_server [] new_served_tasks []"
  by (simp add: server_start_def demo_server_def demo_nonces_def new_nonce_cache_def)

lemma demo_request:
  "server_step demo_site (RequestIn (val_headers ''u1'') ''body'' (demo_clocks 5)) (demo_server [] new_served_tasks []) =
     (Quiet, demo_server [''u1''] new_served_tasks [(''val'', demo_task)])"
proof -
  have "check_and_add ''u1'' 1000 (demo_nonces []) = (True, demo_nonces [''u1''])"
    by (simp add: check_and_add_def prune_def demo_nonces_def Let_def)
  then show ?thesis
    using demo_accept [of "sv_miner (demo_server [] new_served_tasks [])" "demo_nonces [''u1'']" 5] by (simp add: demo_server_def)
qed

lemma demo_solved:
  "server_step demo_site (SolveEnd 0 (Solved live_answer) 10) (demo_server [''u1''] new_served_tasks [(''val'', demo_task)]) =
     (Answered demo_key 7 ''miner'' 10, demo_server [''u1''] demo_answered [])"
  using demo_task_fields
  by (simp add: demo_server_def conclude_request_def demo_key_def demo_answered_def add_served_def drop_expired_def dict_pop_def
      new_served_tasks_def SERVED_TASK_LIMIT_def SERVED_TASK_TTL_S_def Let_def)

lemma demo_noticed:
  "\<exists>s. server_step demo_site (NoticeIn (val_headers ''u2'') ''body'' (demo_clocks 20)) (demo_server [''u1''] demo_answered []) =
     (Printed demo_key 7 ''miner'' 20, s)"
proof -
  have n: "check_and_add ''u2'' 1000 (demo_nonces [''u1'']) = (True, demo_nonces [''u1'', ''u2''])"
    by (simp add: check_and_add_def prune_def demo_nonces_def Let_def)
  have c: "\<exists>st. classify demo_key 7 ''miner'' 20 demo_answered = (New, st)"
    by (simp add: classify_def drop_expired_def expired_def demo_answered_def Let_def)
  then obtain st where c: "classify (''val'', ''ch'', digest_a) 7 ''miner'' 20 demo_answered = (New, st)" unfolding demo_key_def by blast
  show ?thesis
    using val_headers_ok [of "''u2''"] demo_authorized n c
    by (simp add: handle_failure_notice_def demo_server_def demo_site_def demo_clocks_def demo_notice_def demo_key_def FAILURE_NOTICE_MAX_BYTES_def
        NOTICE_PRINT_SLOTS_def Let_def)
qed

theorem notices_match_answers_witness:
  "\<exists>s. reaches demo_site [Quiet, Answered demo_key 7 ''miner'' 10, Printed demo_key 7 ''miner'' 20] s \<and>
     length (st_served (mn_served (sv_miner s))) \<le> 256 \<and> 0 \<le> mn_printing (sv_miner s) \<and> mn_printing (sv_miner s) \<le> 4"
proof -
  have 1: "reaches demo_site ([] @ [Quiet]) (demo_server [''u1''] new_served_tasks [(''val'', demo_task)])"
    by (rule reaches.step [OF _ demo_request]) (simp add: reaches.start flip: demo_start)
  have 2: "reaches demo_site (([] @ [Quiet]) @ [Answered demo_key 7 ''miner'' 10]) (demo_server [''u1''] demo_answered [])"
    by (rule reaches.step [OF 1 demo_solved])
  obtain s where "server_step demo_site (NoticeIn (val_headers ''u2'') ''body'' (demo_clocks 20)) (demo_server [''u1''] demo_answered []) =
      (Printed demo_key 7 ''miner'' 20, s)" using demo_noticed by blast
  from reaches.step [OF 2 this] have "reaches demo_site [Quiet, Answered demo_key 7 ''miner'' 10, Printed demo_key 7 ''miner'' 20] s" by simp
  from this notices_match_answers [OF this] show ?thesis by blast
qed

end
