(* ===== verification/EndToEnd.thy ===== *)
theory EndToEnd
  imports MinerServer
begin

text \<open>
  Validator and miner together: one call of \<open>LiveSolverClient.solve_v3\<close> against the \<open>/solve\<close> endpoint of
  the reference miner, both as modelled.
\<close>

text \<open>
  The two ends share the cryptography and the JSON of the messages: what one end writes the other reads
  back.  The miner signs with the key of the hotkey its slot names.
\<close>

definition paired :: "client \<Rightarrow> miner_site \<Rightarrow> (miner_task_response \<Rightarrow> bytes) \<Rightarrow> miner_task_request \<Rightarrow> miner_task_response \<Rightarrow> bool" where
  "paired cl site dump task answer \<longleftrightarrow>
     mi_crypto site = cl_crypto cl \<and> mi_address site = cl_hotkey cl \<and> mi_read_request site (cl_encode cl task) = Some task \<and>
     cl_read cl (dump answer) = Some answer \<and> utf8_decode (dump answer) \<noteq> None \<and> dump answer \<noteq> [] \<and>
     cr_have (cl_crypto cl) \<and> looks_like_ss58 (cl_hotkey cl) \<and>
     (\<forall>a m. \<exists>s. cr_sign (cl_crypto cl) a m = Some s \<and> cr_verify (cl_crypto cl) a m s = Some True)"

text \<open>The validator's request as the miner sees it.\<close>

definition request_headers :: "client \<Rightarrow> miner_task_request \<Rightarrow> call \<Rightarrow> headers" where
  "request_headers cl task ca =
     headers_of (the (sign_message (cl_crypto cl) (cl_key cl) (cl_encode cl task) (Some (cl_hotkey cl)) (ca_signed_ms ca) (ca_uuid ca)))"

text \<open>The reply of the miner as the validator receives it.\<close>

definition received :: "http_reply \<Rightarrow> exchange" where
  "received r = Replied \<lparr>mp_status = hr_status r, mp_content_length = None, mp_chunks = [hr_body r],
     mp_headers = (case hr_signed r of None \<Rightarrow> (\<lambda>_. None) | Some e \<Rightarrow> headers_of e)\<rparr>"

lemma sign_message_keypair:
  assumes "paired cl site dump task answer" "k \<in> {Keypair a x, Wallet (Keypair a x)}"
  obtains e where "sign_message (cl_crypto cl) k body for t u = Some e"
proof -
  have "\<exists>s. cr_sign (cl_crypto cl) a m = Some s" for m using assms(1) unfolding paired_def by blast
  then obtain s where "cr_sign (cl_crypto cl) a (signing_message (cr_sha256 (cl_crypto cl) body) u t (case for of None \<Rightarrow> [] | Some r \<Rightarrow> r)) = Some s" by blast
  moreover have "signer_of k = Keypair a x" "cr_have (cl_crypto cl)" using assms by (auto simp: paired_def)
  ultimately show thesis using that by (simp add: sign_message_def Let_def)
qed

lemma signed_headers:
  "sign_message cr k body for t u = Some e \<Longrightarrow> header_or_empty (headers_of e) ''Epistula-Signed-By'' = keypair_address k \<and>
     header_or_empty (headers_of e) ''Epistula-Uuid'' = u"
  by (auto simp: header_or_empty_def headers_of_def sign_message_def Let_def)

text \<open>The miner accepts the validator's request.\<close>

lemma request_accepted:
  assumes p: "paired cl site dump task answer" and key: "cl_key cl \<in> {Keypair a x, Wallet (Keypair a x)}" "looks_like_ss58 a"
    and slot: "slot_hotkey (sub_slot (mt_slots task)) = cl_hotkey cl"
    and clock: "0 \<le> ca_signed_ms ca" "ca_signed_ms ca < 10 ^ 15" "\<bar>ck_verified_ms ck - ca_signed_ms ca\<bar> \<le> ALLOWED_DELTA_MS" "ca_uuid ca \<noteq> []"
    and fresh: "check_and_add (ca_uuid ca) (ck_seen_ms ck) (mn_nonces m) = (True, nc)"
    and allowed: "mn_view m = None \<or> authorize (mi_settings site) (mn_view m) a"
    and policy: "identity_profile (mt_identity task) = v3_execution_profile_id release_policy" "identity_policy (mt_identity task) = ''command-gold-digest-v1''"
    and time: "ck_wall_s ck < of_int (mt_expires_at task)" "0 < se_request_timeout_s (mi_settings site)"
  shows "accept_request site (request_headers cl task ca) (cl_encode cl task) ck m =
    (Done (a, task, min (of_int (mt_expires_at task) - ck_wall_s ck) (se_request_timeout_s (mi_settings site))), m\<lparr>mn_nonces := nc\<rparr>)"
proof -
  obtain e where e: "sign_message (cl_crypto cl) (cl_key cl) (cl_encode cl task) (Some (cl_hotkey cl)) (ca_signed_ms ca) (ca_uuid ca) = Some e"
    by (rule sign_message_keypair [OF p key(1)])
  have pp: "mi_crypto site = cl_crypto cl" "mi_address site = cl_hotkey cl" "mi_read_request site (cl_encode cl task) = Some task"
    "cr_have (cl_crypto cl)" "cl_hotkey cl \<noteq> []"
    using p by (auto simp: paired_def looks_like_ss58_def)
  have scheme: "\<forall>a m s. cr_sign (cl_crypto cl) a m = Some s \<longrightarrow> cr_verify (cl_crypto cl) a m s = Some True"
    using p unfolding paired_def by (metis option.inject)
  have ka: "keypair_address (cl_key cl) = a" using key by (auto simp: looks_like_ss58_def)
  have "verify_signature (cl_crypto cl) (headers_of e) (cl_encode cl task) ALLOWED_DELTA_MS (ck_verified_ms ck) (Some (cl_hotkey cl))"
    by (rule signed_accepted [OF scheme _ e clock(4) clock(1-3), where a = a and x = x]) (use key pp(4) in auto)
  then show ?thesis
    using e pp ka signed_headers [OF e] fresh allowed policy time slot
    by (simp add: accept_request_def request_headers_def Let_def min_def max_def)
qed

lemma add_served_remembers:
  assumes "table_ok st"
  shows "k \<in> set (keys (st_served (add_served k u hk now st)))"
proof -
  let ?st = "drop_expired now st" and ?d = "dict_pop k (st_served (drop_expired now st)) @ [(k, now, u, hk)]"
  have ok: "table_ok ?st" by (rule drop_expired_ok(1) [OF assms])
  obtain d' ans' where e: "evict (st_limit ?st) ?d (st_answered ?st) = (d', ans')" by fastforce
  have "distinct (keys ?d)" "st_answered ?st \<subseteq> set (keys ?d)"
    using ok distinct_dict_pop [of "st_served ?st" k] keys_dict_pop [of k "st_served ?st"] by (auto simp: table_ok_def)
  from evict_ok [OF e this] have "(k, now, u, hk) \<in> set d'" using ok by (simp add: table_ok_def)
  then show ?thesis by (force simp: add_served_def Let_def e)
qed

text \<open>C4. A task travels from the validator to the miner and its answer back.  Take the validator's client and
  the reference miner, with clocks less than eight seconds apart on both ways, an unused nonce, a validator
  that the miner's rules admit, a task of the released profile with time left, and a miner whose solving
  ends with both uploads stored.  Then the endpoint replies with status 200, the client
  returns exactly the response of the uploads with the miner's identity, and the miner remembers the
  task, so that a notice about it is recognised.\<close>

theorem task_round_trip:
  assumes p: "paired cl site dump task answer" and key: "cl_key cl \<in> {Keypair a x, Wallet (Keypair a x)}" "looks_like_ss58 a"
    and slot: "slot_uid (sub_slot (mt_slots task)) = cl_uid cl" "slot_hotkey (sub_slot (mt_slots task)) = cl_hotkey cl"
    and fields: "wire_uid (cl_uid cl)" "bounded_identifier (cl_hotkey cl)" "bounded_identifier (request_id_of cl task)"
    and out_clock: "0 \<le> ca_signed_ms ca" "ca_signed_ms ca < 10 ^ 15" "\<bar>ck_verified_ms ck - ca_signed_ms ca\<bar> \<le> ALLOWED_DELTA_MS" "ca_uuid ca \<noteq> []"
    and back_clock: "0 \<le> now_ms" "now_ms < 10 ^ 15" "\<bar>ca_verified_ms ca - now_ms\<bar> \<le> ALLOWED_DELTA_MS" "uuid \<noteq> []"
    and fresh: "check_and_add (ca_uuid ca) (ck_seen_ms ck) (mn_nonces m) = (True, nc)"
    and allowed: "mn_view m = None \<or> authorize (mi_settings site) (mn_view m) a"
    and policy: "identity_profile (mt_identity task) = v3_execution_profile_id release_policy" "identity_policy (mt_identity task) = ''command-gold-digest-v1''"
    and time: "ck_wall_s ck < of_int (mt_expires_at task)" "0 < se_request_timeout_s (mi_settings site)"
      "ca_started ca" "ca_ended ca" "0 < lease_budget task ca"
    and sent: "read_request_body clen chunks (se_max_request_bytes (mi_settings site)) = Some (cl_encode cl task)"
    and solved: "upload_miner_result origin_of sha put_sub put_trj task submission trajectory origins = Inr answer" "\<And>t. solve task t = Solved answer"
    and size: "length (dump answer) \<le> 16384"
      "\<And>e. sign_message (cl_crypto cl) (Keypair (cl_hotkey cl) y) (dump answer) (Some a) now_ms uuid = Some e \<Longrightarrow>
         list_all (\<lambda>(_, v). utf8_size v \<le> 512) (kept_headers (headers_of e))"
    and table: "table_ok (mn_served m)"
  shows "\<exists>r m'. serve_solve site (Keypair (cl_hotkey cl) y) dump (request_headers cl task ca) clen chunks ck solve end_s now_ms uuid m = (Some r, m') \<and>
    hr_status r = 200 \<and> (a, mt_challenge_id task, mt_task_id task) \<in> set (keys (st_served (mn_served m'))) \<and>
    (ca_exchange ca = received r \<longrightarrow>
      (\<exists>s. solve_v3 cl task ca = Inr (s, Some answer) \<and> ms_uid s = cl_uid cl \<and> ms_hotkey s = cl_hotkey cl \<and> ms_error s = []))"
proof -
  let ?wallet = "Keypair (cl_hotkey cl) y" and ?h = "request_headers cl task ca"
  note acc = request_accepted [OF p key slot(2) out_clock fresh allowed policy time(1,2)]
  obtain e where e: "sign_message (cl_crypto cl) (cl_key cl) (cl_encode cl task) (Some (cl_hotkey cl)) (ca_signed_ms ca) (ca_uuid ca) = Some e"
    by (rule sign_message_keypair [OF p key(1)])
  have ka: "keypair_address (cl_key cl) = a" using key by (auto simp: looks_like_ss58_def)
  obtain e' where e': "sign_message (cl_crypto cl) ?wallet (dump answer) (Some a) now_ms uuid = Some e'"
    by (rule sign_message_keypair [OF p, of ?wallet "cl_hotkey cl" y]) simp
  define r where "r = \<lparr>hr_status = 200, hr_body = dump answer, hr_signed = Some e'\<rparr>"
  define m' where "m' = m\<lparr>mn_nonces := nc, mn_served := add_served (a, mt_challenge_id task, mt_task_id task)
    (slot_uid (sub_slot (mt_slots task))) (slot_hotkey (sub_slot (mt_slots task))) end_s (mn_served m)\<rparr>"
  have cr: "mi_crypto site = cl_crypto cl" using p by (simp add: paired_def)
  have "handle_request site ?h (cl_encode cl task) ck solve end_s m = (Done answer, m')"
    using acc solved(2) by (simp add: handle_request_def conclude_request_def m'_def)
  moreover have "header_or_empty ?h ''Epistula-Signed-By'' = a" using e ka signed_headers [OF e] by (simp add: request_headers_def)
  ultimately have run: "serve_solve site ?wallet dump ?h clen chunks ck solve end_s now_ms uuid m = (Some r, m')"
    using sent e' cr by (simp add: serve_solve_def solve_reply_def r_def)
  have "\<exists>s. solve_v3 cl task ca = Inr (s, Some answer) \<and> ms_uid s = cl_uid cl \<and> ms_hotkey s = cl_hotkey cl \<and> ms_error s = []"
    if x: "ca_exchange ca = received r"
  proof -
    have scheme: "\<forall>a m s. cr_sign (cl_crypto cl) a m = Some s \<longrightarrow> cr_verify (cl_crypto cl) a m s = Some True"
      using p unfolding paired_def by (metis option.inject)
    have pp: "cr_have (cl_crypto cl)" "looks_like_ss58 (cl_hotkey cl)" "cl_read cl (dump answer) = Some answer" "dump answer \<noteq> []"
      using p by (auto simp: paired_def)
    obtain u where u: "utf8_decode (dump answer) = Some u" using p unfolding paired_def by blast
    have w: "answered_with cl task ca e' (dump answer)"
      using x time e by (simp add: answered_with_def received_def r_def)
    have e2: "sign_message (cl_crypto cl) ?wallet (dump answer) (Some (keypair_address (cl_key cl))) now_ms uuid = Some e'" using e' ka by simp
    obtain s where s: "solve_v3 cl task ca = Inr (s, Some answer)" "ms_error s = []"
      using honest_kept [OF slot fields scheme pp(1,2) e2 back_clock(4) back_clock(1-3) w pp(4) size(1) size(2) [OF e'] u pp(3) upload_miner_result_valid [OF solved(1)]]
      by blast
    then show ?thesis using solve_v3_Inr [OF s(1)] by (auto simp: answer_of_def)
  qed
  moreover have "(a, mt_challenge_id task, mt_task_id task) \<in> set (keys (st_served (mn_served m')))"
    using add_served_remembers [OF table] by (simp add: m'_def)
  ultimately show ?thesis using run r_def by auto
qed

section \<open>Witness\<close>

definition e2e_site :: miner_site where
  "e2e_site = demo_site\<lparr>mi_address := address_example, mi_crypto := live_crypto, mi_read_request := (\<lambda>_. Some live_task)\<rparr>"

definition e2e_clocks :: clocks where
  "e2e_clocks = \<lparr>ck_verified_ms = 5000, ck_seen_ms = 5000, ck_wall_s = 1990, ck_monotonic_s = 20\<rparr>"

definition e2e_run :: "http_reply option \<times> miner_state" where
  "e2e_run = serve_solve e2e_site (Keypair address_example []) (\<lambda>_. ''ok'') (request_headers live_base live_task live_call) None [''task''] e2e_clocks
     (\<lambda>_ _. Solved live_answer) 30 5000 ''u2'' (sv_miner (server_start None))"

definition e2e_call :: call where
  "e2e_call = live_call\<lparr>ca_exchange := received (the (fst e2e_run))\<rparr>"

lemma e2e_paired: "paired live_base e2e_site (\<lambda>_. ''ok'') live_task live_answer"
proof -
  have "utf8_decode ''ok'' = Some (ucs ''ok'')" by (rule utf8_decode_ascii) simp
  then show ?thesis using address_example_ok by (simp add: paired_def live_base_def e2e_site_def live_crypto_def)
qed

lemma e2e_upload:
  "upload_miner_result (\<lambda>_. Some ''o'') (\<lambda>c. if length c = 12 then digest_a else digest_b) (\<lambda>_. Status 200) (\<lambda>_. Status 201) live_task
     ''diff content'' ''{}'' {''o''} = Inr live_answer"
  by (simp add: upload_miner_result_def upload_artifact_def live_task_def task_for_def live_slots_def slots_example_def slot_example_def
      live_answer_def lease_example_def eval_nat_numeral)

lemma e2e_fresh:
  "check_and_add (ca_uuid e2e_call) (ck_seen_ms e2e_clocks) (mn_nonces (sv_miner (server_start None))) =
     (True, (new_nonce_cache 8000 100000)\<lparr>nc_seen := [(''u1'', 5000)]\<rparr>)"
  by (simp add: e2e_call_def live_call_def e2e_clocks_def server_start_def check_and_add_def prune_def new_nonce_cache_def Let_def)

lemma e2e_task:
  "identity_profile (mt_identity live_task) = v3_execution_profile_id release_policy" "identity_policy (mt_identity live_task) = ''command-gold-digest-v1''"
  "mt_expires_at live_task = 2000"
  by (simp_all add: live_task_def task_for_def lease_example_def identity_example_def release_policy_def)

theorem task_round_trip_witness:
  "\<exists>s. solve_v3 live_base live_task e2e_call = Inr (s, Some live_answer) \<and> ms_uid s = 7 \<and> ms_hotkey s = address_example \<and> ms_error s = []"
proof -
  have same: "request_headers live_base live_task e2e_call = request_headers live_base live_task live_call"
    by (simp add: request_headers_def e2e_call_def)
  have "\<exists>r m'. serve_solve e2e_site (Keypair (cl_hotkey live_base) []) (\<lambda>_. ''ok'') (request_headers live_base live_task e2e_call) None [''task''] e2e_clocks
      (\<lambda>_ _. Solved live_answer) 30 5000 ''u2'' (sv_miner (server_start None)) = (Some r, m') \<and> hr_status r = 200 \<and>
      (address_example, mt_challenge_id live_task, mt_task_id live_task) \<in> set (keys (st_served (mn_served m'))) \<and>
      (ca_exchange e2e_call = received r \<longrightarrow>
        (\<exists>s. solve_v3 live_base live_task e2e_call = Inr (s, Some live_answer) \<and> ms_uid s = cl_uid live_base \<and> ms_hotkey s = cl_hotkey live_base \<and> ms_error s = []))"
  proof (rule task_round_trip [where a = address_example and x = "[]", OF e2e_paired _ address_example_ok live_example_fields _ _ _ _ _ _ _ _ e2e_fresh _ e2e_task(1,2) _ _ _ _ _ _ e2e_upload])
    show "read_request_body None [''task''] (se_max_request_bytes (mi_settings e2e_site)) = Some (cl_encode live_base live_task)"
      by (simp add: read_request_body_def e2e_site_def demo_site_def live_base_def)
    show "table_ok (mn_served (sv_miner (server_start None)))" using history_start [of None] by (simp add: history_ok_def Let_def)
    show "list_all (\<lambda>(_, v). utf8_size v \<le> 512) (kept_headers (headers_of e))"
      if "sign_message (cl_crypto live_base) (Keypair (cl_hotkey live_base) []) ''ok'' (Some address_example) 5000 ''u2'' = Some e" for e
      using that live_epistula_fields by (simp add: live_base_def)
  qed (use e2e_task(3) in \<open>simp_all add: live_base_def e2e_call_def live_call_def e2e_clocks_def ALLOWED_DELTA_MS_def server_start_def e2e_site_def demo_site_def
      lease_budget_def SOLVE_DEADLINE_GRACE_S_def COMMIT_RESERVE_S_def\<close>)
  then obtain r m' where r: "e2e_run = (Some r, m')"
    "ca_exchange e2e_call = received r \<longrightarrow>
        (\<exists>s. solve_v3 live_base live_task e2e_call = Inr (s, Some live_answer) \<and> ms_uid s = cl_uid live_base \<and> ms_hotkey s = cl_hotkey live_base \<and> ms_error s = [])"
    unfolding same e2e_run_def by (auto simp: live_base_def)
  have "ca_exchange e2e_call = received r" unfolding e2e_call_def r(1) by simp
  moreover have "cl_uid live_base = 7" "cl_hotkey live_base = address_example" by (simp_all add: live_base_def)
  ultimately show ?thesis using r(2) by simp
qed

end
