(* ===== verification/Notices.thy ===== *)
theory Notices
  imports EndToEnd
begin

text \<open>
  What a validator tells others after a round: a notice to every graded miner
  (\<open>src/rlvr/neurons/feedback_sender.py\<close>) and tickets for a sample of the trajectories
  (\<open>trace_check.py\<close>).  What the network does with each post is a parameter.  The lemmas show that
  every notice is a valid message that tells a graded miner its own verdict, that failures go first, and
  that a miner that answered recognises the notice.
\<close>

section \<open>Notices\<close>

definition NOTICE_MAX_RECIPIENTS :: nat where "NOTICE_MAX_RECIPIENTS = 1024"

definition notice_with :: "string \<Rightarrow> string \<Rightarrow> int \<Rightarrow> string \<Rightarrow> explanation_reason \<Rightarrow> ustring option \<Rightarrow> failure_notice" where
  "notice_with challenge task uid hotkey code display =
     \<lparr>fn_challenge_id = challenge, fn_task_id = task, fn_uid = uid, fn_hotkey = hotkey,
      fn_failure = \<lparr>fe_reason_code = code, fe_failed_check = display\<rparr>\<rparr>"

definition notice_code :: "eval_status \<Rightarrow> reason_code option \<Rightarrow> explanation_reason option" where
  "notice_code status reason =
     (case status of
        EvalPassed \<Rightarrow> Some PASSED
      | EvalAbandoned \<Rightarrow> None
      | _ \<Rightarrow> Some (case reason of Some (MinerCode r) \<Rightarrow> Miner r | _ \<Rightarrow> EVALUATION_FAILED))"

text \<open>The attempts of \<open>build_notice\<close>: with the display, then without.\<close>

fun first_valid :: "(ustring option \<Rightarrow> failure_notice) \<Rightarrow> ustring option list \<Rightarrow> failure_notice option" where
  "first_valid build [] = None"
| "first_valid build (d # ds) = (if check_failure_notice (build d) = Inr () then Some (build d) else first_valid build ds)"

definition build_notice ::
  "string \<Rightarrow> string \<Rightarrow> int \<Rightarrow> string \<Rightarrow> eval_status \<Rightarrow> reason_code option \<Rightarrow> stage option \<Rightarrow> ustring option \<Rightarrow> bool \<Rightarrow> failure_notice option" where
  "build_notice challenge task uid hotkey status reason stage failed_check include_details =
     (case notice_code status reason of
        None \<Rightarrow> None
      | Some code \<Rightarrow>
          let display = (if include_details \<and> code = Miner CHECK_FAILED \<and> stage = Some S_CHECK then failed_check else None) in
          first_valid (notice_with challenge task uid hotkey code) (if display \<noteq> None then [display, None] else [None]))"

definition reason_only :: "failure_notice \<Rightarrow> failure_notice" where
  "reason_only n = n\<lparr>fn_failure := \<lparr>fe_reason_code = fe_reason_code (fn_failure n), fe_failed_check = None\<rparr>\<rparr>"

definition notice_for :: "string \<Rightarrow> string \<Rightarrow> bool \<Rightarrow> miner_evaluation \<Rightarrow> failure_notice option" where
  "notice_for challenge task include_details e =
     build_notice challenge task (me_uid e) (me_hotkey e) (ev_status (me_result e)) (ev_reason_code (me_result e))
       (ev_stage (me_result e)) (ev_failed_check (me_result e)) include_details"

text \<open>The loop over the evaluations: the registrations seen so far and the jobs.\<close>

fun collect_jobs ::
  "string \<Rightarrow> string \<Rightarrow> bool \<Rightarrow> (int \<times> string) list \<Rightarrow> (int \<times> string) list \<Rightarrow> miner_evaluation list \<Rightarrow> (int \<times> string) list \<Rightarrow> failure_notice list" where
  "collect_jobs challenge task include_details assigned solvers [] seen = []"
| "collect_jobs challenge task include_details assigned solvers (e # es) seen =
     (if registration e \<in> set seen \<or> registration e \<notin> set assigned \<or> registration e \<notin> set solvers
      then collect_jobs challenge task include_details assigned solvers es seen
      else case notice_for challenge task include_details e of
        None \<Rightarrow> collect_jobs challenge task include_details assigned solvers es seen
      | Some n \<Rightarrow> n # collect_jobs challenge task include_details assigned solvers es (registration e # seen))"

definition tells_pass :: "failure_notice \<Rightarrow> nat" where
  "tells_pass n = (if fe_reason_code (fn_failure n) = PASSED then 1 else 0)"

definition notice_jobs :: "round_result \<Rightarrow> (int \<times> string) list \<Rightarrow> bool \<Rightarrow> failure_notice list" where
  "notice_jobs result solvers include_details =
     (if rr_status result \<noteq> Completed then []
      else case (rr_challenge_id result, rr_task_id result) of
        (Some (c # challenge), Some (t # task)) \<Rightarrow>
          take NOTICE_MAX_RECIPIENTS (sort_key tells_pass
            (collect_jobs (c # challenge) (t # task) include_details (rr_assigned_miners result) solvers (rr_evaluations result) []))
      | _ \<Rightarrow> [])"

text \<open>One post: its status, or an error (also when the time of the notice or of the batch is over).\<close>

datatype post_end = PostStatus int | PostError

text \<open>The notices posted to one miner, and whether one was accepted.\<close>

definition deliver :: "failure_notice \<Rightarrow> post_end \<Rightarrow> post_end \<Rightarrow> failure_notice list \<times> bool" where
  "deliver n first second =
     (case first of
        PostError \<Rightarrow> ([n], False)
      | PostStatus status \<Rightarrow>
          if (status = 400 \<or> status = 413) \<and> fe_failed_check (fn_failure n) \<noteq> None
          then ([n, reason_only n], second = PostStatus 200)
          else ([n], status = 200))"

text \<open>\<open>send_failure_notices\<close>: everything posted, and the number of notices accepted.\<close>

definition send_failure_notices :: "round_result \<Rightarrow> (int \<times> string) list \<Rightarrow> bool \<Rightarrow> (nat \<Rightarrow> post_end \<times> post_end) \<Rightarrow> failure_notice list \<times> nat" where
  "send_failure_notices result solvers include_details net =
     (let ends = map (\<lambda>(i, n). deliver n (fst (net i)) (snd (net i))) (enumerate 0 (notice_jobs result solvers include_details)) in
      (concat (map fst ends), length (filter snd ends)))"

section \<open>Trace checks\<close>

definition DRAW_SCALE :: int where "DRAW_SCALE = 1000000"

definition selected :: "real \<Rightarrow> int \<Rightarrow> bool" where
  "selected rate draw \<longleftrightarrow> draw < \<lfloor>rate * of_int DRAW_SCALE\<rfloor>"

primrec status_text :: "eval_status \<Rightarrow> string" where
  "status_text EvalPassed = ''passed''"
| "status_text EvalFailed = ''failed''"
| "status_text EvalRejected = ''rejected''"
| "status_text EvalAbandoned = ''abandoned''"

text \<open>One draw per evaluation with a trajectory, in order.\<close>

fun collect_tickets :: "string \<Rightarrow> string \<Rightarrow> real \<Rightarrow> (nat \<Rightarrow> int) \<Rightarrow> nat \<Rightarrow> miner_evaluation list \<Rightarrow> trace_check_request list" where
  "collect_tickets challenge task rate draws i [] = []"
| "collect_tickets challenge task rate draws i (e # es) =
     (case me_trajectory e of
        None \<Rightarrow> collect_tickets challenge task rate draws i es
      | Some ref \<Rightarrow>
          if \<not> selected rate (draws i) then collect_tickets challenge task rate draws (Suc i) es
          else let ticket = \<lparr>tc_challenge_id = challenge, tc_task_id = task, tc_uid = me_uid e, tc_hotkey = me_hotkey e, tc_trajectory = ref,
                     tc_submission_status = status_text (ev_status (me_result e))\<rparr> in
            if check_trace_check_request ticket \<noteq> Inr () then collect_tickets challenge task rate draws (Suc i) es
            else ticket # collect_tickets challenge task rate draws (Suc i) es)"

definition trace_tickets :: "round_result \<Rightarrow> string \<Rightarrow> string \<Rightarrow> real \<Rightarrow> (nat \<Rightarrow> int) \<Rightarrow> trace_check_request list" where
  "trace_tickets result url service_hotkey rate draws =
     (if \<not> prefix ''https://'' url \<or> service_hotkey = [] \<or> rate \<le> 0 \<or> rr_status result \<noteq> Completed then []
      else case (rr_challenge_id result, rr_task_id result) of
        (Some (c # challenge), Some (t # task)) \<Rightarrow> collect_tickets (c # challenge) (t # task) rate draws 0 (rr_evaluations result)
      | _ \<Rightarrow> [])"

definition send_trace_checks :: "round_result \<Rightarrow> string \<Rightarrow> string \<Rightarrow> real \<Rightarrow> (nat \<Rightarrow> int) \<Rightarrow> (nat \<Rightarrow> post_end) \<Rightarrow> trace_check_request list \<times> nat" where
  "send_trace_checks result url service_hotkey rate draws net =
     (let tickets = trace_tickets result url service_hotkey rate draws in
      (tickets, length (filter (\<lambda>i. net i = PostStatus 200) [0..<length tickets])))"

section \<open>What the miners are told\<close>

text \<open>A notice that is true of an evaluation.\<close>

definition truthful :: "string \<Rightarrow> string \<Rightarrow> bool \<Rightarrow> miner_evaluation \<Rightarrow> failure_notice \<Rightarrow> bool" where
  "truthful challenge task include_details e n \<longleftrightarrow>
     fn_challenge_id n = challenge \<and> fn_task_id n = task \<and> (fn_uid n, fn_hotkey n) = registration e \<and>
     check_failure_notice n = Inr () \<and> ev_status (me_result e) \<noteq> EvalAbandoned \<and>
     (fe_reason_code (fn_failure n) = PASSED \<longleftrightarrow> ev_status (me_result e) = EvalPassed) \<and>
     (\<forall>r. fe_reason_code (fn_failure n) = Miner r \<longrightarrow> ev_reason_code (me_result e) = Some (MinerCode r)) \<and>
     (\<forall>d. fe_failed_check (fn_failure n) = Some d \<longrightarrow> include_details \<and> ev_failed_check (me_result e) = Some d \<and>
        ev_reason_code (me_result e) = Some (MinerCode CHECK_FAILED) \<and> ev_stage (me_result e) = Some S_CHECK)"

lemma notice_code_Some:
  "notice_code status reason = Some code \<Longrightarrow> status \<noteq> EvalAbandoned \<and> (code = PASSED \<longleftrightarrow> status = EvalPassed) \<and>
     (\<forall>r. code = Miner r \<longrightarrow> reason = Some (MinerCode r))"
  by (auto simp: notice_code_def split: eval_status.splits option.splits reason_code.splits)

lemma first_valid_Some: "first_valid build ds = Some n \<Longrightarrow> \<exists>d \<in> set ds. n = build d \<and> check_failure_notice n = Inr ()"
  by (induction ds) (auto split: if_splits)

lemma notice_for_truthful:
  assumes "notice_for challenge task include_details e = Some n"
  shows "truthful challenge task include_details e n"
proof -
  obtain code where c: "notice_code (ev_status (me_result e)) (ev_reason_code (me_result e)) = Some code"
    using assms by (auto simp: notice_for_def build_notice_def split: option.splits)
  let ?display = "if include_details \<and> code = Miner CHECK_FAILED \<and> ev_stage (me_result e) = Some S_CHECK then ev_failed_check (me_result e) else None"
  from assms c obtain d where d: "d \<in> {?display, None}" "n = notice_with challenge task (me_uid e) (me_hotkey e) code d" "check_failure_notice n = Inr ()"
    by (auto simp: notice_for_def build_notice_def Let_def dest!: first_valid_Some split: if_splits)
  then show ?thesis
    using notice_code_Some [OF c] by (auto simp: truthful_def notice_with_def registration_def split: if_splits)
qed

lemma collect_jobs_Cons:
  obtains "collect_jobs challenge task inc assigned solvers (e # es) seen = collect_jobs challenge task inc assigned solvers es seen"
  | n where "collect_jobs challenge task inc assigned solvers (e # es) seen = n # collect_jobs challenge task inc assigned solvers es (registration e # seen)"
      "truthful challenge task inc e n" "registration e \<in> set assigned" "registration e \<in> set solvers" "registration e \<notin> set seen"
proof (cases "registration e \<in> set seen \<or> registration e \<notin> set assigned \<or> registration e \<notin> set solvers")
  case False
  show ?thesis
  proof (cases "notice_for challenge task inc e")
    case (Some n)
    then show ?thesis using that(2) [of n] notice_for_truthful [OF Some] False by auto
  qed (use that(1) False in auto)
qed (use that(1) in auto)

lemma collect_jobs_member:
  "n \<in> set (collect_jobs challenge task inc assigned solvers es seen) \<Longrightarrow>
     \<exists>e \<in> set es. registration e \<in> set assigned \<and> registration e \<in> set solvers \<and> registration e \<notin> set seen \<and>
       truthful challenge task inc e n"
proof (induction es arbitrary: seen)
  case (Cons e es)
  show ?case
    by (rule collect_jobs_Cons [of challenge task inc assigned solvers e es seen]) (use Cons in \<open>(fastforce simp del: collect_jobs.simps)+\<close>)
qed simp

lemma collect_jobs_distinct: "distinct (map (\<lambda>n. (fn_uid n, fn_hotkey n)) (collect_jobs challenge task inc assigned solvers es seen))"
proof (induction es arbitrary: seen)
  case (Cons e es)
  show ?case
  proof (rule collect_jobs_Cons [of challenge task inc assigned solvers e es seen])
    fix n
    assume n: "collect_jobs challenge task inc assigned solvers (e # es) seen = n # collect_jobs challenge task inc assigned solvers es (registration e # seen)"
      "truthful challenge task inc e n"
    have "(fn_uid k, fn_hotkey k) \<noteq> registration e" if "k \<in> set (collect_jobs challenge task inc assigned solvers es (registration e # seen))" for k
      using collect_jobs_member [OF that] by (auto simp: truthful_def)
    moreover have "(fn_uid n, fn_hotkey n) = registration e" using n(2) by (simp add: truthful_def)
    ultimately have "(fn_uid n, fn_hotkey n) \<notin> (\<lambda>k. (fn_uid k, fn_hotkey k)) ` set (collect_jobs challenge task inc assigned solvers es (registration e # seen))"
      by (metis (no_types, lifting) imageE)
    then show ?thesis unfolding n(1) using Cons [of "registration e # seen"] by simp
  qed (use Cons in \<open>simp del: collect_jobs.simps\<close>)
qed simp

lemma notice_jobs_eq:
  assumes "notice_jobs result solvers inc \<noteq> []"
  obtains challenge task where "rr_status result = Completed" "rr_challenge_id result = Some challenge" "rr_task_id result = Some task"
    "notice_jobs result solvers inc = take NOTICE_MAX_RECIPIENTS (sort_key tells_pass
       (collect_jobs challenge task inc (rr_assigned_miners result) solvers (rr_evaluations result) []))"
  using assms that by (auto simp: notice_jobs_def split: if_splits option.splits list.splits)

lemma deliver_posts: "set (fst (deliver n a b)) \<subseteq> {n, reason_only n}"
  by (auto simp: deliver_def split: post_end.splits)

lemma sent_of_job:
  assumes "n \<in> set (fst (send_failure_notices result solvers inc net))"
  shows "\<exists>j \<in> set (notice_jobs result solvers inc). n = j \<or> n = reason_only j"
proof -
  obtain i j where "(i, j) \<in> set (enumerate 0 (notice_jobs result solvers inc))" "n \<in> set (fst (deliver j (fst (net i)) (snd (net i))))"
    using assms by (auto simp: send_failure_notices_def Let_def)
  moreover from this(1) have "j \<in> set (notice_jobs result solvers inc)" using nth_mem by (fastforce simp: in_set_enumerate_eq)
  ultimately show ?thesis using deliver_posts [of j "fst (net i)" "snd (net i)"] by blast
qed

lemma reason_only_truthful: "truthful challenge task inc e n \<Longrightarrow> truthful challenge task inc e (reason_only n)"
  by (auto simp: truthful_def reason_only_def check_failure_notice_def check_failure_explanation_def split: if_splits option.splits)

text \<open>C7. What a validator tells the miners is true.  Whatever the network does, notices are sent only after a
  completed round; each posted notice is a valid message with the challenge and task of the round, for
  a registration that was assigned, is served and was graded, and it says \<open>passed\<close> exactly if that
  miner passed, a reason only if it is the reason of its evaluation, and a display only if details are
  allowed and it is the display of its own failed check.  At most 1024 miners get one, none two, and
  failures come before passes.\<close>

theorem notices_truthful:
  "(\<forall>n \<in> set (fst (send_failure_notices result solvers inc net)).
      rr_status result = Completed \<and>
      (\<exists>e \<in> set (rr_evaluations result). registration e \<in> set (rr_assigned_miners result) \<and> registration e \<in> set solvers \<and>
         truthful (the (rr_challenge_id result)) (the (rr_task_id result)) inc e n)) \<and>
   length (notice_jobs result solvers inc) \<le> 1024 \<and>
   distinct (map (\<lambda>n. (fn_uid n, fn_hotkey n)) (notice_jobs result solvers inc)) \<and>
   sorted (map tells_pass (notice_jobs result solvers inc))"
proof (cases "notice_jobs result solvers inc = []")
  case True
  then have "fst (send_failure_notices result solvers inc net) = []" by (simp add: send_failure_notices_def)
  then show ?thesis using True by simp
next
  case False
  obtain challenge task where c: "rr_status result = Completed" "rr_challenge_id result = Some challenge" "rr_task_id result = Some task"
    "notice_jobs result solvers inc = take NOTICE_MAX_RECIPIENTS (sort_key tells_pass
       (collect_jobs challenge task inc (rr_assigned_miners result) solvers (rr_evaluations result) []))"
    by (rule notice_jobs_eq [OF False])
  let ?jobs = "collect_jobs challenge task inc (rr_assigned_miners result) solvers (rr_evaluations result) []"
  have sub: "set (notice_jobs result solvers inc) \<subseteq> set ?jobs" unfolding c(4) by (metis set_take_subset set_sort)
  have "rr_status result = Completed \<and>
      (\<exists>e \<in> set (rr_evaluations result). registration e \<in> set (rr_assigned_miners result) \<and> registration e \<in> set solvers \<and>
         truthful (the (rr_challenge_id result)) (the (rr_task_id result)) inc e n)"
    if n: "n \<in> set (fst (send_failure_notices result solvers inc net))" for n
  proof -
    obtain j where j: "j \<in> set ?jobs" "n = j \<or> n = reason_only j" using sent_of_job [OF n] sub by blast
    from collect_jobs_member [OF j(1)] show ?thesis using j(2) c(1-3) reason_only_truthful by auto
  qed
  moreover have "distinct (map (\<lambda>n. (fn_uid n, fn_hotkey n)) (sort_key tells_pass ?jobs)) \<longleftrightarrow> distinct (map (\<lambda>n. (fn_uid n, fn_hotkey n)) ?jobs)"
    by (rule mset_eq_imp_distinct_iff) simp
  then have "distinct (map (\<lambda>n. (fn_uid n, fn_hotkey n)) (notice_jobs result solvers inc))"
    unfolding c(4) take_map [symmetric] using collect_jobs_distinct distinct_take by blast
  moreover have "sorted (map tells_pass (notice_jobs result solvers inc))"
    unfolding c(4) take_map [symmetric] by (rule sorted_wrt_take [OF sorted_sort_key])
  moreover have "length (notice_jobs result solvers inc) \<le> 1024" unfolding c(4) by (simp add: NOTICE_MAX_RECIPIENTS_def)
  ultimately show ?thesis by blast
qed

lemma collect_tickets_member:
  "tk \<in> set (collect_tickets challenge task rate draws i es) \<Longrightarrow>
     check_trace_check_request tk = Inr () \<and> tc_challenge_id tk = challenge \<and> tc_task_id tk = task \<and>
     (\<exists>e \<in> set es. (tc_uid tk, tc_hotkey tk) = registration e \<and> me_trajectory e = Some (tc_trajectory tk) \<and>
        tc_submission_status tk = status_text (ev_status (me_result e)))"
proof (induction es arbitrary: i)
  case (Cons e es)
  show ?case
  proof (cases "tk \<in> set (collect_tickets challenge task rate draws i es) \<or> tk \<in> set (collect_tickets challenge task rate draws (Suc i) es)")
    case True
    then show ?thesis using Cons.IH by fastforce
  next
    case False
    then show ?thesis using Cons.prems by (auto simp: Let_def registration_def split: option.splits if_splits)
  qed
qed simp

definition graded_example :: "int \<Rightarrow> string \<Rightarrow> eval_status \<Rightarrow> miner_evaluation" where
  "graded_example uid hk status = \<lparr>me_uid = uid, me_hotkey = hk, me_latency_ms = 5,
     me_result = \<lparr>ev_status = status, ev_reason = (if status = EvalPassed then [] else ucs ''failed''), ev_checks = [], ev_script_exit_code = None,
       ev_reason_code = (if status = EvalPassed then None else Some (MinerCode CHECK_FAILED)),
       ev_stage = (if status = EvalPassed then None else Some S_CHECK), ev_failed_check = (if status = EvalPassed then None else Some (ucs ''1'')) \<rparr>,
     me_grading_duration_ms = 7, me_trajectory = None\<rparr>"

definition told_round :: round_result where
  "told_round = \<lparr>rr_status = Completed, rr_reason = [], rr_evaluations = [graded_example 3 ''h3'' EvalPassed, graded_example 7 ''h7'' EvalFailed],
     rr_retry_after_s = None, rr_reason_code = None, rr_stage = None, rr_challenge_id = Some ''ch'', rr_task_id = Some digest_a,
     rr_assigned_miners = [(3, ''h3''), (7, ''h7'')], rr_diagnostic_evaluations = [], rr_dispatch_failures = [], rr_checks_total = None\<rparr>"

lemma told_first: "length (notice_jobs told_round [(3, ''h3''), (7, ''h7'')] False) = 2"
proof -
  obtain c task where t: "digest_a = c # task" by (simp add: digest_a_def eval_nat_numeral)
  have "hex_digest (c # task)" using digest_examples(1) t by simp
  then show ?thesis
    by (simp add: notice_jobs_def told_round_def t graded_example_def registration_def notice_for_def build_notice_def notice_code_def notice_with_def
        check_failure_notice_def check_failure_explanation_def field_defs NOTICE_MAX_RECIPIENTS_def)
qed

theorem notices_truthful_witness:
  "length (fst (send_failure_notices told_round [(3, ''h3''), (7, ''h7'')] False (\<lambda>_. (PostStatus 200, PostError)))) = 2 \<and>
   rr_status told_round = Completed \<and> sorted (map tells_pass (notice_jobs told_round [(3, ''h3''), (7, ''h7'')] False))"
proof -
  have "fst (send_failure_notices told_round [(3, ''h3''), (7, ''h7'')] False (\<lambda>_. (PostStatus 200, PostError))) = notice_jobs told_round [(3, ''h3''), (7, ''h7'')] False"
  proof -
    have "concat (map fst (map (\<lambda>(i, n). deliver n (PostStatus 200) PostError) (enumerate k ns))) = ns" for k and ns :: "failure_notice list"
      by (induction ns arbitrary: k) (simp_all add: deliver_def)
    then show ?thesis by (simp add: send_failure_notices_def Let_def del: map_map)
  qed
  then show ?thesis using notices_truthful [of told_round "[(3, ''h3''), (7, ''h7'')]" False "\<lambda>_. (PostStatus 200, PostError)"] told_first
    by (simp add: told_round_def)
qed

end
