(* ===== verification/Trajectory.thy ===== *)
theory Trajectory
  imports PyText Files
begin

text \<open>
  The record of how a miner reached its submission (\<open>src/rlvr/v3/trajectory.py\<close>): canonical Base64, the
  events, the checks on a whole trajectory, and its canonical encoding.  The lemmas show that the
  accepted Base64 texts are exactly the encodings, that the checks on the events accept exactly the
  well-formed trajectories, and that encoding and parsing are inverse.
\<close>

section \<open>Base64\<close>

definition base64_alphabet :: string where
  "base64_alphabet = ''ABCDEFGHIJKLMNOPQRSTUVWXYZabcdefghijklmnopqrstuvwxyz0123456789+/''"

definition enc6 :: "nat \<Rightarrow> char" where
  "enc6 n = base64_alphabet ! n"

definition dec6 :: "char \<Rightarrow> nat option" where
  "dec6 c = (case filter (\<lambda>n. base64_alphabet ! n = c) [0..<64] of [] \<Rightarrow> None | n # _ \<Rightarrow> Some n)"

abbreviation pad :: char where "pad \<equiv> CHR ''=''"

fun b64encode_nats :: "nat list \<Rightarrow> string" where
  "b64encode_nats [] = []"
| "b64encode_nats [a] = [enc6 (a div 4), enc6 (a mod 4 * 16), pad, pad]"
| "b64encode_nats [a, b] = [enc6 (a div 4), enc6 (a mod 4 * 16 + b div 16), enc6 (b mod 16 * 4), pad]"
| "b64encode_nats (a # b # c # bs) =
     enc6 (a div 4) # enc6 (a mod 4 * 16 + b div 16) # enc6 (b mod 16 * 4 + c div 64) # enc6 (c mod 64) # b64encode_nats bs"

definition b64encode :: "bytes \<Rightarrow> string" where
  "b64encode bs = b64encode_nats (map of_char bs)"

text \<open>
  \<open>b64decode(value, validate=True)\<close>: groups of four, padding only at the end.  Bits that the last
  group has beyond its bytes are ignored.
\<close>

fun b64decode_nats :: "string \<Rightarrow> nat list option" where
  "b64decode_nats [] = Some []"
| "b64decode_nats (w # x # y # z # rest) =
     (case (dec6 w, dec6 x) of
        (Some p, Some q) \<Rightarrow>
          if y = pad \<and> z = pad \<and> rest = [] then Some [p * 4 + q div 16]
          else (case dec6 y of
            None \<Rightarrow> None
          | Some r \<Rightarrow>
              if z = pad \<and> rest = [] then Some [p * 4 + q div 16, q mod 16 * 16 + r div 4]
              else (case dec6 z of
                None \<Rightarrow> None
              | Some s \<Rightarrow>
                  map_option (\<lambda>bs. (p * 4 + q div 16) # (q mod 16 * 16 + r div 4) # (r mod 4 * 64 + s) # bs) (b64decode_nats rest)))
      | _ \<Rightarrow> None)"
| "b64decode_nats _ = None"

definition b64decode :: "string \<Rightarrow> bytes option" where
  "b64decode v = map_option (map char_of) (b64decode_nats v)"

definition canonical_base64 :: "string \<Rightarrow> string + string" where
  "canonical_base64 v =
     (case b64decode v of
        None \<Rightarrow> Inl ''invalid Base64''
      | Some d \<Rightarrow> if b64encode d \<noteq> v then Inl ''Base64 must use canonical padded encoding'' else Inr v)"

section \<open>Events\<close>

datatype token_id = IntId int | TextId ustring

record token_alternative =
  alt_bytes :: string
  alt_id :: "token_id option"
  alt_logprob :: "pyfloat option"

record generated_token =
  gt_bytes :: string
  gt_id :: "token_id option"
  gt_logprob :: pyfloat
  gt_top :: "token_alternative list"

record model_turn =
  tn_request :: string
  tn_response :: string
  tn_generated :: string
  tn_reasoning :: ustring
  tn_output :: ustring
  tn_tokens :: "generated_token list"

datatype failure_kind = TRANSPORT_ERROR | HTTP_ERROR | PROVIDER_REJECTED

record model_failure =
  mf_request :: string
  mf_response :: "string option"
  mf_kind :: failure_kind
  mf_status :: "int option"

datatype event_body =
    ModelTurn model_turn
  | ModelFailure model_failure
  | ToolCall ustring ustring string
  | ToolResult ustring string bool
  | FinalSubmission string

record trajectory_event =
  ev_sequence :: int
  ev_body :: event_body

record trajectory =
  tr_schema_version :: int
  tr_task_id :: string
  tr_challenge_id :: string
  tr_miner_hotkey :: string
  tr_submission_sha256 :: string
  tr_harness_name :: ustring
  tr_harness_version :: ustring
  tr_model_provider :: ustring
  tr_model_name :: ustring
  tr_events :: "trajectory_event list"

section \<open>Fields\<close>

text \<open>The declared field constraints; the messages of the validation library are not modelled.\<close>

definition base64_field :: "nat \<Rightarrow> string \<Rightarrow> bool" where
  "base64_field limit v \<longleftrightarrow> length v \<le> limit \<and> canonical_base64 v = Inr v"

definition small_text :: "ustring \<Rightarrow> bool" where
  "small_text v \<longleftrightarrow> 1 \<le> length v \<and> length v \<le> 256"

fun token_id_ok :: "token_id option \<Rightarrow> bool" where
  "token_id_ok (Some (IntId i)) \<longleftrightarrow> - SAFE_INTEGER_MAX \<le> i \<and> i \<le> SAFE_INTEGER_MAX"
| "token_id_ok _ \<longleftrightarrow> True"

definition alternative_ok :: "token_alternative \<Rightarrow> bool" where
  "alternative_ok a \<longleftrightarrow> base64_field 65536 (alt_bytes a) \<and> token_id_ok (alt_id a) \<and>
     (case alt_logprob a of None \<Rightarrow> True | Some p \<Rightarrow> is_finite p)"

definition token_ok :: "generated_token \<Rightarrow> bool" where
  "token_ok g \<longleftrightarrow> base64_field 65536 (gt_bytes g) \<and> token_id_ok (gt_id g) \<and> is_finite (gt_logprob g) \<and>
     length (gt_top g) = 5 \<and> list_all alternative_ok (gt_top g)"

definition TRACE_EVIDENCE_REQUIRED :: bool where "TRACE_EVIDENCE_REQUIRED = False"

definition validate_evidence :: "model_turn \<Rightarrow> bool" where
  "validate_evidence m \<longleftrightarrow>
     \<not> (TRACE_EVIDENCE_REQUIRED \<and> tn_reasoning m = []) \<and> \<not> (TRACE_EVIDENCE_REQUIRED \<and> tn_tokens m = [])"

definition validate_generated_bytes :: "model_turn \<Rightarrow> bool" where
  "validate_generated_bytes m \<longleftrightarrow>
     tn_tokens m = [] \<or>
     b64encode (concat (map (\<lambda>g. the (b64decode (gt_bytes g))) (tn_tokens m))) = tn_generated m"

definition MiB :: nat where "MiB = 1024 * 1024"

definition turn_ok :: "model_turn \<Rightarrow> bool" where
  "turn_ok m \<longleftrightarrow> base64_field (64 * MiB) (tn_request m) \<and> base64_field (128 * MiB) (tn_response m) \<and>
     base64_field (64 * MiB) (tn_generated m) \<and> length (tn_reasoning m) \<le> 64 * MiB \<and> length (tn_output m) \<le> 64 * MiB \<and>
     length (tn_tokens m) \<le> 250000 \<and> list_all token_ok (tn_tokens m) \<and> validate_evidence m \<and> validate_generated_bytes m"

definition validate_failure :: "model_failure \<Rightarrow> bool" where
  "validate_failure f \<longleftrightarrow>
     (if mf_kind f = TRANSPORT_ERROR then mf_response f = None \<and> mf_status f = None
      else mf_response f \<noteq> None \<and> mf_status f \<noteq> None)"

definition failure_ok :: "model_failure \<Rightarrow> bool" where
  "failure_ok f \<longleftrightarrow> base64_field (64 * MiB) (mf_request f) \<and>
     (case mf_response f of None \<Rightarrow> True | Some v \<Rightarrow> base64_field (128 * MiB) v) \<and>
     (case mf_status f of None \<Rightarrow> True | Some s \<Rightarrow> 100 \<le> s \<and> s \<le> 599) \<and> validate_failure f"

fun body_ok :: "event_body \<Rightarrow> bool" where
  "body_ok (ModelTurn m) \<longleftrightarrow> turn_ok m"
| "body_ok (ModelFailure f) \<longleftrightarrow> failure_ok f"
| "body_ok (ToolCall call_id tool_name input) \<longleftrightarrow> small_text call_id \<and> small_text tool_name \<and> base64_field (64 * MiB) input"
| "body_ok (ToolResult call_id result is_error) \<longleftrightarrow> small_text call_id \<and> base64_field (128 * MiB) result"
| "body_ok (FinalSubmission sha) \<longleftrightarrow> hex_digest sha"

definition event_ok :: "trajectory_event \<Rightarrow> bool" where
  "event_ok e \<longleftrightarrow> 0 \<le> ev_sequence e \<and> ev_sequence e \<le> 2 ^ 31 - 1 \<and> body_ok (ev_body e)"

definition trajectory_fields :: "trajectory \<Rightarrow> bool" where
  "trajectory_fields t \<longleftrightarrow> tr_schema_version t = 1 \<and> hex_digest (tr_task_id t) \<and> bounded_identifier (tr_challenge_id t) \<and>
     bounded_identifier (tr_miner_hotkey t) \<and> hex_digest (tr_submission_sha256 t) \<and> small_text (tr_harness_name t) \<and>
     small_text (tr_harness_version t) \<and> small_text (tr_model_provider t) \<and> small_text (tr_model_name t) \<and>
     4 \<le> length (tr_events t) \<and> length (tr_events t) \<le> 100000 \<and> list_all event_ok (tr_events t)"

section \<open>The events as a whole\<close>

fun is_turn :: "event_body \<Rightarrow> bool" where
  "is_turn (ModelTurn _) = True"
| "is_turn _ = False"

fun final_sha :: "event_body \<Rightarrow> string option" where
  "final_sha (FinalSubmission sha) = Some sha"
| "final_sha _ = None"

text \<open>The loop that collects calls and results with their sequence numbers.\<close>

fun collect_calls ::
  "trajectory_event list \<Rightarrow> (ustring, int) dict \<Rightarrow> (ustring, int) dict \<Rightarrow> string + (ustring, int) dict \<times> (ustring, int) dict" where
  "collect_calls [] calls results = Inr (calls, results)"
| "collect_calls (e # es) calls results =
     (case ev_body e of
        ToolCall call_id _ _ \<Rightarrow>
          if call_id \<in> set (keys calls) then Inl ''tool call IDs must be unique''
          else collect_calls es (calls @ [(call_id, ev_sequence e)]) results
      | ToolResult call_id _ _ \<Rightarrow>
          if call_id \<in> set (keys results) then Inl ''tool calls must have exactly one result''
          else collect_calls es calls (results @ [(call_id, ev_sequence e)])
      | _ \<Rightarrow> collect_calls es calls results)"

fun alternatives_of :: "event_body \<Rightarrow> pyfloat option list" where
  "alternatives_of (ModelTurn m) = concat (map (\<lambda>g. map alt_logprob (gt_top g)) (tn_tokens m))"
| "alternatives_of _ = []"

definition enough_finite :: "pyfloat option list \<Rightarrow> bool" where
  "enough_finite alternatives \<longleftrightarrow>
     \<not> length (filter (\<lambda>v. case v of None \<Rightarrow> False | Some p \<Rightarrow> is_finite p) alternatives) * 100 < length alternatives * 85"

definition validate_events :: "trajectory \<Rightarrow> string + unit" where
  "validate_events t =
     (let es = tr_events t; finals = List.map_filter (final_sha \<circ> ev_body) es in
      if map ev_sequence es \<noteq> map int [0..<length es] then Inl ''event sequences must start at zero and be contiguous''
      else if \<not> list_ex (is_turn \<circ> ev_body) es then Inl ''trajectory requires a model turn''
      else if length finals \<noteq> 1 \<or> final_sha (ev_body (last es)) = None
        then Inl ''trajectory requires one final submission as its last event''
      else if hd finals \<noteq> tr_submission_sha256 t then Inl ''final submission hash does not match trajectory''
      else case collect_calls es [] [] of
        Inl e \<Rightarrow> Inl e
      | Inr (calls, results) \<Rightarrow>
          if calls = [] \<or> set (keys calls) \<noteq> set (keys results) then Inl ''every tool call must have exactly one result''
          else if list_ex (\<lambda>(call_id, n). the (map_of results call_id) \<le> n) calls then Inl ''tool results must follow their calls''
          else if \<not> enough_finite (concat (map (alternatives_of \<circ> ev_body) es))
            then Inl ''at least 85% of alternative logprobs must be finite''
          else Inr ())"

definition validate_trajectory :: "trajectory \<Rightarrow> bool" where
  "validate_trajectory t \<longleftrightarrow> trajectory_fields t \<and> validate_events t = Inr ()"

section \<open>Encoding and parsing\<close>

text \<open>
  \<open>dumps\<close> is RFC 8785 encoding of a validated trajectory, \<open>None\<close> when it raises; \<open>read\<close> is
  \<open>json.loads\<close> followed by the typed reading of the fields, without their constraints.
\<close>

fun unique_object :: "(string \<times> 'v) list \<Rightarrow> (string, 'v) dict \<Rightarrow> string + (string, 'v) dict" where
  "unique_object [] result = Inr result"
| "unique_object ((key, v) # pairs) result =
     (if key \<in> set (keys result) then Inl ''trajectory contains a duplicate key''
      else unique_object pairs (result @ [(key, v)]))"

datatype read_outcome = RepeatedKey | Unreadable | Read trajectory

definition serialize_trajectory :: "(trajectory \<Rightarrow> bytes option) \<Rightarrow> trajectory \<Rightarrow> string + bytes" where
  "serialize_trajectory dumps t =
     (case dumps t of None \<Rightarrow> Inl ''trajectory cannot be canonicalized'' | Some raw \<Rightarrow> Inr raw)"

definition parse_trajectory :: "(trajectory \<Rightarrow> bytes option) \<Rightarrow> (bytes \<Rightarrow> read_outcome) \<Rightarrow> bytes \<Rightarrow> string + trajectory" where
  "parse_trajectory dumps read raw =
     (if raw = [] \<or> prefix [CHR 0xEF, CHR 0xBB, CHR 0xBF] raw
        then Inl ''trajectory must be nonempty UTF-8 JSON without a BOM''
      else case read raw of
        RepeatedKey \<Rightarrow> Inl ''trajectory contains a duplicate key''
      | Unreadable \<Rightarrow> Inl ''invalid trajectory''
      | Read t \<Rightarrow>
          if \<not> validate_trajectory t then Inl ''invalid trajectory''
          else (case serialize_trajectory dumps t of
            Inl e \<Rightarrow> Inl e
          | Inr again \<Rightarrow> if again \<noteq> raw then Inl ''trajectory is not canonical JCS'' else Inr t))"

section \<open>Base64 texts\<close>

lemma alphabet_distinct: "distinct base64_alphabet"
  by (simp add: base64_alphabet_def)

lemma alphabet_length: "length base64_alphabet = 64"
  by (simp add: base64_alphabet_def)

lemma filter_one: "distinct xs \<Longrightarrow> n \<in> set xs \<Longrightarrow> filter (\<lambda>k. k = n) xs = [n]"
  by (induction xs) (auto simp: filter_empty_conv)

lemma dec6_enc6 [simp]:
  assumes "n < 64"
  shows "dec6 (enc6 n) = Some n"
proof -
  have "filter (\<lambda>k. base64_alphabet ! k = base64_alphabet ! n) [0..<64] = filter (\<lambda>k. k = n) [0..<64]"
    using assms alphabet_distinct alphabet_length by (intro filter_cong) (auto simp: nth_eq_iff_index_eq)
  also have "\<dots> = [n]" using assms by (intro filter_one) auto
  finally show ?thesis by (simp add: dec6_def enc6_def)
qed

lemma dec6_bound: "dec6 c = Some n \<Longrightarrow> n < 64 \<and> enc6 n = c"
proof -
  assume "dec6 c = Some n"
  then obtain ns where "filter (\<lambda>n. base64_alphabet ! n = c) [0..<64] = n # ns" by (auto simp: dec6_def split: list.splits)
  then have "n \<in> set (filter (\<lambda>n. base64_alphabet ! n = c) [0..<64])" by simp
  then show ?thesis by (simp add: enc6_def)
qed

lemma pad_not_enc6 [simp]: "n < 64 \<Longrightarrow> enc6 n \<noteq> pad"
proof -
  assume "n < 64"
  then have "enc6 n \<in> set base64_alphabet" by (simp add: enc6_def alphabet_length)
  then show ?thesis by (auto simp: base64_alphabet_def)
qed

lemma decode_encode_nats: "list_all (\<lambda>b. b < 256) bs \<Longrightarrow> b64decode_nats (b64encode_nats bs) = Some bs"
  by (induction bs rule: b64encode_nats.induct) auto

lemma of_char_bound: "(of_char c :: nat) < 256"
  using range_nat_of_char by (metis atLeastLessThan_iff rangeI)

lemma b64decode_encode [simp]: "b64decode (b64encode bs) = Some bs"
proof -
  have "list_all (\<lambda>b. b < 256) (map of_char bs :: nat list)" by (simp add: list.pred_map list_all_iff of_char_bound)
  then show ?thesis by (simp add: b64decode_def b64encode_def decode_encode_nats map_idI)
qed

lemma canonical_iff: "canonical_base64 v = Inr v \<longleftrightarrow> (\<exists>bs. v = b64encode bs)"
  by (auto simp: canonical_base64_def split: option.splits)

section \<open>Well-formed event sequences\<close>

fun call_id_of :: "event_body \<Rightarrow> ustring option" where
  "call_id_of (ToolCall call_id _ _) = Some call_id"
| "call_id_of _ = None"

fun result_id_of :: "event_body \<Rightarrow> ustring option" where
  "result_id_of (ToolResult call_id _ _) = Some call_id"
| "result_id_of _ = None"

text \<open>Event \<open>i\<close> has the key \<open>k\<close>.\<close>

definition occurs :: "(event_body \<Rightarrow> 'k option) \<Rightarrow> trajectory_event list \<Rightarrow> 'k \<Rightarrow> nat \<Rightarrow> bool" where
  "occurs f es k i \<longleftrightarrow> i < length es \<and> f (ev_body (es ! i)) = Some k"

text \<open>
  The reference: numbered from zero, a model turn, the trajectory's final submission last and
  nowhere else, at least one tool call, each call id used by one call and one later result and each
  result for a call, and enough finite log probabilities.
\<close>

definition well_formed :: "trajectory \<Rightarrow> bool" where
  "well_formed t \<longleftrightarrow>
     (let es = tr_events t; calls = occurs call_id_of es; results = occurs result_id_of es in
      (\<forall>i < length es. ev_sequence (es ! i) = int i) \<and>
      (\<exists>i < length es. is_turn (ev_body (es ! i))) \<and>
      (\<forall>i < length es. final_sha (ev_body (es ! i)) = (if Suc i = length es then Some (tr_submission_sha256 t) else None)) \<and>
      (\<exists>k i. calls k i) \<and>
      (\<forall>k i. calls k i \<longrightarrow> (\<forall>j. calls k j \<longrightarrow> j = i) \<and> (\<exists>j > i. results k j \<and> (\<forall>l. results k l \<longrightarrow> l = j))) \<and>
      (\<forall>k j. results k j \<longrightarrow> (\<exists>i < j. calls k i)) \<and>
      enough_finite (concat (map (alternatives_of \<circ> ev_body) es)))"

definition keyed :: "(event_body \<Rightarrow> 'k option) \<Rightarrow> trajectory_event list \<Rightarrow> ('k, int) dict" where
  "keyed f es = List.map_filter (\<lambda>e. map_option (\<lambda>k. (k, ev_sequence e)) (f (ev_body e))) es"

lemma keyed_simps [simp]:
  "keyed f [] = []"
  "keyed f (e # es) = (case f (ev_body e) of None \<Rightarrow> [] | Some k \<Rightarrow> [(k, ev_sequence e)]) @ keyed f es"
  by (auto simp: keyed_def map_filter_simps split: option.splits)

lemma collect_calls_iff:
  "distinct (keys calls) \<Longrightarrow> distinct (keys results) \<Longrightarrow>
   collect_calls es calls results = Inr p \<longleftrightarrow>
     distinct (keys (calls @ keyed call_id_of es)) \<and> distinct (keys (results @ keyed result_id_of es)) \<and>
     p = (calls @ keyed call_id_of es, results @ keyed result_id_of es)"
proof (induction es arbitrary: calls results)
  case (Cons e es)
  show ?case
  proof (cases "ev_body e")
    case (ToolCall k name input)
    then show ?thesis using Cons.prems Cons.IH [of "calls @ [(k, ev_sequence e)]" results] by auto
  next
    case (ToolResult k result err)
    then show ?thesis using Cons.prems Cons.IH [of calls "results @ [(k, ev_sequence e)]"] by auto
  qed (use Cons in simp_all)
qed auto

lemma all_nat: "(\<forall>i. P i) \<longleftrightarrow> P 0 \<and> (\<forall>i. P (Suc i))"
  by (metis not0_implies_Suc)

lemma at_simps [simp]:
  "\<not> occurs f [] k i" "occurs f (e # es) k 0 \<longleftrightarrow> f (ev_body e) = Some k" "occurs f (e # es) k (Suc i) \<longleftrightarrow> occurs f es k i"
  by (auto simp: occurs_def)

lemma at_keys: "k \<in> set (keys (keyed f es)) \<longleftrightarrow> (\<exists>i. occurs f es k i)"
proof (induction es)
  case (Cons e es)
  have "(\<exists>i. occurs f (e # es) k i) \<longleftrightarrow> f (ev_body e) = Some k \<or> (\<exists>i. occurs f es k i)"
    using all_nat [of "\<lambda>i. \<not> occurs f (e # es) k i"] by auto
  then show ?case using Cons by (auto split: option.splits)
qed simp

lemma unique_nat:
  "(\<forall>i j. P i \<longrightarrow> P j \<longrightarrow> i = j) \<longleftrightarrow> (P 0 \<longrightarrow> (\<forall>i. \<not> P (Suc i))) \<and> (\<forall>i j. P (Suc i) \<longrightarrow> P (Suc j) \<longrightarrow> i = j)"
proof (intro iffI allI impI)
  fix i j
  assume "(P 0 \<longrightarrow> (\<forall>i. \<not> P (Suc i))) \<and> (\<forall>i j. P (Suc i) \<longrightarrow> P (Suc j) \<longrightarrow> i = j)" "P i" "P j"
  then show "i = j" by (cases i; cases j) auto
qed auto

lemma distinct_keyed:
  "distinct (keys (keyed f es)) \<longleftrightarrow> (\<forall>k i j. occurs f es k i \<longrightarrow> occurs f es k j \<longrightarrow> i = j)"
proof (induction es)
  case (Cons e es)
  have "(\<forall>k i j. occurs f (e # es) k i \<longrightarrow> occurs f (e # es) k j \<longrightarrow> i = j) \<longleftrightarrow>
      (\<forall>k. (f (ev_body e) = Some k \<longrightarrow> (\<forall>i. \<not> occurs f es k i)) \<and>
        (\<forall>i j. occurs f es k i \<longrightarrow> occurs f es k j \<longrightarrow> i = j))"
    by (subst unique_nat) simp
  also have "\<dots> \<longleftrightarrow> (\<forall>k. f (ev_body e) = Some k \<longrightarrow> k \<notin> set (keys (keyed f es))) \<and> distinct (keys (keyed f es))"
    unfolding Cons.IH at_keys by blast
  finally show ?case by (auto split: option.splits)
qed simp

lemma keyed_at:
  assumes "\<forall>i < length es. ev_sequence (es ! i) = int i"
  shows "(k, n) \<in> set (keyed f es) \<longleftrightarrow> (\<exists>i. n = int i \<and> occurs f es k i)"
proof -
  have "(k, n) \<in> set (keyed f es) \<longleftrightarrow> (\<exists>e \<in> set es. f (ev_body e) = Some k \<and> ev_sequence e = n)"
    by (induction es) (auto split: option.splits)
  also have "\<dots> \<longleftrightarrow> (\<exists>i. n = int i \<and> occurs f es k i)"
    using assms by (force simp: occurs_def in_set_conv_nth)
  finally show ?thesis .
qed

lemma map_filter_empty: "List.map_filter f xs = [] \<longleftrightarrow> (\<forall>x \<in> set xs. f x = None)"
  by (induction xs) (auto simp: map_filter_simps split: option.splits)

lemma map_filter_append: "List.map_filter f (xs @ ys) = List.map_filter f xs @ List.map_filter f ys"
  by (simp add: List.map_filter_def)

lemma final_last:
  assumes "es \<noteq> []"
  shows "length (List.map_filter f es) = 1 \<and> f (last es) \<noteq> None \<and> hd (List.map_filter f es) = sha \<longleftrightarrow>
    (\<forall>i < length es. f (es ! i) = (if Suc i = length es then Some sha else None))"
proof -
  obtain xs e where es: "es = xs @ [e]" using assms by (cases es rule: rev_cases) auto
  have "(\<forall>i < length es. f (es ! i) = (if Suc i = length es then Some sha else None)) \<longleftrightarrow>
      f e = Some sha \<and> (\<forall>i < length xs. f (xs ! i) = None)"
    unfolding es by (auto simp: nth_append less_Suc_eq)
  also have "\<dots> \<longleftrightarrow> f e = Some sha \<and> List.map_filter f xs = []"
    by (auto simp: map_filter_empty all_set_conv_all_nth)
  finally show ?thesis unfolding es by (auto simp: map_filter_append map_filter_simps split: option.splits)
qed

lemma numbered_iff: "map ev_sequence es = map int [0..<length es] \<longleftrightarrow> (\<forall>i < length es. ev_sequence (es ! i) = int i)"
  by (subst list_eq_iff_nth_eq) auto

lemma pairing_logic:
  fixes C R :: "'k \<Rightarrow> nat \<Rightarrow> bool"
  shows "(\<forall>k i j. C k i \<longrightarrow> C k j \<longrightarrow> i = j) \<and> (\<forall>k i j. R k i \<longrightarrow> R k j \<longrightarrow> i = j) \<and> (\<exists>k i. C k i) \<and>
      (\<forall>k. (\<exists>i. C k i) = (\<exists>i. R k i)) \<and> (\<forall>k i j. C k i \<longrightarrow> R k j \<longrightarrow> i < j) \<longleftrightarrow>
    (\<exists>k i. C k i) \<and> (\<forall>k i. C k i \<longrightarrow> (\<forall>j. C k j \<longrightarrow> j = i) \<and> (\<exists>j > i. R k j \<and> (\<forall>l. R k l \<longrightarrow> l = j))) \<and>
    (\<forall>k j. R k j \<longrightarrow> (\<exists>i < j. C k i))" (is "?L \<longleftrightarrow> ?R")
proof (rule iffI)
  assume l: ?L
  then have one: "\<And>k i j. C k i \<Longrightarrow> C k j \<Longrightarrow> i = j" "\<And>k i j. R k i \<Longrightarrow> R k j \<Longrightarrow> i = j"
    and some: "\<exists>k i. C k i" and dom: "\<And>k. (\<exists>i. C k i) = (\<exists>i. R k i)"
    and before: "\<And>k i j. C k i \<Longrightarrow> R k j \<Longrightarrow> i < j" by blast+
  have "\<exists>j > i. R k j \<and> (\<forall>l. R k l \<longrightarrow> l = j)" if c: "C k i" for k i
  proof -
    obtain j where j: "R k j" using dom [of k] c by blast
    show ?thesis using before [OF c j] one(2) [OF _ j] j by blast
  qed
  moreover have "\<exists>i < j. C k i" if r: "R k j" for k j
  proof -
    obtain i where i: "C k i" using dom [of k] r by blast
    show ?thesis using before [OF i r] i by blast
  qed
  moreover have "j = i" if "C k i" "C k j" for k i j using one(1) that by blast
  ultimately show ?R using some by simp
next
  assume r: ?R
  then have some: "\<exists>k i. C k i" and one: "\<And>k i j. C k i \<Longrightarrow> C k j \<Longrightarrow> j = i"
    and res: "\<And>k i. C k i \<Longrightarrow> \<exists>j > i. R k j \<and> (\<forall>l. R k l \<longrightarrow> l = j)" and call: "\<And>k j. R k j \<Longrightarrow> \<exists>i < j. C k i" by blast+
  have "i = j" if rr: "R k i" "R k j" for k i j
  proof -
    obtain c where "C k c" using call [OF rr(1)] by blast
    then obtain m where "\<forall>l. R k l \<longrightarrow> l = m" using res by blast
    then show ?thesis using rr by blast
  qed
  moreover have "i < j" if cr: "C k i" "R k j" for k i j
  proof -
    obtain m where "m > i" "\<forall>l. R k l \<longrightarrow> l = m" using res [OF cr(1)] by blast
    then show ?thesis using cr(2) by blast
  qed
  moreover have "(\<exists>i. C k i) = (\<exists>i. R k i)" for k using res call by blast
  moreover have "i = j" if "C k i" "C k j" for k i j using one that by blast
  ultimately show ?L using some by simp
qed

text \<open>The calls and results of numbered events, as positions.\<close>

lemma paired_iff:
  assumes n: "\<forall>i < length es. ev_sequence (es ! i) = int i"
  shows "(\<exists>calls results. collect_calls es [] [] = Inr (calls, results) \<and> calls \<noteq> [] \<and> set (keys calls) = set (keys results) \<and>
      (\<forall>(k, m) \<in> set calls. \<not> the (map_of results k) \<le> m)) \<longleftrightarrow>
    (\<exists>k i. occurs call_id_of es k i) \<and>
    (\<forall>k i. occurs call_id_of es k i \<longrightarrow> (\<forall>j. occurs call_id_of es k j \<longrightarrow> j = i) \<and>
       (\<exists>j > i. occurs result_id_of es k j \<and> (\<forall>l. occurs result_id_of es k l \<longrightarrow> l = j))) \<and>
    (\<forall>k j. occurs result_id_of es k j \<longrightarrow> (\<exists>i < j. occurs call_id_of es k i))"
    (is "?L \<longleftrightarrow> ?R")
proof -
  let ?cs = "keyed call_id_of es" and ?rs = "keyed result_id_of es"
  let ?later = "\<forall>k i j. occurs call_id_of es k i \<longrightarrow> occurs result_id_of es k j \<longrightarrow> i < j"
  have ne: "?cs \<noteq> [] \<longleftrightarrow> (\<exists>k i. occurs call_id_of es k i)"
    unfolding at_keys [symmetric] by (cases ?cs) auto
  have later: "(\<forall>(k, m) \<in> set ?cs. \<not> the (map_of ?rs k) \<le> m) \<longleftrightarrow> ?later"
    if d: "distinct (keys ?rs)" and eq: "set (keys ?cs) = set (keys ?rs)"
  proof -
    have m: "map_of ?rs k = Some (int j) \<longleftrightarrow> occurs result_id_of es k j" for k j
      using d keyed_at [OF n, of k "int j" result_id_of] by simp
    have ex: "\<exists>j. occurs result_id_of es k j" if "occurs call_id_of es k i" for k i
      using eq that unfolding set_eq_iff at_keys by blast
    show ?thesis
    proof (intro iffI allI impI)
      fix k i j
      assume a: "\<forall>(k, m) \<in> set ?cs. \<not> the (map_of ?rs k) \<le> m" and o: "occurs call_id_of es k i" "occurs result_id_of es k j"
      have "(k, int i) \<in> set ?cs" using o(1) keyed_at [OF n, of k "int i" call_id_of] by simp
      then have "\<not> the (map_of ?rs k) \<le> int i" using a by blast
      then show "i < j" using o(2) m [of k j] by simp
    next
      assume l: ?later
      show "\<forall>(k, m) \<in> set ?cs. \<not> the (map_of ?rs k) \<le> m"
      proof safe
        fix k m
        assume "(k, m) \<in> set ?cs" and le: "the (map_of ?rs k) \<le> m"
        then obtain i where i: "m = int i" "occurs call_id_of es k i" using keyed_at [OF n, of k m call_id_of] by blast
        then obtain j where j: "occurs result_id_of es k j" using ex by blast
        then have "int j \<le> int i" using le i(1) m [of k j] by simp
        then show False using l i(2) j by force
      qed
    qed
  qed
  have "?L \<longleftrightarrow> distinct (keys ?cs) \<and> distinct (keys ?rs) \<and> ?cs \<noteq> [] \<and> set (keys ?cs) = set (keys ?rs) \<and>
      (\<forall>(k, m) \<in> set ?cs. \<not> the (map_of ?rs k) \<le> m)"
    by (simp add: collect_calls_iff)
  also have "\<dots> \<longleftrightarrow> distinct (keys ?cs) \<and> distinct (keys ?rs) \<and> ?cs \<noteq> [] \<and> set (keys ?cs) = set (keys ?rs) \<and> ?later"
    using later by blast
  also have "\<dots> \<longleftrightarrow> ?R"
    unfolding distinct_keyed ne set_eq_iff at_keys by (rule pairing_logic)
  finally show ?thesis .
qed

lemma validate_events_steps:
  "validate_events t = Inr () \<longleftrightarrow>
     (let es = tr_events t; finals = List.map_filter (final_sha \<circ> ev_body) es in
      map ev_sequence es = map int [0..<length es] \<and> list_ex (is_turn \<circ> ev_body) es \<and>
      (length finals = 1 \<and> (final_sha \<circ> ev_body) (last es) \<noteq> None \<and> hd finals = tr_submission_sha256 t) \<and>
      (\<exists>calls results. collect_calls es [] [] = Inr (calls, results) \<and> calls \<noteq> [] \<and> set (keys calls) = set (keys results) \<and>
         (\<forall>(k, m) \<in> set calls. \<not> the (map_of results k) \<le> m)) \<and>
      enough_finite (concat (map (alternatives_of \<circ> ev_body) es)))"
  by (auto simp: validate_events_def Let_def list_ex_iff split: sum.splits prod.splits if_splits)

lemma validate_events_iff:
  assumes "tr_events t \<noteq> []"
  shows "validate_events t = Inr () \<longleftrightarrow> well_formed t"
proof -
  let ?es = "tr_events t"
  have turn: "list_ex (is_turn \<circ> ev_body) ?es \<longleftrightarrow> (\<exists>i < length ?es. is_turn (ev_body (?es ! i)))"
    by (simp add: list_ex_length)
  show ?thesis
  proof (cases "\<forall>i < length ?es. ev_sequence (?es ! i) = int i")
    case True
    show ?thesis
      unfolding validate_events_steps well_formed_def Let_def numbered_iff turn final_last [OF assms] paired_iff [OF True]
      by (simp only: o_apply conj_assoc)
  next
    case False
    then show ?thesis unfolding validate_events_steps well_formed_def Let_def numbered_iff by blast
  qed
qed

text \<open>C32. What a trajectory may contain: Base64 fields are exactly the padded encodings of bytes, and a
  trajectory whose fields are in range is accepted exactly when its events are numbered from zero, hold a
  model turn, end with the only final submission, which is the trajectory's, have at least one tool
  call, each call id with exactly one call and exactly one result, which comes later, no result
  without a call, and at least 85 percent finite alternatives.\<close>

theorem trajectory_checks_exact:
  "(canonical_base64 v = Inr v \<longleftrightarrow> (\<exists>bs. v = b64encode bs \<and> b64decode v = Some bs)) \<and>
   (validate_trajectory t \<longleftrightarrow> trajectory_fields t \<and> well_formed t)"
proof -
  have "tr_events t \<noteq> []" if "trajectory_fields t" using that by (auto simp: trajectory_fields_def)
  then show ?thesis using canonical_iff [of v] validate_events_iff [of t] by (auto simp: validate_trajectory_def)
qed

text \<open>A small trajectory that passes every check.\<close>

definition turn_example :: model_turn where
  "turn_example = \<lparr>tn_request = b64encode ''{}'', tn_response = b64encode ''{}'', tn_generated = b64encode [], tn_reasoning = [],
     tn_output = ucs ''x'', tn_tokens = []\<rparr>"

definition trajectory_example :: trajectory where
  "trajectory_example = \<lparr>tr_schema_version = 1, tr_task_id = digest_a, tr_challenge_id = ''ch'', tr_miner_hotkey = ''h'',
     tr_submission_sha256 = digest_a, tr_harness_name = ucs ''n'', tr_harness_version = ucs ''3'', tr_model_provider = ucs ''p'',
     tr_model_name = ucs ''m'', tr_events =
       [\<lparr>ev_sequence = 0, ev_body = ModelTurn turn_example\<rparr>,
        \<lparr>ev_sequence = 1, ev_body = ToolCall (ucs ''c'') (ucs ''t'') (b64encode ''x'')\<rparr>,
        \<lparr>ev_sequence = 2, ev_body = ToolResult (ucs ''c'') (b64encode ''ok'') False\<rparr>,
        \<lparr>ev_sequence = 3, ev_body = FinalSubmission digest_a\<rparr>]\<rparr>"

lemma trajectory_example_valid: "validate_trajectory trajectory_example"
proof -
  have c: "canonical_base64 (b64encode bs) = Inr (b64encode bs)" for bs using canonical_iff by blast
  have "trajectory_fields trajectory_example"
    by (simp add: trajectory_fields_def trajectory_example_def event_ok_def turn_ok_def turn_example_def base64_field_def c
        validate_evidence_def TRACE_EVIDENCE_REQUIRED_def validate_generated_bytes_def small_text_def MiB_def bounded_identifier_def ucs_def)
      (simp add: b64encode_def)
  moreover have "validate_events trajectory_example = Inr ()"
    by (simp add: validate_events_def trajectory_example_def Let_def map_filter_simps enough_finite_def turn_example_def upt_rec)
  ultimately show ?thesis by (simp add: validate_trajectory_def)
qed

end
