(* ===== verification/PatchText.thy ===== *)
theory PatchText
  imports MinerServer
begin

text \<open>
  From a model's reply to the bytes of a submission (\<open>extract_submission\<close> and \<open>recount_hunks\<close> of
  \<open>src/rlvr/neurons/demo_miner.py\<close>).  A text is a list of code points; \<open>digit\<close> is what the regular
  expression \<open>\d\<close> matches, the decimal digits of any script.  The lemmas show that recounting
  changes nothing but the counts of hunk headers, that afterwards they are the counts of the hunk
  bodies, and that UTF-8 encoding and decoding are inverse.
\<close>

section \<open>Submissions\<close>

text \<open>\<open>str.encode("utf-8")\<close> raises on a surrogate.\<close>

definition utf8_strict :: "ustring \<Rightarrow> bytes option" where
  "utf8_strict u = (if list_ex is_surrogate u then None else Some (utf8_encode u))"

abbreviation newline :: nat where "newline \<equiv> 10"
abbreviation backtick :: nat where "backtick \<equiv> 96"

definition fence :: ustring where "fence = [backtick, backtick, backtick]"

definition strip_newlines :: "ustring \<Rightarrow> ustring" where
  "strip_newlines s = rev (dropWhile (\<lambda>c. c = newline) (rev (dropWhile (\<lambda>c. c = newline) s)))"

text \<open>The shortest text before a mark, as in \<open>(.*?)```\<close>.\<close>

fun before_mark :: "ustring \<Rightarrow> ustring \<Rightarrow> ustring option" where
  "before_mark mark [] = None"
| "before_mark mark (c # cs) = (if prefix mark (c # cs) then Some [] else map_option ((#) c) (before_mark mark cs))"

text \<open>\<open>_ANY_FENCE_RE.search\<close>: the first opening fence that has a line of its own and a closing fence.\<close>

fun fence_search :: "ustring \<Rightarrow> ustring option" where
  "fence_search [] = None"
| "fence_search (c # cs) =
     (if prefix fence (c # cs)
      then (case dropWhile (\<lambda>x. x \<noteq> newline \<and> x \<noteq> backtick) (drop 2 cs) of
              [] \<Rightarrow> fence_search cs
            | x # rest \<Rightarrow>
                if x = newline then (case before_mark fence rest of Some p \<Rightarrow> Some p | None \<Rightarrow> fence_search cs)
                else fence_search cs)
      else fence_search cs)"

definition extract_submission :: "ustring \<Rightarrow> bytes option" where
  "extract_submission reply =
     (let bare = dropWhile (\<lambda>c. c = 32 \<or> c = 9) (strip_newlines reply);
          payload = (if list_ex (\<lambda>p. prefix (ucs p) bare) [''--- '', ''diff '', ''#!''] then bare
                     else strip_newlines (case fence_search reply of Some p \<Rightarrow> p | None \<Rightarrow> reply)) in
      utf8_strict (if payload = [] then [] else payload @ [newline]))"

section \<open>Hunk counts\<close>

text \<open>An optional comma with digits.\<close>

definition skip_count :: "(nat \<Rightarrow> bool) \<Rightarrow> ustring \<Rightarrow> ustring" where
  "skip_count digit r =
     (case r of [] \<Rightarrow> [] | c # cs \<Rightarrow> if c = 44 \<and> takeWhile digit cs \<noteq> [] then dropWhile digit cs else r)"

text \<open>\<open>_HUNK_RE\<close>: the two line numbers and what follows the second \<open>@@\<close>.\<close>

definition hunk_header :: "(nat \<Rightarrow> bool) \<Rightarrow> ustring \<Rightarrow> (ustring \<times> ustring \<times> ustring) option" where
  "hunk_header digit line =
     (if \<not> prefix (ucs ''@@ -'') line then None
      else let r = drop 4 line; a = takeWhile digit r; r1 = skip_count digit (dropWhile digit r) in
        if a = [] \<or> \<not> prefix (ucs '' +'') r1 then None
        else let r2 = drop 2 r1; b = takeWhile digit r2; r3 = skip_count digit (dropWhile digit r2) in
          if b = [] \<or> \<not> prefix (ucs '' @@'') r3 then None else Some (a, b, drop 3 r3))"

definition marked :: "ustring \<Rightarrow> bool" where
  "marked line \<longleftrightarrow> (case line of [] \<Rightarrow> False | c # _ \<Rightarrow> c \<in> set (ucs '' +-'' @ [92]))"

text \<open>The lines of a hunk; a blank line belongs to it only when a marked line follows.\<close>

fun hunk_body :: "ustring list \<Rightarrow> ustring list" where
  "hunk_body [] = []"
| "hunk_body (l # ls) =
     (if marked l \<or> (l = [] \<and> (case ls of [] \<Rightarrow> False | m # _ \<Rightarrow> marked m)) then l # hunk_body ls else [])"

definition count_old :: "ustring list \<Rightarrow> nat" where
  "count_old body = length (filter (\<lambda>l. l = [] \<or> take 1 l = [32] \<or> take 1 l = [45]) body)"

definition count_new :: "ustring list \<Rightarrow> nat" where
  "count_new body = length (filter (\<lambda>l. l = [] \<or> take 1 l = [32] \<or> take 1 l = [43]) body)"

definition render_header :: "ustring \<Rightarrow> nat \<Rightarrow> ustring \<Rightarrow> nat \<Rightarrow> ustring \<Rightarrow> ustring" where
  "render_header a old b new rest =
     ucs ''@@ -'' @ a @ [44] @ nat_digits old @ ucs '' +'' @ b @ [44] @ nat_digits new @ ucs '' @@'' @ rest"

function recount_lines :: "(nat \<Rightarrow> bool) \<Rightarrow> ustring list \<Rightarrow> ustring list" where
  "recount_lines digit [] = []"
| "recount_lines digit (l # ls) =
     (case hunk_header digit l of
        None \<Rightarrow> l # recount_lines digit ls
      | Some (a, b, rest) \<Rightarrow>
          render_header a (count_old (hunk_body ls)) b (count_new (hunk_body ls)) rest # hunk_body ls @
          recount_lines digit (drop (length (hunk_body ls)) ls))"
  by pat_completeness auto
termination by (relation "measure (length \<circ> snd)") auto

definition recount_hunks :: "(nat \<Rightarrow> bool) \<Rightarrow> bytes \<Rightarrow> bytes" where
  "recount_hunks digit patch =
     (case utf8_decode patch of
        None \<Rightarrow> patch
      | Some t \<Rightarrow> utf8_encode (join_with newline (recount_lines digit (split_on newline t))))"

section \<open>Encoding and decoding\<close>

definition scalar :: "nat \<Rightarrow> bool" where
  "scalar c \<longleftrightarrow> c < 0x110000 \<and> \<not> is_surrogate c"

lemma sixes: obtains q r where "c = q * 64 + r" "r < 64" "c div 64 = q" "c mod 64 = (r :: nat)"
  using that [of "c div 64" "c mod 64"] by simp

lemma continuation_more:
  "continuation 3 low high (b # bs) = (if low \<le> b \<and> b \<le> high then b # continuation 2 0x80 0xBF bs else [])"
  "continuation 2 low high (b # bs) = (if low \<le> b \<and> b \<le> high then b # continuation 1 0x80 0xBF bs else [])"
  by (simp_all add: numeral_2_eq_2 numeral_3_eq_3)

lemma step_bytes:
  assumes "scalar c"
  shows "case utf8_bytes c of b # bs \<Rightarrow> utf8_step b (bs @ rest) = (Some c, length bs) | [] \<Rightarrow> False"
proof -
  obtain y x where c: "c = y * 64 + x" "x < 64" "c div 64 = y" "c mod 64 = x" by (rule sixes)
  obtain z w where y: "y = z * 64 + w" "w < 64" "y div 64 = z" "y mod 64 = w" by (rule sixes)
  obtain p v where z: "z = p * 64 + v" "v < 64" "z div 64 = p" "z mod 64 = v" by (rule sixes)
  have d: "c div 4096 = z" "c div 262144 = p"
    using c(3) y(3) z(3) div_mult2_eq [of c 64 64] div_mult2_eq [of c 64 "64 * 64"] div_mult2_eq [of y 64 64] by simp_all
  have s: "\<not> (0xD800 \<le> c \<and> c \<le> 0xDFFF)" "c < 0x110000" using assms by (auto simp: scalar_def is_surrogate_def)
  consider "c < 0x80" | "0x80 \<le> c" "c < 0x800" | "0x800 \<le> c" "c < 0x10000" | "0x10000 \<le> c" by linarith
  then show ?thesis
  proof cases
    case 1
    then show ?thesis by (simp add: utf8_bytes_def utf8_step_def)
  next
    case 2
    have r: "2 \<le> y" "y < 32" using 2 c(1,2) by linarith+
    have "utf8_bytes c = [0xC0 + y, 0x80 + x]" using 2 c(3,4) by (simp add: utf8_bytes_def)
    moreover have "(0xC0 + y) mod 32 = y" using r by (simp add: mod_add_eq [symmetric])
    moreover have "utf8_lead (0xC0 + y) = Some (1, 0x80, 0xBF)" using r by (simp add: utf8_lead_def)
    ultimately show ?thesis using c(1,2) by (simp add: utf8_step_def)
  next
    case 3
    have r: "z < 16" using 3 c(1) y(1) by linarith
    have b: "utf8_bytes c = [0xE0 + z, 0x80 + w, 0x80 + x]" using 3 s(1) c(3,4) y(4) d(1) by (simp add: utf8_bytes_def)
    have m: "(0xE0 + z) mod 16 = z" using r by (simp add: mod_add_eq [symmetric])
    have e: "(z * 64 + w) * 64 + x = c" using c(1) y(1) by simp
    have low: "z = 0 \<Longrightarrow> 0x20 \<le> w" "z = 13 \<Longrightarrow> w < 0x20" using 3 s(1) e c(2) y(2) by auto
    consider "z = 0" | "z = 13" | "z \<noteq> 0" "z \<noteq> 13" by blast
    then show ?thesis using b m e low r c(2) y(2)
      by cases (simp_all add: utf8_step_def utf8_lead_def continuation_more)
  next
    case 4
    have r: "p \<le> 4" using s(2) c(1) y(1) z(1) by linarith
    have b: "utf8_bytes c = [0xF0 + p, 0x80 + v, 0x80 + w, 0x80 + x]" using 4 c(3,4) y(4) z(4) d by (simp add: utf8_bytes_def)
    have m: "(0xF0 + p) mod 8 = p" using r by (simp add: mod_add_eq [symmetric])
    have e: "((p * 64 + v) * 64 + w) * 64 + x = c" using c(1) y(1) z(1) by simp
    have low: "p = 0 \<Longrightarrow> 0x10 \<le> v" "p = 4 \<Longrightarrow> v < 0x10" using 4 s(2) e c(2) y(2) by auto
    consider "p = 0" | "p = 4" | "p \<noteq> 0" "p \<noteq> 4" by blast
    then show ?thesis using b m e low r c(2) y(2) z(2)
      by cases (simp_all add: utf8_step_def utf8_lead_def continuation_more)
  qed
qed

lemma utf8_scan_bytes: "list_all scalar u \<Longrightarrow> utf8_scan (concat (map utf8_bytes u) @ rest) = map Some u @ utf8_scan rest"
proof (induction u)
  case (Cons c u)
  obtain b bs where b: "utf8_bytes c = b # bs"
    and s: "\<And>rest. utf8_step b (bs @ rest) = (Some c, length bs)"
    using step_bytes [of c] Cons.prems by (cases "utf8_bytes c") auto
  show ?case using Cons b s by simp
qed simp

lemma bytes_range: "list_all scalar u \<Longrightarrow> n \<in> set (concat (map utf8_bytes u)) \<Longrightarrow> n < 256"
proof -
  assume u: "list_all scalar u" and "n \<in> set (concat (map utf8_bytes u))"
  then obtain c where c: "scalar c" "n \<in> set (utf8_bytes c)" by (auto simp: list_all_iff)
  have "c div 262144 < 5" using c(1) by (intro less_mult_imp_div_less) (simp add: scalar_def)
  moreover have "c div 4096 < 16" if "c < 0x10000" using that by (intro less_mult_imp_div_less) simp
  moreover have "c div 64 < 32" if "c < 0x800" using that by (intro less_mult_imp_div_less) simp
  ultimately show ?thesis using c(2) mod_less_divisor [of 64] by (fastforce simp: utf8_bytes_def split: if_splits)
qed

lemma utf8_decode_encode: "list_all scalar u \<Longrightarrow> utf8_decode (utf8_encode u) = Some u"
proof -
  assume u: "list_all scalar u"
  have "ucs (utf8_encode u) = concat (map utf8_bytes u)"
    unfolding ucs_def utf8_encode_def map_map using bytes_range [OF u] by (intro map_idI) simp
  then show ?thesis using utf8_scan_bytes [OF u, of "[]"] by (auto simp: utf8_decode_def comp_def)
qed

lemma utf8_step_range:
  assumes "utf8_step b bs = (Some c, n)"
  shows "c < 0x110000"
proof (cases "b < 0x80")
  case True
  then show ?thesis using assms by (auto simp: utf8_step_def)
next
  case False
  then obtain k low high where l: "utf8_lead b = Some (k, low, high)" "length (continuation k low high bs) = k"
    "c = foldl (\<lambda>a c. a * 64 + (c - 0x80)) (b mod 2 ^ (6 - k)) (continuation k low high bs)"
    using assms by (auto simp: utf8_step_def Let_def split: option.splits if_splits)
  have p: "k = 1 \<or> k = 2 \<or> k = 3" "high \<le> 0xBF" using utf8_lead_props [OF l(1)] by auto
  show ?thesis
  proof (cases "k = 3")
    case True
    obtain x cs where xs: "continuation k low high bs = x # cs" "x \<le> high" "length cs = 2"
      using l(2) True by (cases bs) (auto simp: numeral_3_eq_3 split: if_splits)
    have a: "b mod 8 * 64 + (x - 0x80) < 272"
    proof (cases "b = 0xF4")
      case True
      then show ?thesis using l(1) xs(2) by (auto simp: utf8_lead_def)
    next
      case False
      then have "b \<in> {0xF0, 0xF1, 0xF2, 0xF3}" using l(1) \<open>k = 3\<close> by (auto simp: utf8_lead_def split: if_splits)
      then have "b mod 8 \<le> 3" by auto
      then show ?thesis using xs(2) p(2) by linarith
    qed
    have "\<forall>y \<in> set cs. y \<le> 0xBF" using continuation_props [of k low high bs] p(2) xs(1) by simp
    from foldl_continuation [OF this a] show ?thesis using l(3) xs True by simp
  next
    case False
    have "c < 2 ^ (6 - k) * 64 ^ k"
      unfolding l(3) using foldl_continuation [of "continuation k low high bs" "b mod 2 ^ (6 - k)" "2 ^ (6 - k)"] continuation_props [of k low high bs] p(2) l(2)
      by simp
    then show ?thesis using p(1) False by auto
  qed
qed

lemma utf8_decode_all_scalar:
  assumes "utf8_decode bs = Some u"
  shows "list_all scalar u"
proof -
  have range: "Some c \<in> set (utf8_scan ns) \<Longrightarrow> c < 0x110000" for c ns
    by (induction ns rule: utf8_scan.induct) (auto split: prod.splits dest: utf8_step_range [OF sym])
  have u: "u = map the (utf8_scan (ucs bs))" "None \<notin> set (utf8_scan (ucs bs))"
    using assms by (auto simp: utf8_decode_def Let_def split: if_splits)
  have "c < 0x110000" if c: "c \<in> set u" for c
  proof -
    obtain r where r: "r \<in> set (utf8_scan (ucs bs))" "c = the r" using c u(1) by auto
    then have "r \<noteq> None" using u(2) by metis
    then show ?thesis using r range [of c "ucs bs"] by auto
  qed
  then show ?thesis using utf8_decode_scalar [OF assms] by (auto simp: list_all_iff list_ex_iff scalar_def)
qed

section \<open>Recounting\<close>

definition digit_class :: "(nat \<Rightarrow> bool) \<Rightarrow> bool" where
  "digit_class digit \<longleftrightarrow> (\<forall>c < 128. digit c \<longleftrightarrow> 48 \<le> c \<and> c \<le> 57)"

lemma nat_digits_ascii: "nat_digits n \<noteq> [] \<and> list_all (\<lambda>c. 48 \<le> c \<and> c \<le> 57) (nat_digits n)"
  using nat_digits_range [of n] by (force simp: list_all_iff)

lemma skip_count_digits:
  assumes "digit_class digit" "ds \<noteq> []" "list_all (\<lambda>c. 48 \<le> c \<and> c \<le> 57) ds"
  shows "skip_count digit (44 # ds @ 32 # r) = 32 # r"
proof -
  have "\<forall>c \<in> set ds. digit c" "\<not> digit 32" using assms(1,3) by (auto simp: digit_class_def list_all_iff)
  then have "takeWhile digit (ds @ 32 # r) = ds" "dropWhile digit (ds @ 32 # r) = 32 # r"
    by (simp_all add: takeWhile_append2 dropWhile_append2)
  then show ?thesis using assms(2) by (simp add: skip_count_def)
qed

lemma header_render:
  assumes d: "digit_class digit" and a: "a \<noteq> []" "list_all digit a" and b: "b \<noteq> []" "list_all digit b"
  shows "hunk_header digit (render_header a m b n rest) = Some (a, b, rest)"
proof -
  have n44: "\<not> digit 44" using d by (simp add: digit_class_def)
  have split: "takeWhile digit (x @ 44 # r) = x" "dropWhile digit (x @ 44 # r) = 44 # r" if "list_all digit x" for x r
    using that n44 by (simp_all add: takeWhile_append2 dropWhile_append2 list_all_iff)
  show ?thesis
    using nat_digits_ascii [of m] nat_digits_ascii [of n] a b skip_count_digits [OF d] split
    by (simp add: hunk_header_def render_header_def ucs_def Let_def)
qed

lemma takeWhile_all: "list_all P (takeWhile P xs)"
  by (auto simp: list_all_iff dest: set_takeWhileD)

lemma hunk_header_parts:
  assumes "hunk_header digit l = Some (a, b, rest)"
  shows "a \<noteq> []" "list_all digit a" "b \<noteq> []" "list_all digit b" "l \<noteq> []" "\<not> marked l"
    and "set a \<union> set b \<union> set rest \<subseteq> set l"
proof -
  show "a \<noteq> []" "list_all digit a" "b \<noteq> []" "list_all digit b"
    using assms by (auto simp: hunk_header_def Let_def takeWhile_all split: if_splits)
  obtain l' where "l = ucs ''@@ -'' @ l'" using assms by (auto simp: hunk_header_def prefix_def split: if_splits)
  then show "l \<noteq> []" "\<not> marked l" by (auto simp: marked_def ucs_def)
  have skip: "set (skip_count digit r) \<subseteq> set r" for r
    by (auto simp: skip_count_def split: list.splits if_splits dest: set_dropWhileD)
  show "set a \<union> set b \<union> set rest \<subseteq> set l"
    using assms by (auto simp: hunk_header_def Let_def split: if_splits
        dest!: set_takeWhileD in_set_dropD skip [THEN subsetD] set_dropWhileD)
qed

text \<open>A line, or the same header with other counts.\<close>

definition recounted :: "(nat \<Rightarrow> bool) \<Rightarrow> ustring \<Rightarrow> ustring \<Rightarrow> bool" where
  "recounted digit l l' \<longleftrightarrow> l' = l \<or> (\<exists>a b rest m n. hunk_header digit l = Some (a, b, rest) \<and> l' = render_header a m b n rest)"

lemma hunk_body_split: "hunk_body ls @ drop (length (hunk_body ls)) ls = ls"
  by (induction ls) auto

lemma recount_related: "list_all2 (recounted digit) ls (recount_lines digit ls)"
proof (induction digit ls rule: recount_lines.induct)
  case (2 digit l ls)
  have same: "list_all2 (recounted digit) xs xs" for xs by (simp add: list.rel_refl recounted_def)
  show ?case
  proof (cases "hunk_header digit l")
    case (Some h)
    obtain a b rest where h: "h = (a, b, rest)" by (cases h) auto
    have "list_all2 (recounted digit) (hunk_body ls @ drop (length (hunk_body ls)) ls)
        (hunk_body ls @ recount_lines digit (drop (length (hunk_body ls)) ls))"
      using 2(2) [OF Some h [symmetric] refl] same by (intro list_all2_appendI) auto
    then show ?thesis using Some h unfolding hunk_body_split by (auto simp: recounted_def [of digit l])
  qed (use 2 in \<open>auto simp: recounted_def\<close>)
qed simp

lemma render_not_marked: "\<not> marked (render_header a m b n rest)" "render_header a m b n rest \<noteq> []"
  by (auto simp: render_header_def marked_def ucs_def)

lemma recounted_marked: "recounted digit l l' \<Longrightarrow> marked l' = marked l \<and> (l' = [] \<longleftrightarrow> l = [])"
  by (auto simp: recounted_def render_not_marked dest: hunk_header_parts)

lemma recounted_header: "digit_class digit \<Longrightarrow> recounted digit l l' \<Longrightarrow> hunk_header digit l' = hunk_header digit l"
  using header_render hunk_header_parts(1-4) by (auto simp: recounted_def)

lemma render_set: "set (render_header a m b n rest) \<subseteq> set a \<union> set b \<union> set rest \<union> {32..<65}"
  using nat_digits_range [of m] nat_digits_range [of n] by (auto simp: render_header_def ucs_def)

lemma recounted_set: "recounted digit l l' \<Longrightarrow> set l' \<subseteq> set l \<union> {32..<65}"
  using render_set hunk_header_parts(7) unfolding recounted_def by blast

lemma recount_lines_set:
  assumes "x \<in> set (recount_lines digit ls)"
  shows "\<exists>l \<in> set ls. set x \<subseteq> set l \<union> {32..<65}"
proof -
  obtain i where i: "i < length (recount_lines digit ls)" "x = recount_lines digit ls ! i" using assms by (metis in_set_conv_nth)
  have "recounted digit (ls ! i) x" "i < length ls"
    using recount_related [of digit ls] i by (auto simp: list_all2_conv_all_nth)
  then show ?thesis using recounted_set nth_mem by blast
qed

lemma recount_lines_ne: "ls \<noteq> [] \<Longrightarrow> recount_lines digit ls \<noteq> []"
  using recount_related [of digit ls] by auto

lemma join_with_set: "x \<in> set (join_with c ss) \<Longrightarrow> x = c \<or> (\<exists>s \<in> set ss. x \<in> set s)"
  by (induction c ss rule: join_with.induct) auto

lemma recount_text:
  assumes "utf8_decode patch = Some t"
  shows "\<exists>t'. utf8_decode (recount_hunks digit patch) = Some t' \<and> split_on newline t' = recount_lines digit (split_on newline t)"
proof -
  let ?ls = "recount_lines digit (split_on newline t)"
  have range: "set x \<subseteq> set t \<union> {32..<65} \<and> newline \<notin> set x" if "x \<in> set ?ls" for x
  proof -
    obtain l where l: "l \<in> set (split_on newline t)" "set x \<subseteq> set l \<union> {32..<65}" using recount_lines_set \<open>x \<in> set ?ls\<close> by blast
    have m: "set l \<subseteq> set t" "newline \<notin> set l" using split_on_members [OF l(1)] split_on_no_sep [OF l(1)] by auto
    have "newline \<notin> {32..<65}" by simp
    then show ?thesis using l(2) m by blast
  qed
  have "scalar c" if c: "c \<in> set (join_with newline ?ls)" for c
  proof -
    consider "c = newline" | x where "x \<in> set ?ls" "c \<in> set x" using join_with_set [OF c] by blast
    then have "c \<in> set t \<union> {32..<65} \<or> c = newline" using range by cases blast+
    then show ?thesis using utf8_decode_all_scalar [OF assms] by (auto simp: list_all_iff scalar_def is_surrogate_def)
  qed
  then have "utf8_decode (utf8_encode (join_with newline ?ls)) = Some (join_with newline ?ls)"
    by (intro utf8_decode_encode) (simp add: list_all_iff)
  moreover have "split_on newline (join_with newline ?ls) = ?ls"
    using range recount_lines_ne by (intro split_on_join_all) auto
  ultimately show ?thesis using assms by (simp add: recount_hunks_def)
qed

section \<open>What a patch means\<close>

text \<open>
  A patch as its author means it: files with the lines before their hunks, and hunks of context, removed,
  added and blank lines and remarks, with the counts written in the header, which need not be right.
\<close>

datatype hunk_line = Context ustring | Removed ustring | Added ustring | Blank | Remark ustring

record hunk =
  hk_old_start :: ustring
  hk_old_count :: "nat option"
  hk_new_start :: ustring
  hk_new_count :: "nat option"
  hk_tail :: ustring
  hk_lines :: "hunk_line list"

type_synonym file_patch = "ustring list \<times> hunk list"

fun line_text :: "hunk_line \<Rightarrow> ustring" where
  "line_text (Context t) = 32 # t"
| "line_text (Removed t) = 45 # t"
| "line_text (Added t) = 43 # t"
| "line_text Blank = []"
| "line_text (Remark t) = 92 # t"

fun count_text :: "nat option \<Rightarrow> ustring" where
  "count_text None = []"
| "count_text (Some n) = 44 # nat_digits n"

definition header_text :: "hunk \<Rightarrow> ustring" where
  "header_text h = ucs ''@@ -'' @ hk_old_start h @ count_text (hk_old_count h) @ ucs '' +'' @ hk_new_start h @
     count_text (hk_new_count h) @ ucs '' @@'' @ hk_tail h"

definition hunk_text :: "hunk \<Rightarrow> ustring list" where
  "hunk_text h = header_text h # map line_text (hk_lines h)"

definition file_text :: "file_patch \<Rightarrow> ustring list" where
  "file_text f = fst f @ concat (map hunk_text (snd f))"

text \<open>The patch as lines, ending with a newline.\<close>

definition patch_text :: "file_patch list \<Rightarrow> ustring list" where
  "patch_text fs = concat (map file_text fs) @ [[]]"

definition patch_bytes :: "file_patch list \<Rightarrow> bytes" where
  "patch_bytes fs = utf8_encode (join_with newline (patch_text fs))"

text \<open>The right counts: the lines of the old and of the new version that a hunk shows.\<close>

fun in_old :: "hunk_line \<Rightarrow> bool" where
  "in_old (Added _) = False"
| "in_old (Remark _) = False"
| "in_old _ = True"

fun in_new :: "hunk_line \<Rightarrow> bool" where
  "in_new (Removed _) = False"
| "in_new (Remark _) = False"
| "in_new _ = True"

definition correct :: "hunk \<Rightarrow> hunk" where
  "correct h = h\<lparr>hk_old_count := Some (length (filter in_old (hk_lines h))),
     hk_new_count := Some (length (filter in_new (hk_lines h)))\<rparr>"

definition correct_file :: "file_patch \<Rightarrow> file_patch" where
  "correct_file f = (fst f, map correct (snd f))"

text \<open>
  Line numbers are decimal, a blank line is followed by a line of another kind, no line before the hunks
  looks like a hunk header, every file but the first starts with a \<open>diff\<close> line, and no line holds a
  newline or a code point that UTF-8 cannot encode.
\<close>

fun blanks_inside :: "hunk_line list \<Rightarrow> bool" where
  "blanks_inside [] = True"
| "blanks_inside (l # ls) = ((l = Blank \<longrightarrow> (case ls of [] \<Rightarrow> False | m # _ \<Rightarrow> m \<noteq> Blank)) \<and> blanks_inside ls)"

definition regular_hunk :: "(nat \<Rightarrow> bool) \<Rightarrow> hunk \<Rightarrow> bool" where
  "regular_hunk digit h \<longleftrightarrow> hk_old_start h \<noteq> [] \<and> list_all digit (hk_old_start h) \<and> hk_new_start h \<noteq> [] \<and>
     list_all digit (hk_new_start h) \<and> blanks_inside (hk_lines h)"

definition regular_file :: "(nat \<Rightarrow> bool) \<Rightarrow> file_patch \<Rightarrow> bool" where
  "regular_file digit f \<longleftrightarrow> list_all (\<lambda>l. \<not> prefix (ucs ''@@ -'') l) (fst f) \<and> list_all (regular_hunk digit) (snd f)"

definition regular_patch :: "(nat \<Rightarrow> bool) \<Rightarrow> file_patch list \<Rightarrow> bool" where
  "regular_patch digit fs \<longleftrightarrow> list_all (regular_file digit) fs \<and>
     list_all (\<lambda>f. fst f \<noteq> [] \<and> prefix (ucs ''diff '') (hd (fst f))) (tl fs) \<and>
     list_all (list_all (\<lambda>c. scalar c \<and> c \<noteq> newline)) (patch_text fs)"

text \<open>Where a hunk ends.\<close>

definition stops :: "ustring list \<Rightarrow> bool" where
  "stops ls \<longleftrightarrow> (case ls of [] \<Rightarrow> True | l # ms \<Rightarrow> \<not> marked l \<and> (l = [] \<longrightarrow> ms = []))"

lemma line_marked: "marked (line_text l) \<longleftrightarrow> l \<noteq> Blank" "line_text l = [] \<longleftrightarrow> l = Blank"
  by (cases l; simp add: marked_def ucs_def)+

lemma hunk_body_meant: "blanks_inside ls \<Longrightarrow> stops rest \<Longrightarrow> hunk_body (map line_text ls @ rest) = map line_text ls"
proof (induction ls)
  case Nil
  then show ?case by (auto simp: stops_def split: list.splits)
next
  case (Cons l ls)
  then show ?case by (cases ls) (auto simp: line_marked)
qed

lemma counts_meant:
  "count_old (map line_text ls) = length (filter in_old ls)" "count_new (map line_text ls) = length (filter in_new ls)"
proof -
  have "line_text l = [] \<or> take 1 (line_text l) = [32] \<or> take 1 (line_text l) = [45] \<longleftrightarrow> in_old l"
    "line_text l = [] \<or> take 1 (line_text l) = [32] \<or> take 1 (line_text l) = [43] \<longleftrightarrow> in_new l" for l
    by (cases l; simp)+
  then show "count_old (map line_text ls) = length (filter in_old ls)" "count_new (map line_text ls) = length (filter in_new ls)"
    by (simp_all add: count_old_def count_new_def filter_map comp_def)
qed

lemma header_meant:
  assumes d: "digit_class digit" and h: "regular_hunk digit h"
  shows "hunk_header digit (header_text h) = Some (hk_old_start h, hk_new_start h, hk_tail h)"
proof -
  have n: "\<not> digit 44" "\<not> digit 32" using d by (simp_all add: digit_class_def)
  have split: "takeWhile digit (x @ count_text c @ 32 # r) = x" "skip_count digit (dropWhile digit (x @ count_text c @ 32 # r)) = 32 # r"
    if "list_all digit x" for x c r
  proof -
    have "dropWhile digit (x @ count_text c @ 32 # r) = count_text c @ 32 # r" "takeWhile digit (x @ count_text c @ 32 # r) = x"
      using that n by (cases c; simp add: takeWhile_append2 dropWhile_append2 list_all_iff)+
    moreover have "skip_count digit (count_text c @ 32 # r) = 32 # r"
      using skip_count_digits [OF d] nat_digits_ascii by (cases c) (simp_all add: skip_count_def [of digit "32 # r"])
    ultimately show "takeWhile digit (x @ count_text c @ 32 # r) = x" "skip_count digit (dropWhile digit (x @ count_text c @ 32 # r)) = 32 # r"
      by simp_all
  qed
  show ?thesis
    using h split by (simp add: hunk_header_def header_text_def regular_hunk_def ucs_def Let_def)
qed

lemma header_text_plain: "\<not> marked (header_text h)" "header_text h \<noteq> []"
  by (simp_all add: header_text_def marked_def ucs_def)

lemma recount_hunk_text:
  assumes "digit_class digit" "regular_hunk digit h" "stops rest"
  shows "recount_lines digit (hunk_text h @ rest) = hunk_text (correct h) @ recount_lines digit rest"
proof -
  have body: "hunk_body (map line_text (hk_lines h) @ rest) = map line_text (hk_lines h)"
    using assms(2,3) by (intro hunk_body_meant) (simp_all add: regular_hunk_def)
  have "header_text (correct h) = render_header (hk_old_start h) (length (filter in_old (hk_lines h))) (hk_new_start h)
      (length (filter in_new (hk_lines h))) (hk_tail h)"
    by (simp add: header_text_def render_header_def correct_def)
  moreover have "hk_lines (correct h) = hk_lines h" by (simp add: correct_def)
  ultimately show ?thesis using header_meant [OF assms(1,2)] body by (simp add: hunk_text_def counts_meant)
qed

lemma recount_hunk_texts:
  "digit_class digit \<Longrightarrow> list_all (regular_hunk digit) hs \<Longrightarrow> stops rest \<Longrightarrow>
     recount_lines digit (concat (map hunk_text hs) @ rest) = concat (map hunk_text (map correct hs)) @ recount_lines digit rest"
proof (induction hs)
  case (Cons h hs)
  have "stops (concat (map hunk_text hs) @ rest)"
    using Cons.prems(3) header_text_plain by (cases hs) (auto simp: stops_def hunk_text_def)
  then show ?case using Cons recount_hunk_text [of digit h "concat (map hunk_text hs) @ rest"] by simp
qed simp

lemma recount_file_text:
  assumes "digit_class digit" "regular_file digit f" "stops rest"
  shows "recount_lines digit (file_text f @ rest) = file_text (correct_file f) @ recount_lines digit rest"
proof -
  have "recount_lines digit (ls @ more) = ls @ recount_lines digit more" if "list_all (\<lambda>l. \<not> prefix (ucs ''@@ -'') l) ls" for ls more
    using that by (induction ls) (simp_all add: hunk_header_def)
  then show ?thesis
    using assms recount_hunk_texts by (simp add: file_text_def correct_file_def regular_file_def)
qed

lemma recount_patch_text:
  assumes "digit_class digit" "list_all (regular_file digit) fs"
    "list_all (\<lambda>f. fst f \<noteq> [] \<and> prefix (ucs ''diff '') (hd (fst f))) (tl fs)"
  shows "recount_lines digit (patch_text fs) = patch_text (map correct_file fs)"
  using assms(2,3)
proof (induction fs)
  case Nil
  then show ?case by (simp add: patch_text_def hunk_header_def ucs_def)
next
  case (Cons f fs)
  have "stops (patch_text fs)"
    using Cons.prems(2) by (cases fs) (auto simp: patch_text_def file_text_def stops_def marked_def ucs_def prefix_def neq_Nil_conv)
  moreover have "list_all (\<lambda>f. fst f \<noteq> [] \<and> prefix (ucs ''diff '') (hd (fst f))) (tl fs)" using Cons.prems(2) by (cases fs) auto
  moreover have "patch_text (g # gs) = file_text g @ patch_text gs" for g gs by (simp add: patch_text_def)
  ultimately show ?case using Cons recount_file_text [OF assms(1), of f "patch_text fs"] by simp
qed

text \<open>C34. Repairing a patch changes only the counts in its hunk headers and makes them right.  Any patch that
  decodes keeps its lines one for one, each that is not a hunk header unchanged and each header with its
  line numbers and trailing text.  A regular patch, whatever counts its headers state or leave out,
  becomes the same patch in which each header states how many lines of the old version, that is
  context, blank and removed ones, and of the new version, context, blank and added ones, its hunk
  shows; so a right patch with both counts stays as it is.  Regular means that the files after the first
  start with a \<open>diff\<close> line: without it the names of the next file are counted to the hunk before them.\<close>

theorem recount_hunks_repairs:
  assumes "digit_class digit"
  shows "(\<forall>patch t. utf8_decode patch = Some t \<longrightarrow>
      (\<exists>t'. utf8_decode (recount_hunks digit patch) = Some t' \<and>
         list_all2 (\<lambda>l l'. hunk_header digit l' = hunk_header digit l \<and> (hunk_header digit l = None \<longrightarrow> l' = l))
           (split_on newline t) (split_on newline t'))) \<and>
    (regular_patch digit fs \<longrightarrow> recount_hunks digit (patch_bytes fs) = patch_bytes (map correct_file fs))"
proof (intro conjI allI impI)
  fix patch t
  assume "utf8_decode patch = Some t"
  then obtain t' where t: "utf8_decode (recount_hunks digit patch) = Some t'" "split_on newline t' = recount_lines digit (split_on newline t)"
    using recount_text by blast
  have "list_all2 (\<lambda>l l'. hunk_header digit l' = hunk_header digit l \<and> (hunk_header digit l = None \<longrightarrow> l' = l))
      (split_on newline t) (split_on newline t')"
    unfolding t(2)
  proof (rule list_all2_mono [OF recount_related])
    fix l l'
    assume r: "recounted digit l l'"
    then show "hunk_header digit l' = hunk_header digit l \<and> (hunk_header digit l = None \<longrightarrow> l' = l)"
      using recounted_header [OF assms r] by (auto simp: recounted_def)
  qed
  then show "\<exists>t'. utf8_decode (recount_hunks digit patch) = Some t' \<and>
         list_all2 (\<lambda>l l'. hunk_header digit l' = hunk_header digit l \<and> (hunk_header digit l = None \<longrightarrow> l' = l))
           (split_on newline t) (split_on newline t')" using t(1) by blast
next
  assume r: "regular_patch digit fs"
  then have chars: "list_all (list_all (\<lambda>c. scalar c \<and> c \<noteq> newline)) (patch_text fs)" by (simp add: regular_patch_def)
  then have "scalar c" if "c \<in> set (join_with newline (patch_text fs))" for c
    using join_with_set [OF that] by (auto simp: list_all_iff scalar_def is_surrogate_def)
  then have "utf8_decode (patch_bytes fs) = Some (join_with newline (patch_text fs))"
    unfolding patch_bytes_def by (intro utf8_decode_encode) (simp add: list_all_iff)
  moreover have "split_on newline (join_with newline (patch_text fs)) = patch_text fs"
    using chars by (intro split_on_join_all) (auto simp: list_all_iff patch_text_def)
  moreover have "recount_lines digit (patch_text fs) = patch_text (map correct_file fs)"
    using r by (intro recount_patch_text [OF assms]) (simp_all add: regular_patch_def)
  ultimately show "recount_hunks digit (patch_bytes fs) = patch_bytes (map correct_file fs)"
    by (simp add: recount_hunks_def patch_bytes_def)
qed

definition ascii_digit :: "nat \<Rightarrow> bool" where "ascii_digit c \<longleftrightarrow> 48 \<le> c \<and> c \<le> 57"

text \<open>A patch of two files with wrong and missing counts.\<close>

definition hunk_example :: "nat option \<Rightarrow> nat option \<Rightarrow> hunk" where
  "hunk_example m n = \<lparr>hk_old_start = ucs ''1'', hk_old_count = m, hk_new_start = ucs ''1'', hk_new_count = n, hk_tail = ucs '' f'',
     hk_lines = [Context (ucs ''a''), Removed (ucs ''b''), Added (ucs ''c''), Blank, Added (ucs ''d'')]\<rparr>"

definition patch_example :: "nat option \<Rightarrow> nat option \<Rightarrow> file_patch list" where
  "patch_example m n = [([ucs ''--- x'', ucs ''+++ x''], [hunk_example m n]), ([ucs ''diff --git a/y b/y''], [hunk_example m n])]"

theorem recount_hunks_repairs_witness:
  "recount_hunks ascii_digit (patch_bytes (patch_example (Some 9) None)) = patch_bytes (patch_example (Some 3) (Some 4))"
proof -
  have d: "digit_class ascii_digit" by (simp add: digit_class_def ascii_digit_def)
  have "regular_patch ascii_digit (patch_example (Some 9) None)"
    by (simp add: regular_patch_def regular_file_def regular_hunk_def patch_example_def hunk_example_def ascii_digit_def ucs_def scalar_def
        is_surrogate_def patch_text_def file_text_def hunk_text_def header_text_def nat_digits.simps)
  moreover have "map correct_file (patch_example (Some 9) None) = patch_example (Some 3) (Some 4)"
    by (simp add: patch_example_def hunk_example_def correct_file_def correct_def)
  ultimately show ?thesis using recount_hunks_repairs [OF d, of "patch_example (Some 9) None"] by simp
qed

text \<open>The lines that name the next file of a plain unified diff start with the marks of a removed and an
  added line, so they are counted to the hunk before them.\<close>

lemma recount_swallows_next_file:
  "recount_lines ascii_digit (map ucs [''@@ -1,1 +1,1 @@'', ''-a'', ''+b'', ''--- x'', ''+++ x'', ''@@ -1,1 +1,1 @@'', ''-c'', ''+d'']) =
   map ucs [''@@ -1,2 +1,2 @@'', ''-a'', ''+b'', ''--- x'', ''+++ x'', ''@@ -1,1 +1,1 @@'', ''-c'', ''+d'']"
proof -
  have h: "hunk_header ascii_digit (ucs ''@@ -1,1 +1,1 @@'') = Some (ucs ''1'', ucs ''1'', [])"
    by (simp add: hunk_header_def skip_count_def ascii_digit_def ucs_def Let_def)
  have m: "marked (ucs ''-a'')" "marked (ucs ''+b'')" "marked (ucs ''--- x'')" "marked (ucs ''+++ x'')" "marked (ucs ''-c'')" "marked (ucs ''+d'')"
    "\<not> marked (ucs ''@@ -1,1 +1,1 @@'')" "ucs ''@@ -1,1 +1,1 @@'' \<noteq> []"
    by (simp_all add: marked_def ucs_def)
  have b: "hunk_body (map ucs [''-a'', ''+b'', ''--- x'', ''+++ x'', ''@@ -1,1 +1,1 @@'', ''-c'', ''+d'']) = map ucs [''-a'', ''+b'', ''--- x'', ''+++ x'']"
    "hunk_body (map ucs [''-c'', ''+d'']) = map ucs [''-c'', ''+d'']"
    using m by simp_all
  have c: "count_old (map ucs [''-a'', ''+b'', ''--- x'', ''+++ x'']) = 2" "count_new (map ucs [''-a'', ''+b'', ''--- x'', ''+++ x'']) = 2"
    "count_old (map ucs [''-c'', ''+d'']) = 1" "count_new (map ucs [''-c'', ''+d'']) = 1"
    by (simp_all add: count_old_def count_new_def ucs_def)
  have r: "render_header (ucs ''1'') 2 (ucs ''1'') 2 [] = ucs ''@@ -1,2 +1,2 @@''" "render_header (ucs ''1'') 1 (ucs ''1'') 1 [] = ucs ''@@ -1,1 +1,1 @@''"
    by (simp_all add: render_header_def ucs_def nat_digits.simps)
  have second: "recount_lines ascii_digit (map ucs [''@@ -1,1 +1,1 @@'', ''-c'', ''+d'']) = map ucs [''@@ -1,1 +1,1 @@'', ''-c'', ''+d'']"
    using h b(2) c(3,4) r(2) by simp
  show ?thesis
    using h b(1) c(1,2) r(1) second by simp
qed

end
