(* ===== verification/ModelClient.thy ===== *)
theory ModelClient
  imports Trajectory PatchText
begin

text \<open>
  The miner's client of the model (\<open>BedrockClient\<close> of \<open>src/rlvr/neurons/demo_miner.py\<close>): the attempts of one
  request and the reading of a completion from the parsed JSON.  \<open>json.loads\<close>, the clock and the posts
  are arguments.  The lemmas show that a request is posted at most once more than the retries allow,
  never after its deadline, and that a completion that was read is evidence a trajectory accepts.
\<close>

section \<open>Errors and completions\<close>

datatype model_error =
    NotConfigured
  | NotSendable
  | NotHttps
  | DeadlinePassed
  | ReadTimeout
  | TransportFailed
  | StatusError int
  | InvalidResponse
  | NoAttribute
  | FloatOverflow
  | RequestFailed

record completion =
  co_request :: bytes
  co_response :: bytes
  co_output :: ustring
  co_reasoning :: ustring
  co_generated :: bytes
  co_tokens :: "generated_token list"
  co_tool_calls :: "(ustring \<times> ustring \<times> ustring) list"

section \<open>Reading a completion\<close>

text \<open>\<open>value[key]\<close> and \<open>value[0]\<close>, whose exceptions the client turns into an invalid response, and
  \<open>value.get(key)\<close>, which has no attribute \<open>get\<close> on other values than objects.\<close>

fun subscript :: "json \<Rightarrow> string \<Rightarrow> model_error + json" where
  "subscript (JObj kvs) k = (case map_of kvs (ucs k) of None \<Rightarrow> Inl InvalidResponse | Some v \<Rightarrow> Inr v)"
| "subscript _ k = Inl InvalidResponse"

fun first_item :: "json \<Rightarrow> model_error + json" where
  "first_item (JList (v # _)) = Inr v"
| "first_item (JStr (c # _)) = Inr (JStr [c])"
| "first_item _ = Inl InvalidResponse"

fun get_item :: "json \<Rightarrow> string \<Rightarrow> model_error + json" where
  "get_item (JObj kvs) k = Inr (case map_of kvs (ucs k) of None \<Rightarrow> JNull | Some v \<Rightarrow> v)"
| "get_item _ k = Inl NoAttribute"

text \<open>The checks \<open>type(value) is list\<close> and \<open>type(value) is str\<close>.\<close>

fun as_list :: "json \<Rightarrow> model_error + json list" where
  "as_list (JList vs) = Inr vs"
| "as_list _ = Inl InvalidResponse"

fun as_text :: "json \<Rightarrow> model_error + ustring" where
  "as_text (JStr s) = Inr s"
| "as_text _ = Inl InvalidResponse"

fun json_truthy :: "json \<Rightarrow> bool" where
  "json_truthy JNull = False"
| "json_truthy (JBool b) = b"
| "json_truthy (JInt n) = (n \<noteq> 0)"
| "json_truthy (JFloat x) = (x \<noteq> Fin 0)"
| "json_truthy (JStr s) = (s \<noteq> [])"
| "json_truthy (JList vs) = (vs \<noteq> [])"
| "json_truthy (JObj kvs) = (kvs \<noteq> [])"

fun tool_call_item :: "json \<Rightarrow> model_error + ustring \<times> ustring \<times> ustring" where
  "tool_call_item (JObj kvs) =
     (case get_item (JObj kvs) ''function'' of
        Inr (JObj f) \<Rightarrow>
          (case (get_item (JObj kvs) ''id'', get_item (JObj f) ''name'', get_item (JObj f) ''arguments'') of
             (Inr (JStr call_id), Inr (JStr name), Inr (JStr arguments)) \<Rightarrow> Inr (call_id, name, arguments)
           | _ \<Rightarrow> Inl InvalidResponse)
      | _ \<Rightarrow> Inl InvalidResponse)"
| "tool_call_item _ = Inl InvalidResponse"

definition tool_calls_of :: "json \<Rightarrow> model_error + (ustring \<times> ustring \<times> ustring) list" where
  "tool_calls_of message =
     rbind (get_item message ''tool_calls'') (\<lambda>raw.
       case raw of
         JNull \<Rightarrow> Inr []
       | JList items \<Rightarrow> rmap tool_call_item items
       | _ \<Rightarrow> Inl InvalidResponse)"

fun byte_item :: "json \<Rightarrow> nat option" where
  "byte_item (JInt i) = (if 0 \<le> i \<and> i \<le> 255 then Some (nat i) else None)"
| "byte_item _ = None"

definition token_bytes :: "json \<Rightarrow> model_error + bytes" where
  "token_bytes r =
     rbind (get_item r ''bytes'') (\<lambda>raw.
       if raw \<noteq> JNull then
         (case raw of
            JList items \<Rightarrow>
              if list_all (\<lambda>v. byte_item v \<noteq> None) items then Inr (map (char_of \<circ> the \<circ> byte_item) items)
              else Inl InvalidResponse
          | _ \<Rightarrow> Inl InvalidResponse)
       else rbind (get_item r ''token'') (\<lambda>token.
         case token of
           JStr s \<Rightarrow> (case utf8_strict s of None \<Rightarrow> Inl InvalidResponse | Some b \<Rightarrow> Inr b)
         | _ \<Rightarrow> Inl InvalidResponse))"

fun token_id_of :: "json \<Rightarrow> model_error + token_id option" where
  "token_id_of JNull = Inr None"
| "token_id_of (JInt i) = Inr (Some (IntId i))"
| "token_id_of (JStr s) = Inr (Some (TextId s))"
| "token_id_of _ = Inl InvalidResponse"

text \<open>\<open>math.isfinite\<close> converts an integer to a float, which overflows above the largest float.\<close>

definition float_limit :: int where "float_limit = 2 ^ 1024 - 2 ^ 970"

fun finite_number :: "json \<Rightarrow> model_error + pyfloat" where
  "finite_number (JInt i) = (if abs i < float_limit then Inr (Fin (real_of_int i)) else Inl FloatOverflow)"
| "finite_number (JFloat x) = (if is_finite x then Inr x else Inl InvalidResponse)"
| "finite_number _ = Inl InvalidResponse"

definition read_alternative :: "json \<Rightarrow> model_error + token_alternative" where
  "read_alternative r =
     rbind (get_item r ''token_id'') (\<lambda>raw_id.
     rbind (get_item r ''logprob'') (\<lambda>raw_logprob.
     rbind (token_id_of raw_id) (\<lambda>token_id.
     rbind (if raw_logprob = JNull then Inr None else rbind (finite_number raw_logprob) (\<lambda>p. Inr (Some p))) (\<lambda>logprob.
     rbind (token_bytes r) (\<lambda>b.
       Inr \<lparr>alt_bytes = b64encode b, alt_id = token_id, alt_logprob = logprob\<rparr>)))))"

text \<open>One token record: its bytes and the recorded token.\<close>

definition read_token :: "json \<Rightarrow> model_error + bytes \<times> generated_token" where
  "read_token r =
     rbind (token_bytes r) (\<lambda>b.
     rbind (get_item r ''token_id'') (\<lambda>raw_id.
     rbind (subscript r ''logprob'') (\<lambda>raw_logprob.
     rbind (token_id_of raw_id) (\<lambda>token_id.
     rbind (finite_number raw_logprob) (\<lambda>logprob.
     rbind (subscript r ''top_logprobs'') (\<lambda>alternatives.
     rbind (as_list alternatives) (\<lambda>items.
       if length items \<noteq> 5 then Inl InvalidResponse
       else rbind (rmap read_alternative items) (\<lambda>top.
         Inr (b, \<lparr>gt_bytes = b64encode b, gt_id = token_id, gt_logprob = logprob, gt_top = top\<rparr>)))))))))"

definition read_reasoning :: "json \<Rightarrow> model_error + json" where
  "read_reasoning message =
     rbind (get_item message ''reasoning_content'') (\<lambda>first.
       if first \<noteq> JNull then Inr first
       else rbind (get_item message ''reasoning'') (\<lambda>second. Inr (if second \<noteq> JNull then second else JStr [])))"

definition read_completion :: "bytes \<Rightarrow> bytes \<Rightarrow> json \<Rightarrow> model_error + completion" where
  "read_completion request_body response data =
     rbind (subscript data ''choices'') (\<lambda>choices.
     rbind (first_item choices) (\<lambda>choice.
     rbind (get_item choice ''finish_reason'') (\<lambda>reason.
     if reason \<noteq> JStr (ucs ''stop'') \<and> reason \<noteq> JStr (ucs ''tool_calls'') then Inl InvalidResponse else
     rbind (subscript choice ''message'') (\<lambda>message.
     rbind (get_item message ''content'') (\<lambda>raw_content.
     rbind (read_reasoning message) (\<lambda>reasoning.
     rbind (tool_calls_of message) (\<lambda>calls.
     rbind (as_text (if json_truthy raw_content then raw_content else JStr [])) (\<lambda>content.
     rbind (as_text reasoning) (\<lambda>thought.
     rbind (get_item choice ''logprobs'') (\<lambda>logprobs.
     rbind (if logprobs = JNull then Inr (JList []) else subscript logprobs ''content'') (\<lambda>records.
     rbind (as_list records) (\<lambda>items.
     rbind (rmap read_token items) (\<lambda>tokens.
       Inr \<lparr>co_request = request_body, co_response = response, co_output = content, co_reasoning = thought,
            co_generated = concat (map fst tokens), co_tokens = map snd tokens, co_tool_calls = calls\<rparr>)))))))))))))"

section \<open>One request\<close>

text \<open>
  What a post ends with: a response, the inactivity timeout or a transport error of the HTTP library,
  which are retried, or the deadline of the whole call.
\<close>

datatype model_post = PostResponse int bytes | PostTimeout | PostTransport | PostDeadline

text \<open>\<open>left\<close> is the time to the deadline before an attempt.  The number of posts is counted.\<close>

fun attempts ::
  "(nat \<Rightarrow> real) \<Rightarrow> (nat \<Rightarrow> model_post) \<Rightarrow> (bytes \<Rightarrow> json option) \<Rightarrow> bytes \<Rightarrow> nat \<Rightarrow> nat \<Rightarrow> nat \<Rightarrow> (model_error + completion) \<times> nat" where
  "attempts left send loads request_body retries attempt 0 = (Inl RequestFailed, 0)"
| "attempts left send loads request_body retries attempt (Suc rest) =
     (if left attempt \<le> 0 then (Inl DeadlinePassed, 0)
      else case send attempt of
        PostResponse status raw \<Rightarrow>
          if (status = 429 \<or> 500 \<le> status) \<and> attempt < retries
            then map_prod id Suc (attempts left send loads request_body retries (Suc attempt) rest)
          else if \<not> (200 \<le> status \<and> status < 300) then (Inl (StatusError status), 1)
          else (case loads raw of
              None \<Rightarrow> (Inl InvalidResponse, 1)
            | Some data \<Rightarrow> (read_completion request_body raw data, 1))
      | PostTimeout \<Rightarrow>
          if attempt \<ge> retries then (Inl ReadTimeout, 1)
          else map_prod id Suc (attempts left send loads request_body retries (Suc attempt) rest)
      | PostTransport \<Rightarrow>
          if attempt \<ge> retries then (Inl TransportFailed, 1)
          else map_prod id Suc (attempts left send loads request_body retries (Suc attempt) rest)
      | PostDeadline \<Rightarrow> (Inl DeadlinePassed, 1))"

definition complete ::
  "bool \<Rightarrow> bool \<Rightarrow> (nat \<Rightarrow> real) \<Rightarrow> (nat \<Rightarrow> model_post) \<Rightarrow> (bytes \<Rightarrow> json option) \<Rightarrow> nat \<Rightarrow> bytes \<Rightarrow> (model_error + completion) \<times> nat" where
  "complete has_key https left send loads retries request_body =
     (if \<not> has_key then (Inl NotConfigured, 0)
      else if left 0 > 0 \<and> \<not> https then (Inl NotHttps, 0)
      else attempts left send loads request_body retries 0 (Suc retries))"

definition model_event :: "completion \<Rightarrow> event_body" where
  "model_event c = ModelTurn \<lparr>tn_request = b64encode (co_request c), tn_response = b64encode (co_response c),
     tn_generated = b64encode (co_generated c), tn_reasoning = co_reasoning c, tn_output = co_output c, tn_tokens = co_tokens c\<rparr>"

section \<open>Requests are bounded\<close>

lemma attempts_bounded:
  "attempts left send loads request_body retries attempt rest = (r, n) \<Longrightarrow>
   n \<le> rest \<and> (\<forall>i < n. 0 < left (attempt + i))"
proof (induction rest arbitrary: attempt r n)
  case (Suc rest)
  have again: ?case if a: "map_prod id Suc (attempts left send loads request_body retries (Suc attempt) rest) = (r, n)" and l: "0 < left attempt"
  proof -
    obtain r' n' where n: "attempts left send loads request_body retries (Suc attempt) rest = (r', n')" "n = Suc n'"
      using a by (cases "attempts left send loads request_body retries (Suc attempt) rest") auto
    have ih: "n' \<le> rest" "\<And>i. i < n' \<Longrightarrow> 0 < left (Suc attempt + i)" using Suc.IH [OF n(1)] by auto
    have "0 < left (attempt + i)" if i: "i < n" for i using i l ih(2) n(2) by (cases i) auto
    then show ?thesis using ih(1) n(2) by simp
  qed
  have stop: ?case if "n = 0 \<or> n = 1 \<and> 0 < left attempt" using that by auto
  show ?case using Suc.prems again stop by (auto simp: not_le split: if_splits model_post.splits option.splits)
qed simp

section \<open>Completions are evidence\<close>

definition alternative_evidence :: "token_alternative \<Rightarrow> bool" where
  "alternative_evidence a \<longleftrightarrow> canonical_base64 (alt_bytes a) = Inr (alt_bytes a) \<and>
     (case alt_logprob a of None \<Rightarrow> True | Some p \<Rightarrow> is_finite p)"

definition token_evidence :: "generated_token \<Rightarrow> bool" where
  "token_evidence g \<longleftrightarrow> canonical_base64 (gt_bytes g) = Inr (gt_bytes g) \<and> is_finite (gt_logprob g) \<and>
     length (gt_top g) = 5 \<and> list_all alternative_evidence (gt_top g)"

lemma canonical_encode [simp]: "canonical_base64 (b64encode b) = Inr (b64encode b)"
  using canonical_iff by blast

lemma finite_number_finite: "finite_number v = Inr p \<Longrightarrow> is_finite p"
  by (induction v rule: finite_number.induct) (auto split: if_splits)

lemma read_alternative_evidence: "read_alternative r = Inr a \<Longrightarrow> alternative_evidence a"
  by (auto simp: read_alternative_def alternative_evidence_def rbind_Inr finite_number_finite split: if_splits)

lemma rmap_all: "rmap f xs = Inr ys \<Longrightarrow> (\<And>x y. f x = Inr y \<Longrightarrow> P y) \<Longrightarrow> list_all P ys"
  by (induction xs arbitrary: ys) (auto simp: rbind_Inr)

lemma read_token_evidence:
  assumes "read_token r = Inr (b, g)"
  shows "token_evidence g \<and> gt_bytes g = b64encode b"
proof -
  obtain items where t: "length items = 5" "rmap read_alternative items = Inr (gt_top g)"
      and g: "gt_bytes g = b64encode b" "is_finite (gt_logprob g)"
    using assms by (auto simp: read_token_def rbind_Inr finite_number_finite split: if_splits)
  have "list_all alternative_evidence (gt_top g)" using t(2) read_alternative_evidence by (rule rmap_all)
  then show ?thesis using t g rmap_Inr_length [OF t(2)] by (simp add: token_evidence_def)
qed

text \<open>The sizes that a trajectory limits and a completion does not.\<close>

definition fits :: "completion \<Rightarrow> bool" where
  "fits c \<longleftrightarrow> length (b64encode (co_request c)) \<le> 64 * MiB \<and> length (b64encode (co_response c)) \<le> 128 * MiB \<and>
     length (b64encode (co_generated c)) \<le> 64 * MiB \<and> length (co_reasoning c) \<le> 64 * MiB \<and> length (co_output c) \<le> 64 * MiB \<and>
     length (co_tokens c) \<le> 250000 \<and>
     list_all (\<lambda>g. length (gt_bytes g) \<le> 65536 \<and> token_id_ok (gt_id g) \<and>
       list_all (\<lambda>a. length (alt_bytes a) \<le> 65536 \<and> token_id_ok (alt_id a)) (gt_top g)) (co_tokens c)"

lemma rbind_InrE: "rbind r k = Inr b \<Longrightarrow> (\<And>a. r = Inr a \<Longrightarrow> k a = Inr b \<Longrightarrow> P) \<Longrightarrow> P"
  by (cases r) auto

lemma read_completion_parts:
  assumes "read_completion request_body response data = Inr c"
  shows "co_request c = request_body \<and> co_response c = response \<and>
    (\<exists>items tokens. rmap read_token items = Inr tokens \<and> co_generated c = concat (map fst tokens) \<and> co_tokens c = map snd tokens)"
proof -
  obtain content thought calls items tokens where "rmap read_token items = Inr tokens"
      "c = \<lparr>co_request = request_body, co_response = response, co_output = content, co_reasoning = thought,
            co_generated = concat (map fst tokens), co_tokens = map snd tokens, co_tool_calls = calls\<rparr>"
    using assms unfolding read_completion_def by (elim rbind_InrE, simp split: if_split_asm, elim rbind_InrE, blast)
  then show ?thesis by auto
qed

lemma completion_evidence:
  assumes "read_completion request_body response data = Inr c"
  shows "list_all token_evidence (co_tokens c) \<and>
    concat (map (\<lambda>g. the (b64decode (gt_bytes g))) (co_tokens c)) = co_generated c"
proof -
  obtain items tokens where t: "rmap read_token items = Inr tokens" "co_generated c = concat (map fst tokens)" "co_tokens c = map snd tokens"
    using read_completion_parts [OF assms] by blast
  have "list_all (\<lambda>(b, g). token_evidence g \<and> gt_bytes g = b64encode b) tokens"
    using t(1) read_token_evidence by (intro rmap_all [of read_token items tokens]) auto
  then have "list_all token_evidence (map snd tokens)"
      "concat (map (\<lambda>g. the (b64decode (gt_bytes g))) (map snd tokens)) = concat (map fst tokens)"
    by (induction tokens) auto
  then show ?thesis unfolding t(2,3) by simp
qed

lemma attempts_Inr:
  "fst (attempts left send loads request_body retries attempt rest) = Inr c \<Longrightarrow>
   \<exists>response data. read_completion request_body response data = Inr c"
  by (induction rest arbitrary: attempt) (auto split: if_splits model_post.splits option.splits)

lemma event_of_completion:
  assumes "read_completion request_body response data = Inr c" "fits c"
  shows "body_ok (model_event c)"
proof -
  note e = completion_evidence [OF assms(1)]
  have "list_all token_ok (co_tokens c)"
    using e assms(2) by (auto simp: list_all_iff token_ok_def token_evidence_def alternative_ok_def alternative_evidence_def
        base64_field_def fits_def)
  moreover have "validate_generated_bytes \<lparr>tn_request = b64encode (co_request c), tn_response = b64encode (co_response c),
     tn_generated = b64encode (co_generated c), tn_reasoning = co_reasoning c, tn_output = co_output c, tn_tokens = co_tokens c\<rparr>"
    using e by (simp add: validate_generated_bytes_def)
  ultimately show ?thesis
    using assms(2) by (simp add: model_event_def turn_ok_def base64_field_def fits_def validate_evidence_def TRACE_EVIDENCE_REQUIRED_def)
qed

text \<open>C33. A model request is bounded and its completion is evidence: a request is posted at most once more
  than the configured retries and never when its deadline has passed, and a completion that comes back
  belongs to this request and, within the size limits of a trajectory, gives a model turn that every
  check on the fields accepts; in particular the recorded tokens reproduce the generated bytes and
  each has five alternatives.\<close>

theorem completion_is_evidence:
  assumes "complete has_key https left send loads retries request_body = (r, n)"
  shows "n \<le> retries + 1 \<and> (\<forall>i < n. 0 < left i) \<and>
    (\<forall>c. r = Inr c \<longrightarrow> co_request c = request_body \<and> (fits c \<longrightarrow> body_ok (model_event c)))"
proof -
  have n: "n \<le> retries + 1 \<and> (\<forall>i < n. 0 < left i)"
    using assms attempts_bounded [of left send loads request_body retries 0 "Suc retries" r n]
    by (auto simp: complete_def split: if_splits)
  have "co_request c = request_body \<and> (fits c \<longrightarrow> body_ok (model_event c))" if r: "r = Inr c" for c
  proof -
    have "fst (attempts left send loads request_body retries 0 (Suc retries)) = Inr c"
      using assms r by (auto simp: complete_def split: if_splits)
    then obtain response data where "read_completion request_body response data = Inr c" using attempts_Inr by blast
    then show ?thesis using read_completion_parts event_of_completion by blast
  qed
  then show ?thesis using n by blast
qed

definition reply_example :: json where
  "reply_example = JObj [(ucs ''choices'', JList [JObj [(ucs ''finish_reason'', JStr (ucs ''stop'')),
     (ucs ''message'', JObj [(ucs ''content'', JStr (ucs ''ok''))])]])]"

definition completion_example :: completion where
  "completion_example = \<lparr>co_request = ''{}'', co_response = ''r'', co_output = ucs ''ok'', co_reasoning = [], co_generated = [],
     co_tokens = [], co_tool_calls = []\<rparr>"

lemma read_reply_example: "read_completion ''{}'' ''r'' reply_example = Inr completion_example"
  by (simp add: read_completion_def reply_example_def completion_example_def read_reasoning_def tool_calls_of_def ucs_def)

theorem completion_is_evidence_witness:
  "body_ok (model_event completion_example)"
proof -
  have "complete True True (\<lambda>_. 10) (\<lambda>i. if i = 0 then PostResponse 500 [] else PostResponse 200 ''r'') (\<lambda>_. Some reply_example) 2 ''{}'' =
      (Inr completion_example, 2)"
    by (simp add: complete_def read_reply_example numeral_2_eq_2)
  from completion_is_evidence [OF this] have "fits completion_example \<longrightarrow> body_ok (model_event completion_example)" by blast
  moreover have "fits completion_example"
    by (simp add: fits_def completion_example_def MiB_def ucs_def b64encode_def)
  ultimately show ?thesis by blast
qed

end
