(* ===== verification/MinerWorkspace.thy ===== *)
theory MinerWorkspace
  imports LiveClient "HOL-Library.Char_ord"
begin

text \<open>
  The read-only view of a task's workspace that the reference miner gives to its model
  (\<open>src/rlvr/v3/miner_workspace.py\<close>): listing, finding and reading in pages.  A workspace is a tree that
  \<open>extract_archive\<close> made, so it holds no links.  The lemmas show that a page never leaves the
  workspace and that following \<open>next_offset\<close> gives every file, every entry and the whole text
  of a file once.
\<close>

section \<open>Walking\<close>

fun weight :: "node \<Rightarrow> nat" and weights :: "(string \<times> node) list \<Rightarrow> nat" where
  "weight (Dir m es) = Suc (weights es)"
| "weight _ = 1"
| "weights [] = 0"
| "weights ((_, n) # es) = weight n + weights es"

text \<open>The loop over the entries of one directory: what is found, and the directories for later.\<close>

fun scan_entries ::
  "nat \<Rightarrow> string list \<Rightarrow> (string \<times> node) list \<Rightarrow> string list list \<Rightarrow> (string list \<times> node) list \<Rightarrow>
   string list list \<times> (string list \<times> node) list" where
  "scan_entries limit p [] found later = (found, later)"
| "scan_entries limit p ((name, n) # es) found later =
     (if is_dir n then scan_entries limit p es found (later @ [(p @ [name], n)])
      else if is_reg n then
        (if length (found @ [p @ [name]]) \<ge> limit then (found @ [p @ [name]], later)
         else scan_entries limit p es (found @ [p @ [name]]) later)
      else scan_entries limit p es found later)"

lemma weight_pos: "0 < weight n"
  by (cases n) auto

lemma weights_sum: "weights es = sum_list (map (weight \<circ> snd) es)"
  by (induction es) auto

lemma scan_entries_weight:
  "scan_entries limit p es found later = (found', later') \<Longrightarrow>
     sum_list (map (weight \<circ> snd) later') \<le> weights es + sum_list (map (weight \<circ> snd) later)"
  by (induction limit p es found later rule: scan_entries.induct) (auto split: if_splits)

lemma weights_sort: "weights (sort_key fst es) = weights es"
proof -
  have "mset (map (weight \<circ> snd) (sort_key fst es)) = mset (map (weight \<circ> snd) es)" by simp
  then show ?thesis unfolding weights_sum by (metis sum_mset_sum_list)
qed

text \<open>The stack of directories has its top in front.\<close>

function files_under :: "nat \<Rightarrow> (string list \<times> node) list \<Rightarrow> string list list \<Rightarrow> string list list" where
  "files_under limit pending found =
     (if length found \<ge> limit then take limit found
      else case pending of
        [] \<Rightarrow> take limit found
      | (p, n) # rest \<Rightarrow>
          (case n of
             Dir m es \<Rightarrow>
               (case scan_entries limit p (sort_key fst es) found [] of
                  (found', later) \<Rightarrow> files_under limit (later @ rest) found')
           | _ \<Rightarrow> files_under limit rest found))"
  by pat_completeness auto
termination
  by (relation "measure (\<lambda>(limit, pending, found). sum_list (map (weight \<circ> snd) pending))")
    (auto simp: weight_pos less_Suc_eq_le dest!: scan_entries_weight [OF sym] simp: weights_sort)

declare files_under.simps [simp del]

section \<open>Decoding a page\<close>

text \<open>
  An incremental decoder that is not at the end keeps a sequence that is cut off by the end of the
  bytes but well formed so far.
\<close>

definition cut_off :: "nat \<Rightarrow> nat list \<Rightarrow> bool" where
  "cut_off b bs \<longleftrightarrow>
     \<not> b < 0x80 \<and> (case utf8_lead b of None \<Rightarrow> False
       | Some (k, low, high) \<Rightarrow> length (continuation k low high bs) < k \<and> length (continuation k low high bs) = length bs)"

function inc_scan :: "nat list \<Rightarrow> nat option list \<times> nat list" where
  "inc_scan [] = ([], [])"
| "inc_scan (b # bs) =
     (if cut_off b bs then ([], b # bs)
      else case utf8_step b bs of (r, n) \<Rightarrow> (case inc_scan (drop n bs) of (rs, buffered) \<Rightarrow> (r # rs, buffered)))"
  by pat_completeness auto
termination by (relation "measure length") auto

definition replaced :: "nat option list \<Rightarrow> ustring" where
  "replaced rs = map (\<lambda>r. case r of None \<Rightarrow> 0xFFFD | Some c \<Rightarrow> c) rs"

text \<open>The text, and how many bytes the decoder has kept.\<close>

definition decode_page :: "bytes \<Rightarrow> bool \<Rightarrow> ustring \<times> nat" where
  "decode_page raw final =
     (if final then (utf8_replace raw, 0)
      else case inc_scan (ucs raw) of (rs, buffered) \<Rightarrow> (replaced rs, length buffered))"

section \<open>The tools\<close>

definition READ_BYTES :: nat where "READ_BYTES = 32 * 1024"
definition LIST_ENTRIES :: nat where "LIST_ENTRIES = 200"

datatype tool_value =
    FilesPage "string list" "nat option"
  | EntriesPage "(string \<times> bool) list" "nat option"
  | TextPage ustring "nat option"
  | ToolError string

text \<open>The messages of the reader; every error of the file system is shown as the same text.\<close>

definition unreadable :: tool_value where "unreadable = ToolError ''workspace path could not be read''"

fun descend :: "node \<Rightarrow> string list \<Rightarrow> tool_value + node" where
  "descend n [] = Inr n"
| "descend n (s # ss) =
     (case node_at n [s] of
        None \<Rightarrow> Inl unreadable
      | Some c \<Rightarrow>
          if \<not> (is_dir c \<or> is_reg c)
          then Inl (ToolError ''workspace path is not a regular file or directory'')
          else descend c ss)"

definition segments :: "string \<Rightarrow> string list" where
  "segments relative = (if relative = ''.'' then [] else split_on slash relative)"

fun error_text :: "py_error \<Rightarrow> string" where
  "error_text (ValueError msg) = msg"
| "error_text _ = []"

definition reader_path :: "node \<Rightarrow> string \<Rightarrow> tool_value + node" where
  "reader_path base relative =
     (case validate_relative_path relative of
        Inl e \<Rightarrow> Inl (ToolError (error_text e))
      | Inr _ \<Rightarrow> descend base (segments relative))"

definition find_files :: "node \<Rightarrow> string \<Rightarrow> nat \<Rightarrow> tool_value" where
  "find_files n relative offset =
     (if \<not> is_dir n then ToolError ''find_files requires a directory''
      else let found = files_under (offset + LIST_ENTRIES + 1) [(segments relative, n)] [];
               page = take LIST_ENTRIES (drop offset found) in
        FilesPage (map posix page) (if length found > offset + length page then Some (offset + length page) else None))"

definition list_files :: "node \<Rightarrow> nat \<Rightarrow> tool_value" where
  "list_files n offset =
     (case n of
        Dir m es \<Rightarrow>
          let entries = sort_key fst es; page = take LIST_ENTRIES (drop offset entries) in
          EntriesPage (map (\<lambda>(name, c). (name, is_dir c)) page)
            (if offset + length page < length entries then Some (offset + length page) else None)
      | _ \<Rightarrow> unreadable)"

text \<open>\<open>seek_max\<close> is the largest position the file system can seek to; past it \<open>seek\<close> raises an
  \<open>OSError\<close> or an \<open>OverflowError\<close>.\<close>

definition read_file :: "nat \<Rightarrow> node \<Rightarrow> nat \<Rightarrow> tool_value" where
  "read_file seek_max n offset =
     (case n of
        Reg contents m k \<Rightarrow>
          if offset > seek_max then unreadable
          else let raw = take READ_BYTES (drop offset contents);
                   has_more = length contents > offset + length raw in
            (case decode_page raw (\<not> has_more) of (content, kept) \<Rightarrow>
               TextPage content (if has_more then Some (offset + length raw - kept) else None))
      | _ \<Rightarrow> ToolError ''read_file requires a regular file'')"

definition execute_tool :: "nat \<Rightarrow> node \<Rightarrow> (string, jvalue) dict \<Rightarrow> tool_value" where
  "execute_tool seek_max base arguments =
     (if set (keys arguments) \<noteq> {''tool'', ''path'', ''offset''}
        then ToolError ''tool requires tool, path, and offset''
      else case (map_of arguments ''path'', map_of arguments ''offset'') of
        (Some (JStr relative), Some (JInt offset)) \<Rightarrow>
          if offset < 0 then ToolError ''path must be a string and offset a nonnegative integer''
          else (case reader_path base relative of
            Inl e \<Rightarrow> e
          | Inr n \<Rightarrow>
              if map_of arguments ''tool'' = Some (JStr ''find_files'') then find_files n relative (nat offset)
              else if map_of arguments ''tool'' = Some (JStr ''list_files'') then list_files n (nat offset)
              else if map_of arguments ''tool'' = Some (JStr ''read_file'') then read_file seek_max n (nat offset)
              else ToolError ''unknown workspace tool'')
      | _ \<Rightarrow> ToolError ''path must be a string and offset a nonnegative integer'')"

section \<open>Opening the workspace\<close>

datatype open_error = Refused string | NotDownloaded download_error | NotExtracted archive_error

definition miner_limits :: "validator_policy \<Rightarrow> archive_limits" where
  "miner_limits p = \<lparr>max_compressed_bytes = v3_workspace_compressed_bytes p, max_expanded_bytes = v3_workspace_bytes p,
     arc_max_file_bytes = v3_max_file_bytes p, arc_max_entries = 200000, arc_max_path_bytes = 4096,
     max_zstd_window_bytes = 128 * 1024 ^ 2\<rparr>"

text \<open>\<open>free\<close> is what \<open>shutil.disk_usage\<close> reports for the temporary directory, which starts empty.\<close>

definition open_miner_workspace ::
  "(string \<Rightarrow> string option) \<Rightarrow> (bytes \<Rightarrow> string) \<Rightarrow> (bytes \<Rightarrow> zstd_run) \<Rightarrow> (bytes \<Rightarrow> tar_member list option) \<Rightarrow>
   (string \<Rightarrow> http_outcome) \<Rightarrow> int \<Rightarrow> miner_task_request \<Rightarrow> validator_policy \<Rightarrow> open_error + node" where
  "open_miner_workspace origin_of sha256 zstd tar http_get free request p =
     (case check_archive_limits (miner_limits p) of
        Inl e \<Rightarrow> Inl (Refused (error_text e))
      | Inr l \<Rightarrow>
          if expanded_size_bytes (mt_workspace request) > max_expanded_bytes l
            then Inl (Refused ''workspace exceeds the expanded byte limit'')
          else if free < compressed_size_bytes (mt_workspace request) + 2 * expanded_size_bytes (mt_workspace request)
            then Inl (Refused ''insufficient workspace storage'')
          else case download_artifact origin_of sha256 http_get (mt_workspace_url request) (mt_workspace request) l
                      False (set (v3_artifact_origins p)) of
            Inl e \<Rightarrow> Inl (NotDownloaded e)
          | Inr archive \<Rightarrow>
              (case extract_archive sha256 zstd tar False True (Some archive) (mt_workspace request) l of
                 (Inr _, Some workspace) \<Rightarrow> Inr workspace
               | (Inl e, _) \<Rightarrow> Inl (NotExtracted e)
               | (_, None) \<Rightarrow> Inl (NotExtracted tar_invalid)))"

section \<open>Following the pages\<close>

text \<open>A client that asks for the page at \<open>next_offset\<close> until there is none, for at most \<open>fuel\<close> pages.\<close>

fun follow :: "nat \<Rightarrow> (nat \<Rightarrow> ('a list \<times> nat option) option) \<Rightarrow> nat \<Rightarrow> 'a list option" where
  "follow 0 page offset = None"
| "follow (Suc fuel) page offset =
     (case page offset of
        None \<Rightarrow> None
      | Some (xs, None) \<Rightarrow> Some xs
      | Some (xs, Some nxt) \<Rightarrow> map_option ((@) xs) (follow fuel page nxt))"

text \<open>
  The contract of a paged tool: from a usable offset a page is a beginning of what remains there,
  and the nxt offset is usable, at least \<open>stride\<close> further and within the bound.
\<close>

locale paged =
  fixes page :: "nat \<Rightarrow> ('a list \<times> nat option) option"
    and remaining :: "nat \<Rightarrow> 'a list"
    and usable :: "nat \<Rightarrow> bool"
    and stride bound :: nat
  assumes stride_pos: "0 < stride"
    and last_page: "usable offset \<Longrightarrow> page offset = Some (xs, None) \<Longrightarrow> remaining offset = xs"
    and inner_page: "usable offset \<Longrightarrow> page offset = Some (xs, Some nxt) \<Longrightarrow>
      remaining offset = xs @ remaining nxt \<and> usable nxt \<and> offset + stride \<le> nxt \<and> nxt \<le> bound"
    and answers: "usable offset \<Longrightarrow> page offset \<noteq> None"
begin

lemma follow_complete:
  "usable offset \<Longrightarrow> (bound - offset) div stride < fuel \<Longrightarrow> follow fuel page offset = Some (remaining offset)"
proof (induction fuel arbitrary: offset)
  case (Suc fuel)
  obtain xs nxt' where p: "page offset = Some (xs, nxt')" using answers [OF Suc.prems(1)] by auto
  show ?case
  proof (cases nxt')
    case None
    then show ?thesis using p last_page [OF Suc.prems(1)] by simp
  next
    case (Some nxt)
    have i: "remaining offset = xs @ remaining nxt" "usable nxt" "offset + stride \<le> nxt" "nxt \<le> bound"
      using inner_page [OF Suc.prems(1)] p Some by auto
    have "(bound - nxt) div stride + 1 = (bound - nxt + stride) div stride" using stride_pos by simp
    also have "\<dots> \<le> (bound - offset) div stride" using i(3,4) by (intro div_le_mono) simp
    finally have "(bound - nxt) div stride < fuel" using Suc.prems(2) by simp
    then show ?thesis using p Some i(1) Suc.IH [OF i(2)] by simp
  qed
qed simp

end

section \<open>Reading a file\<close>

fun text_page :: "tool_value \<Rightarrow> (ustring \<times> nat option) option" where
  "text_page (TextPage content nxt) = Some (content, nxt)"
| "text_page _ = None"

lemma continuation_le: "length (continuation k low high bs) \<le> length bs"
  "length (continuation k low high bs) \<le> k"
  by (induction k low high bs rule: continuation.induct) auto

lemma continuation_append:
  "length (continuation k low high bs) = k \<or> length (continuation k low high bs) < length bs \<Longrightarrow>
   continuation k low high (bs @ cs) = continuation k low high bs"
  by (induction k low high bs rule: continuation.induct) (auto split: if_splits)

lemma continuation_zero [simp]: "continuation 0 low high bs = []"
  by (cases bs) auto

lemma utf8_step_append:
  assumes "\<not> cut_off b bs"
  shows "utf8_step b (bs @ cs) = utf8_step b bs"
proof (cases "b < 0x80 \<or> utf8_lead b = None")
  case False
  then obtain k low high where l: "\<not> b < 0x80" "utf8_lead b = Some (k, low, high)" by auto
  then have "continuation k low high (bs @ cs) = continuation k low high bs"
    using assms continuation_le [of k low high bs] by (intro continuation_append) (auto simp: cut_off_def)
  then show ?thesis using l by (simp add: utf8_step_def)
qed (auto simp: utf8_step_def)

lemma utf8_step_consumes:
  assumes "utf8_step b bs = (r, n)"
  shows "n \<le> length bs"
proof (cases "b < 0x80 \<or> utf8_lead b = None")
  case False
  then obtain k low high where "\<not> b < 0x80" "utf8_lead b = Some (k, low, high)" by auto
  then show ?thesis using assms continuation_le(1) [of k low high bs]
    by (auto simp: utf8_step_def Let_def split: if_splits)
qed (use assms in \<open>auto simp: utf8_step_def split: if_splits\<close>)

lemma cut_off_short: "cut_off b bs \<Longrightarrow> length bs \<le> 2"
  by (auto simp: cut_off_def utf8_lead_def split: if_splits)

lemma inc_scan_append:
  "inc_scan bs = (rs, buffered) \<Longrightarrow> utf8_scan (bs @ cs) = rs @ utf8_scan (buffered @ cs)"
proof (induction bs arbitrary: rs rule: inc_scan.induct)
  case (2 b bs)
  obtain r n where s: "utf8_step b bs = (r, n)" by fastforce
  show ?case
  proof (cases "cut_off b bs")
    case False
    then show ?thesis using 2 s utf8_step_append [OF False, of cs] utf8_step_consumes [OF s]
      by (auto split: prod.splits)
  qed (use 2 in simp)
qed simp

lemma inc_scan_suffix:
  "inc_scan bs = (rs, buffered) \<Longrightarrow> length buffered \<le> 3 \<and> (\<exists>front. bs = front @ buffered)"
proof (induction bs arbitrary: rs rule: inc_scan.induct)
  case (2 b bs)
  obtain r n where s: "utf8_step b bs = (r, n)" by fastforce
  show ?case
  proof (cases "cut_off b bs")
    case False
    obtain rs' where i: "inc_scan (drop n bs) = (rs', buffered)" using 2 s False by (auto split: prod.splits)
    then obtain front where "length buffered \<le> 3" "drop n bs = front @ buffered" using "2.IH" [OF False s [symmetric]] by blast
    then have "b # bs = (b # take n bs @ front) @ buffered" by (metis append.assoc append_Cons append_take_drop_id)
    then show ?thesis using \<open>length buffered \<le> 3\<close> by blast
  qed (use 2 cut_off_short in fastforce)
qed simp

lemma replaced_append [simp]: "replaced (xs @ ys) = replaced xs @ replaced ys"
  by (simp add: replaced_def)

lemma utf8_replace_replaced: "utf8_replace bs = replaced (utf8_scan (ucs bs))"
  by (simp add: utf8_replace_def replaced_def)

lemma ucs_append [simp]: "ucs (xs @ ys) = ucs xs @ ucs ys"
  by (simp add: ucs_def)

lemma ucs_drop: "ucs (drop n xs) = drop n (ucs xs)"
  by (simp add: ucs_def drop_map)

text \<open>An inner page: its text and the decoding of what follows the consumed bytes give the decoding of all.\<close>

lemma decode_page_inner:
  assumes "decode_page raw False = (content, kept)"
  shows "utf8_replace (raw @ tail) = content @ utf8_replace (drop (length raw - kept) (raw @ tail)) \<and>
    kept \<le> 3 \<and> kept \<le> length raw"
proof -
  obtain rs buffered where i: "inc_scan (ucs raw) = (rs, buffered)" by fastforce
  have d: "content = replaced rs" "kept = length buffered" using assms i by (auto simp: decode_page_def)
  obtain front where s: "length buffered \<le> 3" "ucs raw = front @ buffered" using inc_scan_suffix [OF i] by blast
  have l: "length raw = length front + length buffered" using arg_cong [OF s(2), of length] by (simp add: ucs_def)
  have "ucs (drop (length raw - kept) (raw @ tail)) = buffered @ ucs tail"
    unfolding ucs_drop by (simp add: s(2) l d(2))
  then show ?thesis
    using inc_scan_append [OF i, of "ucs tail"] d s(1) l by (simp add: utf8_replace_replaced)
qed

lemma read_file_inner:
  assumes "read_file seek_max (Reg contents m k) offset = TextPage content (Some nxt)"
  shows "utf8_replace (drop offset contents) = content @ utf8_replace (drop nxt contents) \<and>
    offset + (READ_BYTES - 3) \<le> nxt \<and> nxt \<le> length contents"
proof -
  define raw where "raw = take READ_BYTES (drop offset contents)"
  have e: "read_file seek_max (Reg contents m k) offset =
      (if offset > seek_max then unreadable
       else case decode_page raw (\<not> length contents > offset + length raw) of (content, kept) \<Rightarrow>
         TextPage content (if length contents > offset + length raw then Some (offset + length raw - kept) else None))"
    unfolding raw_def by (simp only: read_file_def node.case Let_def)
  obtain kept where o: "length contents > offset + length raw" "decode_page raw False = (content, kept)"
      "nxt = offset + length raw - kept"
    using assms unfolding e by (auto simp: unreadable_def split: if_splits prod.splits)
  have l: "length raw = READ_BYTES" using o(1) by (auto simp: raw_def)
  have r: "raw @ drop READ_BYTES (drop offset contents) = drop offset contents"
    unfolding raw_def by (rule append_take_drop_id)
  have "nxt = offset + (length raw - kept)"
    using decode_page_inner [OF o(2)] o(3) by simp
  then show ?thesis
    using decode_page_inner [OF o(2), of "drop READ_BYTES (drop offset contents)"] o(1) l
    unfolding r by (auto simp: add.commute)
qed

lemma read_file_last:
  "read_file seek_max (Reg contents m k) offset = TextPage content None \<Longrightarrow>
   content = utf8_replace (drop offset contents)"
  by (auto simp: read_file_def decode_page_def Let_def unreadable_def not_less min_def split: if_splits prod.splits)

interpretation reading: paged "\<lambda>offset. text_page (read_file seek_max (Reg contents m k) offset)"
    "\<lambda>offset. utf8_replace (drop offset contents)"
    "\<lambda>offset. offset \<le> length contents \<and> length contents \<le> seek_max" "READ_BYTES - 3" "length contents"
  for seek_max contents m k
proof unfold_locales
  show "0 < READ_BYTES - 3" by (simp add: READ_BYTES_def)
next
  fix offset :: nat and xs
  assume "text_page (read_file seek_max (Reg contents m k) offset) = Some (xs, None)"
  then show "utf8_replace (drop offset contents) = xs"
    by (cases "read_file seek_max (Reg contents m k) offset") (auto dest: read_file_last)
next
  fix offset :: nat and xs nxt
  assume "offset \<le> length contents \<and> length contents \<le> seek_max"
    and "text_page (read_file seek_max (Reg contents m k) offset) = Some (xs, Some nxt)"
  then show "utf8_replace (drop offset contents) = xs @ utf8_replace (drop nxt contents) \<and>
    (nxt \<le> length contents \<and> length contents \<le> seek_max) \<and> offset + (READ_BYTES - 3) \<le> nxt \<and> nxt \<le> length contents"
    by (cases "read_file seek_max (Reg contents m k) offset") (auto dest: read_file_inner)
next
  fix offset :: nat
  assume "offset \<le> length contents \<and> length contents \<le> seek_max"
  then show "text_page (read_file seek_max (Reg contents m k) offset) \<noteq> None"
    by (auto simp: read_file_def Let_def split: prod.splits)
qed

section \<open>Finding files\<close>

text \<open>
  The reference order: the regular files of a directory by name, then the files of its
  subdirectories by name.
\<close>

definition sub_files :: "string list \<Rightarrow> (string \<times> node) list \<Rightarrow> string list list" where
  "sub_files p es = map (\<lambda>(name, _). p @ [name]) (filter (is_reg \<circ> snd) es)"

definition sub_dirs :: "string list \<Rightarrow> (string \<times> node) list \<Rightarrow> (string list \<times> node) list" where
  "sub_dirs p es = map (\<lambda>(name, n). (p @ [name], n)) (filter (is_dir \<circ> snd) es)"

lemma sub_dirs_smaller: "(q, n) \<in> set (sub_dirs p (sort_key fst es)) \<Longrightarrow> weight n < Suc (weights es)"
proof -
  assume "(q, n) \<in> set (sub_dirs p (sort_key fst es))"
  then have "weight n \<in> set (map (weight \<circ> snd) es)" by (force simp: sub_dirs_def)
  then show ?thesis unfolding weights_sum using member_le_sum_list [of "weight n" "map (weight \<circ> snd) es"] by simp
qed

function all_files :: "string list \<Rightarrow> node \<Rightarrow> string list list" where
  "all_files p n =
     (case n of
        Dir m es \<Rightarrow> sub_files p (sort_key fst es) @ concat (map (\<lambda>(q, c). all_files q c) (sub_dirs p (sort_key fst es)))
      | _ \<Rightarrow> [])"
  by pat_completeness auto
termination
  by (relation "measure (weight \<circ> snd)") (auto dest!: sub_dirs_smaller)

declare all_files.simps [simp del]

lemma all_files_dir:
  "all_files p (Dir m es) = sub_files p (sort_key fst es) @ concat (map (\<lambda>(q, c). all_files q c) (sub_dirs p (sort_key fst es)))"
  by (subst all_files.simps) simp

lemma all_files_other: "\<not> is_dir n \<Longrightarrow> all_files p n = []"
  by (cases n) (simp_all add: all_files.simps)

lemma sub_simps [simp]:
  "sub_files p [] = []" "sub_dirs p [] = []"
  "sub_files p ((name, n) # es) = (if is_reg n then [p @ [name]] else []) @ sub_files p es"
  "sub_dirs p ((name, n) # es) = (if is_dir n then [(p @ [name], n)] else []) @ sub_dirs p es"
  by (auto simp: sub_files_def sub_dirs_def)

lemma reg_not_dir: "is_reg n \<Longrightarrow> \<not> is_dir n"
  by (cases n) auto

lemma scan_entries_spec:
  "scan_entries limit p es found later = (found', later') \<Longrightarrow> length found < limit \<Longrightarrow>
   found' = take limit (found @ sub_files p es) \<and>
   (length found' < limit \<longrightarrow> later' = later @ sub_dirs p es)"
  by (induction limit p es found later rule: scan_entries.induct)
    (auto simp: reg_not_dir not_le take_Cons' split: if_splits)

lemma files_under_spec:
  "length found \<le> limit \<Longrightarrow>
   files_under limit pending found = take limit (found @ concat (map (\<lambda>(p, n). all_files p n) pending))"
proof (induction limit pending found rule: files_under.induct)
  case (1 limit pending found)
  show ?case
  proof (cases "length found \<ge> limit \<or> pending = []")
    case True
    then show ?thesis using "1.prems" by (auto simp: files_under.simps)
  next
    case False
    then obtain p n rest where pn: "pending = (p, n) # rest" and less: "length found < limit" by (cases pending) auto
    show ?thesis
    proof (cases n)
      case (Dir m es)
      obtain found' later where s: "scan_entries limit p (sort_key fst es) found [] = (found', later)" by fastforce
      note sp = scan_entries_spec [OF s less]
      have "files_under limit pending found = files_under limit (later @ rest) found'"
        using less pn Dir s by (subst files_under.simps) simp
      also have "\<dots> = take limit (found' @ concat (map (\<lambda>(p, n). all_files p n) (later @ rest)))"
        using "1.IH" less pn Dir s sp by (auto simp: not_le)
      also have "\<dots> = take limit (found @ concat (map (\<lambda>(p, n). all_files p n) pending))"
      proof (cases "length found' < limit")
        case True
        then show ?thesis using sp pn Dir by (auto simp: all_files_dir)
      next
        case False
        then show ?thesis using sp pn Dir less by (auto simp: all_files_dir)
      qed
      finally show ?thesis .
    next
      case (Reg b m k)
      then show ?thesis using "1.IH"(1) "1.prems" less pn by (subst files_under.simps) (simp add: all_files_other)
    next
      case (Symlink t)
      then show ?thesis using "1.IH"(3) "1.prems" less pn by (subst files_under.simps) (simp add: all_files_other)
    next
      case Special
      then show ?thesis using "1.IH"(4) "1.prems" less pn by (subst files_under.simps) (simp add: all_files_other)
    qed
  qed
qed

text \<open>The reference order names each regular file of the tree once.\<close>

lemma sub_dirs_mset: "mset (sub_dirs p (sort_key fst es)) = mset (sub_dirs p es)"
  by (simp only: sub_dirs_def mset_map mset_filter mset_sort)

lemma sub_files_mset: "mset (sub_files p (sort_key fst es)) = mset (sub_files p es)"
  by (simp only: sub_files_def mset_map mset_filter mset_sort)

lemma mset_concat_map: "mset (concat (map f xs)) = (\<Sum>x \<in># mset xs. mset (f x))"
  by (induction xs) auto

lemma regular_entries_dir:
  "mset (map fst (filter (is_reg \<circ> snd) (entries_of p (Dir m es)))) =
     mset (sub_files p es) + (\<Sum>(q, c) \<in># mset (sub_dirs p es). mset (map fst (filter (is_reg \<circ> snd) (entries_of q c))))"
  by (induction es) auto

lemma all_files_regular:
  "mset (all_files p n) = mset (map fst (filter (is_reg \<circ> snd) (entries_of p n)))"
proof (induction p n rule: all_files.induct)
  case (1 p n)
  show ?case
  proof (cases n)
    case (Dir m es)
    have "mset (all_files p n) = mset (sub_files p es) + (\<Sum>(q, c) \<in># mset (sub_dirs p (sort_key fst es)). mset (all_files q c))"
      by (simp add: Dir all_files_dir sub_files_mset mset_concat_map prod.case_distrib)
    also have "(\<Sum>(q, c) \<in># mset (sub_dirs p (sort_key fst es)). mset (all_files q c)) =
        (\<Sum>(q, c) \<in># mset (sub_dirs p (sort_key fst es)). mset (map fst (filter (is_reg \<circ> snd) (entries_of q c))))"
      using 1 [OF Dir _ refl] by (intro arg_cong [of _ _ sum_mset] image_mset_cong) auto
    finally show ?thesis unfolding sub_dirs_mset Dir regular_entries_dir .
  qed (simp_all add: all_files_other)
qed

fun files_page :: "tool_value \<Rightarrow> (string list \<times> nat option) option" where
  "files_page (FilesPage files nxt) = Some (files, nxt)"
| "files_page _ = None"

lemma find_files_page:
  assumes "is_dir n" "offset \<le> length (all_files (segments relative) n)"
  shows "find_files n relative offset =
    (let whole = map posix (all_files (segments relative) n) in
     FilesPage (take LIST_ENTRIES (drop offset whole))
       (if offset + LIST_ENTRIES < length whole then Some (offset + LIST_ENTRIES) else None))"
  using assms by (auto simp: find_files_def files_under_spec Let_def take_map drop_map drop_take min_def)

lemma page_split: "drop offset xs = take k (drop offset xs) @ drop (offset + k) xs"
  by (metis append_take_drop_id drop_drop add.commute)

interpretation finding: paged "\<lambda>offset. files_page (find_files (Dir m es) relative offset)"
    "\<lambda>offset. drop offset (map posix (all_files (segments relative) (Dir m es)))"
    "\<lambda>offset. offset \<le> length (all_files (segments relative) (Dir m es))" LIST_ENTRIES
    "length (all_files (segments relative) (Dir m es))"
  for m es relative
  by unfold_locales
    (auto simp: find_files_page Let_def LIST_ENTRIES_def split: if_splits intro: page_split)

section \<open>Listing a directory\<close>

fun entries_page :: "tool_value \<Rightarrow> ((string \<times> bool) list \<times> nat option) option" where
  "entries_page (EntriesPage entries nxt) = Some (entries, nxt)"
| "entries_page _ = None"

interpretation listing: paged "\<lambda>offset. entries_page (list_files (Dir m es) offset)"
    "\<lambda>offset. drop offset (map (\<lambda>(name, c). (name, is_dir c)) (sort_key fst es))"
    "\<lambda>offset. offset \<le> length es" LIST_ENTRIES "length es"
  for m es
  by unfold_locales
    (auto simp: list_files_def Let_def LIST_ENTRIES_def min_def simp flip: take_map drop_map split: if_splits intro: page_split)

section \<open>Through the reader\<close>

declare follow.simps [simp del]

definition link_free :: "node \<Rightarrow> bool" where
  "link_free n \<longleftrightarrow> (\<forall>q c. node_at n q = Some c \<longrightarrow> is_dir c \<or> is_reg c)"

definition tool_args :: "string \<Rightarrow> string \<Rightarrow> nat \<Rightarrow> (string, jvalue) dict" where
  "tool_args tool relative offset =
     [(''tool'', JStr tool), (''path'', JStr relative), (''offset'', JInt (int offset))]"

lemma node_at_Cons: "node_at n (s # ss) = Option.bind (node_at n [s]) (\<lambda>c. node_at c ss)"
  by (cases n) (auto split: option.splits)

lemma descend_plain:
  "link_free n \<Longrightarrow> node_at n ss = Some c \<Longrightarrow> descend n ss = Inr c"
proof (induction n ss rule: descend.induct)
  case (2 n s ss)
  obtain d where d: "node_at n [s] = Some d" "node_at d ss = Some c"
    using 2(3) by (subst (asm) node_at_Cons) (auto simp: bind_eq_Some_conv)
  have "link_free d" unfolding link_free_def
  proof (intro allI impI)
    fix q c
    assume "node_at d q = Some c"
    then have "node_at n (s # q) = Some c" by (subst node_at_Cons) (simp add: d(1))
    then show "is_dir c \<or> is_reg c" using 2(2) unfolding link_free_def by blast
  qed
  moreover have "is_dir d \<or> is_reg d" using 2(2) d(1) by (auto simp: link_free_def)
  ultimately show ?case using d 2(1) [OF d(1)] by auto
qed simp

lemma descend_node_at: "descend n ss = Inr c \<Longrightarrow> node_at n ss = Some c"
proof (induction n ss rule: descend.induct)
  case (2 n s ss)
  then show ?case by (subst node_at_Cons) (auto split: option.splits if_splits)
qed simp

lemma reader_path_plain:
  "link_free base \<Longrightarrow> validate_relative_path relative = Inr relative \<Longrightarrow> node_at base (segments relative) = Some n \<Longrightarrow>
   reader_path base relative = Inr n"
  by (simp add: reader_path_def descend_plain)

lemma execute_call:
  assumes "reader_path base relative = Inr n"
  shows "execute_tool seek_max base (tool_args ''find_files'' relative offset) = find_files n relative offset"
    and "execute_tool seek_max base (tool_args ''list_files'' relative offset) = list_files n offset"
    and "execute_tool seek_max base (tool_args ''read_file'' relative offset) = read_file seek_max n offset"
  using assms by (auto simp: execute_tool_def tool_args_def)

lemma read_file_pages_whole:
  assumes "link_free base" "validate_relative_path relative = Inr relative"
    and "node_at base (segments relative) = Some (Reg contents m k)" "length contents \<le> seek_max"
  shows "follow (Suc (length contents div (READ_BYTES - 3)))
      (\<lambda>offset. text_page (execute_tool seek_max base (tool_args ''read_file'' relative offset))) 0 = Some (utf8_replace contents)"
  using reading.follow_complete [of 0 contents seek_max] assms(4) execute_call(3) [OF reader_path_plain [OF assms(1-3)]]
  by simp

lemma find_files_pages_whole:
  assumes "link_free base" "validate_relative_path relative = Inr relative"
    and "node_at base (segments relative) = Some (Dir m es)"
  shows "follow (Suc (length (all_files (segments relative) (Dir m es)) div LIST_ENTRIES))
      (\<lambda>offset. files_page (execute_tool seek_max base (tool_args ''find_files'' relative offset))) 0 =
    Some (map posix (all_files (segments relative) (Dir m es)))"
  using finding.follow_complete [of 0 relative m es] by (simp add: execute_call [OF reader_path_plain [OF assms]])

lemma list_files_pages_whole:
  assumes "link_free base" "validate_relative_path relative = Inr relative"
    and "node_at base (segments relative) = Some (Dir m es)"
  shows "follow (Suc (length es div LIST_ENTRIES))
      (\<lambda>offset. entries_page (execute_tool seek_max base (tool_args ''list_files'' relative offset))) 0 =
    Some (map (\<lambda>(name, c). (name, is_dir c)) (sort_key fst es))"
  using listing.follow_complete [of 0 es "Suc (length es div LIST_ENTRIES)" m]
  by (simp add: execute_call [OF reader_path_plain [OF assms]])

text \<open>C31. Searching and listing in pages are complete: in a workspace without links, following
  \<open>next_offset\<close> of \<open>find_files\<close> gives every regular file below the directory exactly once, and of
  \<open>list_files\<close> every entry of the directory in the order of the names, after as many pages as 200
  entries a page need.\<close>

theorem directory_pages_complete:
  assumes "link_free base" "validate_relative_path relative = Inr relative"
    and "node_at base (segments relative) = Some (Dir m es)"
  shows "(\<exists>files. mset files = mset (map fst (filter (is_reg \<circ> snd) (entries_of (segments relative) (Dir m es)))) \<and>
      follow (Suc (length files div LIST_ENTRIES))
        (\<lambda>offset. files_page (execute_tool seek_max base (tool_args ''find_files'' relative offset))) 0 = Some (map posix files)) \<and>
    follow (Suc (length es div LIST_ENTRIES))
        (\<lambda>offset. entries_page (execute_tool seek_max base (tool_args ''list_files'' relative offset))) 0 =
      Some (map (\<lambda>(name, c). (name, is_dir c)) (sort_key fst es))"
  using all_files_regular find_files_pages_whole [OF assms] list_files_pages_whole [OF assms] by blast

definition workspace_tree :: node where
  "workspace_tree = Dir 448 [(''z'', Reg ''last'' 420 1), (''d'', Dir 493 [(''f'', Reg ''in d'' 420 1)]), (''a'', Reg ''first'' 420 1)]"

lemma plain_example: "link_free workspace_tree"
  unfolding link_free_def
proof (intro allI impI)
  fix q c
  assume "node_at workspace_tree q = Some c"
  then show "is_dir c \<or> is_reg c"
    by (cases q; cases "tl q"; cases "tl (tl q)") (auto simp: workspace_tree_def split: if_splits)
qed

theorem directory_pages_complete_witness:
  "(\<exists>files. mset files = mset [[''z''], [''a''], [''d'', ''f'']] \<and>
     follow 1 (\<lambda>offset. files_page (execute_tool 10 workspace_tree (tool_args ''find_files'' ''.'' offset))) 0 = Some (map posix files)) \<and>
   follow 1 (\<lambda>offset. entries_page (execute_tool 10 workspace_tree (tool_args ''list_files'' ''.'' offset))) 0 =
     Some [(''a'', False), (''d'', True), (''z'', False)]"
proof -
  have v: "validate_relative_path ''.'' = Inr ''.''" by (simp add: validate_relative_path_def)
  have n: "node_at workspace_tree (segments ''.'') = Some (Dir 448 [(''z'', Reg ''last'' 420 1), (''d'', Dir 493 [(''f'', Reg ''in d'' 420 1)]), (''a'', Reg ''first'' 420 1)])"
    by (simp add: segments_def workspace_tree_def)
  obtain files where f: "mset files = mset [[''z''], [''d'', ''f''], [''a'']]"
      "follow (Suc (length files div LIST_ENTRIES)) (\<lambda>offset. files_page (execute_tool 10 workspace_tree (tool_args ''find_files'' ''.'' offset))) 0 = Some (map posix files)"
    and l: "follow (Suc (3 div LIST_ENTRIES)) (\<lambda>offset. entries_page (execute_tool 10 workspace_tree (tool_args ''list_files'' ''.'' offset))) 0 =
      Some [(''a'', False), (''d'', True), (''z'', False)]"
    using directory_pages_complete [OF plain_example v n, of 10] by (auto simp: segments_def numeral_3_eq_3)
  have "length files = 3" using arg_cong [OF f(1), of size] by simp
  then show ?thesis using f l by (auto simp: LIST_ENTRIES_def add_mset_commute)
qed

section \<open>An opened workspace\<close>

lemma inspect_loop_names:
  "inspect_loop l ms n paths b = Inr r \<Longrightarrow> x \<in> set ms \<Longrightarrow> mem_name x \<noteq> ''.'' \<and> mem_kind x \<noteq> OtherMember"
  by (induction l ms n paths b arbitrary: r rule: inspect_loop.induct)
    (auto simp: rbind_Inr validate_name_def split: if_splits)

lemma extract_members_lengths:
  "extract_members ms d = Inr d' \<Longrightarrow> x \<in> set ms \<Longrightarrow> mem_kind x = FileMember \<Longrightarrow> int (length (mem_data x)) = mem_size x"
  by (induction ms arbitrary: d)
    (auto simp: rbind_Inr extract_member_def Let_def split: if_splits option.splits)

lemma holds_members_plain: "holds_members ms n \<Longrightarrow> link_free n"
  unfolding link_free_def using holds_membersD(2,3) file_node_Reg by (metis is_reg.simps(1) option.inject)

lemma holds_members_start: "holds_members [] (Dir 448 [])"
  by (rule holds_membersI) (auto, (case_tac q; simp)+)

text \<open>What a zstd frame holds: what the reader yields up to the step that ends the frame, and the rest.\<close>

definition frame_contents :: "zstd_run \<Rightarrow> bytes" where
  "frame_contents z =
     concat (map fst (take (Suc (length (takeWhile (\<lambda>(_, eof). \<not> eof) (zs_steps z)))) (zs_steps z))) @ zs_final z"

lemma decompress_loop_frame:
  "decompress_loop steps adv out = Inr (out', eof) \<Longrightarrow>
     out' = out @ concat (map fst (take (Suc (length (takeWhile (\<lambda>(_, eof). \<not> eof) steps))) steps))"
  by (induction steps adv out rule: decompress_loop.induct) (auto split: if_splits)

lemma decompress_archive_frame: "decompress_archive z l adv = Inr out \<Longrightarrow> out = frame_contents z"
  by (auto simp: decompress_archive_def frame_contents_def rbind_Inr dest!: decompress_loop_frame split: if_splits)

lemma receive_concat: "receive sz chunks out = Inr b \<Longrightarrow> b = out @ concat chunks"
  by (induction sz chunks out rule: receive.induct) (auto split: if_splits)

text \<open>The body of the answer to a download from an allowed place.\<close>

definition served :: "(string \<Rightarrow> string option) \<Rightarrow> (string \<Rightarrow> http_outcome) \<Rightarrow> string set \<Rightarrow> string \<Rightarrow> bytes \<Rightarrow> bool" where
  "served origin_of http_get allowed url body \<longleftrightarrow>
     (\<exists>origin r. origin_of url = Some origin \<and> origin \<in> allowed \<and> http_get url = Response r \<and> status_code r = 200 \<and>
        body = concat (body_chunks r))"

lemma download_object_served:
  "download_object origin_of sha256 http_get url sha sz max_bytes exists allowed = Inr body \<Longrightarrow>
     served origin_of http_get allowed url body \<and> sha256 body = sha \<and> int (length body) = sz"
  by (auto simp: download_object_def served_def rbind_Inr dest!: receive_concat split: if_splits option.splits http_outcome.splits)

lemma extracted_members:
  assumes "extract_archive sha256 zstd tar False True (Some archive) ref l = (Inr r, Some base)"
  obtains ms where "tar (frame_contents (zstd archive)) = Some ms" "holds_members ms base" "sha256 archive = ref_sha256 ref"
    "int (length (frame_contents (zstd archive))) = expanded_size_bytes ref" "\<And>x. x \<in> set ms \<Longrightarrow> mem_name x \<noteq> ''.''"
proof -
  obtain out ms fb where o: "tar out = Some ms" "inspect_members l ms = Inr fb" "extract_members ms (Dir 448 []) = Inr base"
      "verify_archive_file sha256 (Some archive) ref l = Inr ()" "int (length out) = expanded_size_bytes ref"
      "decompress_archive (zstd archive) l (expanded_size_bytes ref) = Inr out"
    using assms by (auto simp: extract_archive_def split: if_splits sum.splits option.splits)
  have "holds_members ms base"
    using extract_members_ok [OF holds_members_start, of ms] inspect_members_ok [OF o(2)] extract_members_lengths [OF o(3)] o(3)
    by auto
  moreover have "sha256 archive = ref_sha256 ref"
    using o(4) by (auto simp: verify_archive_file_def split: if_splits)
  moreover have "mem_name x \<noteq> ''.''" if "x \<in> set ms" for x
    using o(2) inspect_loop_names [of l ms 0 "[]" 0 _ x] that by (auto simp: inspect_members_def rbind_Inr)
  ultimately show thesis using that o(1,5) decompress_archive_frame [OF o(6)] by blast
qed

text \<open>C30. An opened workspace is the archive of the task and can be read whole.  When
  \<open>open_miner_workspace\<close> yields a workspace, the bytes that an allowed origin served under the task's URL
  have the digest of the task's reference; the contents of the zstd frame in these very bytes have the
  advertised size, within the policy's limit, and are a tar archive; and the workspace holds the
  files of that archive at their paths with their contents, no other file, link or device, and no
  directory that is not above a member.  For each of its files with a path the tools accept,
  following \<open>next_offset\<close> of \<open>read_file\<close> gives after at most one page per 32 KiB less three bytes exactly
  the decoding of its contents, so a character that a page boundary cuts is neither lost nor replaced.\<close>

theorem opened_workspace_readable:
  assumes "open_miner_workspace origin_of sha256 zstd tar http_get free request p = Inr base"
  shows "\<exists>archive ms. served origin_of http_get (set (v3_artifact_origins p)) (mt_workspace_url request) archive \<and>
    sha256 archive = ref_sha256 (mt_workspace request) \<and> tar (frame_contents (zstd archive)) = Some ms \<and>
    int (length (frame_contents (zstd archive))) = expanded_size_bytes (mt_workspace request) \<and>
    expanded_size_bytes (mt_workspace request) \<le> v3_workspace_bytes p \<and>
    holds_members ms base \<and> link_free base \<and>
    (\<forall>x \<in> set ms. mem_kind x = FileMember \<longrightarrow> validate_relative_path (mem_name x) = Inr (mem_name x) \<longrightarrow>
       length (mem_data x) \<le> seek_max \<longrightarrow>
       follow (Suc (length (mem_data x) div (READ_BYTES - 3)))
         (\<lambda>offset. text_page (execute_tool seek_max base (tool_args ''read_file'' (mem_name x) offset))) 0 =
       Some (utf8_replace (mem_data x)))"
proof -
  obtain archive r where e: "extract_archive sha256 zstd tar False True (Some archive) (mt_workspace request) (miner_limits p) = (Inr r, Some base)"
      and dl: "download_artifact origin_of sha256 http_get (mt_workspace_url request) (mt_workspace request) (miner_limits p) False
        (set (v3_artifact_origins p)) = Inr archive"
      and small: "expanded_size_bytes (mt_workspace request) \<le> v3_workspace_bytes p"
    using assms by (auto simp: open_miner_workspace_def check_archive_limits_def miner_limits_def split: if_splits sum.splits prod.splits option.splits)
  from e obtain ms where o: "tar (frame_contents (zstd archive)) = Some ms" "holds_members ms base" "sha256 archive = ref_sha256 (mt_workspace request)"
    "int (length (frame_contents (zstd archive))) = expanded_size_bytes (mt_workspace request)" "\<And>x. x \<in> set ms \<Longrightarrow> mem_name x \<noteq> ''.''"
    using extracted_members by blast
  have plain: "link_free base" using o(2) by (rule holds_members_plain)
  have whole: "follow (Suc (length (mem_data x) div (READ_BYTES - 3)))
      (\<lambda>offset. text_page (execute_tool seek_max base (tool_args ''read_file'' (mem_name x) offset))) 0 = Some (utf8_replace (mem_data x))"
    if "x \<in> set ms" "mem_kind x = FileMember" "validate_relative_path (mem_name x) = Inr (mem_name x)"
      "length (mem_data x) \<le> seek_max" for x
  proof -
    have "node_at base (segments (mem_name x)) = Some (file_node x)"
      using holds_membersD(2) [OF o(2) that(1,2)] o(5) [OF that(1)] by (simp add: segments_def)
    then show ?thesis using read_file_pages_whole [OF plain that(3) _ that(4)] by (simp add: file_node_def)
  qed
  show ?thesis
    using o plain whole small download_object_served [OF dl [unfolded download_artifact_def]]
    by (intro exI [of _ archive] exI [of _ ms]) auto
qed

definition opened_example :: "open_error + node" where
  "opened_example = open_miner_workspace (\<lambda>_. Some (hd (v3_artifact_origins release_policy))) (\<lambda>_. digest_a)
     (\<lambda>_. \<lparr>window_size = 10, zs_steps = [(replicate 20 CHR ''t'', True)], zs_trailing = False, zs_final = []\<rparr>)
     (\<lambda>_. Some [member_example ''src/a.txt'' FileMember ''hello'']) (\<lambda>_. ok_response (replicate 10 CHR ''z'')) 100 live_task release_policy"

lemma opened_example_ok: "opened_example = Inr (Dir 448 [(''src'', Dir 493 [(''a.txt'', Reg ''hello'' 420 1)])])"
proof -
  have "inspect_members (miner_limits release_policy) [member_example ''src/a.txt'' FileMember ''hello''] =
      Inr ([member_example ''src/a.txt'' FileMember ''hello''], 5)"
    by (simp add: inspect_members_def member_example_def miner_limits_def release_policy_def validate_name_def utf8_size_def file_parent_def)
  moreover have "extract_members [member_example ''src/a.txt'' FileMember ''hello''] (Dir 448 []) =
      Inr (Dir 448 [(''src'', Dir 493 [(''a.txt'', Reg ''hello'' 420 1)])])"
    by (simp add: extract_member_def member_example_def file_node_def has_bit_def)
  moreover have "check_archive_limits (miner_limits release_policy) = Inr (miner_limits release_policy)"
    "max_expanded_bytes (miner_limits release_policy) \<ge> 20" "max_compressed_bytes (miner_limits release_policy) \<ge> 10"
    "max_zstd_window_bytes (miner_limits release_policy) \<ge> 10" "v3_artifact_origins release_policy \<noteq> []"
    by (simp_all add: check_archive_limits_def miner_limits_def release_policy_def)
  ultimately show ?thesis
    by (simp add: opened_example_def open_miner_workspace_def live_task_def task_for_def lease_example_def ref_example_def
        download_artifact_def download_object_def ok_response_def extract_archive_def verify_archive_file_def decompress_archive_def)
qed

theorem opened_workspace_readable_witness:
  "follow 1 (\<lambda>offset. text_page (execute_tool 100 (Dir 448 [(''src'', Dir 493 [(''a.txt'', Reg ''hello'' 420 1)])])
      (tool_args ''read_file'' ''src/a.txt'' offset))) 0 = Some (ucs ''hello'')"
proof -
  have v: "validate_relative_path ''src/a.txt'' = Inr ''src/a.txt''" by (simp add: validate_relative_path_def)
  have u: "utf8_replace ''hello'' = ucs ''hello''"
    by (simp add: utf8_replace_def utf8_step_def ucs_def)
  from opened_workspace_readable [OF opened_example_ok [unfolded opened_example_def], of 100] show ?thesis
    by (auto simp: member_example_def v u READ_BYTES_def)
qed

text \<open>The order of \<open>find_files\<close> is not the order of the paths: the files of a directory come before
  those of its subdirectories.\<close>

lemma find_files_order: "find_files workspace_tree ''.'' 0 = FilesPage [''a'', ''z'', ''d/f''] None"
proof -
  have "all_files [] workspace_tree = [[''a''], [''z''], [''d'', ''f'']]"
    by (simp add: workspace_tree_def all_files_dir)
  then show ?thesis
    by (simp add: find_files_page segments_def workspace_tree_def LIST_ENTRIES_def posix_def)
qed

end
