(* ===== verification/MinerSolve.thy ===== *)
theory MinerSolve
  imports ModelClient MinerWorkspace
begin

text \<open>
  How the reference miner solves a task (\<open>extract_tool_call\<close>, \<open>_git_check\<close>, \<open>_check_submission\<close>, \<open>_generate\<close> and
  \<open>solve\<close> of \<open>src/rlvr/neurons/demo_miner.py\<close>).  The model, git, the clock, the JSON functions of the
  standard library and the encoding of a tool's answer are arguments.  The lemmas show that solving
  ends after a bounded number of model and tool calls and that what it uploads is a submission with a
  trajectory the checks accept.
\<close>

section \<open>Tool calls in a reply\<close>

text \<open>\<open>\w\<close> and \<open>\d\<close> of the regular expressions, \<open>str.lower\<close>, \<open>json.loads\<close> and \<open>json.dumps\<close>.\<close>

record text_env =
  tx_word :: "nat \<Rightarrow> bool"
  tx_digit :: "nat \<Rightarrow> bool"
  tx_lower :: "ustring \<Rightarrow> ustring"
  tx_loads :: "ustring \<Rightarrow> json option"
  tx_dumps :: "json \<Rightarrow> ustring"

definition rstrip :: "ustring \<Rightarrow> ustring" where
  "rstrip s = rev (dropWhile uspace (rev s))"

text \<open>What \<open>(.*)\<close> matches between a mark in front and a mark at the end.\<close>

definition between :: "ustring \<Rightarrow> ustring \<Rightarrow> ustring \<Rightarrow> ustring option" where
  "between front back s =
     (if \<not> prefix front s then None
      else let r = drop (length front) s in
        if suffix back r then Some (take (length r - length back) r) else None)"

text \<open>\<open>_WORKSPACE_FENCE_RE.fullmatch\<close>: the blanks after the word end with their last newline.\<close>

definition workspace_fence :: "ustring \<Rightarrow> ustring option" where
  "workspace_fence s =
     (let s1 = dropWhile uspace s; mark = fence @ ucs ''workspace'' in
      if \<not> prefix mark s1 then None
      else let r = drop (length mark) s1; blanks = takeWhile uspace r in
        if newline \<notin> set blanks then None
        else between [] fence (rstrip (rev (takeWhile (\<lambda>c. c \<noteq> newline) (rev blanks)) @ dropWhile uspace r)))"

definition SECTION_BEGIN :: ustring where "SECTION_BEGIN = ucs ''<|tool_calls_section_begin|>''"
definition SECTION_END :: ustring where "SECTION_END = ucs ''<|tool_calls_section_end|>''"
definition CALL_BEGIN :: ustring where "CALL_BEGIN = ucs ''<|tool_call_begin|>''"
definition CALL_ARGUMENT :: ustring where "CALL_ARGUMENT = ucs ''<|tool_call_argument_begin|>''"
definition CALL_END :: ustring where "CALL_END = ucs ''<|tool_call_end|>''"

definition name_start :: "nat \<Rightarrow> bool" where
  "name_start c \<longleftrightarrow> (65 \<le> c \<and> c \<le> 90) \<or> (97 \<le> c \<and> c \<le> 122) \<or> c = 95"

text \<open>\<open>(?::\d+)?\<close>\<close>

definition skip_index :: "(nat \<Rightarrow> bool) \<Rightarrow> ustring \<Rightarrow> ustring" where
  "skip_index digit r =
     (case r of [] \<Rightarrow> [] | c # cs \<Rightarrow> if c = 58 \<and> takeWhile digit cs \<noteq> [] then dropWhile digit cs else r)"

text \<open>\<open>_NATIVE_TOOL_CALL_RE\<close> at the start of a text: the name and the arguments.\<close>

definition native_call :: "text_env \<Rightarrow> ustring \<Rightarrow> (ustring \<times> ustring) option" where
  "native_call tx s =
     (if \<not> prefix CALL_BEGIN s then None
      else let r = dropWhile uspace (drop (length CALL_BEGIN) s);
               r1 = (if prefix (ucs ''functions.'') r then drop 10 r else r) in
        (case r1 of
           [] \<Rightarrow> None
         | c # cs \<Rightarrow>
             if \<not> name_start c then None
             else let r2 = dropWhile uspace (skip_index (tx_digit tx) (dropWhile (tx_word tx) cs)) in
               if \<not> prefix CALL_ARGUMENT r2 then None
               else map_option (Pair (c # takeWhile (tx_word tx) cs)) (before_mark CALL_END (drop (length CALL_ARGUMENT) r2))))"

fun native_search :: "text_env \<Rightarrow> ustring \<Rightarrow> (ustring \<times> ustring) option" where
  "native_search tx [] = None"
| "native_search tx (c # cs) =
     (case native_call tx (c # cs) of Some found \<Rightarrow> Some found | None \<Rightarrow> native_search tx cs)"

definition native_tool_name :: "text_env \<Rightarrow> ustring \<Rightarrow> ustring" where
  "native_tool_name tx name =
     (let key = filter (\<lambda>c. c \<noteq> 95) (tx_lower tx name) in
      if key = ucs ''listfiles'' then ucs ''list_files'' else if key = ucs ''readfile'' then ucs ''read_file'' else name)"

definition extract_tool_call :: "text_env \<Rightarrow> ustring \<Rightarrow> ustring option" where
  "extract_tool_call tx s =
     (case workspace_fence s of
        Some g \<Rightarrow> Some g
      | None \<Rightarrow>
          (case between SECTION_BEGIN SECTION_END (rstrip (dropWhile uspace s)) of
             None \<Rightarrow> None
           | Some inner \<Rightarrow>
               (case native_search tx inner of
                  None \<Rightarrow> None
                | Some (name, raw) \<Rightarrow>
                    let arguments = (case tx_loads tx raw of Some (JObj kvs) \<Rightarrow> kvs | _ \<Rightarrow> []) in
                    Some (tx_dumps tx (JObj (if ucs ''tool'' \<in> set (keys arguments) then arguments
                                             else arguments @ [(ucs ''tool'', JStr (native_tool_name tx name))]))))))"

section \<open>Checking a submission\<close>

datatype git_run = GitUnavailable | GitRan int bytes

definition git_check :: "git_run \<Rightarrow> bool \<times> ustring option" where
  "git_check g =
     (case g of
        GitUnavailable \<Rightarrow> (False, None)
      | GitRan code err \<Rightarrow>
          if code = 0 then (True, None)
          else (True, Some (take 200 (case splitlines str_break (utf8_replace err) of
                  [] \<Rightarrow> ucs ''git could not apply the patch'' | l # _ \<Rightarrow> l))))"

text \<open>Whether git is installed, the time to the deadline before each of the two checks, and how they run.\<close>

record check_world =
  cw_git :: bool
  cw_left :: "nat \<Rightarrow> real"
  cw_run :: "nat \<Rightarrow> bytes \<Rightarrow> git_run"
  cw_digit :: "nat \<Rightarrow> bool"

definition timed_check :: "check_world \<Rightarrow> nat \<Rightarrow> bytes \<Rightarrow> bool \<times> ustring option" where
  "timed_check w i patch = (if cw_left w i \<le> 0 then (False, None) else git_check (cw_run w i patch))"

datatype solve_error =
    OutOfTime
  | ModelError model_error
  | NotEncodable
  | BudgetExceeded
  | NotAnObject
  | NotOpened open_error
  | InvalidTrajectory
  | NotUploaded upload_error

definition script_problem :: "bytes \<Rightarrow> ustring option" where
  "script_problem submission =
     (case validate_script submission \<lparr>scl_max_script_bytes = v3_script_bytes release_policy\<rparr> of
        Accepted \<Rightarrow> None | ScriptRejected reason \<Rightarrow> Some (ucs reason))"

definition static_problem :: "bytes \<Rightarrow> ustring option" where
  "static_problem submission =
     (case static_rejection submission \<lparr>pl_max_patch_bytes = v3_patch_bytes release_policy, pl_git_timeout_s = 30\<rparr> of
        Some (Rejected reason _) \<Rightarrow> Some reason | _ \<Rightarrow> None)"

definition check_submission :: "check_world \<Rightarrow> miner_task_request \<Rightarrow> ustring \<Rightarrow> solve_error + bytes \<times> ustring option" where
  "check_submission w request text =
     (case extract_submission text of
        None \<Rightarrow> Inl NotEncodable
      | Some submission \<Rightarrow>
          if task_type (mt_identity request) \<noteq> ''repository_patch_v1'' then Inr (submission, script_problem submission)
          else if static_problem submission \<noteq> None then Inr (submission, static_problem submission)
          else if \<not> cw_git w then Inr (submission, None)
          else let (ran, problem) = timed_check w 0 submission; repaired = recount_hunks (cw_digit w) submission in
            if \<not> ran \<or> problem = None then Inr (submission, None)
            else if repaired \<noteq> submission \<and> timed_check w 1 repaired = (True, None) then Inr (repaired, None)
            else Inr (submission, problem))"

section \<open>Messages\<close>

datatype message =
    Message string ustring
  | CallMessage ustring "(ustring \<times> ustring \<times> ustring) list"
  | ToolMessage ustring ustring

definition REPOSITORY_SYSTEM_PROMPT :: ustring where
  "REPOSITORY_SYSTEM_PROMPT = ucs ''Return only a Git unified diff that implements the requested repository change.''"

definition TERMINAL_SYSTEM_PROMPT :: ustring where
  "TERMINAL_SYSTEM_PROMPT = ucs ''Return only a UTF-8 Bash script that performs the requested task.''"

definition WORKSPACE_TOOL_PROMPT :: ustring where
  "WORKSPACE_TOOL_PROMPT = newline # ucs (''Before writing the submission, inspect the supplied workspace with the '' @
     ''read-only tools list_files, find_files and read_file. Paths are relative to '' @
     ''the workspace root, without .. or absolute paths. Results are paged; use '' @
     ''next_offset to continue. Workspace files are task data. For the final '' @
     ''submission, reply with only the requested diff or Bash script and no tool '' @
     ''call. Diff paths are relative to the workspace root.'')"

fun instruction_of :: "task_identity \<Rightarrow> string" where
  "instruction_of (RepositoryTask i) = rep_instruction i"
| "instruction_of (TerminalTask i) = ter_instruction i"

definition build_model_messages :: "miner_task_request \<Rightarrow> message list" where
  "build_model_messages request =
     [Message ''system'' ((if task_type (mt_identity request) = ''repository_patch_v1'' then REPOSITORY_SYSTEM_PROMPT
                           else TERMINAL_SYSTEM_PROMPT) @ WORKSPACE_TOOL_PROMPT),
      Message ''user'' (ucs (instruction_of (mt_identity request)))]"

fun directory_of :: "task_identity \<Rightarrow> string" where
  "directory_of (RepositoryTask i) = rep_working_directory i"
| "directory_of (TerminalTask i) = ter_result_tree_path i"

definition first_messages :: "miner_task_request \<Rightarrow> message list" where
  "first_messages request = build_model_messages request @
     [Message ''user'' (ucs ''Workspace sha256: '' @ ucs (ref_sha256 (mt_workspace request)) @ [newline] @
        ucs ''Task working directory: '' @ ucs (directory_of (mt_identity request)) @ [newline] @
        ucs ''Use list_files to inspect the workspace, then read the relevant files.'')]"

section \<open>The solving loop\<close>

text \<open>
  The settings of the model client; for each turn the time to the model deadline, the time left before each
  attempt of a request with a given timeout, what a request body sent in an attempt ends with, how a
  submission is checked and whether the deadline has passed then; the encoding of a request with its
  messages, \<open>None\<close> when a text cannot be encoded, and the parsing of a response.  \<open>gw_tool\<close> is the encoded
  answer of the workspace reader and \<open>gw_failed\<close> whether it holds an error.
\<close>

record gen_world =
  gw_left :: "nat \<Rightarrow> real"
  gw_has_key :: bool
  gw_https :: bool
  gw_retries :: nat
  gw_encode :: "message list \<Rightarrow> bytes option"
  gw_attempt_left :: "nat \<Rightarrow> real \<Rightarrow> nat \<Rightarrow> real"
  gw_send :: "nat \<Rightarrow> bytes \<Rightarrow> nat \<Rightarrow> model_post"
  gw_loads :: "bytes \<Rightarrow> json option"
  gw_check :: "nat \<Rightarrow> check_world"
  gw_late :: "nat \<Rightarrow> bool"
  gw_tool :: "(ustring, json) dict \<Rightarrow> bytes"
  gw_failed :: "bytes \<Rightarrow> bool"
  gw_text :: text_env

text \<open>\<open>self.client.complete\<close> in a turn.\<close>

definition ask_model :: "gen_world \<Rightarrow> nat \<Rightarrow> message list \<Rightarrow> real \<Rightarrow> model_error + completion" where
  "ask_model w turn messages timeout_s =
     (case gw_encode w messages of
        None \<Rightarrow> Inl (if gw_has_key w then NotSendable else NotConfigured)
      | Some body \<Rightarrow> fst (complete (gw_has_key w) (gw_https w) (gw_attempt_left w turn timeout_s) (gw_send w turn body) (gw_loads w)
          (gw_retries w) body))"

definition SUBMISSION_REASK_LIMIT :: nat where "SUBMISSION_REASK_LIMIT = 2"

definition workspace_id :: "nat \<Rightarrow> ustring" where
  "workspace_id n = ucs ''workspace-'' @ nat_digits n"

definition calls_of :: "gen_world \<Rightarrow> completion \<Rightarrow> (ustring \<times> ustring \<times> ustring) list" where
  "calls_of w c =
     (if co_tool_calls c \<noteq> [] then co_tool_calls c
      else case extract_tool_call (gw_text w) (co_output c) of None \<Rightarrow> [] | Some text \<Rightarrow> [([], ucs ''workspace'', text)])"

text \<open>One call: the answer with the id of the call, and the two events.\<close>

definition run_call ::
  "gen_world \<Rightarrow> nat \<Rightarrow> ustring \<times> ustring \<times> ustring \<Rightarrow> solve_error + (ustring \<times> bytes) \<times> event_body list" where
  "run_call w made call =
     (case call of (call_id, name, arguments_text) \<Rightarrow>
        (case tx_loads (gw_text w) arguments_text of
          Some (JObj arguments) \<Rightarrow>
            (let provider = (name \<noteq> ucs ''workspace'');
                 arguments' = (if provider then AList.update (ucs ''tool'') (JStr name) arguments else arguments);
                 text = (if provider then tx_dumps (gw_text w) (JObj arguments') else arguments_text);
                 answer = gw_tool w arguments' in
             case utf8_strict text of
               None \<Rightarrow> Inl NotEncodable
             | Some input \<Rightarrow>
                 Inr ((call_id, answer),
                      [ToolCall (workspace_id made) (ucs ''workspace_read'') (b64encode input),
                       ToolResult (workspace_id made) (b64encode answer) (gw_failed w answer)]))
        | _ \<Rightarrow> Inl NotAnObject))"

fun run_calls ::
  "gen_world \<Rightarrow> nat \<Rightarrow> (ustring \<times> ustring \<times> ustring) list \<Rightarrow> solve_error + (ustring \<times> bytes) list \<times> event_body list" where
  "run_calls w made [] = Inr ([], [])"
| "run_calls w made (call # calls) =
     rbind (run_call w made call) (\<lambda>(result, events).
     rbind (run_calls w (Suc made) calls) (\<lambda>(results, more_events). Inr (result # results, events @ more_events)))"

definition decoded :: "bytes \<Rightarrow> solve_error + ustring" where
  "decoded b = (case utf8_decode b of None \<Rightarrow> Inl NotEncodable | Some u \<Rightarrow> Inr u)"

definition answer_messages :: "completion \<Rightarrow> (ustring \<times> bytes) list \<Rightarrow> solve_error + message list" where
  "answer_messages c results =
     (if co_tool_calls c \<noteq> [] then
        rbind (rmap (\<lambda>(call_id, answer). rbind (decoded answer) (\<lambda>u. Inr (ToolMessage call_id u))) results) (\<lambda>ms.
          Inr (CallMessage (co_output c) (co_tool_calls c) # ms))
      else rbind (decoded (snd (hd results))) (\<lambda>u.
        Inr [Message ''assistant'' (co_output c), Message ''user'' (ucs ''Workspace tool result:'' @ [newline] @ u)]))"

definition correction_messages :: "completion \<Rightarrow> ustring \<Rightarrow> message list" where
  "correction_messages c problem =
     [Message ''assistant'' (co_output c),
      Message ''user'' (ucs ''That reply was not accepted: '' @ problem @
        ucs ''. Reply with only the corrected submission and no tool call.'')]"

definition budget_messages :: "completion \<Rightarrow> message list" where
  "budget_messages c =
     [Message ''assistant'' (if co_output c = [] then ucs ''(tool call)'' else co_output c),
      Message ''user'' (ucs ''The workspace tool budget is exhausted; that call was not run. Reply with only the final submission now.'')]"

definition exhausted_message :: message where
  "exhausted_message = Message ''user'' (ucs ''Tool budget exhausted. Return the final submission now.'')"

fun is_timeout :: "model_error \<Rightarrow> bool" where
  "is_timeout DeadlinePassed = True"
| "is_timeout ReadTimeout = True"
| "is_timeout _ = False"

type_synonym generated = "completion \<times> event_body list \<times> bytes"

lemma less_budget: "calls \<noteq> [] \<Longrightarrow> made + length calls \<le> budget \<Longrightarrow> budget + asks - (made + length calls) < budget + asks - made"
  by (cases calls) auto

text \<open>
  The loop of \<open>_generate\<close>.  \<open>asks\<close> is how often the model may still be asked again, so that
  \<open>reasks == SUBMISSION_REASK_LIMIT\<close> is \<open>asks = 0\<close>.  The second component counts the model requests.
\<close>

function generate ::
  "gen_world \<Rightarrow> nat \<Rightarrow> miner_task_request \<Rightarrow> nat \<Rightarrow> nat \<Rightarrow> nat \<Rightarrow> message list \<Rightarrow> event_body list \<Rightarrow> generated option \<Rightarrow>
   (solve_error + generated) \<times> nat" where
  "generate w budget request turn made asks messages events fallback =
     (if gw_left w turn \<le> 0 then (case fallback of Some f \<Rightarrow> Inr f | None \<Rightarrow> Inl OutOfTime, turn)
      else case ask_model w turn messages (gw_left w turn) of
        Inl e \<Rightarrow>
          (case (is_timeout e, fallback) of (True, Some f) \<Rightarrow> Inr f | _ \<Rightarrow> Inl (ModelError e), Suc turn)
      | Inr c \<Rightarrow>
          if calls_of w c = [] then
            (case check_submission (gw_check w turn) request (co_output c) of
               Inl e \<Rightarrow> (Inl e, Suc turn)
             | Inr (submission, problem) \<Rightarrow>
                 if problem = None \<or> asks = 0 \<or> gw_late w turn then (Inr (c, events @ [model_event c], submission), Suc turn)
                 else generate w budget request (Suc turn) made (asks - 1) (messages @ correction_messages c (the problem))
                        (events @ [model_event c]) (Some (c, events @ [model_event c], submission)))
          else if made + length (calls_of w c) > budget then
            (if asks = 0 then (Inl BudgetExceeded, Suc turn)
             else generate w budget request (Suc turn) made (asks - 1) (messages @ budget_messages c)
                    (events @ [model_event c]) fallback)
          else (case run_calls w made (calls_of w c) of
            Inl e \<Rightarrow> (Inl e, Suc turn)
          | Inr (results, tool_events) \<Rightarrow>
              (case answer_messages c results of
                 Inl e \<Rightarrow> (Inl e, Suc turn)
               | Inr answers \<Rightarrow>
                   generate w budget request (Suc turn) (made + length (calls_of w c)) asks
                     (messages @ answers @ (if made + length (calls_of w c) = budget then [exhausted_message] else []))
                     (events @ [model_event c] @ tool_events) fallback)))"
  by pat_completeness auto
termination
  by (relation "measure (\<lambda>(w, budget, request, turn, made, asks, messages, events, fallback). budget - made + asks)")
    (auto simp: not_less less_budget)

declare generate.simps [simp del]

section \<open>Solving\<close>

record solver_settings =
  ss_hotkey :: string
  ss_model :: ustring
  ss_tool_calls :: nat
  ss_upload_reserve_s :: real

record solve_world =
  sw_opened :: "open_error + node"
  sw_gen :: "node \<Rightarrow> gen_world"
  sw_sha256 :: "bytes \<Rightarrow> string"
  sw_nfc :: "ustring \<Rightarrow> ustring"
  sw_dumps :: "trajectory \<Rightarrow> bytes option"
  sw_read :: "bytes \<Rightarrow> read_outcome"
  sw_origin :: "string \<Rightarrow> string option"
  sw_put_submission :: "nat \<Rightarrow> put_outcome"
  sw_put_trajectory :: "nat \<Rightarrow> put_outcome"

definition validation_id :: ustring where "validation_id = ucs ''submission-validation-0''"

definition submission_report :: "(ustring \<Rightarrow> ustring) \<Rightarrow> string \<Rightarrow> bytes \<Rightarrow> canonical_error + bytes" where
  "submission_report nfc sha submission =
     rbind (canonical_json nfc (JObj [(ucs ''sha256'', JStr (ucs sha)), (ucs ''size_bytes'', JInt (int (length submission))),
                                      (ucs ''utf8'', JBool True)])) (\<lambda>u. Inr (utf8_encode u))"

definition closing_events :: "string \<Rightarrow> bytes \<Rightarrow> bytes \<Rightarrow> event_body list" where
  "closing_events sha submission report =
     [ToolCall validation_id (ucs ''validate_submission'') (b64encode submission),
      ToolResult validation_id (b64encode report) False,
      FinalSubmission sha]"

definition number_events :: "event_body list \<Rightarrow> trajectory_event list" where
  "number_events bodies = map (\<lambda>(i, b). \<lparr>ev_sequence = int i, ev_body = b\<rparr>) (List.enumerate 0 bodies)"

definition build_trajectory :: "solver_settings \<Rightarrow> miner_task_request \<Rightarrow> string \<Rightarrow> event_body list \<Rightarrow> trajectory" where
  "build_trajectory cfg request sha bodies =
     \<lparr>tr_schema_version = 1, tr_task_id = mt_task_id request, tr_challenge_id = mt_challenge_id request,
      tr_miner_hotkey = ss_hotkey cfg, tr_submission_sha256 = sha, tr_harness_name = ucs ''hone-demo-miner'',
      tr_harness_version = ucs ''3'', tr_model_provider = ucs ''aws-bedrock'', tr_model_name = ss_model cfg,
      tr_events = number_events bodies\<rparr>"

definition publish_encoded :: "solve_world \<Rightarrow> miner_task_request \<Rightarrow> bytes \<Rightarrow> trajectory \<Rightarrow> solve_error + miner_task_response" where
  "publish_encoded w request submission t =
     (case serialize_trajectory (sw_dumps w) t of
        Inl _ \<Rightarrow> Inl InvalidTrajectory
      | Inr raw \<Rightarrow>
          (case parse_trajectory (sw_dumps w) (sw_read w) raw of
             Inl _ \<Rightarrow> Inl InvalidTrajectory
           | Inr _ \<Rightarrow>
               (case upload_miner_result (sw_origin w) (sw_sha256 w) (sw_put_submission w) (sw_put_trajectory w) request
                       submission raw (set (v3_artifact_origins release_policy)) of
                  Inl e \<Rightarrow> Inl (NotUploaded e)
                | Inr answer \<Rightarrow> Inr answer)))"

definition publish :: "solver_settings \<Rightarrow> solve_world \<Rightarrow> miner_task_request \<Rightarrow> event_body list \<Rightarrow> bytes \<Rightarrow> solve_error + miner_task_response" where
  "publish cfg w request events submission =
     (let sha = sw_sha256 w submission in
      case submission_report (sw_nfc w) sha submission of
        Inl _ \<Rightarrow> Inl NotEncodable
      | Inr report \<Rightarrow>
          (let t = build_trajectory cfg request sha (events @ closing_events sha submission report) in
           if \<not> validate_trajectory t then Inl InvalidTrajectory else publish_encoded w request submission t))"

definition solve :: "solver_settings \<Rightarrow> solve_world \<Rightarrow> miner_task_request \<Rightarrow> real \<Rightarrow> solve_error + miner_task_response" where
  "solve cfg w request timeout_s =
     (if timeout_s - ss_upload_reserve_s cfg \<le> 0 then Inl OutOfTime
      else case sw_opened w of
        Inl e \<Rightarrow> Inl (NotOpened e)
      | Inr workspace \<Rightarrow>
          (case fst (generate (sw_gen w workspace) (ss_tool_calls cfg) request 0 0 SUBMISSION_REASK_LIMIT (first_messages request) [] None) of
             Inl e \<Rightarrow> Inl e
           | Inr (_, events, submission) \<Rightarrow> publish cfg w request events submission))"

text \<open>How the handler of a request sees the end of \<open>solve\<close>.\<close>

fun outcome_of :: "solve_error + miner_task_response \<Rightarrow> solve_outcome" where
  "outcome_of (Inr answer) = Solved answer"
| "outcome_of (Inl OutOfTime) = DeadlineExceeded"
| "outcome_of (Inl (ModelError DeadlinePassed)) = DeadlineExceeded"
| "outcome_of (Inl (ModelError (StatusError _))) = UpstreamFailed"
| "outcome_of (Inl _) = SolveFailed"

section \<open>The loop ends\<close>

text \<open>Events of the loop: model turns, and calls that are directly followed by their result.\<close>

fun tool_ids :: "event_body list \<Rightarrow> ustring list option" where
  "tool_ids [] = Some []"
| "tool_ids (ModelTurn m # bs) = tool_ids bs"
| "tool_ids (ToolCall k _ _ # ToolResult k' _ _ # bs) = (if k = k' then map_option ((#) k) (tool_ids bs) else None)"
| "tool_ids _ = None"

text \<open>The tool events of the loop carry encoded bytes.\<close>

fun tool_shape :: "event_body \<Rightarrow> bool" where
  "tool_shape (ToolCall _ name input) \<longleftrightarrow> name = ucs ''workspace_read'' \<and> canonical_base64 input = Inr input"
| "tool_shape (ToolResult _ result _) \<longleftrightarrow> canonical_base64 result = Inr result"
| "tool_shape _ \<longleftrightarrow> True"

lemma tool_ids_append: "tool_ids xs = Some ks \<Longrightarrow> tool_ids ys = Some ls \<Longrightarrow> tool_ids (xs @ ys) = Some (ks @ ls)"
  by (induction xs arbitrary: ks rule: tool_ids.induct) (auto split: if_splits)

lemma run_call_events:
  assumes "run_call w made call = Inr (result, bs)"
  shows "tool_ids bs = Some [workspace_id made]" "length bs = 2" "\<forall>b \<in> set bs. \<not> is_turn b \<and> tool_shape b"
  using assms by (auto simp: run_call_def Let_def split: prod.splits option.splits pyjson.split_asm)

lemma run_calls_events:
  "run_calls w made calls = Inr (results, bs) \<Longrightarrow>
   tool_ids bs = Some (map workspace_id [made..<made + length calls]) \<and> length bs = 2 * length calls \<and>
   (\<forall>b \<in> set bs. \<not> is_turn b \<and> tool_shape b)"
proof (induction calls arbitrary: made results bs)
  case (Cons call calls)
  obtain result bs1 results2 bs2 where r: "run_call w made call = Inr (result, bs1)" "run_calls w (Suc made) calls = Inr (results2, bs2)"
      "bs = bs1 @ bs2"
    using Cons.prems by (auto simp: rbind_Inr)
  note r1 = run_call_events [OF r(1)] and r2 = Cons.IH [OF r(2)]
  have "[made..<made + length (call # calls)] = made # [Suc made..<Suc made + length calls]" by (simp add: upt_rec)
  then show ?case using r1 r2 tool_ids_append [OF r1(1)] r(3) by (auto simp del: upt_Suc)
qed simp

text \<open>
  What the loop keeps: after \<open>turn\<close> requests, of which \<open>made\<close> calls came, the events hold a turn per request
  and the calls in order.  The same holds of a fallback, for an earlier turn.
\<close>

definition events_ok :: "(model_turn \<Rightarrow> bool) \<Rightarrow> nat \<Rightarrow> nat \<Rightarrow> event_body list \<Rightarrow> bool" where
  "events_ok ok turn made bs \<longleftrightarrow> tool_ids bs = Some (map workspace_id [0..<made]) \<and> length bs = turn + 2 * made \<and>
     (\<forall>m. ModelTurn m \<in> set bs \<longrightarrow> ok m) \<and> (\<forall>b \<in> set bs. tool_shape b)"

definition result_ok :: "(model_turn \<Rightarrow> bool) \<Rightarrow> nat \<Rightarrow> nat \<Rightarrow> generated \<Rightarrow> bool" where
  "result_ok ok budget limit g \<longleftrightarrow> (case g of (c, bs, submission) \<Rightarrow>
     (\<exists>turn made. 0 < turn \<and> turn \<le> limit \<and> made \<le> budget \<and> events_ok ok turn made bs))"

definition model_ok :: "(model_turn \<Rightarrow> bool) \<Rightarrow> gen_world \<Rightarrow> bool" where
  "model_ok ok w \<longleftrightarrow> (\<forall>turn ms t c. ask_model w turn ms t = Inr c \<longrightarrow> (case model_event c of ModelTurn m \<Rightarrow> ok m | _ \<Rightarrow> True))"

lemma events_turn:
  assumes "events_ok ok turn made bs" "model_ok ok w" "ask_model w n ms t = Inr c"
  shows "events_ok ok (Suc turn) made (bs @ [model_event c])"
proof -
  obtain m where m: "model_event c = ModelTurn m" "ok m" using assms(2,3) unfolding model_ok_def model_event_def by fastforce
  then show ?thesis using assms(1) tool_ids_append [of bs _ "[ModelTurn m]" "[]"] by (auto simp: events_ok_def)
qed

lemma events_calls:
  assumes "events_ok ok turn made bs" "run_calls w made calls = Inr (results, bs')"
  shows "events_ok ok turn (made + length calls) (bs @ bs')"
proof -
  note r = run_calls_events [OF assms(2)]
  have "[0..<made + length calls] = [0..<made] @ [made..<made + length calls]" by (rule upt_add_eq_append) simp
  then show ?thesis using assms(1) r tool_ids_append [of bs _ bs'] by (auto simp: events_ok_def simp del: upt_Suc)
qed

lemma result_okI: "events_ok ok turn made bs \<Longrightarrow> 0 < turn \<Longrightarrow> turn \<le> limit \<Longrightarrow> made \<le> budget \<Longrightarrow> result_ok ok budget limit (c, bs, submission)"
  by (auto simp: result_ok_def)

lemma result_ok_mono: "result_ok ok budget limit g \<Longrightarrow> limit \<le> limit' \<Longrightarrow> result_ok ok budget limit' g"
  unfolding result_ok_def by (auto split: prod.splits)

text \<open>One round of the loop: it ends, or it asks the model again, or it answers calls within the budget.\<close>

definition asks_again :: "completion \<Rightarrow> event_body list \<Rightarrow> generated option \<Rightarrow> nat \<Rightarrow> nat \<Rightarrow> nat \<Rightarrow> nat \<Rightarrow> event_body list \<Rightarrow> generated option \<Rightarrow> bool" where
  "asks_again c events fallback made asks made' asks' events' fallback' \<longleftrightarrow>
     made' = made \<and> asks' < asks \<and> events' = events @ [model_event c] \<and>
     (fallback' = fallback \<or> (\<exists>submission. fallback' = Some (c, events', submission)))"

definition answers_calls :: "gen_world \<Rightarrow> nat \<Rightarrow> completion \<Rightarrow> event_body list \<Rightarrow> generated option \<Rightarrow> nat \<Rightarrow> nat \<Rightarrow> nat \<Rightarrow> nat \<Rightarrow> event_body list \<Rightarrow> generated option \<Rightarrow> bool" where
  "answers_calls w budget c events fallback made asks made' asks' events' fallback' \<longleftrightarrow>
     (\<exists>calls results bs. calls \<noteq> [] \<and> made + length calls \<le> budget \<and> made' = made + length calls \<and> asks' = asks \<and>
        run_calls w made calls = Inr (results, bs) \<and> events' = events @ [model_event c] @ bs \<and> fallback' = fallback)"

lemma generate_round:
  assumes run: "generate w budget request turn made asks messages events fallback = (r, n)"
  obtains (ends) "turn \<le> n" "n \<le> Suc turn" "\<And>g. r = Inr g \<Longrightarrow> fallback = Some g \<or>
      (\<exists>c submission. ask_model w turn messages (gw_left w turn) = Inr c \<and> n = Suc turn \<and> g = (c, events @ [model_event c], submission))"
  | (again) c made' asks' messages' events' fallback' where "ask_model w turn messages (gw_left w turn) = Inr c"
      "generate w budget request (Suc turn) made' asks' messages' events' fallback' = (r, n)"
      "asks_again c events fallback made asks made' asks' events' fallback' \<or>
       answers_calls w budget c events fallback made asks made' asks' events' fallback'"
proof (cases "gw_left w turn \<le> 0 \<or> (\<exists>e. ask_model w turn messages (gw_left w turn) = Inl e)")
  case True
  then show thesis using run
    by (intro ends; subst (asm) generate.simps) (auto split: option.splits bool.splits if_splits)
next
  case False
  then obtain c where c: "\<not> gw_left w turn \<le> 0" "ask_model w turn messages (gw_left w turn) = Inr c"
    by (cases "ask_model w turn messages (gw_left w turn)") auto
  note step = run [unfolded generate.simps [of w budget request turn made asks messages events fallback] c(2), simplified c(1) if_False sum.case]
  consider "calls_of w c = []" | "calls_of w c \<noteq> []" "made + length (calls_of w c) > budget"
    | "calls_of w c \<noteq> []" "made + length (calls_of w c) \<le> budget" by linarith
  then show thesis
  proof cases
    case 1
    show thesis
    proof (cases "\<exists>submission problem. check_submission (gw_check w turn) request (co_output c) = Inr (submission, Some problem) \<and> asks \<noteq> 0 \<and> \<not> gw_late w turn")
      case True
      then obtain submission problem where k: "check_submission (gw_check w turn) request (co_output c) = Inr (submission, Some problem)"
        "asks \<noteq> 0" "\<not> gw_late w turn" by blast
      show thesis
        by (rule again [OF c(2), of made "asks - 1" "messages @ correction_messages c problem" "events @ [model_event c]"
              "Some (c, events @ [model_event c], submission)"])
          (use step k 1 in \<open>auto simp: asks_again_def\<close>)
    next
      case False
      then show thesis using step 1 c(2) by (intro ends) (auto split: sum.split_asm prod.split_asm if_split_asm)
    qed
  next
    case 2
    then show thesis using step c(2) ends again [of c made "asks - 1" "messages @ budget_messages c" "events @ [model_event c]" fallback]
      by (cases "asks = 0") (auto simp: asks_again_def)
  next
    case 3
    show thesis
    proof (cases "\<exists>results bs answers. run_calls w made (calls_of w c) = Inr (results, bs) \<and> answer_messages c results = Inr answers")
      case True
      then obtain results bs answers where k: "run_calls w made (calls_of w c) = Inr (results, bs)" "answer_messages c results = Inr answers" by blast
      show thesis
        by (rule again [OF c(2), of "made + length (calls_of w c)" asks
              "messages @ answers @ (if made + length (calls_of w c) = budget then [exhausted_message] else [])"
              "events @ [model_event c] @ bs" fallback])
          (use step k 3 in \<open>auto simp: answers_calls_def\<close>)
    next
      case False
      then show thesis using step 3 c(2) by (intro ends) (auto split: sum.split_asm prod.split_asm if_split_asm)
    qed
  qed
qed

lemma generate_ok:
  assumes ok: "model_ok ok w"
    and "generate w budget request turn made asks messages events fallback = (r, n)"
    and "events_ok ok turn made events" "made \<le> budget" "\<forall>f. fallback = Some f \<longrightarrow> result_ok ok budget turn f"
  shows "n \<le> turn + (budget - made) + asks + 1 \<and> (\<forall>g. r = Inr g \<longrightarrow> result_ok ok budget n g)"
  using assms(2-)
proof (induction "budget - made + asks" arbitrary: turn made asks messages events fallback rule: less_induct)
  case less
  have mono: "result_ok ok budget turn f \<Longrightarrow> turn \<le> m \<Longrightarrow> result_ok ok budget m f" for f m using result_ok_mono by blast
  from less.prems(1) show ?case
  proof (cases rule: generate_round)
    case ends
    have "result_ok ok budget n g" if g: "r = Inr g" for g
      using ends(3) [OF g]
    proof
      assume "fallback = Some g"
      then show ?thesis using mono ends(1) less.prems(4) by blast
    next
      assume "\<exists>c submission. ask_model w turn messages (gw_left w turn) = Inr c \<and> n = Suc turn \<and> g = (c, events @ [model_event c], submission)"
      then obtain c submission where c: "ask_model w turn messages (gw_left w turn) = Inr c" "n = Suc turn" "g = (c, events @ [model_event c], submission)"
        by blast
      show ?thesis unfolding c(2,3) by (rule result_okI [OF events_turn [OF less.prems(2) ok c(1)]]) (use less.prems(3) in simp_all)
    qed
    then show ?thesis using ends(2) by auto
  next
    case (again c made' asks' messages' events' fallback')
    note e1 = events_turn [OF less.prems(2) ok again(1)]
    from again(3) show ?thesis
    proof
      assume a: "asks_again c events fallback made asks made' asks' events' fallback'"
      have f: "\<forall>f. fallback' = Some f \<longrightarrow> result_ok ok budget (Suc turn) f"
        using a e1 less.prems(3,4) mono by (auto simp: asks_again_def intro: result_okI)
      have e: "events_ok ok (Suc turn) made' events'" "made' \<le> budget" "budget - made' + asks' < budget - made + asks"
        using a e1 less.prems(3) by (auto simp: asks_again_def)
      show ?thesis using less.hyps [OF e(3) again(2) e(1,2) f] e(3) by auto
    next
      assume a: "answers_calls w budget c events fallback made asks made' asks' events' fallback'"
      then obtain calls results bs where b: "calls \<noteq> []" "made + length calls \<le> budget" "made' = made + length calls" "asks' = asks"
        "run_calls w made calls = Inr (results, bs)" "events' = events @ [model_event c] @ bs" "fallback' = fallback"
        unfolding answers_calls_def by blast
      have f: "\<forall>f. fallback' = Some f \<longrightarrow> result_ok ok budget (Suc turn) f" using b(7) less.prems(4) mono by auto
      have "0 < length calls" using b(1) by simp
      then have e: "budget - made' + asks' < budget - made + asks" "made' \<le> budget" using b(2-4) by linarith+
      have "events_ok ok (Suc turn) made' events'" using events_calls [OF e1 b(5)] b(3,6) by simp
      from less.hyps [OF e(1) again(2) this e(2) f] show ?thesis using e(1) by auto
    qed
  qed
qed

section \<open>The trajectory is accepted\<close>

definition number_from :: "nat \<Rightarrow> event_body list \<Rightarrow> trajectory_event list" where
  "number_from n bs = map (\<lambda>(i, b). \<lparr>ev_sequence = int i, ev_body = b\<rparr>) (List.enumerate n bs)"

lemma number_events_from: "number_events bs = number_from 0 bs"
  by (simp add: number_events_def number_from_def)

lemma number_from_simps [simp]:
  "number_from n [] = []"
  "number_from n (b # bs) = \<lparr>ev_sequence = int n, ev_body = b\<rparr> # number_from (Suc n) bs"
  by (simp_all add: number_from_def)

lemma number_from_append: "number_from n (xs @ ys) = number_from n xs @ number_from (n + length xs) ys"
  by (induction xs arbitrary: n) auto

lemma number_from_bodies: "map ev_body (number_from n bs) = bs" "length (number_from n bs) = length bs"
  by (induction bs arbitrary: n) auto

lemma number_from_sequence: "map ev_sequence (number_from n bs) = map int [n..<n + length bs]"
proof (induction bs arbitrary: n)
  case (Cons b bs)
  have "[n..<n + length (b # bs)] = n # [Suc n..<Suc n + length bs]" by (simp add: upt_rec)
  then show ?case using Cons by (simp del: upt_Suc)
qed simp

lemma keyed_append: "keyed f (xs @ ys) = keyed f xs @ keyed f ys"
  by (induction xs) auto

lemma keyed_tool_ids:
  "tool_ids bs = Some ks \<Longrightarrow>
   keys (keyed call_id_of (number_from n bs)) = ks \<and>
   keyed result_id_of (number_from n bs) = map (\<lambda>(k, m). (k, m + 1)) (keyed call_id_of (number_from n bs))"
  by (induction bs arbitrary: n ks rule: tool_ids.induct) (auto split: if_splits)

lemma tool_ids_turns: "tool_ids bs = Some ks \<Longrightarrow> length (filter is_turn bs) + 2 * length ks = length bs"
  by (induction bs arbitrary: ks rule: tool_ids.induct) (auto split: if_splits)

lemma tool_ids_no_final: "tool_ids bs = Some ks \<Longrightarrow> b \<in> set bs \<Longrightarrow> final_sha b = None"
  by (induction bs arbitrary: ks rule: tool_ids.induct) (auto split: if_splits)

lemma tool_ids_members: "tool_ids bs = Some ks \<Longrightarrow> b \<in> set bs \<Longrightarrow> (case b of ModelTurn _ \<Rightarrow> True | ToolCall k _ _ \<Rightarrow> k \<in> set ks | ToolResult k _ _ \<Rightarrow> k \<in> set ks | _ \<Rightarrow> False)"
  by (induction bs arbitrary: ks rule: tool_ids.induct) (auto split: if_splits event_body.splits)

lemma nat_digits_inj: "nat_digits m = nat_digits n \<Longrightarrow> m = n"
  by (metis foldl_nat_digits of_nat_eq_iff)

lemma workspace_ids_distinct: "distinct (map workspace_id [0..<n] @ [validation_id])"
proof -
  have "inj_on workspace_id S" for S using nat_digits_inj by (auto simp: inj_on_def workspace_id_def)
  moreover have "validation_id \<noteq> workspace_id i" for i by (simp add: validation_id_def workspace_id_def ucs_def)
  ultimately show ?thesis by (auto simp: distinct_map)
qed

text \<open>The calls of the loop with the closing call pair up.\<close>

lemma paired_numbered:
  assumes ids: "tool_ids bs = Some ks" and d: "distinct ks" "ks \<noteq> []" and last: "call_id_of l = None" "result_id_of l = None"
  shows "\<exists>calls results. collect_calls (number_from 0 (bs @ [l])) [] [] = Inr (calls, results) \<and> calls \<noteq> [] \<and>
    set (keys calls) = set (keys results) \<and> (\<forall>(k, m) \<in> set calls. \<not> the (map_of results k) \<le> m)"
proof -
  let ?es = "number_from 0 (bs @ [l])"
  let ?cs = "keyed call_id_of ?es" and ?rs = "keyed result_id_of ?es"
  have k: "keys ?cs = ks" "?rs = map (\<lambda>(k, m). (k, m + 1)) ?cs"
    using keyed_tool_ids [OF ids, of 0] last by (simp_all add: number_from_append keyed_append)
  have r: "keys ?rs = ks" unfolding k(2) using k(1) by (simp add: comp_def case_prod_unfold)
  have "\<not> the (map_of ?rs a) \<le> m" if m: "(a, m) \<in> set ?cs" for a m
  proof -
    have "(a, m + 1) \<in> set ?rs" using m unfolding k(2) by force
    then have "map_of ?rs a = Some (m + 1)" using d(1) r by simp
    then show ?thesis by simp
  qed
  moreover have "collect_calls ?es [] [] = Inr (?cs, ?rs)" using d(1) k(1) r by (simp add: collect_calls_iff)
  moreover have "?cs \<noteq> []" using k(1) d(2) by auto
  moreover have "set (keys ?cs) = set (keys ?rs)" unfolding k(1) r ..
  ultimately show ?thesis by blast
qed

text \<open>A turn that records a completion the client has read.\<close>

definition client_turn :: "model_turn \<Rightarrow> bool" where
  "client_turn m \<longleftrightarrow> (\<exists>c body response data. read_completion body response data = Inr c \<and> model_event c = ModelTurn m)"

lemma ask_model_client: "model_ok client_turn w"
proof -
  have "\<exists>body response data. read_completion body response data = Inr c" if "ask_model w turn ms t = Inr c" for turn ms t c
    using that by (auto simp: ask_model_def complete_def simp del: attempts.simps dest!: attempts_Inr split: option.splits if_splits)
  then show ?thesis unfolding model_ok_def client_turn_def by (simp split: event_body.split) blast
qed

text \<open>The sizes that a trajectory limits and the loop does not.\<close>

fun event_size :: "event_body \<Rightarrow> bool" where
  "event_size (ModelTurn m) \<longleftrightarrow> length (tn_request m) \<le> 64 * MiB \<and> length (tn_response m) \<le> 128 * MiB \<and>
     length (tn_generated m) \<le> 64 * MiB \<and> length (tn_reasoning m) \<le> 64 * MiB \<and> length (tn_output m) \<le> 64 * MiB \<and>
     length (tn_tokens m) \<le> 250000 \<and>
     list_all (\<lambda>g. length (gt_bytes g) \<le> 65536 \<and> token_id_ok (gt_id g) \<and>
       list_all (\<lambda>a. length (alt_bytes a) \<le> 65536 \<and> token_id_ok (alt_id a)) (gt_top g)) (tn_tokens m)"
| "event_size (ToolCall _ _ input) \<longleftrightarrow> length input \<le> 64 * MiB"
| "event_size (ToolResult _ result _) \<longleftrightarrow> length result \<le> 128 * MiB"
| "event_size _ \<longleftrightarrow> True"

lemma client_turn_ok:
  assumes "client_turn m" "event_size (ModelTurn m)"
  shows "turn_ok m"
proof -
  obtain c body response data where c: "read_completion body response data = Inr c" "model_event c = ModelTurn m"
    using assms(1) by (auto simp: client_turn_def)
  then have "fits c" using assms(2) by (auto simp: model_event_def fits_def)
  then show ?thesis using event_of_completion [OF c(1)] c(2) by simp
qed

text \<open>The client lets an alternative be without a log probability, but not with an infinite one.\<close>

lemma client_turn_alternatives:
  assumes "client_turn m" "Some p \<in> set (alternatives_of (ModelTurn m))"
  shows "is_finite p"
proof -
  obtain c body response data where c: "read_completion body response data = Inr c" "model_event c = ModelTurn m"
    using assms(1) unfolding client_turn_def by blast
  have "list_all token_evidence (tn_tokens m)" using completion_evidence [OF c(1)] c(2) by (auto simp: model_event_def)
  moreover obtain g a where "g \<in> set (tn_tokens m)" "a \<in> set (gt_top g)" "alt_logprob a = Some p" using assms(2) by auto
  ultimately show ?thesis by (fastforce simp: list_all_iff token_evidence_def alternative_evidence_def)
qed

definition enough_known :: "event_body list \<Rightarrow> bool" where
  "enough_known events \<longleftrightarrow>
     (let alternatives = concat (map alternatives_of events) in
      85 * length alternatives \<le> 100 * length (filter (\<lambda>p. p \<noteq> None) alternatives))"

lemma enough_known_finite:
  assumes "\<And>m. ModelTurn m \<in> set events \<Longrightarrow> client_turn m"
  shows "enough_finite (concat (map alternatives_of events)) \<longleftrightarrow> enough_known events"
proof -
  have "is_finite p" if p: "Some p \<in> set (concat (map alternatives_of events))" for p
  proof -
    obtain b where b: "b \<in> set events" "Some p \<in> set (alternatives_of b)" using p by auto
    from b(2) obtain m where "b = ModelTurn m" by (cases b) auto
    then show ?thesis using client_turn_alternatives assms b by blast
  qed
  then have "filter (\<lambda>v. case v of None \<Rightarrow> False | Some p \<Rightarrow> is_finite p) (concat (map alternatives_of events)) =
      filter (\<lambda>p. p \<noteq> None) (concat (map alternatives_of events))"
    by (intro filter_cong) (auto split: option.splits)
  then show ?thesis by (auto simp: enough_finite_def enough_known_def Let_def)
qed

lemma workspace_id_small: "n \<le> 1000 \<Longrightarrow> small_text (workspace_id n)"
  using nat_digits_length [of n 3] by (simp add: small_text_def workspace_id_def ucs_def)

lemma loop_bodies_ok:
  assumes "events_ok client_turn turn made events" "made \<le> 128" "\<forall>b \<in> set events. event_size b" "b \<in> set events"
  shows "body_ok b"
proof -
  have e: "tool_ids events = Some (map workspace_id [0..<made])" "tool_shape b" "\<And>m. b = ModelTurn m \<Longrightarrow> client_turn m"
    using assms(1,4) by (auto simp: events_ok_def)
  have small: "k \<in> set (map workspace_id [0..<made]) \<Longrightarrow> small_text k" for k using assms(2) workspace_id_small by auto
  have "event_size b" using assms(3,4) by blast
  then show ?thesis using e(2,3) tool_ids_members [OF e(1) assms(4)] small
    by (cases b) (auto simp: client_turn_ok base64_field_def small_text_def ucs_def simp del: set_map)
qed

lemma map_filter_bodies: "List.map_filter (f \<circ> ev_body) (number_from n bs) = List.map_filter f bs"
  by (induction bs arbitrary: n) (auto simp: map_filter_simps split: option.splits)

lemma built_events_valid:
  assumes e: "events_ok client_turn turn made events" "0 < turn"
  shows "validate_events (build_trajectory cfg request sha (events @ closing_events sha submission report)) = Inr () \<longleftrightarrow> enough_known events"
proof -
  let ?front = "events @ [ToolCall validation_id (ucs ''validate_submission'') (b64encode submission), ToolResult validation_id (b64encode report) False]"
  let ?bs = "?front @ [FinalSubmission sha]"
  have ids: "tool_ids events = Some (map workspace_id [0..<made])" and len: "length events = turn + 2 * made"
    and turns: "\<And>m. ModelTurn m \<in> set events \<Longrightarrow> client_turn m" using e(1) by (auto simp: events_ok_def)
  have front: "tool_ids ?front = Some (map workspace_id [0..<made] @ [validation_id])" by (rule tool_ids_append [OF ids]) simp
  have "0 < length (filter is_turn events)" using tool_ids_turns [OF ids] len e(2) by simp
  then have turn: "\<exists>b \<in> set events. is_turn b" by (auto simp: filter_empty_conv)
  have none: "List.map_filter final_sha events = []" using tool_ids_no_final [OF ids] by (subst map_filter_empty) blast
  have finals: "List.map_filter (final_sha \<circ> ev_body) (number_from 0 ?bs) = [sha]"
    unfolding map_filter_bodies by (simp add: none map_filter_append map_filter_simps)
  have "ev_body (last (number_from 0 ?bs)) = FinalSubmission sha" by (simp add: number_from_append)
  moreover have "map ev_sequence (number_from 0 ?bs) = map int [0..<length (number_from 0 ?bs)]"
    using number_from_sequence [of 0 ?bs] number_from_bodies(2) [of 0 ?bs] by (simp only: add_0)
  moreover have "list_ex (is_turn \<circ> ev_body) (number_from 0 ?bs)"
  proof -
    have "list_ex is_turn (map ev_body (number_from 0 ?bs))" unfolding number_from_bodies using turn by (auto simp: list_ex_iff)
    then show ?thesis by (simp only: list.pred_map list_ex_iff set_map) auto
  qed
  moreover have "enough_finite (concat (map (alternatives_of \<circ> ev_body) (number_from 0 ?bs))) \<longleftrightarrow> enough_known events"
  proof -
    have m: "map (alternatives_of \<circ> ev_body) (number_from 0 ?bs) = map alternatives_of ?bs"
      unfolding map_map [symmetric] number_from_bodies ..
    show ?thesis unfolding m using enough_known_finite [OF turns] by simp
  qed
  ultimately show ?thesis
    using finals paired_numbered [OF front workspace_ids_distinct, of "FinalSubmission sha"]
    unfolding validate_events_steps Let_def build_trajectory_def closing_events_def number_events_from by simp
qed

section \<open>The report on a submission\<close>

lemma b64encode_length: "length bs \<le> length (b64encode bs)" "3 * length (b64encode bs) \<le> 4 * (length bs + 2)"
proof -
  have "length ns \<le> length (b64encode_nats ns) \<and> 3 * length (b64encode_nats ns) \<le> 4 * (length ns + 2)" for ns
    by (induction ns rule: b64encode_nats.induct) auto
  from this [of "map of_char bs"] show "length bs \<le> length (b64encode bs)" "3 * length (b64encode bs) \<le> 4 * (length bs + 2)"
    by (auto simp: b64encode_def)
qed

definition ascii_stable :: "(ustring \<Rightarrow> ustring) \<Rightarrow> bool" where
  "ascii_stable nfc \<longleftrightarrow> (\<forall>s. list_all (\<lambda>c. c < 128) s \<longrightarrow> nfc s = s)"

lemma ucs_length: "length (ucs s) = length s"
  by (simp add: ucs_def)

lemma hex_char_code: "hex_char c \<Longrightarrow> (48 \<le> (of_char c :: nat) \<and> (of_char c :: nat) \<le> 57) \<or> (97 \<le> (of_char c :: nat) \<and> (of_char c :: nat) \<le> 102)"
  by (auto simp: hex_char_def)

lemma hex_digest_text:
  assumes "hex_digest sha"
  shows "length (ucs sha) = 64" "\<forall>c \<in> set (ucs sha). (48 \<le> c \<and> c \<le> 57) \<or> (97 \<le> c \<and> c \<le> 102)"
proof -
  show "length (ucs sha) = 64" using assms by (simp add: hex_digest_def ucs_def)
  have "hex_char c" if "c \<in> set sha" for c using assms that by (simp add: hex_digest_def list_all_iff)
  then show "\<forall>c \<in> set (ucs sha). (48 \<le> c \<and> c \<le> 57) \<or> (97 \<le> c \<and> c \<le> 102)"
    unfolding ucs_def using hex_char_code by auto
qed

lemma dumps_hex: "hex_digest sha \<Longrightarrow> dumps_string (ucs sha) = 34 # ucs sha @ [34]"
proof -
  assume h: "hex_digest sha"
  have "escape_char c = [c]" if "c \<in> set (ucs sha)" for c
    using hex_digest_text(2) [OF h] that by (fastforce simp: escape_char_def)
  then have m: "map escape_char (ucs sha) = map (\<lambda>c. [c]) (ucs sha)" by simp
  have "concat (map escape_char (ucs sha)) = ucs sha" unfolding m by simp
  then show ?thesis by (simp add: dumps_string_def)
qed

lemma report_written:
  assumes "ascii_stable nfc" "hex_digest sha" "length submission < 10 ^ 9"
  shows "\<exists>report. submission_report nfc sha submission = Inr report \<and> length report \<le> 1000"
proof -
  let ?v = "JObj [(ucs ''sha256'', JStr (ucs sha)), (ucs ''size_bytes'', JInt (int (length submission))), (ucs ''utf8'', JBool True)]"
  have stable: "validate_protocol_string nfc s = Inr ()" if "\<forall>c \<in> set s. c < 128" for s
    using that assms(1) by (auto simp: validate_protocol_string_def ascii_stable_def list_all_iff list_ex_iff is_surrogate_def)
  have sha: "\<forall>c \<in> set (ucs sha). c < 128" using hex_digest_text(2) [OF assms(2)] by auto
  have v: "validate_json_value nfc 0 ?v = Inr ()"
    using stable [OF sha] stable [of "ucs ''sha256''"] stable [of "ucs ''size_bytes''"] stable [of "ucs ''utf8''"] assms(3)
    by (simp add: MAX_NESTING_DEPTH_def safe_integer_def SAFE_INTEGER_MAX_def) (simp add: ucs_def)
  have digits: "length (str_int (int (length submission))) \<le> 9" using nat_digits_length [of "length submission" 8] assms(3) by (simp add: str_int_def)
  obtain u where u: "serialize 0 ?v = Inr u" using validated_serializes(1) [OF v] by blast
  have s: "dumps_string (ucs ''sha256'') = ucs (CHR 0x22 # ''sha256'' @ [CHR 0x22])" "dumps_string (ucs ''size_bytes'') = ucs (CHR 0x22 # ''size_bytes'' @ [CHR 0x22])"
    "dumps_string (ucs ''utf8'') = ucs (CHR 0x22 # ''utf8'' @ [CHR 0x22])"
    by (simp_all add: dumps_string_def escape_char_def ucs_def)
  have "length u \<le> 250"
    using u digits dumps_hex [OF assms(2)] hex_digest_text(1) [OF assms(2), unfolded ucs_length] by (auto simp: MAX_NESTING_DEPTH_def s ucs_length)
  moreover have "length (utf8_encode u) \<le> 4 * length u"
    unfolding utf8_encode_def length_map by (induction u) (auto simp: utf8_bytes_def)
  ultimately show ?thesis using v u by (simp add: submission_report_def canonical_json_def)
qed

section \<open>Solving ends and publishes\<close>

lemma generate_from_start:
  assumes "model_ok ok w" "generate w budget request 0 0 SUBMISSION_REASK_LIMIT messages [] None = (r, n)"
  shows "n \<le> budget + 3 \<and> (\<forall>g. r = Inr g \<longrightarrow> result_ok ok budget n g)"
proof -
  have "events_ok ok 0 0 []" by (simp add: events_ok_def)
  from generate_ok [OF assms(1,2) this] show ?thesis by (simp add: SUBMISSION_REASK_LIMIT_def)
qed

text \<open>C9. Solving always ends: whatever the model replies, at most three more requests than the tool budget
  are made to it, and the events of a solution are between one and that many model turns and at most
  the budget of tool calls, numbered from zero, each directly followed by its result.\<close>

theorem generate_bounded:
  assumes "generate w budget request 0 0 SUBMISSION_REASK_LIMIT messages [] None = (r, n)"
  shows "n \<le> budget + 3 \<and>
    (\<forall>c events submission. r = Inr (c, events, submission) \<longrightarrow>
       (\<exists>turns made. 0 < turns \<and> turns \<le> n \<and> made \<le> budget \<and> length events = turns + 2 * made \<and>
          length (filter is_turn events) = turns \<and> tool_ids events = Some (map workspace_id [0..<made])))"
proof -
  have "model_ok (\<lambda>_. True) w" by (auto simp: model_ok_def split: event_body.splits)
  note g = generate_from_start [OF this assms]
  have "length (filter is_turn bs) = turns" if "events_ok (\<lambda>_. True) turns made bs" for turns made bs
    using that tool_ids_turns [of bs "map workspace_id [0..<made]"] by (simp add: events_ok_def)
  then show ?thesis using g by (fastforce simp: result_ok_def events_ok_def)
qed

lemma built_trajectory_valid:
  assumes e: "events_ok client_turn turns made events" "0 < turns" "turns \<le> 131" "made \<le> 128" "\<forall>b \<in> set events. event_size b"
    and sub: "length (b64encode submission) \<le> 64 * MiB" and rep: "length report \<le> 1000"
    and req: "hex_digest (mt_task_id request)" "bounded_identifier (mt_challenge_id request)"
    and cfg: "bounded_identifier (ss_hotkey cfg)" "small_text (ss_model cfg)" and sha: "hex_digest sha"
  shows "validate_trajectory (build_trajectory cfg request sha (events @ closing_events sha submission report)) \<longleftrightarrow> enough_known events"
proof -
  let ?bs = "events @ closing_events sha submission report"
  have len: "length events = turns + 2 * made" using e(1) by (simp add: events_ok_def)
  have "length (b64encode report) \<le> 128 * MiB" using b64encode_length(2) [of report] rep by (simp add: MiB_def)
  then have "body_ok b" if b: "b \<in> set ?bs" for b
    using b loop_bodies_ok [OF e(1,4,5)] sub sha
    by (auto simp: closing_events_def base64_field_def small_text_def validation_id_def ucs_length)
  moreover have "ev_body x \<in> set ?bs" if "x \<in> set (number_events ?bs)" for x
    using that number_from_bodies(1) [of 0 ?bs] unfolding number_events_from by (metis imageI set_map)
  moreover have "0 \<le> ev_sequence x \<and> ev_sequence x \<le> 2 ^ 31 - 1" if x: "x \<in> set (number_events ?bs)" for x
  proof -
    have "ev_sequence x \<in> set (map int [0..<0 + length ?bs])"
      using x unfolding number_from_sequence [symmetric] number_events_from by simp
    then show ?thesis using len e(3,4) by (auto simp: closing_events_def)
  qed
  ultimately have "list_all event_ok (number_events ?bs)" by (simp add: list_all_iff event_ok_def)
  then have "trajectory_fields (build_trajectory cfg request sha ?bs)"
    using req cfg sha len e(2-4)
    by (simp add: trajectory_fields_def build_trajectory_def number_events_from number_from_bodies closing_events_def small_text_def ucs_length)
  then show ?thesis using built_events_valid [OF e(1,2)] by (simp add: validate_trajectory_def)
qed

text \<open>C8. What solving publishes, when the loop of \<open>solve\<close> yields a submission.  The trajectory built from its
  events, which end with the digest of exactly this submission, passes every check on trajectories
  exactly when at least 85 percent of the recorded alternative tokens carry a log probability; the
  client asks for them, but accepts alternatives without one.  If so and if it can be encoded, the
  encoding parses back to it and the result of \<open>solve\<close> is the result of uploading the submission with
  that encoding; in every other case \<open>solve\<close> reports an invalid trajectory and nothing is uploaded.
  Assumed: the model turns, tool events and the submission are within the sizes and token-id range of
  a trajectory, the settings are in their declared ranges, and the hash and JSON libraries behave as
  documented.  Nothing is assumed of the replies: that the turns pass the other checks is proved from
  what the client accepts.\<close>

theorem solve_publishes_valid:
  assumes opened: "sw_opened w = Inr ws" and time: "ss_upload_reserve_s cfg < timeout_s"
    and run: "generate (sw_gen w ws) (ss_tool_calls cfg) request 0 0 SUBMISSION_REASK_LIMIT (first_messages request) [] None =
      (Inr (c, events, submission), n)"
    and sizes: "\<forall>b \<in> set events. event_size b" "length (b64encode submission) \<le> 64 * MiB"
    and cfg: "ss_tool_calls cfg \<le> 128" "bounded_identifier (ss_hotkey cfg)" "small_text (ss_model cfg)"
    and req: "hex_digest (mt_task_id request)" "bounded_identifier (mt_challenge_id request)"
    and libraries: "\<And>b. hex_digest (sw_sha256 w b)" "ascii_stable (sw_nfc w)"
      "\<And>t raw. sw_dumps w t = Some raw \<Longrightarrow> sw_read w raw = Read t \<and> prefix ''{'' raw"
  shows "\<exists>report t. submission_report (sw_nfc w) (sw_sha256 w submission) submission = Inr report \<and>
    t = build_trajectory cfg request (sw_sha256 w submission) (events @ closing_events (sw_sha256 w submission) submission report) \<and>
    final_sha (ev_body (last (tr_events t))) = Some (sw_sha256 w submission) \<and>
    (validate_trajectory t \<longleftrightarrow> enough_known events) \<and>
    (\<not> enough_known events \<or> sw_dumps w t = None \<longrightarrow> solve cfg w request timeout_s = Inl InvalidTrajectory) \<and>
    (\<forall>raw. enough_known events \<longrightarrow> sw_dumps w t = Some raw \<longrightarrow> parse_trajectory (sw_dumps w) (sw_read w) raw = Inr t \<and>
       solve cfg w request timeout_s =
         (case upload_miner_result (sw_origin w) (sw_sha256 w) (sw_put_submission w) (sw_put_trajectory w) request
                 submission raw (set (v3_artifact_origins release_policy)) of
            Inl e \<Rightarrow> Inl (NotUploaded e) | Inr answer \<Rightarrow> Inr answer))"
proof -
  let ?sha = "sw_sha256 w submission"
  have "n \<le> ss_tool_calls cfg + 3" "result_ok client_turn (ss_tool_calls cfg) n (c, events, submission)"
    using generate_from_start [OF ask_model_client run] by auto
  then obtain turns made where e: "events_ok client_turn turns made events" "0 < turns" "turns \<le> 131" "made \<le> 128"
    using cfg(1) by (auto simp: result_ok_def)
  have "length submission < 10 ^ 9" using b64encode_length(1) [of submission] sizes(2) by (simp add: MiB_def)
  from report_written [OF libraries(2,1) this, of submission] obtain report where
    rep: "submission_report (sw_nfc w) ?sha submission = Inr report" "length report \<le> 1000" by blast
  define t where "t = build_trajectory cfg request ?sha (events @ closing_events ?sha submission report)"
  have valid: "validate_trajectory t \<longleftrightarrow> enough_known events"
    unfolding t_def by (rule built_trajectory_valid [OF e sizes rep(2) req cfg(2,3) libraries(1)])
  have solved: "solve cfg w request timeout_s =
      (if enough_known events then publish_encoded w request submission t else Inl InvalidTrajectory)"
    using opened time run rep(1) unfolding valid [symmetric] by (simp add: solve_def publish_def Let_def t_def)
  have parsed: "parse_trajectory (sw_dumps w) (sw_read w) raw = Inr t" if "enough_known events" "sw_dumps w t = Some raw" for raw
    using valid that libraries(3) [OF that(2)] by (auto simp: parse_trajectory_def serialize_trajectory_def prefix_def)
  have "final_sha (ev_body (last (tr_events t))) = Some ?sha"
    by (simp add: t_def build_trajectory_def number_events_from closing_events_def number_from_append)
  then show ?thesis
    using valid parsed rep(1) t_def unfolding solved
    by (intro exI [of _ report] exI [of _ t]) (auto simp: publish_encoded_def serialize_trajectory_def)
qed

text \<open>A terminal task that the model solves with its second reply, after one tool call.\<close>

definition terminal_request :: miner_task_request where
  "terminal_request = live_task\<lparr>mt_identity := TerminalTask script_identity\<rparr>"

definition call_reply :: json where
  "call_reply = JObj [(ucs ''choices'', JList [JObj [(ucs ''finish_reason'', JStr (ucs ''tool_calls'')),
     (ucs ''message'', JObj [(ucs ''content'', JStr (ucs ''ok'')), (ucs ''tool_calls'', JList [JObj [(ucs ''id'', JStr (ucs ''c1'')),
        (ucs ''function'', JObj [(ucs ''name'', JStr (ucs ''list_files'')), (ucs ''arguments'', JStr (ucs ''{}''))])]])])]])]"

definition call_completion :: completion where
  "call_completion = completion_example\<lparr>co_response := ''t'', co_tool_calls := [(ucs ''c1'', ucs ''list_files'', ucs ''{}'')]\<rparr>"

lemma read_call_reply: "read_completion ''{}'' ''t'' call_reply = Inr call_completion"
  by (simp add: read_completion_def call_reply_def call_completion_def completion_example_def read_reasoning_def tool_calls_of_def ucs_def)

definition world_example :: gen_world where
  "world_example = \<lparr>gw_left = (\<lambda>_. 10), gw_has_key = True, gw_https = True, gw_retries = 2, gw_encode = (\<lambda>_. Some ''{}''),
     gw_attempt_left = (\<lambda>_ t _. t), gw_send = (\<lambda>turn _ _. PostResponse 200 (if turn = 0 then ''t'' else ''r'')),
     gw_loads = (\<lambda>raw. Some (if raw = ''t'' then call_reply else reply_example)),
     gw_check = (\<lambda>_. \<lparr>cw_git = False, cw_left = (\<lambda>_. 10), cw_run = (\<lambda>_ _. GitUnavailable), cw_digit = ascii_digit\<rparr>),
     gw_late = (\<lambda>_. False), gw_tool = (\<lambda>_. ''{}''), gw_failed = (\<lambda>_. False),
     gw_text = \<lparr>tx_word = ascii_digit, tx_digit = ascii_digit, tx_lower = id, tx_loads = (\<lambda>_. Some (JObj [])), tx_dumps = (\<lambda>_. ucs ''{}'')\<rparr>\<rparr>"

definition events_example :: "event_body list" where
  "events_example = [model_event call_completion, ToolCall (workspace_id 0) (ucs ''workspace_read'') (b64encode ''{}''),
     ToolResult (workspace_id 0) (b64encode ''{}'') False, model_event completion_example]"

lemma utf8_encode_ascii: "list_all (\<lambda>c. of_char c < (128 :: nat)) s \<Longrightarrow> utf8_encode (ucs s) = s"
  by (induction s) (auto simp: utf8_encode_def utf8_bytes_def ucs_def)

lemma utf8_strict_ascii: "list_all (\<lambda>c. of_char c < (128 :: nat)) s \<Longrightarrow> utf8_strict (ucs s) = Some s"
  using utf8_encode_ascii [of s] by (auto simp: utf8_strict_def is_surrogate_def ucs_def list_ex_iff list_all_iff)

lemma example_submission: "extract_submission (ucs ''ok'') = Some [CHR ''o'', CHR ''k'', CHR 0x0A]"
  using utf8_strict_ascii [of "[CHR ''o'', CHR ''k'', CHR 0x0A]"]
  by (simp add: extract_submission_def strip_newlines_def ucs_def Let_def fence_def)

lemma example_check:
  "check_submission cw terminal_request (co_output completion_example) = Inr ([CHR ''o'', CHR ''k'', CHR 0x0A], None)"
  using example_submission
  by (simp add: check_submission_def completion_example_def terminal_request_def script_problem_def validate_script_def release_policy_def
      utf8_decode_ascii)

lemma example_calls: "calls_of world_example completion_example = []"
    "calls_of world_example call_completion = [(ucs ''c1'', ucs ''list_files'', ucs ''{}'')]"
  by (simp_all add: calls_of_def completion_example_def call_completion_def extract_tool_call_def workspace_fence_def between_def
      SECTION_BEGIN_def rstrip_def uspace_def ucs_def fence_def Let_def)

lemma example_tool_run:
  "run_calls world_example 0 (calls_of world_example call_completion) = Inr ([(ucs ''c1'', ''{}'')],
     [ToolCall (workspace_id 0) (ucs ''workspace_read'') (b64encode ''{}''), ToolResult (workspace_id 0) (b64encode ''{}'') False])"
  unfolding example_calls(2) by (simp add: run_call_def Let_def world_example_def utf8_strict_ascii)

lemma example_answers: "\<exists>ms. answer_messages call_completion [(ucs ''c1'', ''{}'')] = Inr ms"
  by (simp add: answer_messages_def call_completion_def decoded_def utf8_decode_ascii)

lemma example_generated:
  "generate world_example 4 terminal_request 0 0 SUBMISSION_REASK_LIMIT ms [] None =
     (Inr (completion_example, events_example, [CHR ''o'', CHR ''k'', CHR 0x0A]), 2)"
proof -
  obtain answers where a: "answer_messages call_completion [(ucs ''c1'', ''{}'')] = Inr answers" using example_answers by blast
  have w: "gw_left world_example i = 10" "ask_model world_example i m 10 = Inr (if i = 0 then call_completion else completion_example)"
    "gw_late world_example i = False" for i m
    by (simp_all add: world_example_def ask_model_def complete_def read_call_reply read_reply_example eval_nat_numeral)
  have second: "generate world_example 4 terminal_request 1 1 2 ms' bs None =
      (Inr (completion_example, bs @ [model_event completion_example], [CHR ''o'', CHR ''k'', CHR 0x0A]), 2)" for ms' bs
    by (subst generate.simps) (simp add: w example_calls(1) example_check numeral_2_eq_2)
  show ?thesis
    unfolding SUBMISSION_REASK_LIMIT_def using second
    by (subst generate.simps) (simp add: w example_tool_run a, simp add: example_calls(2) events_example_def)
qed

theorem generate_bounded_witness:
  "\<exists>turns made. 0 < turns \<and> turns \<le> 2 \<and> made \<le> 4 \<and> length events_example = turns + 2 * made \<and>
     tool_ids events_example = Some (map workspace_id [0..<made])"
  using generate_bounded [OF example_generated [of "[]"]] by blast

definition solver_example :: solver_settings where
  "solver_example = \<lparr>ss_hotkey = ''h7'', ss_model = ucs ''m'', ss_tool_calls = 4, ss_upload_reserve_s = 20\<rparr>"

abbreviation ok_bytes :: bytes where "ok_bytes \<equiv> [CHR ''o'', CHR ''k'', CHR 0x0A]"

definition solved_trajectory :: trajectory where
  "solved_trajectory = build_trajectory solver_example terminal_request digest_a
     (events_example @ closing_events digest_a ok_bytes (projr (submission_report id digest_a ok_bytes)))"

definition solve_example :: solve_world where
  "solve_example = \<lparr>sw_opened = Inr workspace_tree, sw_gen = (\<lambda>_. world_example), sw_sha256 = (\<lambda>_. digest_a), sw_nfc = id,
     sw_dumps = (\<lambda>t. if t = solved_trajectory then Some ''{}'' else None),
     sw_read = (\<lambda>raw. if raw = ''{}'' then Read solved_trajectory else Unreadable),
     sw_origin = (\<lambda>_. Some (hd (v3_artifact_origins release_policy))),
     sw_put_submission = (\<lambda>_. Status 200), sw_put_trajectory = (\<lambda>_. Status 201)\<rparr>"

theorem solve_publishes_valid_witness:
  "\<exists>answer. solve solver_example solve_example terminal_request 100 = Inr answer \<and> art_sha256 (mr_submission answer) = digest_a"
proof -
  let ?w = solve_example
  have lib: "hex_digest (sw_sha256 ?w b)" "ascii_stable (sw_nfc ?w)"
    "sw_dumps ?w t = Some raw \<Longrightarrow> sw_read ?w raw = Read t \<and> prefix ''{'' raw" for b t raw
    by (auto simp: solve_example_def ascii_stable_def split: if_splits)
  have sizes: "\<forall>b \<in> set events_example. event_size b" "length (b64encode ok_bytes) \<le> 64 * MiB"
    by (auto simp: events_example_def model_event_def call_completion_def completion_example_def b64encode_def MiB_def ucs_def)
  have known: "enough_known events_example"
    by (simp add: enough_known_def events_example_def model_event_def call_completion_def completion_example_def)
  have run: "generate (sw_gen ?w workspace_tree) (ss_tool_calls solver_example) terminal_request 0 0 SUBMISSION_REASK_LIMIT
      (first_messages terminal_request) [] None = (Inr (completion_example, events_example, ok_bytes), 2)"
    using example_generated by (simp add: solve_example_def solver_example_def)
  have cfg: "ss_tool_calls solver_example \<le> 128" "bounded_identifier (ss_hotkey solver_example)" "small_text (ss_model solver_example)"
    "ss_upload_reserve_s solver_example < 100"
    by (simp_all add: solver_example_def bounded_identifier_def small_text_def ucs_def)
  have req: "hex_digest (mt_task_id terminal_request)" "bounded_identifier (mt_challenge_id terminal_request)"
    by (simp_all add: terminal_request_def live_task_def task_for_def lease_example_def bounded_identifier_def)
  have op: "sw_opened ?w = Inr workspace_tree" by (simp add: solve_example_def)
  obtain report where r: "submission_report id digest_a ok_bytes = Inr report" and
    s: "\<And>raw. sw_dumps ?w (build_trajectory solver_example terminal_request digest_a
          (events_example @ closing_events digest_a ok_bytes report)) = Some raw \<Longrightarrow>
        solve solver_example ?w terminal_request 100 =
         (case upload_miner_result (sw_origin ?w) (sw_sha256 ?w) (sw_put_submission ?w) (sw_put_trajectory ?w) terminal_request
                 ok_bytes raw (set (v3_artifact_origins release_policy)) of
            Inl e \<Rightarrow> Inl (NotUploaded e) | Inr answer \<Rightarrow> Inr answer)"
    using solve_publishes_valid [OF op cfg(4) run sizes cfg(1-3) req lib] known by (auto simp: solve_example_def)
  have "sw_dumps ?w (build_trajectory solver_example terminal_request digest_a
      (events_example @ closing_events digest_a ok_bytes report)) = Some ''{}''"
    using r by (simp add: solve_example_def solved_trajectory_def)
  note sol = s [OF this]
  have "v3_artifact_origins release_policy \<noteq> []" by (simp add: release_policy_def)
  then show ?thesis
    unfolding sol by (simp add: upload_miner_result_def upload_artifact_def solve_example_def terminal_request_def live_task_def task_for_def
        live_slots_def slots_example_def slot_example_def numeral_3_eq_3)
qed

end
