(* ===== verification/Spec2Isabelle.thy ===== *)
theory Spec2Isabelle
  imports Selection ValidatorLoop Notices EndToEnd MinerSolve
begin

text \<open>
  \<^bold>\<open>The hone subnet validator.\<close>

  A validator of the subnet repeatedly leases a task from a problem server, hands it to a set of
  miners, commits their signed answers, receives the hidden verifier, grades every submission in
  containers, pays the miners that passed and keeps a score per miner from which chain weights are
  computed.  This library is a shallow embedding of that program: every operation is a HOL function
  translated from the Python source under \<open>src/rlvr\<close>, errors are values, and what the source does
  not contain (HTTP, the clock, Docker, git, zstd, tar, SHA-256, random draws) is an argument.

  \<^bold>\<open>Theories, from the bottom up.\<close>

  \<^item> \<open>Prelude\<close>: errors and results, dictionaries as association lists, Python floats
    (finite reals, infinities, NaN), state-passing methods with the collections \<open>method_simps\<close> and
    \<open>keeps_intro\<close>.
  \<^item> \<open>EvalEngine\<close> (\<open>scoring/eval_engine.py\<close>): the score engine, each method with the state it
    leaves on every path; the locale \<open>history_book\<close> states the law of a bounded, clamped
    history and is interpreted on the engine; invariant of reachable states; weights.
  \<^item> \<open>Scoring\<close> (\<open>scoring/verifier.py\<close>, \<open>difficulty.py\<close>, \<open>payment.py\<close>, \<open>types.py\<close>): the unit-test
    verifier, pass rates and payments.
  \<^item> \<open>Policy\<close> (\<open>policy.py\<close>, \<open>v3/release.py\<close>): released limits and derived concurrency.
  \<^item> \<open>Selection\<close> (\<open>v3/selection.py\<close>): eligible miners and the order of offers, with the locale
    \<open>offer_order\<close> for a retried offer.
  \<^item> \<open>Canonical\<close>, \<open>Reasons\<close>, \<open>Wire\<close>, \<open>Api\<close> (\<open>v3/canonical.py\<close>, \<open>reasons.py\<close>, \<open>wire.py\<close>,
    \<open>identity.py\<close>, \<open>artifacts.py\<close>, \<open>api.py\<close>): canonical JSON, reason codes, field constraints, task
    identities and every protocol message with its validators.
  \<^item> \<open>PyText\<close>: UTF-8 decoding, line and word splitting and integer parsing of Python.
  \<^item> \<open>Files\<close>, \<open>Archive\<close>, \<open>Transfers\<close> (\<open>v3/tree.py\<close>, \<open>archive.py\<close>, \<open>workspace.py\<close>, \<open>download.py\<close>,
    \<open>submission.py\<close>, \<open>upload.py\<close>, \<open>miner.py\<close>): file trees and their inspection, archive extraction,
    workspace copies, verified downloads and uploads.
  \<^item> \<open>Manifest\<close> (\<open>v3/manifest.py\<close>): the verifier manifest and its checks.
  \<^item> \<open>Supervisor\<close>, \<open>Feedback\<close>, \<open>Patching\<close>, \<open>Grading\<close> (\<open>v3/supervisor.py\<close>, \<open>feedback.py\<close>,
    \<open>patch.py\<close>, \<open>script.py\<close>, \<open>grading.py\<close>): container runs, the display of a failed check, patches and
    scripts, and the grading of one submission, refined to a declarative notion of passing.
  \<^item> \<open>Rounds\<close>, \<open>RoundFlow\<close> (\<open>v3/round.py\<close>, \<open>v3/release.py\<close>): results, feedback, payments, scores,
    and \<open>evaluate_round\<close> from the offer to the feedback.
  \<^item> \<open>ProblemClient\<close> (\<open>problemserver/client.py\<close>, \<open>v3/client.py\<close>): the POST with retries and the
    calls lease, commit and feedback; termination and bounds of a call.
  \<^item> \<open>ScoreState\<close> (\<open>neurons/decentralized.py\<close>): the score file, saving and restoring; every method
    of the engine keeps its state restorable.
  \<^item> \<open>ValidatorLoop\<close> (\<open>neurons/validator.py\<close>, \<open>base.py\<close>, \<open>decentralized.py\<close>): start-up, the round
    and weights callbacks and the loop over turns, with runs as an inductive predicate; restarts,
    pacing of weights, causes of a crash, and liveness of the rounds.
  \<^item> \<open>Protocol\<close> (\<open>protocol.py\<close>): signed headers, their verification and the nonce cache; what an
    accepted signature rests on, and how far replays are excluded.
  \<^item> \<open>LiveClient\<close> (\<open>neurons/live.py\<close>): the validator's call of one miner; the locale \<open>solver\<close> is the
    contract a round has with these calls, interpreted on the live client.
  \<^item> \<open>MinerServer\<close> (\<open>neurons/demo_miner.py\<close>): how the reference miner admits a task or a failure
    notice, the memory of served tasks and the lines it prints.
  \<^item> \<open>EndToEnd\<close>: the round trip of a task, from the validator's signed request through the miner's
    handler to the answer the round accepts.
  \<^item> \<open>Notices\<close> (\<open>neurons/feedback_sender.py\<close>, \<open>neurons/trace_check.py\<close>): the notices sent after a
    round and the checks on uploaded traces.
  \<^item> \<open>MinerWorkspace\<close> (\<open>v3/miner_workspace.py\<close>): opening the workspace of a task and the paged read
    tools; the locale \<open>paged\<close> is the contract of a page with a next offset, interpreted on reading,
    finding and listing.
  \<^item> \<open>Trajectory\<close> (\<open>v3/trajectory.py\<close>): the trajectory uploaded with a submission, its checks against
    a declarative account, Base64 and the encoding.
  \<^item> \<open>PatchText\<close>, \<open>ModelClient\<close>, \<open>MinerSolve\<close> (\<open>neurons/demo_miner.py\<close>): the submission in a reply and the
    repair of hunk counts against a structured account of patches, the model client, and the loop of
    model turns, each asked through that client, and tool calls up to the upload; solving ends and
    what it uploads passes the checks.

  \<^bold>\<open>Modelling choices.\<close>  Finite floats are reals; infinities and NaN are separate values.
  Protocol strings of restricted alphabets are HOL strings; free text is a list of code points.  A
  directory tree is the datatype \<open>node\<close> with modes and link counts.  A container run is
  described by the record \<open>runtime\<close> (what the process printed and how docker answered) and its effect
  on the workspace by \<open>world\<close>.  A round reads everything outside the process from \<open>round_env\<close>;
  gradings run concurrently in the source but share nothing, so the schedule enters only through the
  gradings that had not started when another one failed.  Recursions are structural or have a
  termination proof, and no operation uses fuel; only the specification function \<open>follow\<close> of
  \<open>MinerWorkspace\<close>, which reads page after page, has a bound on the pages, and the theorems about it
  state a bound that suffices.  Where the miner's loop asks the model, the bound on its turns is proved.

  \<^bold>\<open>Simplifications.\<close>  Some exceptions of the source are left out or collapsed: a sum of floats that
  overflows to infinity in the score engine; \<open>np.asarray\<close> on a huge integer among stored scores, which
  are not read; \<open>math.isfinite\<close> on a huge integer in a trajectory; \<open>hmac.compare_digest\<close> on a signature
  with non-ASCII characters in the simulation, which is refused here and raises there; a key pair that
  fails to sign in \<open>post_result\<close>; the cause of an operating-system error while a workspace is copied.
  File names are Latin-1 strings, on which the NFC check is not made, and \<open>artifact_format\<close>, a type of
  one value, is not stored.

  \<^bold>\<open>What is not modelled.\<close>  The chain client, HTTP servers and sockets, the V1 calls of the live and
  problem-server clients with the V1 orchestrator, messages and dataset writer, the send gate of the
  live client (it only delays a call), the sandboxed test executors for the unit-test verifier,
  command-line and configuration parsing, the log of diagnostics and the JSON text of a tool answer.
\<close>

end
